(* ===== verification/Prelude.thy ===== *)
theory Prelude
  imports Main "HOL-Library.Word"
begin

text \<open>
  Shared vocabulary of the development: the machine types of the C++ sources, the exception
  results, the little-endian byte representation of unsigned integers, and the collections of
  facts (\<open>codec_rules\<close>, \<open>length_facts\<close>) that the component theories extend.

  A C++ function that may throw returns a value of \<open>exn + 'a\<close>: \<open>Inl\<close> is the exception that
  leaves the function, \<open>Inr\<close> its result.
\<close>

unbundle bit_operations_syntax

named_theorems codec_rules \<open>decoding of an encoded field\<close>
named_theorems length_facts \<open>lengths of encoded values\<close>

section \<open>Machine types\<close>

type_synonym u8 = "8 word"
type_synonym u16 = "16 word"
type_synonym u32 = "32 word"
type_synonym u64 = "64 word"
type_synonym i64 = "64 word" \<comment> \<open>two's complement, read with \<open>sint\<close>\<close>
type_synonym bytes = "u8 list"

section \<open>Exceptions\<close>

datatype exn = Runtime_Error string | Out_Of_Range string | Invalid_Argument string

type_synonym 'a res = "exn + 'a"

fun bindE :: "'e + 'a \<Rightarrow> ('a \<Rightarrow> 'e + 'b) \<Rightarrow> 'e + 'b" where
  "bindE (Inl e) f = Inl e"
| "bindE (Inr x) f = f x"

lemma bindE_Inr_iff: "bindE m f = Inr y \<longleftrightarrow> (\<exists>x. m = Inr x \<and> f x = Inr y)"
  by (cases m) auto

lemma bindE_assoc: "bindE (bindE m f) g = bindE m (\<lambda>x. bindE (f x) g)"
  by (cases m) auto

text \<open>A loop that collects results and stops at the first exception.\<close>

fun traverseE :: "('a \<Rightarrow> 'e + 'b) \<Rightarrow> 'a list \<Rightarrow> 'e + 'b list" where
  "traverseE f [] = Inr []"
| "traverseE f (x # xs) = bindE (f x) (\<lambda>y. bindE (traverseE f xs) (\<lambda>ys. Inr (y # ys)))"

lemma traverseE_Inr_length: "traverseE f xs = Inr ys \<Longrightarrow> length ys = length xs"
  by (induction xs arbitrary: ys) (auto simp: bindE_Inr_iff)

lemma traverseE_all_Inr: "(\<And>x. x \<in> set xs \<Longrightarrow> f x = Inr (g x)) \<Longrightarrow> traverseE f xs = Inr (map g xs)"
  by (induction xs) auto

lemma traverseE_Inr_nth:
  "traverseE f xs = Inr ys \<Longrightarrow> i < length xs \<Longrightarrow> f (xs ! i) = Inr (ys ! i)"
proof (induction xs arbitrary: ys i)
  case Nil
  then show ?case by simp
next
  case (Cons x xs)
  then show ?case by (cases i) (auto simp: bindE_Inr_iff)
qed

section \<open>Little-endian bytes of a natural number\<close>

fun nat_le :: "nat \<Rightarrow> nat \<Rightarrow> bytes" where
  "nat_le 0 x = []"
| "nat_le (Suc n) x = of_nat (x mod 256) # nat_le n (x div 256)"

fun le_val :: "bytes \<Rightarrow> nat" where
  "le_val [] = 0"
| "le_val (b # bs) = unat b + 256 * le_val bs"

lemma length_nat_le [simp, length_facts]: "length (nat_le n x) = n"
  by (induction n arbitrary: x) auto

lemma unat_of_nat_u8 [simp]: "unat (of_nat x :: u8) = x mod 256"
  by (simp add: unat_of_nat)

lemma le_val_nat_le: "le_val (nat_le n x) = x mod 256 ^ n"
proof (induction n arbitrary: x)
  case 0
  then show ?case by simp
next
  case (Suc n)
  have "x mod (256 * 256 ^ n) = 256 * (x div 256 mod 256 ^ n) + x mod 256"
    by (rule mod_mult2_eq)
  with Suc show ?case by simp
qed

lemma unat_u8_less [simp]: "unat (b :: u8) < 256"
  using unsigned_less[of b] by simp

lemma nat_le_le_val [simp]: "nat_le (length bs) (le_val bs) = bs"
proof (induction bs)
  case Nil
  then show ?case by simp
next
  case (Cons b bs)
  have "(unat b + 256 * le_val bs) mod 256 = unat b"
    by simp
  moreover have "(unat b + 256 * le_val bs) div 256 = le_val bs"
    using unat_u8_less[of b] by simp
  ultimately show ?case
    using Cons by simp
qed

lemma le_val_less: "le_val bs < 256 ^ length bs"
proof (induction bs)
  case Nil
  then show ?case by simp
next
  case (Cons b bs)
  then have "256 * Suc (le_val bs) \<le> 256 * 256 ^ length bs"
    by (intro mult_le_mono2) simp
  then have "256 + 256 * le_val bs \<le> 256 * 256 ^ length bs"
    by simp
  with unat_u8_less[of b] show ?case unfolding le_val.simps list.size add_0_right add_Suc_right power_Suc by linarith
qed

lemma le_val_append: "le_val (xs @ ys) = le_val xs + 256 ^ length xs * le_val ys"
  by (induction xs) (auto simp: algebra_simps)

lemma nat_le_mod: "nat_le n (x mod 256 ^ n) = nat_le n x"
  by (metis length_nat_le le_val_nat_le nat_le_le_val)

lemma nat_le_inject: "x < 256 ^ n \<Longrightarrow> y < 256 ^ n \<Longrightarrow> nat_le n x = nat_le n y \<Longrightarrow> x = y"
  by (metis le_val_nat_le mod_less)

section \<open>Bytes of a word\<close>

text \<open>The byte \<open>(val >> (8 * i)) & 0xFF\<close> that every writer of the sources emits.\<close>

definition byte_of :: "'a::len word \<Rightarrow> nat \<Rightarrow> u8" where
  "byte_of w i = ucast (drop_bit (8 * i) w AND 0xFF)"

lemma unat_and_255: "unat (w AND 255 :: 'a::len word) = unat w mod 256" if "8 \<le> LENGTH('a)"
proof -
  have "w AND 255 = take_bit 8 w"
    using take_bit_eq_mask[of 8 w] by (simp add: mask_eq_exp_minus_1)
  then have "unat (w AND 255) = take_bit 8 (unat w)"
    by (simp only: unsigned_take_bit_eq)
  also have "\<dots> = unat w mod 256"
    by (simp add: take_bit_eq_mod)
  finally show ?thesis .
qed

lemma byte_of_nat: "byte_of w i = of_nat (unat w div 256 ^ i)" if "8 \<le> LENGTH('a)" for w :: "'a::len word"
proof -
  have "drop_bit (8 * i) (unat w) = unat w div 256 ^ i"
    by (simp add: drop_bit_eq_div power_mult)
  then have "unat (drop_bit (8 * i) w) = unat w div 256 ^ i"
    by (simp only: unat_drop_bit_eq)
  then have "unat (drop_bit (8 * i) w AND 255) = unat w div 256 ^ i mod 256"
    using that by (simp only: unat_and_255)
  then have "unat (byte_of w i) = unat w div 256 ^ i mod 256"
    by (simp only: byte_of_def unsigned_ucast_eq) (simp add: take_bit_eq_mod)
  then have "unat (byte_of w i) = unat (of_nat (unat w div 256 ^ i) :: u8)"
    by simp
  then show ?thesis
    by (simp only: word_unat_eq_iff)
qed

lemma nat_le_map: "nat_le n x = map (\<lambda>i. of_nat (x div 256 ^ i)) [0..<n]"
proof (induction n arbitrary: x)
  case 0
  then show ?case by simp
next
  case (Suc n)
  have "(of_nat (x mod 256) :: u8) = of_nat x"
    by (simp add: word_unat_eq_iff)
  moreover have "map (\<lambda>i. of_nat (x div 256 ^ i)) [0..<Suc n] =
      (of_nat x :: u8) # map (\<lambda>i. of_nat (x div 256 div 256 ^ i)) [0..<n]"
    by (simp add: upt_conv_Cons map_Suc_upt[symmetric] div_mult2_eq del: upt_Suc map_Suc_upt)
  ultimately show ?case
    using Suc by simp
qed

lemma bytes_of_word: "map (byte_of w) [0..<n] = nat_le n (unat w)" if "8 \<le> LENGTH('a)" for w :: "'a::len word"
  using that by (simp add: nat_le_map byte_of_nat)

lemma unat_bounds:
  "unat (a :: u8) < 256 ^ 1" "unat (b :: u16) < 256 ^ 2" "unat (c :: u32) < 256 ^ 4" "unat (d :: u64) < 256 ^ 8"
  using unsigned_less[of a] unsigned_less[of b] unsigned_less[of c] unsigned_less[of d] by simp_all

section \<open>Little-endian assembly of a word\<close>

text \<open>\<open>d[0] | (d[1] << 8) | (d[2] << 16) | ...\<close>\<close>

fun le_or :: "nat \<Rightarrow> bytes \<Rightarrow> 'a::len word" where
  "le_or i [] = 0"
| "le_or i (b # bs) = push_bit (8 * i) (ucast b) OR le_or (Suc i) bs"

lemma or_push_bit_byte: "ucast (b :: u8) OR push_bit 8 x = (ucast b + push_bit 8 x :: 'a::len word)"
proof -
  have "ucast b AND push_bit 8 x = (0 :: 'a word)"
    by (rule bit_word_eqI) (auto simp: bit_simps dest: bit_imp_le_length)
  then show ?thesis
    by (simp only: disjunctive_add_eq_or)
qed

lemma le_or_push: "le_or i bs = push_bit (8 * i) (of_nat (le_val bs) :: 'a::len word)"
proof (induction bs arbitrary: i)
  case Nil
  then show ?case by simp
next
  case (Cons b bs)
  have "push_bit (8 * Suc i) (of_nat (le_val bs) :: 'a word) =
      push_bit (8 * i) (push_bit 8 (of_nat (le_val bs)))"
    by (simp add: ac_simps)
  then have "le_or i (b # bs) = push_bit (8 * i) (ucast b OR push_bit 8 (of_nat (le_val bs)) :: 'a word)"
    by (simp only: le_or.simps Cons.IH push_bit_or)
  also have "ucast b OR push_bit 8 (of_nat (le_val bs) :: 'a word) = of_nat (unat b + 256 * le_val bs)"
    unfolding or_push_bit_byte by (simp add: push_bit_eq_mult ac_simps)
  finally show ?case by simp
qed

lemma le_or_val: "le_or 0 bs = of_nat (le_val bs)"
  by (simp add: le_or_push)

lemma le_or_nat_le: "le_or 0 (nat_le n (unat w)) = (w :: 'a::len word)" if "unat w < 256 ^ n"
  using that by (simp add: le_or_val le_val_nat_le)

lemma word_bytes_list:
  "8 \<le> LENGTH('a) \<Longrightarrow> nat_le 2 (unat w) = [byte_of w 0, byte_of w 1]"
  "8 \<le> LENGTH('a) \<Longrightarrow> nat_le 3 (unat w) = [byte_of w 0, byte_of w 1, byte_of w 2]"
  "8 \<le> LENGTH('a) \<Longrightarrow> nat_le 4 (unat w) = [byte_of w 0, byte_of w 1, byte_of w 2, byte_of w 3]"
  for w :: "'a::len word"
  by (simp_all only: bytes_of_word[symmetric]) (simp_all add: upt_rec numeral_2_eq_2 numeral_3_eq_3)

section \<open>Runs and invariants\<close>

text \<open>
  A component that reacts to events is a step relation on its state. \<open>reachable\<close> are the states of
  its runs; the locale \<open>event_system\<close> is the contract of an invariant: it holds at the start and
  every step keeps it.
\<close>

inductive reachable :: "('s \<Rightarrow> bool) \<Rightarrow> ('s \<Rightarrow> 'e \<Rightarrow> 's \<Rightarrow> bool) \<Rightarrow> 's \<Rightarrow> bool"
  for init step where
  reachable_init: "init s \<Longrightarrow> reachable init step s"
| reachable_step: "reachable init step s \<Longrightarrow> step s e t \<Longrightarrow> reachable init step t"

locale event_system =
  fixes init :: "'s \<Rightarrow> bool"
    and step :: "'s \<Rightarrow> 'e \<Rightarrow> 's \<Rightarrow> bool"
    and inv :: "'s \<Rightarrow> bool"
  assumes init_inv: "init s \<Longrightarrow> inv s"
    and step_inv: "inv s \<Longrightarrow> step s e t \<Longrightarrow> inv t"
begin

lemma reachable_inv: "reachable init step s \<Longrightarrow> inv s"
  by (induction rule: reachable.induct) (auto intro: init_inv step_inv)

end

text \<open>A deterministic component handles its events one after the other.\<close>

lemma fold_inv:
  assumes "P s" and "\<And>e s. e \<in> set es \<Longrightarrow> P s \<Longrightarrow> P (f e s)"
  shows "P (fold f es s)"
  using assms by (induction es arbitrary: s) auto

section \<open>Characters of the C locale\<close>

text \<open>\<open>std::isalnum\<close> and \<open>std::tolower\<close> of the C locale.\<close>

definition is_upper :: "char \<Rightarrow> bool" where
  "is_upper c \<longleftrightarrow> 65 \<le> (of_char c :: nat) \<and> (of_char c :: nat) \<le> 90"

definition is_lower_digit :: "char \<Rightarrow> bool" where
  "is_lower_digit c \<longleftrightarrow>
     (97 \<le> (of_char c :: nat) \<and> (of_char c :: nat) \<le> 122) \<or> (48 \<le> (of_char c :: nat) \<and> (of_char c :: nat) \<le> 57)"

definition is_alnum :: "char \<Rightarrow> bool" where
  "is_alnum c \<longleftrightarrow> is_upper c \<or> is_lower_digit c"

definition to_lower :: "char \<Rightarrow> char" where
  "to_lower c = (if is_upper c then char_of ((of_char c :: nat) + 32) else c)"

text \<open>The bytes of a string literal.\<close>

definition ascii :: "string \<Rightarrow> bytes" where
  "ascii t = map (\<lambda>c. of_nat (of_char c)) t"

end
