(* ===== verification/Sv2_Codec.thy ===== *)
theory Sv2_Codec
  imports Prelude
begin

text \<open>
  \<open>src/sv2_codec.hpp\<close>: the Stratum V2 serializer (class \<open>Writer\<close>, a growing byte buffer) and
  deserializer (class \<open>Reader\<close>, a buffer with a cursor whose reads throw past the end).
  A Writer is its buffer \<open>buf_\<close>; a Reader is the record of its buffer and \<open>pos_\<close>. A 32-bit float
  is its bit pattern, as \<open>memcpy\<close> moves it. Strings are their bytes.

  The locale \<open>wire_field\<close> states the contract between a write and a read operation: decoding what
  was encoded, at any position and with anything behind it, gives the value back and consumes
  exactly its bytes, and a truncated encoding throws. It is interpreted on every field type.
\<close>

unbundle bit_operations_syntax

section \<open>Writer\<close>

type_synonym writer = bytes
type_synonym f32 = u32

definition push_back :: "u8 \<Rightarrow> writer \<Rightarrow> writer" where
  "push_back b w = w @ [b]"

definition write_u8 :: "u8 \<Rightarrow> writer \<Rightarrow> writer" where
  "write_u8 val w = push_back val w"

definition write_bool :: "bool \<Rightarrow> writer \<Rightarrow> writer" where
  "write_bool val w = push_back (if val then 1 else 0) w"

definition write_u16 :: "u16 \<Rightarrow> writer \<Rightarrow> writer" where
  "write_u16 val w = push_back (byte_of val 1) (push_back (byte_of val 0) w)"

definition write_u24 :: "u32 \<Rightarrow> writer \<Rightarrow> writer" where
  "write_u24 val w =
     push_back (byte_of val 2) (push_back (byte_of val 1) (push_back (byte_of val 0) w))"

definition write_u32 :: "u32 \<Rightarrow> writer \<Rightarrow> writer" where
  "write_u32 val w =
     push_back (byte_of val 3) (push_back (byte_of val 2)
       (push_back (byte_of val 1) (push_back (byte_of val 0) w)))"

definition write_u64 :: "u64 \<Rightarrow> writer \<Rightarrow> writer" where
  "write_u64 val w = fold (\<lambda>i. push_back (byte_of val i)) [0..<8] w"

definition write_u256 :: "bytes \<Rightarrow> writer \<Rightarrow> writer" where
  "write_u256 val w = w @ val"

definition write_f32 :: "f32 \<Rightarrow> writer \<Rightarrow> writer" where
  "write_f32 val w = write_u32 val w"

definition write_str0_255 :: "bytes \<Rightarrow> writer \<Rightarrow> writer" where
  "write_str0_255 val w =
     (let len = min (length val) 255 in write_u8 (of_nat len) w @ take len val)"

definition write_b0_32 :: "bytes \<Rightarrow> writer \<Rightarrow> writer" where
  "write_b0_32 val w =
     (let len = min (length val) 32 in write_u8 (of_nat len) w @ take len val)"

definition write_b0_255 :: "bytes \<Rightarrow> writer \<Rightarrow> writer" where
  "write_b0_255 val w =
     (let len = min (length val) 255 in write_u8 (of_nat len) w @ take len val)"

definition write_b0_64k :: "bytes \<Rightarrow> writer \<Rightarrow> writer" where
  "write_b0_64k val w =
     (let len = min (length val) 65535 in write_u16 (of_nat len) w @ take len val)"

definition write_option_u32 :: "u32 option \<Rightarrow> writer \<Rightarrow> writer" where
  "write_option_u32 val w =
     (case val of Some v \<Rightarrow> write_u32 v (write_u8 1 w) | None \<Rightarrow> write_u8 0 w)"

definition write_seq0_255_u256 :: "bytes list \<Rightarrow> writer \<Rightarrow> writer" where
  "write_seq0_255_u256 val w =
     (let len = min (length val) 255
      in fold (\<lambda>i. write_u256 (val ! i)) [0..<len] (write_u8 (of_nat len) w))"

section \<open>Reader\<close>

record reader =
  rd_data :: bytes
  rd_pos :: nat

definition mk_reader :: "bytes \<Rightarrow> reader" where
  "mk_reader bs = \<lparr>rd_data = bs, rd_pos = 0\<rparr>"

definition remaining :: "reader \<Rightarrow> nat" where
  "remaining r = length (rd_data r) - rd_pos r"

type_synonym 'a parser = "reader \<Rightarrow> (exn + 'a \<times> reader)"

definition bindR :: "'a parser \<Rightarrow> ('a \<Rightarrow> 'b parser) \<Rightarrow> 'b parser" where
  "bindR p f r = bindE (p r) (\<lambda>(x, r'). f x r')"

definition returnR :: "'a \<Rightarrow> 'a parser" where
  "returnR x r = Inr (x, r)"

definition throwR :: "exn \<Rightarrow> 'a parser" where
  "throwR e r = Inl e"

text \<open>The guard and cursor move every read shares: \<open>if (pos_ + n > size_) throw\<close>.\<close>

definition take_bytes :: "string \<Rightarrow> nat \<Rightarrow> bytes parser" where
  "take_bytes msg n r =
     (if rd_pos r + n > length (rd_data r) then Inl (Out_Of_Range msg)
      else Inr (take n (drop (rd_pos r) (rd_data r)), r\<lparr>rd_pos := rd_pos r + n\<rparr>))"

definition read_u8 :: "u8 parser" where
  "read_u8 = bindR (take_bytes ''SV2 parse U8 out of range'' 1) (\<lambda>bs. returnR (hd bs))"

definition read_bool :: "bool parser" where
  "read_bool = bindR read_u8 (\<lambda>b. returnR (b \<noteq> 0))"

definition read_u16 :: "u16 parser" where
  "read_u16 = bindR (take_bytes ''SV2 parse U16 out of range'' 2) (\<lambda>bs. returnR (le_or 0 bs))"

definition read_u24 :: "u32 parser" where
  "read_u24 = bindR (take_bytes ''SV2 parse U24 out of range'' 3) (\<lambda>bs. returnR (le_or 0 bs))"

definition read_u32 :: "u32 parser" where
  "read_u32 = bindR (take_bytes ''SV2 parse U32 out of range'' 4) (\<lambda>bs. returnR (le_or 0 bs))"

definition read_u64 :: "u64 parser" where
  "read_u64 = bindR (take_bytes ''SV2 parse U64 out of range'' 8) (\<lambda>bs. returnR (le_or 0 bs))"

definition read_u256 :: "bytes parser" where
  "read_u256 = take_bytes ''SV2 parse U256 out of range'' 32"

definition read_f32 :: "f32 parser" where
  "read_f32 = read_u32"

definition read_str0_255 :: "bytes parser" where
  "read_str0_255 =
     bindR read_u8 (\<lambda>len. take_bytes ''SV2 parse STR0_255 out of range'' (unat len))"

definition read_b0_32 :: "bytes parser" where
  "read_b0_32 =
     bindR read_u8 (\<lambda>len.
       if len > 32 then throwR (Runtime_Error ''B0_32 too long'')
       else take_bytes ''SV2 parse B0_32 out of range'' (unat len))"

definition read_b0_255 :: "bytes parser" where
  "read_b0_255 =
     bindR read_u8 (\<lambda>len. take_bytes ''SV2 parse B0_255 out of range'' (unat len))"

definition read_b0_64k :: "bytes parser" where
  "read_b0_64k =
     bindR read_u16 (\<lambda>len. take_bytes ''SV2 parse B0_64K out of range'' (unat len))"

definition read_option_u32 :: "u32 option parser" where
  "read_option_u32 =
     bindR read_u8 (\<lambda>active.
       if active \<noteq> 0 then bindR read_u32 (\<lambda>v. returnR (Some v)) else returnR None)"

fun read_n :: "'a parser \<Rightarrow> nat \<Rightarrow> 'a list parser" where
  "read_n p 0 = returnR []"
| "read_n p (Suc n) = bindR p (\<lambda>x. bindR (read_n p n) (\<lambda>xs. returnR (x # xs)))"

definition read_seq0_255_u256 :: "bytes list parser" where
  "read_seq0_255_u256 = bindR read_u8 (\<lambda>len. read_n read_u256 (unat len))"

section \<open>The codec contract\<close>

definition decodes :: "'a parser \<Rightarrow> bytes \<Rightarrow> 'a \<Rightarrow> bool" where
  "decodes p bs x \<longleftrightarrow>
     (\<forall>pre suf. p \<lparr>rd_data = pre @ bs @ suf, rd_pos = length pre\<rparr> =
       Inr (x, \<lparr>rd_data = pre @ bs @ suf, rd_pos = length pre + length bs\<rparr>))"

definition throws_short :: "'a parser \<Rightarrow> bytes \<Rightarrow> bool" where
  "throws_short p bs \<longleftrightarrow>
     (\<forall>pre. \<forall>k < length bs. \<exists>msg.
       p \<lparr>rd_data = pre @ take k bs, rd_pos = length pre\<rparr> = Inl (Out_Of_Range msg))"

definition codec :: "'a parser \<Rightarrow> bytes \<Rightarrow> 'a \<Rightarrow> bool" where
  "codec p bs x \<longleftrightarrow> decodes p bs x \<and> throws_short p bs"

lemma codec_returnR [codec_rules]: "codec (returnR x) [] x"
  by (simp add: codec_def decodes_def throws_short_def returnR_def)

lemma decodes_bindR: "decodes p b x \<Longrightarrow> decodes (f x) c y \<Longrightarrow> decodes (bindR p f) (b @ c) y"
  unfolding decodes_def bindR_def
proof (intro allI)
  fix pre suf
  assume p: "\<forall>pre suf. p \<lparr>rd_data = pre @ b @ suf, rd_pos = length pre\<rparr> =
       Inr (x, \<lparr>rd_data = pre @ b @ suf, rd_pos = length pre + length b\<rparr>)"
    and f: "\<forall>pre suf. f x \<lparr>rd_data = pre @ c @ suf, rd_pos = length pre\<rparr> =
       Inr (y, \<lparr>rd_data = pre @ c @ suf, rd_pos = length pre + length c\<rparr>)"
  show "bindE (p \<lparr>rd_data = pre @ (b @ c) @ suf, rd_pos = length pre\<rparr>) (\<lambda>(x, r'). f x r') =
       Inr (y, \<lparr>rd_data = pre @ (b @ c) @ suf, rd_pos = length pre + length (b @ c)\<rparr>)"
    using p[rule_format, of pre "c @ suf"] f[rule_format, of "pre @ b" suf] by simp
qed

lemma throws_short_bindR:
  assumes "decodes p b x" and "throws_short p b" and "throws_short (f x) c"
  shows "throws_short (bindR p f) (b @ c)"
  unfolding throws_short_def
proof (intro allI impI)
  fix pre k
  assume k: "k < length (b @ c)"
  show "\<exists>msg. bindR p f \<lparr>rd_data = pre @ take k (b @ c), rd_pos = length pre\<rparr> = Inl (Out_Of_Range msg)"
  proof (cases "k < length b")
    case True
    then have "\<exists>msg. p \<lparr>rd_data = pre @ take k b, rd_pos = length pre\<rparr> = Inl (Out_Of_Range msg)"
      using assms(2) by (simp add: throws_short_def)
    with True show ?thesis by (auto simp: bindR_def)
  next
    case False
    with k have "k - length b < length c" by simp
    then obtain msg where m: "f x \<lparr>rd_data = (pre @ b) @ take (k - length b) c, rd_pos = length (pre @ b)\<rparr> =
        Inl (Out_Of_Range msg)"
      using assms(3) unfolding throws_short_def by blast
    with False assms(1)[unfolded decodes_def, rule_format, of pre "take (k - length b) c"]
    show ?thesis by (simp add: bindR_def)
  qed
qed

lemma codec_bindR [codec_rules]: "codec p b x \<Longrightarrow> codec (f x) c y \<Longrightarrow> codec (bindR p f) (b @ c) y"
  unfolding codec_def by (blast intro: decodes_bindR throws_short_bindR)

lemma codec_bindR_last: "codec p b x \<Longrightarrow> codec (bindR p (\<lambda>x. returnR (g x))) b (g x)"
  using codec_bindR[of p b x "\<lambda>x. returnR (g x)" "[]" "g x"] codec_returnR[of "g x"] by simp

lemma codec_take_bytes: "length bs = n \<Longrightarrow> codec (take_bytes msg n) bs bs"
  by (auto simp: codec_def decodes_def throws_short_def take_bytes_def)

lemma codec_prefix_free:
  assumes "codec p b x" and "codec p c y" and "b @ s = c @ t"
  shows "x = y \<and> b = c"
proof -
  have "p \<lparr>rd_data = b @ s, rd_pos = 0\<rparr> = Inr (x, \<lparr>rd_data = b @ s, rd_pos = length b\<rparr>)"
    using assms(1) unfolding codec_def decodes_def by (metis append_Nil list.size(3) add_0)
  moreover have "p \<lparr>rd_data = c @ t, rd_pos = 0\<rparr> = Inr (y, \<lparr>rd_data = c @ t, rd_pos = length c\<rparr>)"
    using assms(2) unfolding codec_def decodes_def by (metis append_Nil list.size(3) add_0)
  ultimately show ?thesis
    using assms(3) by (simp add: append_eq_append_conv)
qed

locale wire_field =
  fixes enc :: "'a \<Rightarrow> bytes"
    and wr :: "'a \<Rightarrow> writer \<Rightarrow> writer"
    and rd :: "'a parser"
    and valid :: "'a \<Rightarrow> bool"
  assumes write_enc: "wr x w = w @ enc x"
    and read_enc: "valid x \<Longrightarrow> codec rd (enc x) x"
begin

lemma read_write: "valid x \<Longrightarrow> codec rd (wr x []) x"
  by (simp add: write_enc read_enc)

lemma prefix_free: "valid x \<Longrightarrow> valid y \<Longrightarrow> enc x @ s = enc y @ t \<Longrightarrow> x = y"
  using codec_prefix_free[OF read_enc read_enc] by blast

lemma read_n_enc: "list_all valid xs \<Longrightarrow> codec (read_n rd (length xs)) (concat (map enc xs)) xs"
  by (induction xs) (auto intro!: codec_bindR codec_returnR codec_bindR_last read_enc)

lemma write_all: "fold wr xs w = w @ concat (map enc xs)"
  by (induction xs arbitrary: w) (auto simp: write_enc)

end

section \<open>Every field type meets the contract\<close>

definition enc_u8 :: "u8 \<Rightarrow> bytes" where "enc_u8 x = [x]"
definition enc_bool :: "bool \<Rightarrow> bytes" where "enc_bool x = [if x then 1 else 0]"
definition enc_u16 :: "u16 \<Rightarrow> bytes" where "enc_u16 x = nat_le 2 (unat x)"
definition enc_u24 :: "u32 \<Rightarrow> bytes" where "enc_u24 x = nat_le 3 (unat x)"
definition enc_u32 :: "u32 \<Rightarrow> bytes" where "enc_u32 x = nat_le 4 (unat x)"
definition enc_u64 :: "u64 \<Rightarrow> bytes" where "enc_u64 x = nat_le 8 (unat x)"
definition enc_str :: "bytes \<Rightarrow> bytes" where
  "enc_str x = of_nat (min (length x) 255) # take 255 x"
definition enc_b32 :: "bytes \<Rightarrow> bytes" where
  "enc_b32 x = of_nat (min (length x) 32) # take 32 x"
definition enc_b64k :: "bytes \<Rightarrow> bytes" where
  "enc_b64k x = nat_le 2 (min (length x) 65535) @ take 65535 x"
definition enc_option_u32 :: "u32 option \<Rightarrow> bytes" where
  "enc_option_u32 x = (case x of None \<Rightarrow> [0] | Some v \<Rightarrow> 1 # enc_u32 v)"
definition enc_seq_u256 :: "bytes list \<Rightarrow> bytes" where
  "enc_seq_u256 xs = of_nat (min (length xs) 255) # concat (take 255 xs)"

lemma fold_push_back: "fold (\<lambda>i. push_back (f i)) xs w = w @ map f xs"
  by (induction xs arbitrary: w) (auto simp: push_back_def)

interpretation f_u8: wire_field enc_u8 write_u8 read_u8 "\<lambda>_. True"
  by unfold_locales
    (auto simp: write_u8_def push_back_def enc_u8_def read_u8_def
      intro!: codec_bindR_last[of _ "[_]" "[_]" hd, simplified] codec_take_bytes)

interpretation f_bool: wire_field enc_bool write_bool read_bool "\<lambda>_. True"
proof unfold_locales
  show "write_bool x w = w @ enc_bool x" for x w
    by (simp add: write_bool_def push_back_def enc_bool_def)
  show "codec read_bool (enc_bool x) x" for x
    unfolding read_bool_def enc_bool_def
    using codec_bindR_last[OF f_u8.read_enc[of "if x then 1 else 0"], of "\<lambda>b. b \<noteq> 0"]
    by (simp add: enc_u8_def split: if_splits)
qed

interpretation f_u16: wire_field enc_u16 write_u16 read_u16 "\<lambda>_. True"
proof unfold_locales
  show "write_u16 x w = w @ enc_u16 x" for x w
    by (simp add: write_u16_def push_back_def enc_u16_def word_bytes_list)
  show "codec read_u16 (enc_u16 x) x" for x
    using codec_bindR_last[OF codec_take_bytes, of "enc_u16 x" 2 _ "le_or 0 :: bytes \<Rightarrow> u16"]
    by (simp add: read_u16_def enc_u16_def le_or_nat_le[OF unat_bounds(2)])
qed

interpretation f_u24: wire_field enc_u24 write_u24 read_u24 "\<lambda>x. unat x < 2 ^ 24"
proof unfold_locales
  show "write_u24 x w = w @ enc_u24 x" for x w
    by (simp add: write_u24_def push_back_def enc_u24_def word_bytes_list)
  show "codec read_u24 (enc_u24 x) x" if "unat x < 2 ^ 24" for x
    using codec_bindR_last[OF codec_take_bytes, of "enc_u24 x" 3 _ "le_or 0 :: bytes \<Rightarrow> u32"] that
    by (simp add: read_u24_def enc_u24_def le_or_nat_le)
qed

interpretation f_u32: wire_field enc_u32 write_u32 read_u32 "\<lambda>_. True"
proof unfold_locales
  show "write_u32 x w = w @ enc_u32 x" for x w
    by (simp add: write_u32_def push_back_def enc_u32_def word_bytes_list)
  show "codec read_u32 (enc_u32 x) x" for x
    using codec_bindR_last[OF codec_take_bytes, of "enc_u32 x" 4 _ "le_or 0 :: bytes \<Rightarrow> u32"]
    by (simp add: read_u32_def enc_u32_def le_or_nat_le[OF unat_bounds(3)])
qed

interpretation f_f32: wire_field enc_u32 write_f32 read_f32 "\<lambda>_. True"
  by unfold_locales (simp_all add: write_f32_def read_f32_def f_u32.write_enc f_u32.read_enc)

interpretation f_u64: wire_field enc_u64 write_u64 read_u64 "\<lambda>_. True"
proof unfold_locales
  show "write_u64 x w = w @ enc_u64 x" for x w
    using bytes_of_word[of x 8] by (simp only: write_u64_def fold_push_back enc_u64_def) simp
  show "codec read_u64 (enc_u64 x) x" for x
    using codec_bindR_last[OF codec_take_bytes, of "enc_u64 x" 8 _ "le_or 0 :: bytes \<Rightarrow> u64"]
    by (simp add: read_u64_def enc_u64_def le_or_nat_le[OF unat_bounds(4)])
qed

interpretation f_u256: wire_field "\<lambda>x. x" write_u256 read_u256 "\<lambda>x. length x = 32"
  by unfold_locales (simp_all add: write_u256_def read_u256_def codec_take_bytes)

text \<open>A length byte and then that many bytes.\<close>

lemma codec_counted_u8:
  assumes "length x < 256" and "\<And>l. unat l = length x \<Longrightarrow> p l = take_bytes msg (unat l)"
  shows "codec (bindR read_u8 p) (of_nat (length x) # x) x"
proof -
  have n: "unat (of_nat (length x) :: u8) = length x"
    using assms(1) by simp
  have "codec read_u8 [of_nat (length x)] (of_nat (length x))"
    using f_u8.read_enc[of "of_nat (length x)"] by (simp add: enc_u8_def)
  moreover have "codec (p (of_nat (length x))) x x"
    unfolding assms(2)[OF n] using n by (intro codec_take_bytes) simp
  ultimately show ?thesis
    by (rule codec_bindR[where b = "[_]", simplified])
qed

interpretation f_str: wire_field enc_str write_str0_255 read_str0_255 "\<lambda>x. length x \<le> 255"
  by unfold_locales
    (auto simp: write_str0_255_def write_u8_def push_back_def enc_str_def read_str0_255_def min_def Let_def
      intro!: codec_counted_u8)

interpretation f_b255: wire_field enc_str write_b0_255 read_b0_255 "\<lambda>x. length x \<le> 255"
  by unfold_locales
    (auto simp: write_b0_255_def write_u8_def push_back_def enc_str_def read_b0_255_def min_def Let_def
      intro!: codec_counted_u8)

interpretation f_b32: wire_field enc_b32 write_b0_32 read_b0_32 "\<lambda>x. length x \<le> 32"
proof unfold_locales
  show "write_b0_32 x w = w @ enc_b32 x" for x w
    by (auto simp: write_b0_32_def write_u8_def push_back_def enc_b32_def min_def Let_def)
  show "codec read_b0_32 (enc_b32 x) x" if "length x \<le> 32" for x
    using that unfolding read_b0_32_def enc_b32_def
    by (auto simp: min_def word_less_nat_alt intro!: codec_counted_u8)
qed

interpretation f_b64k: wire_field enc_b64k write_b0_64k read_b0_64k "\<lambda>x. length x \<le> 65535"
proof unfold_locales
  show "write_b0_64k x w = w @ enc_b64k x" for x w
    by (auto simp: write_b0_64k_def f_u16.write_enc enc_u16_def enc_b64k_def min_def Let_def unat_of_nat)
  show "codec read_b0_64k (enc_b64k x) x" if "length x \<le> 65535" for x
  proof -
    have n: "unat (of_nat (length x) :: u16) = length x"
      using that by (simp add: unat_of_nat)
    have "codec read_u16 (nat_le 2 (length x)) (of_nat (length x))"
      using f_u16.read_enc[of "of_nat (length x)"] by (simp only: enc_u16_def n)
    then show ?thesis
      using that unfolding read_b0_64k_def enc_b64k_def
      by (auto simp: n intro!: codec_bindR codec_take_bytes)
  qed
qed

interpretation f_opt: wire_field enc_option_u32 write_option_u32 read_option_u32 "\<lambda>_. True"
proof unfold_locales
  show "write_option_u32 x w = w @ enc_option_u32 x" for x w
    by (simp add: write_option_u32_def enc_option_u32_def f_u32.write_enc f_u8.write_enc enc_u8_def
        split: option.split)
  have byte: "codec read_u8 [b] b" for b
    using f_u8.read_enc[of b] by (simp add: enc_u8_def)
  show "codec read_option_u32 (enc_option_u32 x) x" for x
  proof (cases x)
    case None
    have "codec read_option_u32 ([0] @ []) None"
      unfolding read_option_u32_def by (rule codec_bindR[OF byte]) (simp add: codec_returnR)
    with None show ?thesis by (simp add: enc_option_u32_def)
  next
    case (Some v)
    have "codec (bindR read_u32 (\<lambda>v. returnR (Some v))) (enc_u32 v) (Some v)"
      by (intro codec_bindR_last f_u32.read_enc) simp
    then show ?thesis
      using Some codec_bindR[OF byte, of _ 1 "enc_u32 v" "Some v"]
      by (simp add: read_option_u32_def enc_option_u32_def)
  qed
qed

lemma fold_index: "n \<le> length xs \<Longrightarrow> fold (\<lambda>i. f (xs ! i)) [0..<n] w = fold f (take n xs) w"
  by (induction n) (auto simp: take_Suc_conv_app_nth)

interpretation f_seq: wire_field enc_seq_u256 write_seq0_255_u256 read_seq0_255_u256
    "\<lambda>xs. length xs \<le> 255 \<and> list_all (\<lambda>x. length x = 32) xs"
proof unfold_locales
  show "write_seq0_255_u256 xs w = w @ enc_seq_u256 xs" for xs w
    by (auto simp: write_seq0_255_u256_def enc_seq_u256_def Let_def fold_index f_u256.write_all
        f_u8.write_enc enc_u8_def min_def)
  show "codec read_seq0_255_u256 (enc_seq_u256 xs) xs"
    if "length xs \<le> 255 \<and> list_all (\<lambda>x. length x = 32) xs" for xs
  proof -
    have n: "unat (of_nat (length xs) :: u8) = length xs"
      using that by simp
    have "codec read_u8 [of_nat (length xs)] (of_nat (length xs))"
      using f_u8.read_enc[of "of_nat (length xs)"] by (simp add: enc_u8_def)
    moreover have "codec (read_n read_u256 (unat (of_nat (length xs) :: u8))) (concat xs) xs"
      using f_u256.read_n_enc[of xs] that by (simp only: n) simp
    ultimately show ?thesis
      using that codec_bindR[of read_u8 "[of_nat (length xs)]" _ _ "concat xs" xs]
      by (simp add: read_seq0_255_u256_def enc_seq_u256_def min_def)
  qed
qed

lemmas field_write = f_u8.write_enc f_bool.write_enc f_u16.write_enc f_u24.write_enc f_u32.write_enc
  f_f32.write_enc f_u64.write_enc f_u256.write_enc f_str.write_enc f_b255.write_enc f_b32.write_enc
  f_b64k.write_enc f_opt.write_enc f_seq.write_enc

lemmas field_read = f_u8.read_enc f_bool.read_enc f_u16.read_enc f_u24.read_enc f_u32.read_enc
  f_f32.read_enc f_u64.read_enc f_u256.read_enc f_str.read_enc f_b255.read_enc f_b32.read_enc
  f_b64k.read_enc f_opt.read_enc f_seq.read_enc

end
