(* ===== verification/Sv2_Messages.thy ===== *)
theory Sv2_Messages
  imports Sv2_Codec
begin

text \<open>
  \<open>src/sv2_messages.hpp\<close>: one record per Stratum V2 message struct, with the \<open>serialize\<close> (server to
  client) or \<open>deserialize\<close> (client to server) of the source, the frame header, the channel-message bit
  and \<open>wrap_message\<close>. \<open>X_ok\<close> is the range in which a message fits its length-prefixed fields (an
  array of 32 bytes is a list of length 32).

  The source gives each message one direction only. The other direction is the wire layout:
  \<open>X_wire\<close> lists the fields a client sends in order, \<open>X_parse\<close> reads the fields the server sent. The
  parses of the extended-channel messages are those of \<open>src/sv2_upstream_client.cpp\<close>
  (\<open>handle_frame\<close>). Every pair is an interpretation of \<open>wire_field\<close>.
\<close>

section \<open>Message types and framing constants\<close>

definition EXT_COMMON :: u16 where "EXT_COMMON = 0x0000"
definition CHANNEL_MSG_BIT :: u16 where "CHANNEL_MSG_BIT = 0x8000"
definition MAX_MSG_LENGTH :: u32 where "MAX_MSG_LENGTH = 65535 - 16"

abbreviation MSG_SETUP_CONNECTION :: u8 where "MSG_SETUP_CONNECTION \<equiv> 0x00"
abbreviation MSG_SETUP_CONNECTION_SUCCESS :: u8 where "MSG_SETUP_CONNECTION_SUCCESS \<equiv> 0x01"
abbreviation MSG_SETUP_CONNECTION_ERROR :: u8 where "MSG_SETUP_CONNECTION_ERROR \<equiv> 0x02"
abbreviation MSG_OPEN_STANDARD_MINING_CHANNEL :: u8 where "MSG_OPEN_STANDARD_MINING_CHANNEL \<equiv> 0x10"
abbreviation MSG_OPEN_STANDARD_MINING_CHANNEL_SUCCESS :: u8 where "MSG_OPEN_STANDARD_MINING_CHANNEL_SUCCESS \<equiv> 0x11"
abbreviation MSG_OPEN_MINING_CHANNEL_ERROR :: u8 where "MSG_OPEN_MINING_CHANNEL_ERROR \<equiv> 0x12"
abbreviation MSG_OPEN_EXTENDED_MINING_CHANNEL :: u8 where "MSG_OPEN_EXTENDED_MINING_CHANNEL \<equiv> 0x13"
abbreviation MSG_OPEN_EXTENDED_MINING_CHANNEL_SUCCESS :: u8 where "MSG_OPEN_EXTENDED_MINING_CHANNEL_SUCCESS \<equiv> 0x14"
abbreviation MSG_UPDATE_CHANNEL :: u8 where "MSG_UPDATE_CHANNEL \<equiv> 0x16"
abbreviation MSG_UPDATE_CHANNEL_ERROR :: u8 where "MSG_UPDATE_CHANNEL_ERROR \<equiv> 0x17"
abbreviation MSG_CLOSE_CHANNEL :: u8 where "MSG_CLOSE_CHANNEL \<equiv> 0x18"
abbreviation MSG_SET_EXTRANONCE_PREFIX :: u8 where "MSG_SET_EXTRANONCE_PREFIX \<equiv> 0x19"
abbreviation MSG_NEW_MINING_JOB :: u8 where "MSG_NEW_MINING_JOB \<equiv> 0x15"
abbreviation MSG_NEW_EXTENDED_MINING_JOB :: u8 where "MSG_NEW_EXTENDED_MINING_JOB \<equiv> 0x1f"
abbreviation MSG_SUBMIT_SHARES_STANDARD :: u8 where "MSG_SUBMIT_SHARES_STANDARD \<equiv> 0x1a"
abbreviation MSG_SUBMIT_SHARES_EXTENDED :: u8 where "MSG_SUBMIT_SHARES_EXTENDED \<equiv> 0x1b"
abbreviation MSG_SUBMIT_SHARES_SUCCESS :: u8 where "MSG_SUBMIT_SHARES_SUCCESS \<equiv> 0x1c"
abbreviation MSG_SUBMIT_SHARES_ERROR :: u8 where "MSG_SUBMIT_SHARES_ERROR \<equiv> 0x1d"
abbreviation MSG_SET_NEW_PREV_HASH :: u8 where "MSG_SET_NEW_PREV_HASH \<equiv> 0x20"
abbreviation MSG_SET_TARGET :: u8 where "MSG_SET_TARGET \<equiv> 0x21"
abbreviation MSG_SET_CUSTOM_MINING_JOB :: u8 where "MSG_SET_CUSTOM_MINING_JOB \<equiv> 0x22"
abbreviation MSG_SET_CUSTOM_MINING_JOB_SUCCESS :: u8 where "MSG_SET_CUSTOM_MINING_JOB_SUCCESS \<equiv> 0x23"
abbreviation MSG_SET_CUSTOM_MINING_JOB_ERROR :: u8 where "MSG_SET_CUSTOM_MINING_JOB_ERROR \<equiv> 0x24"

definition is_channel_msg :: "u8 \<Rightarrow> bool" where
  "is_channel_msg msg_type \<longleftrightarrow>
     msg_type \<in> {MSG_UPDATE_CHANNEL, MSG_UPDATE_CHANNEL_ERROR, MSG_CLOSE_CHANNEL,
       MSG_SET_EXTRANONCE_PREFIX, MSG_SUBMIT_SHARES_STANDARD, MSG_SUBMIT_SHARES_EXTENDED,
       MSG_SUBMIT_SHARES_SUCCESS, MSG_SUBMIT_SHARES_ERROR, MSG_NEW_MINING_JOB,
       MSG_NEW_EXTENDED_MINING_JOB, MSG_SET_NEW_PREV_HASH, MSG_SET_TARGET}"

definition frame_length_ok :: "u32 \<Rightarrow> bool" where
  "frame_length_ok msg_length \<longleftrightarrow> msg_length \<le> MAX_MSG_LENGTH"

section \<open>Messages\<close>

record Header =
  h_extension_type :: u16
  h_msg_type :: u8
  h_msg_length :: u32

definition Header_serialize :: "Header \<Rightarrow> writer \<Rightarrow> writer" where
  "Header_serialize m w =
     (let w = write_u16 (h_extension_type m) w in
     (let w = write_u8 (h_msg_type m) w in
      write_u24 (h_msg_length m) w))"

definition Header_deserialize :: "Header parser" where
  "Header_deserialize =
     bindR read_u16 (\<lambda>extension_type.
     bindR read_u8 (\<lambda>msg_type.
     bindR read_u24 (\<lambda>msg_length.
     returnR \<lparr>h_extension_type = extension_type, h_msg_type = msg_type, h_msg_length = msg_length\<rparr>)))"

record SetupConnection =
  sc_protocol :: u8
  sc_min_version :: u16
  sc_max_version :: u16
  sc_flags :: u32
  sc_endpoint_host :: bytes
  sc_endpoint_port :: u16
  sc_vendor :: bytes
  sc_hardware_version :: bytes
  sc_firmware :: bytes
  sc_device_id :: bytes

definition SetupConnection_deserialize :: "SetupConnection parser" where
  "SetupConnection_deserialize =
     bindR read_u8 (\<lambda>protocol.
     bindR read_u16 (\<lambda>min_version.
     bindR read_u16 (\<lambda>max_version.
     bindR read_u32 (\<lambda>flags.
     bindR read_str0_255 (\<lambda>endpoint_host.
     bindR read_u16 (\<lambda>endpoint_port.
     bindR read_str0_255 (\<lambda>vendor.
     bindR read_str0_255 (\<lambda>hardware_version.
     bindR read_str0_255 (\<lambda>firmware.
     bindR read_str0_255 (\<lambda>device_id.
     returnR \<lparr>sc_protocol = protocol, sc_min_version = min_version, sc_max_version = max_version, sc_flags = flags, sc_endpoint_host = endpoint_host, sc_endpoint_port = endpoint_port, sc_vendor = vendor, sc_hardware_version = hardware_version, sc_firmware = firmware, sc_device_id = device_id\<rparr>))))))))))"

record SetupConnectionSuccess =
  scs_used_version :: u16
  scs_flags :: u32

definition SetupConnectionSuccess_serialize :: "SetupConnectionSuccess \<Rightarrow> writer \<Rightarrow> writer" where
  "SetupConnectionSuccess_serialize m w =
     (let w = write_u16 (scs_used_version m) w in
      write_u32 (scs_flags m) w)"

record SetupConnectionError =
  sce_error_code :: bytes
  sce_flags :: u32

definition SetupConnectionError_serialize :: "SetupConnectionError \<Rightarrow> writer \<Rightarrow> writer" where
  "SetupConnectionError_serialize m w =
     (let w = write_str0_255 (sce_error_code m) w in
      write_u32 (sce_flags m) w)"

record OpenStandardMiningChannel =
  osc_request_id :: u32
  osc_user_identity :: bytes
  osc_nominal_hash_rate :: f32
  osc_max_target :: bytes

definition OpenStandardMiningChannel_deserialize :: "OpenStandardMiningChannel parser" where
  "OpenStandardMiningChannel_deserialize =
     bindR read_u32 (\<lambda>request_id.
     bindR read_str0_255 (\<lambda>user_identity.
     bindR read_f32 (\<lambda>nominal_hash_rate.
     bindR read_u256 (\<lambda>max_target.
     returnR \<lparr>osc_request_id = request_id, osc_user_identity = user_identity, osc_nominal_hash_rate = nominal_hash_rate, osc_max_target = max_target\<rparr>))))"

record OpenStandardMiningChannelSuccess =
  oss_request_id :: u32
  oss_channel_id :: u32
  oss_target :: bytes
  oss_extranonce_prefix :: bytes
  oss_group_channel_id :: u32

definition OpenStandardMiningChannelSuccess_serialize :: "OpenStandardMiningChannelSuccess \<Rightarrow> writer \<Rightarrow> writer" where
  "OpenStandardMiningChannelSuccess_serialize m w =
     (let w = write_u32 (oss_request_id m) w in
     (let w = write_u32 (oss_channel_id m) w in
     (let w = write_u256 (oss_target m) w in
     (let w = write_b0_32 (oss_extranonce_prefix m) w in
      write_u32 (oss_group_channel_id m) w))))"

record OpenMiningChannelError =
  oce_request_id :: u32
  oce_error_code :: bytes

definition OpenMiningChannelError_serialize :: "OpenMiningChannelError \<Rightarrow> writer \<Rightarrow> writer" where
  "OpenMiningChannelError_serialize m w =
     (let w = write_u32 (oce_request_id m) w in
      write_str0_255 (oce_error_code m) w)"

record OpenExtendedMiningChannel =
  oec_request_id :: u32
  oec_user_identity :: bytes
  oec_nominal_hash_rate :: f32
  oec_max_target :: bytes
  oec_min_extranonce_size :: u16

definition OpenExtendedMiningChannel_deserialize :: "OpenExtendedMiningChannel parser" where
  "OpenExtendedMiningChannel_deserialize =
     bindR read_u32 (\<lambda>request_id.
     bindR read_str0_255 (\<lambda>user_identity.
     bindR read_f32 (\<lambda>nominal_hash_rate.
     bindR read_u256 (\<lambda>max_target.
     bindR read_u16 (\<lambda>min_extranonce_size.
     returnR \<lparr>oec_request_id = request_id, oec_user_identity = user_identity, oec_nominal_hash_rate = nominal_hash_rate, oec_max_target = max_target, oec_min_extranonce_size = min_extranonce_size\<rparr>)))))"

record OpenExtendedMiningChannelSuccess =
  oes_request_id :: u32
  oes_channel_id :: u32
  oes_target :: bytes
  oes_extranonce_size :: u16
  oes_extranonce_prefix :: bytes
  oes_group_channel_id :: u32

definition OpenExtendedMiningChannelSuccess_serialize :: "OpenExtendedMiningChannelSuccess \<Rightarrow> writer \<Rightarrow> writer" where
  "OpenExtendedMiningChannelSuccess_serialize m w =
     (let w = write_u32 (oes_request_id m) w in
     (let w = write_u32 (oes_channel_id m) w in
     (let w = write_u256 (oes_target m) w in
     (let w = write_u16 (oes_extranonce_size m) w in
     (let w = write_b0_32 (oes_extranonce_prefix m) w in
      write_u32 (oes_group_channel_id m) w)))))"

record NewExtendedMiningJob =
  nej_channel_id :: u32
  nej_job_id :: u32
  nej_min_ntime :: "u32 option"
  nej_version :: u32
  nej_version_rolling_allowed :: bool
  nej_merkle_path :: "bytes list"
  nej_coinbase_tx_prefix :: bytes
  nej_coinbase_tx_suffix :: bytes

definition NewExtendedMiningJob_serialize :: "NewExtendedMiningJob \<Rightarrow> writer \<Rightarrow> writer" where
  "NewExtendedMiningJob_serialize m w =
     (let w = write_u32 (nej_channel_id m) w in
     (let w = write_u32 (nej_job_id m) w in
     (let w = write_option_u32 (nej_min_ntime m) w in
     (let w = write_u32 (nej_version m) w in
     (let w = write_bool (nej_version_rolling_allowed m) w in
     (let w = write_seq0_255_u256 (nej_merkle_path m) w in
     (let w = write_b0_64k (nej_coinbase_tx_prefix m) w in
      write_b0_64k (nej_coinbase_tx_suffix m) w)))))))"

record UpdateChannel =
  uc_channel_id :: u32
  uc_nominal_hash_rate :: f32
  uc_maximum_target :: bytes

definition UpdateChannel_deserialize :: "UpdateChannel parser" where
  "UpdateChannel_deserialize =
     bindR read_u32 (\<lambda>channel_id.
     bindR read_f32 (\<lambda>nominal_hash_rate.
     bindR read_u256 (\<lambda>maximum_target.
     returnR \<lparr>uc_channel_id = channel_id, uc_nominal_hash_rate = nominal_hash_rate, uc_maximum_target = maximum_target\<rparr>)))"

record CloseChannel =
  cc_channel_id :: u32
  cc_reason_code :: bytes

definition CloseChannel_deserialize :: "CloseChannel parser" where
  "CloseChannel_deserialize =
     bindR read_u32 (\<lambda>channel_id.
     bindR read_str0_255 (\<lambda>reason_code.
     returnR \<lparr>cc_channel_id = channel_id, cc_reason_code = reason_code\<rparr>))"

record NewMiningJob =
  nmj_channel_id :: u32
  nmj_job_id :: u32
  nmj_min_ntime :: "u32 option"
  nmj_version :: u32
  nmj_merkle_root :: bytes

definition NewMiningJob_serialize :: "NewMiningJob \<Rightarrow> writer \<Rightarrow> writer" where
  "NewMiningJob_serialize m w =
     (let w = write_u32 (nmj_channel_id m) w in
     (let w = write_u32 (nmj_job_id m) w in
     (let w = write_option_u32 (nmj_min_ntime m) w in
     (let w = write_u32 (nmj_version m) w in
      write_b0_32 (nmj_merkle_root m) w))))"

record SubmitSharesStandard =
  sss_channel_id :: u32
  sss_sequence_number :: u32
  sss_job_id :: u32
  sss_nonce :: u32
  sss_ntime :: u32
  sss_version :: u32

definition SubmitSharesStandard_deserialize :: "SubmitSharesStandard parser" where
  "SubmitSharesStandard_deserialize =
     bindR read_u32 (\<lambda>channel_id.
     bindR read_u32 (\<lambda>sequence_number.
     bindR read_u32 (\<lambda>job_id.
     bindR read_u32 (\<lambda>nonce.
     bindR read_u32 (\<lambda>ntime.
     bindR read_u32 (\<lambda>version.
     returnR \<lparr>sss_channel_id = channel_id, sss_sequence_number = sequence_number, sss_job_id = job_id, sss_nonce = nonce, sss_ntime = ntime, sss_version = version\<rparr>))))))"

record SubmitSharesExtended =
  sse_channel_id :: u32
  sse_sequence_number :: u32
  sse_job_id :: u32
  sse_nonce :: u32
  sse_ntime :: u32
  sse_version :: u32
  sse_extranonce :: bytes

definition SubmitSharesExtended_deserialize :: "SubmitSharesExtended parser" where
  "SubmitSharesExtended_deserialize =
     bindR read_u32 (\<lambda>channel_id.
     bindR read_u32 (\<lambda>sequence_number.
     bindR read_u32 (\<lambda>job_id.
     bindR read_u32 (\<lambda>nonce.
     bindR read_u32 (\<lambda>ntime.
     bindR read_u32 (\<lambda>version.
     bindR read_b0_32 (\<lambda>extranonce.
     returnR \<lparr>sse_channel_id = channel_id, sse_sequence_number = sequence_number, sse_job_id = job_id, sse_nonce = nonce, sse_ntime = ntime, sse_version = version, sse_extranonce = extranonce\<rparr>)))))))"

record SubmitSharesSuccess =
  sok_channel_id :: u32
  sok_last_sequence_number :: u32
  sok_new_submits_accepted_count :: u32
  sok_new_shares_sum :: u64

definition SubmitSharesSuccess_serialize :: "SubmitSharesSuccess \<Rightarrow> writer \<Rightarrow> writer" where
  "SubmitSharesSuccess_serialize m w =
     (let w = write_u32 (sok_channel_id m) w in
     (let w = write_u32 (sok_last_sequence_number m) w in
     (let w = write_u32 (sok_new_submits_accepted_count m) w in
      write_u64 (sok_new_shares_sum m) w)))"

record SubmitSharesError =
  ssx_channel_id :: u32
  ssx_sequence_number :: u32
  ssx_error_code :: bytes

definition SubmitSharesError_serialize :: "SubmitSharesError \<Rightarrow> writer \<Rightarrow> writer" where
  "SubmitSharesError_serialize m w =
     (let w = write_u32 (ssx_channel_id m) w in
     (let w = write_u32 (ssx_sequence_number m) w in
      write_str0_255 (ssx_error_code m) w))"

record SetTarget =
  st_channel_id :: u32
  st_maximum_target :: bytes

definition SetTarget_serialize :: "SetTarget \<Rightarrow> writer \<Rightarrow> writer" where
  "SetTarget_serialize m w =
     (let w = write_u32 (st_channel_id m) w in
      write_u256 (st_maximum_target m) w)"

record SetNewPrevHash =
  ph_channel_id :: u32
  ph_job_id :: u32
  ph_prev_hash :: bytes
  ph_min_ntime :: u32
  ph_nbits :: u32

definition SetNewPrevHash_serialize :: "SetNewPrevHash \<Rightarrow> writer \<Rightarrow> writer" where
  "SetNewPrevHash_serialize m w =
     (let w = write_u32 (ph_channel_id m) w in
     (let w = write_u32 (ph_job_id m) w in
     (let w = write_u256 (ph_prev_hash m) w in
     (let w = write_u32 (ph_min_ntime m) w in
      write_u32 (ph_nbits m) w))))"

record SetCustomMiningJob =
  cj_channel_id :: u32
  cj_request_id :: u32
  cj_mining_job_token :: bytes
  cj_version :: u32
  cj_prev_hash :: bytes
  cj_min_ntime :: u32
  cj_nbits :: u32
  cj_coinbase_tx_version :: u32
  cj_coinbase_prefix :: bytes
  cj_coinbase_tx_input_nSequence :: u32
  cj_coinbase_tx_outputs :: bytes
  cj_coinbase_tx_locktime :: u32
  cj_merkle_path :: "bytes list"

definition SetCustomMiningJob_deserialize :: "SetCustomMiningJob parser" where
  "SetCustomMiningJob_deserialize =
     bindR read_u32 (\<lambda>channel_id.
     bindR read_u32 (\<lambda>request_id.
     bindR read_b0_255 (\<lambda>mining_job_token.
     bindR read_u32 (\<lambda>version.
     bindR read_u256 (\<lambda>prev_hash.
     bindR read_u32 (\<lambda>min_ntime.
     bindR read_u32 (\<lambda>nbits.
     bindR read_u32 (\<lambda>coinbase_tx_version.
     bindR read_b0_255 (\<lambda>coinbase_prefix.
     bindR read_u32 (\<lambda>coinbase_tx_input_nSequence.
     bindR read_b0_64k (\<lambda>coinbase_tx_outputs.
     bindR read_u32 (\<lambda>coinbase_tx_locktime.
     bindR read_seq0_255_u256 (\<lambda>merkle_path.
     returnR \<lparr>cj_channel_id = channel_id, cj_request_id = request_id, cj_mining_job_token = mining_job_token, cj_version = version, cj_prev_hash = prev_hash, cj_min_ntime = min_ntime, cj_nbits = nbits, cj_coinbase_tx_version = coinbase_tx_version, cj_coinbase_prefix = coinbase_prefix, cj_coinbase_tx_input_nSequence = coinbase_tx_input_nSequence, cj_coinbase_tx_outputs = coinbase_tx_outputs, cj_coinbase_tx_locktime = coinbase_tx_locktime, cj_merkle_path = merkle_path\<rparr>)))))))))))))"

record SetCustomMiningJobSuccess =
  cjs_channel_id :: u32
  cjs_request_id :: u32
  cjs_job_id :: u32

definition SetCustomMiningJobSuccess_serialize :: "SetCustomMiningJobSuccess \<Rightarrow> writer \<Rightarrow> writer" where
  "SetCustomMiningJobSuccess_serialize m w =
     (let w = write_u32 (cjs_channel_id m) w in
     (let w = write_u32 (cjs_request_id m) w in
      write_u32 (cjs_job_id m) w))"

record SetCustomMiningJobError =
  cje_channel_id :: u32
  cje_request_id :: u32
  cje_error_code :: bytes

definition SetCustomMiningJobError_serialize :: "SetCustomMiningJobError \<Rightarrow> writer \<Rightarrow> writer" where
  "SetCustomMiningJobError_serialize m w =
     (let w = write_u32 (cje_channel_id m) w in
     (let w = write_u32 (cje_request_id m) w in
      write_str0_255 (cje_error_code m) w))"

definition wrap_message :: "u16 \<Rightarrow> u8 \<Rightarrow> writer \<Rightarrow> bytes" where
  "wrap_message ext_type msg_type payload =
     (let h = \<lparr>h_extension_type = (if is_channel_msg msg_type then ext_type OR CHANNEL_MSG_BIT else ext_type),
               h_msg_type = msg_type,
               h_msg_length = of_nat (length payload)\<rparr>
      in Header_serialize h [] @ payload)"

section \<open>Ranges and wire layouts\<close>

definition Header_ok :: "Header \<Rightarrow> bool" where
  "Header_ok m \<longleftrightarrow> unat (h_msg_length m) < 2 ^ 24"

definition SetupConnection_ok :: "SetupConnection \<Rightarrow> bool" where
  "SetupConnection_ok m \<longleftrightarrow> length (sc_endpoint_host m) \<le> 255 \<and>
     length (sc_vendor m) \<le> 255 \<and>
     length (sc_hardware_version m) \<le> 255 \<and>
     length (sc_firmware m) \<le> 255 \<and>
     length (sc_device_id m) \<le> 255"

definition SetupConnectionSuccess_ok :: "SetupConnectionSuccess \<Rightarrow> bool" where
  "SetupConnectionSuccess_ok m \<longleftrightarrow> True"

definition SetupConnectionError_ok :: "SetupConnectionError \<Rightarrow> bool" where
  "SetupConnectionError_ok m \<longleftrightarrow> length (sce_error_code m) \<le> 255"

definition OpenStandardMiningChannel_ok :: "OpenStandardMiningChannel \<Rightarrow> bool" where
  "OpenStandardMiningChannel_ok m \<longleftrightarrow> length (osc_user_identity m) \<le> 255 \<and>
     length (osc_max_target m) = 32"

definition OpenStandardMiningChannelSuccess_ok :: "OpenStandardMiningChannelSuccess \<Rightarrow> bool" where
  "OpenStandardMiningChannelSuccess_ok m \<longleftrightarrow> length (oss_target m) = 32 \<and>
     length (oss_extranonce_prefix m) \<le> 32"

definition OpenMiningChannelError_ok :: "OpenMiningChannelError \<Rightarrow> bool" where
  "OpenMiningChannelError_ok m \<longleftrightarrow> length (oce_error_code m) \<le> 255"

definition OpenExtendedMiningChannel_ok :: "OpenExtendedMiningChannel \<Rightarrow> bool" where
  "OpenExtendedMiningChannel_ok m \<longleftrightarrow> length (oec_user_identity m) \<le> 255 \<and>
     length (oec_max_target m) = 32"

definition OpenExtendedMiningChannelSuccess_ok :: "OpenExtendedMiningChannelSuccess \<Rightarrow> bool" where
  "OpenExtendedMiningChannelSuccess_ok m \<longleftrightarrow> length (oes_target m) = 32 \<and>
     length (oes_extranonce_prefix m) \<le> 32"

definition NewExtendedMiningJob_ok :: "NewExtendedMiningJob \<Rightarrow> bool" where
  "NewExtendedMiningJob_ok m \<longleftrightarrow> length (nej_merkle_path m) \<le> 255 \<and> list_all (\<lambda>x. length x = 32) (nej_merkle_path m) \<and>
     length (nej_coinbase_tx_prefix m) \<le> 65535 \<and>
     length (nej_coinbase_tx_suffix m) \<le> 65535"

definition UpdateChannel_ok :: "UpdateChannel \<Rightarrow> bool" where
  "UpdateChannel_ok m \<longleftrightarrow> length (uc_maximum_target m) = 32"

definition CloseChannel_ok :: "CloseChannel \<Rightarrow> bool" where
  "CloseChannel_ok m \<longleftrightarrow> length (cc_reason_code m) \<le> 255"

definition NewMiningJob_ok :: "NewMiningJob \<Rightarrow> bool" where
  "NewMiningJob_ok m \<longleftrightarrow> length (nmj_merkle_root m) = 32"

definition SubmitSharesStandard_ok :: "SubmitSharesStandard \<Rightarrow> bool" where
  "SubmitSharesStandard_ok m \<longleftrightarrow> True"

definition SubmitSharesExtended_ok :: "SubmitSharesExtended \<Rightarrow> bool" where
  "SubmitSharesExtended_ok m \<longleftrightarrow> length (sse_extranonce m) \<le> 32"

definition SubmitSharesSuccess_ok :: "SubmitSharesSuccess \<Rightarrow> bool" where
  "SubmitSharesSuccess_ok m \<longleftrightarrow> True"

definition SubmitSharesError_ok :: "SubmitSharesError \<Rightarrow> bool" where
  "SubmitSharesError_ok m \<longleftrightarrow> length (ssx_error_code m) \<le> 255"

definition SetTarget_ok :: "SetTarget \<Rightarrow> bool" where
  "SetTarget_ok m \<longleftrightarrow> length (st_maximum_target m) = 32"

definition SetNewPrevHash_ok :: "SetNewPrevHash \<Rightarrow> bool" where
  "SetNewPrevHash_ok m \<longleftrightarrow> length (ph_prev_hash m) = 32"

definition SetCustomMiningJob_ok :: "SetCustomMiningJob \<Rightarrow> bool" where
  "SetCustomMiningJob_ok m \<longleftrightarrow> length (cj_mining_job_token m) \<le> 255 \<and>
     length (cj_prev_hash m) = 32 \<and>
     length (cj_coinbase_prefix m) \<le> 255 \<and>
     length (cj_coinbase_tx_outputs m) \<le> 65535 \<and>
     length (cj_merkle_path m) \<le> 255 \<and> list_all (\<lambda>x. length x = 32) (cj_merkle_path m)"

definition SetCustomMiningJobSuccess_ok :: "SetCustomMiningJobSuccess \<Rightarrow> bool" where
  "SetCustomMiningJobSuccess_ok m \<longleftrightarrow> True"

definition SetCustomMiningJobError_ok :: "SetCustomMiningJobError \<Rightarrow> bool" where
  "SetCustomMiningJobError_ok m \<longleftrightarrow> length (cje_error_code m) \<le> 255"

definition SetupConnection_wire :: "SetupConnection \<Rightarrow> writer \<Rightarrow> writer" where
  "SetupConnection_wire m w =
     (let w = write_u8 (sc_protocol m) w in
     (let w = write_u16 (sc_min_version m) w in
     (let w = write_u16 (sc_max_version m) w in
     (let w = write_u32 (sc_flags m) w in
     (let w = write_str0_255 (sc_endpoint_host m) w in
     (let w = write_u16 (sc_endpoint_port m) w in
     (let w = write_str0_255 (sc_vendor m) w in
     (let w = write_str0_255 (sc_hardware_version m) w in
     (let w = write_str0_255 (sc_firmware m) w in
      write_str0_255 (sc_device_id m) w)))))))))"

definition OpenStandardMiningChannel_wire :: "OpenStandardMiningChannel \<Rightarrow> writer \<Rightarrow> writer" where
  "OpenStandardMiningChannel_wire m w =
     (let w = write_u32 (osc_request_id m) w in
     (let w = write_str0_255 (osc_user_identity m) w in
     (let w = write_f32 (osc_nominal_hash_rate m) w in
      write_u256 (osc_max_target m) w)))"

definition OpenExtendedMiningChannel_wire :: "OpenExtendedMiningChannel \<Rightarrow> writer \<Rightarrow> writer" where
  "OpenExtendedMiningChannel_wire m w =
     (let w = write_u32 (oec_request_id m) w in
     (let w = write_str0_255 (oec_user_identity m) w in
     (let w = write_f32 (oec_nominal_hash_rate m) w in
     (let w = write_u256 (oec_max_target m) w in
      write_u16 (oec_min_extranonce_size m) w))))"

definition UpdateChannel_wire :: "UpdateChannel \<Rightarrow> writer \<Rightarrow> writer" where
  "UpdateChannel_wire m w =
     (let w = write_u32 (uc_channel_id m) w in
     (let w = write_f32 (uc_nominal_hash_rate m) w in
      write_u256 (uc_maximum_target m) w))"

definition CloseChannel_wire :: "CloseChannel \<Rightarrow> writer \<Rightarrow> writer" where
  "CloseChannel_wire m w =
     (let w = write_u32 (cc_channel_id m) w in
      write_str0_255 (cc_reason_code m) w)"

definition SubmitSharesStandard_wire :: "SubmitSharesStandard \<Rightarrow> writer \<Rightarrow> writer" where
  "SubmitSharesStandard_wire m w =
     (let w = write_u32 (sss_channel_id m) w in
     (let w = write_u32 (sss_sequence_number m) w in
     (let w = write_u32 (sss_job_id m) w in
     (let w = write_u32 (sss_nonce m) w in
     (let w = write_u32 (sss_ntime m) w in
      write_u32 (sss_version m) w)))))"

definition SubmitSharesExtended_wire :: "SubmitSharesExtended \<Rightarrow> writer \<Rightarrow> writer" where
  "SubmitSharesExtended_wire m w =
     (let w = write_u32 (sse_channel_id m) w in
     (let w = write_u32 (sse_sequence_number m) w in
     (let w = write_u32 (sse_job_id m) w in
     (let w = write_u32 (sse_nonce m) w in
     (let w = write_u32 (sse_ntime m) w in
     (let w = write_u32 (sse_version m) w in
      write_b0_32 (sse_extranonce m) w))))))"

definition SetCustomMiningJob_wire :: "SetCustomMiningJob \<Rightarrow> writer \<Rightarrow> writer" where
  "SetCustomMiningJob_wire m w =
     (let w = write_u32 (cj_channel_id m) w in
     (let w = write_u32 (cj_request_id m) w in
     (let w = write_b0_255 (cj_mining_job_token m) w in
     (let w = write_u32 (cj_version m) w in
     (let w = write_u256 (cj_prev_hash m) w in
     (let w = write_u32 (cj_min_ntime m) w in
     (let w = write_u32 (cj_nbits m) w in
     (let w = write_u32 (cj_coinbase_tx_version m) w in
     (let w = write_b0_255 (cj_coinbase_prefix m) w in
     (let w = write_u32 (cj_coinbase_tx_input_nSequence m) w in
     (let w = write_b0_64k (cj_coinbase_tx_outputs m) w in
     (let w = write_u32 (cj_coinbase_tx_locktime m) w in
      write_seq0_255_u256 (cj_merkle_path m) w))))))))))))"

definition SetupConnectionSuccess_parse :: "SetupConnectionSuccess parser" where
  "SetupConnectionSuccess_parse =
     bindR read_u16 (\<lambda>used_version.
     bindR read_u32 (\<lambda>flags.
     returnR \<lparr>scs_used_version = used_version, scs_flags = flags\<rparr>))"

definition SetupConnectionError_parse :: "SetupConnectionError parser" where
  "SetupConnectionError_parse =
     bindR read_str0_255 (\<lambda>error_code.
     bindR read_u32 (\<lambda>flags.
     returnR \<lparr>sce_error_code = error_code, sce_flags = flags\<rparr>))"

definition OpenStandardMiningChannelSuccess_parse :: "OpenStandardMiningChannelSuccess parser" where
  "OpenStandardMiningChannelSuccess_parse =
     bindR read_u32 (\<lambda>request_id.
     bindR read_u32 (\<lambda>channel_id.
     bindR read_u256 (\<lambda>target.
     bindR read_b0_32 (\<lambda>extranonce_prefix.
     bindR read_u32 (\<lambda>group_channel_id.
     returnR \<lparr>oss_request_id = request_id, oss_channel_id = channel_id, oss_target = target, oss_extranonce_prefix = extranonce_prefix, oss_group_channel_id = group_channel_id\<rparr>)))))"

definition OpenMiningChannelError_parse :: "OpenMiningChannelError parser" where
  "OpenMiningChannelError_parse =
     bindR read_u32 (\<lambda>request_id.
     bindR read_str0_255 (\<lambda>error_code.
     returnR \<lparr>oce_request_id = request_id, oce_error_code = error_code\<rparr>))"

definition OpenExtendedMiningChannelSuccess_parse :: "OpenExtendedMiningChannelSuccess parser" where
  "OpenExtendedMiningChannelSuccess_parse =
     bindR read_u32 (\<lambda>request_id.
     bindR read_u32 (\<lambda>channel_id.
     bindR read_u256 (\<lambda>target.
     bindR read_u16 (\<lambda>extranonce_size.
     bindR read_b0_32 (\<lambda>extranonce_prefix.
     bindR read_u32 (\<lambda>group_channel_id.
     returnR \<lparr>oes_request_id = request_id, oes_channel_id = channel_id, oes_target = target, oes_extranonce_size = extranonce_size, oes_extranonce_prefix = extranonce_prefix, oes_group_channel_id = group_channel_id\<rparr>))))))"

definition NewExtendedMiningJob_parse :: "NewExtendedMiningJob parser" where
  "NewExtendedMiningJob_parse =
     bindR read_u32 (\<lambda>channel_id.
     bindR read_u32 (\<lambda>job_id.
     bindR read_option_u32 (\<lambda>min_ntime.
     bindR read_u32 (\<lambda>version.
     bindR read_bool (\<lambda>version_rolling_allowed.
     bindR read_seq0_255_u256 (\<lambda>merkle_path.
     bindR read_b0_64k (\<lambda>coinbase_tx_prefix.
     bindR read_b0_64k (\<lambda>coinbase_tx_suffix.
     returnR \<lparr>nej_channel_id = channel_id, nej_job_id = job_id, nej_min_ntime = min_ntime, nej_version = version, nej_version_rolling_allowed = version_rolling_allowed, nej_merkle_path = merkle_path, nej_coinbase_tx_prefix = coinbase_tx_prefix, nej_coinbase_tx_suffix = coinbase_tx_suffix\<rparr>))))))))"

definition NewMiningJob_parse :: "NewMiningJob parser" where
  "NewMiningJob_parse =
     bindR read_u32 (\<lambda>channel_id.
     bindR read_u32 (\<lambda>job_id.
     bindR read_option_u32 (\<lambda>min_ntime.
     bindR read_u32 (\<lambda>version.
     bindR read_b0_32 (\<lambda>merkle_root.
     returnR \<lparr>nmj_channel_id = channel_id, nmj_job_id = job_id, nmj_min_ntime = min_ntime, nmj_version = version, nmj_merkle_root = merkle_root\<rparr>)))))"

definition SubmitSharesSuccess_parse :: "SubmitSharesSuccess parser" where
  "SubmitSharesSuccess_parse =
     bindR read_u32 (\<lambda>channel_id.
     bindR read_u32 (\<lambda>last_sequence_number.
     bindR read_u32 (\<lambda>new_submits_accepted_count.
     bindR read_u64 (\<lambda>new_shares_sum.
     returnR \<lparr>sok_channel_id = channel_id, sok_last_sequence_number = last_sequence_number, sok_new_submits_accepted_count = new_submits_accepted_count, sok_new_shares_sum = new_shares_sum\<rparr>))))"

definition SubmitSharesError_parse :: "SubmitSharesError parser" where
  "SubmitSharesError_parse =
     bindR read_u32 (\<lambda>channel_id.
     bindR read_u32 (\<lambda>sequence_number.
     bindR read_str0_255 (\<lambda>error_code.
     returnR \<lparr>ssx_channel_id = channel_id, ssx_sequence_number = sequence_number, ssx_error_code = error_code\<rparr>)))"

definition SetTarget_parse :: "SetTarget parser" where
  "SetTarget_parse =
     bindR read_u32 (\<lambda>channel_id.
     bindR read_u256 (\<lambda>maximum_target.
     returnR \<lparr>st_channel_id = channel_id, st_maximum_target = maximum_target\<rparr>))"

definition SetNewPrevHash_parse :: "SetNewPrevHash parser" where
  "SetNewPrevHash_parse =
     bindR read_u32 (\<lambda>channel_id.
     bindR read_u32 (\<lambda>job_id.
     bindR read_u256 (\<lambda>prev_hash.
     bindR read_u32 (\<lambda>min_ntime.
     bindR read_u32 (\<lambda>nbits.
     returnR \<lparr>ph_channel_id = channel_id, ph_job_id = job_id, ph_prev_hash = prev_hash, ph_min_ntime = min_ntime, ph_nbits = nbits\<rparr>)))))"

definition SetCustomMiningJobSuccess_parse :: "SetCustomMiningJobSuccess parser" where
  "SetCustomMiningJobSuccess_parse =
     bindR read_u32 (\<lambda>channel_id.
     bindR read_u32 (\<lambda>request_id.
     bindR read_u32 (\<lambda>job_id.
     returnR \<lparr>cjs_channel_id = channel_id, cjs_request_id = request_id, cjs_job_id = job_id\<rparr>)))"

definition SetCustomMiningJobError_parse :: "SetCustomMiningJobError parser" where
  "SetCustomMiningJobError_parse =
     bindR read_u32 (\<lambda>channel_id.
     bindR read_u32 (\<lambda>request_id.
     bindR read_str0_255 (\<lambda>error_code.
     returnR \<lparr>cje_channel_id = channel_id, cje_request_id = request_id, cje_error_code = error_code\<rparr>)))"

section \<open>Every message round-trips\<close>

interpretation m_h: wire_field "\<lambda>m. Header_serialize m []" Header_serialize Header_deserialize Header_ok
proof unfold_locales
  show "Header_serialize m w = w @ Header_serialize m []" for m w
    by (simp add: Header_serialize_def field_write)
  show "codec Header_deserialize (Header_serialize m []) m" if "Header_ok m" for m
    using that by (cases m)
      (auto simp: Header_serialize_def Header_deserialize_def Header_ok_def field_write
        intro!: codec_bindR codec_bindR_last field_read)
qed

interpretation m_sc: wire_field "\<lambda>m. SetupConnection_wire m []" SetupConnection_wire SetupConnection_deserialize SetupConnection_ok
proof unfold_locales
  show "SetupConnection_wire m w = w @ SetupConnection_wire m []" for m w
    by (simp add: SetupConnection_wire_def field_write)
  show "codec SetupConnection_deserialize (SetupConnection_wire m []) m" if "SetupConnection_ok m" for m
    using that by (cases m)
      (auto simp: SetupConnection_wire_def SetupConnection_deserialize_def SetupConnection_ok_def field_write
        intro!: codec_bindR codec_bindR_last field_read)
qed

interpretation m_osc: wire_field "\<lambda>m. OpenStandardMiningChannel_wire m []" OpenStandardMiningChannel_wire OpenStandardMiningChannel_deserialize OpenStandardMiningChannel_ok
proof unfold_locales
  show "OpenStandardMiningChannel_wire m w = w @ OpenStandardMiningChannel_wire m []" for m w
    by (simp add: OpenStandardMiningChannel_wire_def field_write)
  show "codec OpenStandardMiningChannel_deserialize (OpenStandardMiningChannel_wire m []) m" if "OpenStandardMiningChannel_ok m" for m
    using that by (cases m)
      (auto simp: OpenStandardMiningChannel_wire_def OpenStandardMiningChannel_deserialize_def OpenStandardMiningChannel_ok_def field_write
        intro!: codec_bindR codec_bindR_last field_read)
qed

interpretation m_oec: wire_field "\<lambda>m. OpenExtendedMiningChannel_wire m []" OpenExtendedMiningChannel_wire OpenExtendedMiningChannel_deserialize OpenExtendedMiningChannel_ok
proof unfold_locales
  show "OpenExtendedMiningChannel_wire m w = w @ OpenExtendedMiningChannel_wire m []" for m w
    by (simp add: OpenExtendedMiningChannel_wire_def field_write)
  show "codec OpenExtendedMiningChannel_deserialize (OpenExtendedMiningChannel_wire m []) m" if "OpenExtendedMiningChannel_ok m" for m
    using that by (cases m)
      (auto simp: OpenExtendedMiningChannel_wire_def OpenExtendedMiningChannel_deserialize_def OpenExtendedMiningChannel_ok_def field_write
        intro!: codec_bindR codec_bindR_last field_read)
qed

interpretation m_uc: wire_field "\<lambda>m. UpdateChannel_wire m []" UpdateChannel_wire UpdateChannel_deserialize UpdateChannel_ok
proof unfold_locales
  show "UpdateChannel_wire m w = w @ UpdateChannel_wire m []" for m w
    by (simp add: UpdateChannel_wire_def field_write)
  show "codec UpdateChannel_deserialize (UpdateChannel_wire m []) m" if "UpdateChannel_ok m" for m
    using that by (cases m)
      (auto simp: UpdateChannel_wire_def UpdateChannel_deserialize_def UpdateChannel_ok_def field_write
        intro!: codec_bindR codec_bindR_last field_read)
qed

interpretation m_cc: wire_field "\<lambda>m. CloseChannel_wire m []" CloseChannel_wire CloseChannel_deserialize CloseChannel_ok
proof unfold_locales
  show "CloseChannel_wire m w = w @ CloseChannel_wire m []" for m w
    by (simp add: CloseChannel_wire_def field_write)
  show "codec CloseChannel_deserialize (CloseChannel_wire m []) m" if "CloseChannel_ok m" for m
    using that by (cases m)
      (auto simp: CloseChannel_wire_def CloseChannel_deserialize_def CloseChannel_ok_def field_write
        intro!: codec_bindR codec_bindR_last field_read)
qed

interpretation m_sss: wire_field "\<lambda>m. SubmitSharesStandard_wire m []" SubmitSharesStandard_wire SubmitSharesStandard_deserialize SubmitSharesStandard_ok
proof unfold_locales
  show "SubmitSharesStandard_wire m w = w @ SubmitSharesStandard_wire m []" for m w
    by (simp add: SubmitSharesStandard_wire_def field_write)
  show "codec SubmitSharesStandard_deserialize (SubmitSharesStandard_wire m []) m" if "SubmitSharesStandard_ok m" for m
    using that by (cases m)
      (auto simp: SubmitSharesStandard_wire_def SubmitSharesStandard_deserialize_def SubmitSharesStandard_ok_def field_write
        intro!: codec_bindR codec_bindR_last field_read)
qed

interpretation m_sse: wire_field "\<lambda>m. SubmitSharesExtended_wire m []" SubmitSharesExtended_wire SubmitSharesExtended_deserialize SubmitSharesExtended_ok
proof unfold_locales
  show "SubmitSharesExtended_wire m w = w @ SubmitSharesExtended_wire m []" for m w
    by (simp add: SubmitSharesExtended_wire_def field_write)
  show "codec SubmitSharesExtended_deserialize (SubmitSharesExtended_wire m []) m" if "SubmitSharesExtended_ok m" for m
    using that by (cases m)
      (auto simp: SubmitSharesExtended_wire_def SubmitSharesExtended_deserialize_def SubmitSharesExtended_ok_def field_write
        intro!: codec_bindR codec_bindR_last field_read)
qed

interpretation m_cj: wire_field "\<lambda>m. SetCustomMiningJob_wire m []" SetCustomMiningJob_wire SetCustomMiningJob_deserialize SetCustomMiningJob_ok
proof unfold_locales
  show "SetCustomMiningJob_wire m w = w @ SetCustomMiningJob_wire m []" for m w
    by (simp add: SetCustomMiningJob_wire_def field_write)
  show "codec SetCustomMiningJob_deserialize (SetCustomMiningJob_wire m []) m" if "SetCustomMiningJob_ok m" for m
    using that by (cases m)
      (auto simp: SetCustomMiningJob_wire_def SetCustomMiningJob_deserialize_def SetCustomMiningJob_ok_def field_write
        intro!: codec_bindR codec_bindR_last field_read)
qed

interpretation m_scs: wire_field "\<lambda>m. SetupConnectionSuccess_serialize m []" SetupConnectionSuccess_serialize SetupConnectionSuccess_parse SetupConnectionSuccess_ok
proof unfold_locales
  show "SetupConnectionSuccess_serialize m w = w @ SetupConnectionSuccess_serialize m []" for m w
    by (simp add: SetupConnectionSuccess_serialize_def field_write)
  show "codec SetupConnectionSuccess_parse (SetupConnectionSuccess_serialize m []) m" if "SetupConnectionSuccess_ok m" for m
    using that by (cases m)
      (auto simp: SetupConnectionSuccess_serialize_def SetupConnectionSuccess_parse_def SetupConnectionSuccess_ok_def field_write
        intro!: codec_bindR codec_bindR_last field_read)
qed

interpretation m_sce: wire_field "\<lambda>m. SetupConnectionError_serialize m []" SetupConnectionError_serialize SetupConnectionError_parse SetupConnectionError_ok
proof unfold_locales
  show "SetupConnectionError_serialize m w = w @ SetupConnectionError_serialize m []" for m w
    by (simp add: SetupConnectionError_serialize_def field_write)
  show "codec SetupConnectionError_parse (SetupConnectionError_serialize m []) m" if "SetupConnectionError_ok m" for m
    using that by (cases m)
      (auto simp: SetupConnectionError_serialize_def SetupConnectionError_parse_def SetupConnectionError_ok_def field_write
        intro!: codec_bindR codec_bindR_last field_read)
qed

interpretation m_oss: wire_field "\<lambda>m. OpenStandardMiningChannelSuccess_serialize m []" OpenStandardMiningChannelSuccess_serialize OpenStandardMiningChannelSuccess_parse OpenStandardMiningChannelSuccess_ok
proof unfold_locales
  show "OpenStandardMiningChannelSuccess_serialize m w = w @ OpenStandardMiningChannelSuccess_serialize m []" for m w
    by (simp add: OpenStandardMiningChannelSuccess_serialize_def field_write)
  show "codec OpenStandardMiningChannelSuccess_parse (OpenStandardMiningChannelSuccess_serialize m []) m" if "OpenStandardMiningChannelSuccess_ok m" for m
    using that by (cases m)
      (auto simp: OpenStandardMiningChannelSuccess_serialize_def OpenStandardMiningChannelSuccess_parse_def OpenStandardMiningChannelSuccess_ok_def field_write
        intro!: codec_bindR codec_bindR_last field_read)
qed

interpretation m_oce: wire_field "\<lambda>m. OpenMiningChannelError_serialize m []" OpenMiningChannelError_serialize OpenMiningChannelError_parse OpenMiningChannelError_ok
proof unfold_locales
  show "OpenMiningChannelError_serialize m w = w @ OpenMiningChannelError_serialize m []" for m w
    by (simp add: OpenMiningChannelError_serialize_def field_write)
  show "codec OpenMiningChannelError_parse (OpenMiningChannelError_serialize m []) m" if "OpenMiningChannelError_ok m" for m
    using that by (cases m)
      (auto simp: OpenMiningChannelError_serialize_def OpenMiningChannelError_parse_def OpenMiningChannelError_ok_def field_write
        intro!: codec_bindR codec_bindR_last field_read)
qed

interpretation m_oes: wire_field "\<lambda>m. OpenExtendedMiningChannelSuccess_serialize m []" OpenExtendedMiningChannelSuccess_serialize OpenExtendedMiningChannelSuccess_parse OpenExtendedMiningChannelSuccess_ok
proof unfold_locales
  show "OpenExtendedMiningChannelSuccess_serialize m w = w @ OpenExtendedMiningChannelSuccess_serialize m []" for m w
    by (simp add: OpenExtendedMiningChannelSuccess_serialize_def field_write)
  show "codec OpenExtendedMiningChannelSuccess_parse (OpenExtendedMiningChannelSuccess_serialize m []) m" if "OpenExtendedMiningChannelSuccess_ok m" for m
    using that by (cases m)
      (auto simp: OpenExtendedMiningChannelSuccess_serialize_def OpenExtendedMiningChannelSuccess_parse_def OpenExtendedMiningChannelSuccess_ok_def field_write
        intro!: codec_bindR codec_bindR_last field_read)
qed

interpretation m_nej: wire_field "\<lambda>m. NewExtendedMiningJob_serialize m []" NewExtendedMiningJob_serialize NewExtendedMiningJob_parse NewExtendedMiningJob_ok
proof unfold_locales
  show "NewExtendedMiningJob_serialize m w = w @ NewExtendedMiningJob_serialize m []" for m w
    by (simp add: NewExtendedMiningJob_serialize_def field_write)
  show "codec NewExtendedMiningJob_parse (NewExtendedMiningJob_serialize m []) m" if "NewExtendedMiningJob_ok m" for m
    using that by (cases m)
      (auto simp: NewExtendedMiningJob_serialize_def NewExtendedMiningJob_parse_def NewExtendedMiningJob_ok_def field_write
        intro!: codec_bindR codec_bindR_last field_read)
qed

interpretation m_nmj: wire_field "\<lambda>m. NewMiningJob_serialize m []" NewMiningJob_serialize NewMiningJob_parse NewMiningJob_ok
proof unfold_locales
  show "NewMiningJob_serialize m w = w @ NewMiningJob_serialize m []" for m w
    by (simp add: NewMiningJob_serialize_def field_write)
  show "codec NewMiningJob_parse (NewMiningJob_serialize m []) m" if "NewMiningJob_ok m" for m
    using that by (cases m)
      (auto simp: NewMiningJob_serialize_def NewMiningJob_parse_def NewMiningJob_ok_def field_write
        intro!: codec_bindR codec_bindR_last field_read)
qed

interpretation m_sok: wire_field "\<lambda>m. SubmitSharesSuccess_serialize m []" SubmitSharesSuccess_serialize SubmitSharesSuccess_parse SubmitSharesSuccess_ok
proof unfold_locales
  show "SubmitSharesSuccess_serialize m w = w @ SubmitSharesSuccess_serialize m []" for m w
    by (simp add: SubmitSharesSuccess_serialize_def field_write)
  show "codec SubmitSharesSuccess_parse (SubmitSharesSuccess_serialize m []) m" if "SubmitSharesSuccess_ok m" for m
    using that by (cases m)
      (auto simp: SubmitSharesSuccess_serialize_def SubmitSharesSuccess_parse_def SubmitSharesSuccess_ok_def field_write
        intro!: codec_bindR codec_bindR_last field_read)
qed

interpretation m_ssx: wire_field "\<lambda>m. SubmitSharesError_serialize m []" SubmitSharesError_serialize SubmitSharesError_parse SubmitSharesError_ok
proof unfold_locales
  show "SubmitSharesError_serialize m w = w @ SubmitSharesError_serialize m []" for m w
    by (simp add: SubmitSharesError_serialize_def field_write)
  show "codec SubmitSharesError_parse (SubmitSharesError_serialize m []) m" if "SubmitSharesError_ok m" for m
    using that by (cases m)
      (auto simp: SubmitSharesError_serialize_def SubmitSharesError_parse_def SubmitSharesError_ok_def field_write
        intro!: codec_bindR codec_bindR_last field_read)
qed

interpretation m_st: wire_field "\<lambda>m. SetTarget_serialize m []" SetTarget_serialize SetTarget_parse SetTarget_ok
proof unfold_locales
  show "SetTarget_serialize m w = w @ SetTarget_serialize m []" for m w
    by (simp add: SetTarget_serialize_def field_write)
  show "codec SetTarget_parse (SetTarget_serialize m []) m" if "SetTarget_ok m" for m
    using that by (cases m)
      (auto simp: SetTarget_serialize_def SetTarget_parse_def SetTarget_ok_def field_write
        intro!: codec_bindR codec_bindR_last field_read)
qed

interpretation m_ph: wire_field "\<lambda>m. SetNewPrevHash_serialize m []" SetNewPrevHash_serialize SetNewPrevHash_parse SetNewPrevHash_ok
proof unfold_locales
  show "SetNewPrevHash_serialize m w = w @ SetNewPrevHash_serialize m []" for m w
    by (simp add: SetNewPrevHash_serialize_def field_write)
  show "codec SetNewPrevHash_parse (SetNewPrevHash_serialize m []) m" if "SetNewPrevHash_ok m" for m
    using that by (cases m)
      (auto simp: SetNewPrevHash_serialize_def SetNewPrevHash_parse_def SetNewPrevHash_ok_def field_write
        intro!: codec_bindR codec_bindR_last field_read)
qed

interpretation m_cjs: wire_field "\<lambda>m. SetCustomMiningJobSuccess_serialize m []" SetCustomMiningJobSuccess_serialize SetCustomMiningJobSuccess_parse SetCustomMiningJobSuccess_ok
proof unfold_locales
  show "SetCustomMiningJobSuccess_serialize m w = w @ SetCustomMiningJobSuccess_serialize m []" for m w
    by (simp add: SetCustomMiningJobSuccess_serialize_def field_write)
  show "codec SetCustomMiningJobSuccess_parse (SetCustomMiningJobSuccess_serialize m []) m" if "SetCustomMiningJobSuccess_ok m" for m
    using that by (cases m)
      (auto simp: SetCustomMiningJobSuccess_serialize_def SetCustomMiningJobSuccess_parse_def SetCustomMiningJobSuccess_ok_def field_write
        intro!: codec_bindR codec_bindR_last field_read)
qed

interpretation m_cje: wire_field "\<lambda>m. SetCustomMiningJobError_serialize m []" SetCustomMiningJobError_serialize SetCustomMiningJobError_parse SetCustomMiningJobError_ok
proof unfold_locales
  show "SetCustomMiningJobError_serialize m w = w @ SetCustomMiningJobError_serialize m []" for m w
    by (simp add: SetCustomMiningJobError_serialize_def field_write)
  show "codec SetCustomMiningJobError_parse (SetCustomMiningJobError_serialize m []) m" if "SetCustomMiningJobError_ok m" for m
    using that by (cases m)
      (auto simp: SetCustomMiningJobError_serialize_def SetCustomMiningJobError_parse_def SetCustomMiningJobError_ok_def field_write
        intro!: codec_bindR codec_bindR_last field_read)
qed

section \<open>Frames\<close>

lemma length_Header_serialize [simp, length_facts]: "length (Header_serialize h w) = length w + 6"
  by (simp add: Header_serialize_def field_write enc_u16_def enc_u8_def enc_u24_def)

lemma frame_length_ok_iff: "frame_length_ok n \<longleftrightarrow> unat n \<le> 65519"
  by (simp add: frame_length_ok_def MAX_MSG_LENGTH_def word_le_nat_alt)

lemma channel_bit_ignored: "(ext OR CHANNEL_MSG_BIT) AND 0x7FFF = ext AND (0x7FFF :: u16)"
proof -
  have m: "(0x7FFF :: u16) = mask 15" and e: "CHANNEL_MSG_BIT = 2 ^ 15"
    by (simp_all add: mask_eq_exp_minus_1 CHANNEL_MSG_BIT_def)
  show ?thesis
    unfolding m e
    by (rule bit_word_eqI) (simp only: bit_and_iff bit_or_iff bit_mask_iff bit_exp_iff, auto)
qed

lemma wrap_message_header:
  assumes "length payload < 2 ^ 24"
  shows "decodes Header_deserialize (take 6 (wrap_message ext t payload))
    \<lparr>h_extension_type = (if is_channel_msg t then ext OR CHANNEL_MSG_BIT else ext),
     h_msg_type = t, h_msg_length = of_nat (length payload)\<rparr>"
proof -
  have "unat (of_nat (length payload) :: u32) < 2 ^ 24"
    using assms by (simp add: unat_of_nat)
  then show ?thesis
    using m_h.read_enc by (simp add: wrap_message_def Let_def codec_def Header_ok_def)
qed

end
