(* ===== verification/Sv2_Framing.thy ===== *)
theory Sv2_Framing
  imports Sv2_Messages
begin

text \<open>
  What the Stratum V2 wire format of \<open>src/sv2_codec.hpp\<close> and \<open>src/sv2_messages.hpp\<close> promises: no read
  leaves its buffer, a message survives its trip over the wire, a truncated one is refused, and a
  frame announces its payload.
\<close>

section \<open>Reads stay in the buffer\<close>

definition bounded :: "'a parser \<Rightarrow> bool" where
  "bounded p \<longleftrightarrow> (\<forall>data. \<forall>pos \<le> length data.
     (case p \<lparr>rd_data = data, rd_pos = pos\<rparr> of
        Inl e \<Rightarrow> \<exists>msg. e = Out_Of_Range msg \<or> e = Runtime_Error msg
      | Inr (_, r) \<Rightarrow> rd_data r = data \<and> pos \<le> rd_pos r \<and> rd_pos r \<le> length data))"

lemma boundedI:
  assumes "\<And>data pos. pos \<le> length data \<Longrightarrow>
     (case p \<lparr>rd_data = data, rd_pos = pos\<rparr> of
        Inl e \<Rightarrow> \<exists>msg. e = Out_Of_Range msg \<or> e = Runtime_Error msg
      | Inr (_, r) \<Rightarrow> rd_data r = data \<and> pos \<le> rd_pos r \<and> rd_pos r \<le> length data)"
  shows "bounded p"
  using assms by (simp add: bounded_def)

named_theorems bounded_intro

lemma bounded_return [bounded_intro]: "bounded (returnR x)"
  by (simp add: bounded_def returnR_def)

lemma bounded_throw [bounded_intro]: "bounded (throwR (Runtime_Error msg))"
  by (simp add: bounded_def throwR_def)

lemma bounded_take [bounded_intro]: "bounded (take_bytes msg n)"
  by (simp add: bounded_def take_bytes_def)

lemma bounded_bind [bounded_intro]:
  assumes "bounded p" and "\<And>x. bounded (f x)"
  shows "bounded (bindR p f)"
proof (rule boundedI)
  fix data :: bytes and pos
  assume pos: "pos \<le> length data"
  show "case bindR p f \<lparr>rd_data = data, rd_pos = pos\<rparr> of
        Inl e \<Rightarrow> \<exists>msg. e = Out_Of_Range msg \<or> e = Runtime_Error msg
      | Inr (_, r) \<Rightarrow> rd_data r = data \<and> pos \<le> rd_pos r \<and> rd_pos r \<le> length data"
  proof (cases "p \<lparr>rd_data = data, rd_pos = pos\<rparr>")
    case (Inl e)
    then show ?thesis
      using assms(1) pos by (force simp: bindR_def bounded_def)
  next
    case (Inr xr)
    obtain x r where xr: "xr = (x, r)"
      by force
    have "rd_data r = data" "pos \<le> rd_pos r" "rd_pos r \<le> length data"
      using assms(1) pos Inr xr by (fastforce simp: bounded_def)+
    then obtain pos' where r: "r = \<lparr>rd_data = data, rd_pos = pos'\<rparr>" "pos \<le> pos'" "pos' \<le> length data"
      by (cases r) auto
    show ?thesis
      using assms(2)[of x, unfolded bounded_def, rule_format, OF r(3)] Inr xr r(2)
      by (auto simp: bindR_def r(1) split: sum.splits prod.splits)
  qed
qed

lemma bounded_if [bounded_intro]: "bounded p \<Longrightarrow> bounded q \<Longrightarrow> bounded (if c then p else q)"
  by simp

lemma bounded_read_n [bounded_intro]: "bounded p \<Longrightarrow> bounded (read_n p n)"
  by (induction n) (auto intro!: bounded_intro)

lemma codec_run:
  "codec p bs x \<Longrightarrow> p \<lparr>rd_data = bs @ suf, rd_pos = 0\<rparr> = Inr (x, \<lparr>rd_data = bs @ suf, rd_pos = length bs\<rparr>)"
  unfolding codec_def decodes_def by (metis append_Nil list.size(3) add_0)

lemmas read_defs = read_u8_def read_bool_def read_u16_def read_u24_def read_u32_def read_u64_def
  read_u256_def read_f32_def read_str0_255_def read_b0_32_def read_b0_255_def read_b0_64k_def
  read_option_u32_def read_seq0_255_u256_def

section \<open>Properties\<close>

text \<open>C22: No deserializer of a client message ever reads outside the bytes it was given: from any position
  in any byte string, each one either throws one of the two exceptions the reader raises, or leaves
  the bytes alone and the cursor between where it was and their end.\<close>

theorem sv2_deserializers_bounded:
  "bounded Header_deserialize \<and> bounded SetupConnection_deserialize \<and>
   bounded OpenStandardMiningChannel_deserialize \<and> bounded OpenExtendedMiningChannel_deserialize \<and>
   bounded UpdateChannel_deserialize \<and> bounded CloseChannel_deserialize \<and>
   bounded SubmitSharesStandard_deserialize \<and> bounded SubmitSharesExtended_deserialize \<and>
   bounded SetCustomMiningJob_deserialize"
  unfolding Header_deserialize_def SetupConnection_deserialize_def OpenStandardMiningChannel_deserialize_def
    OpenExtendedMiningChannel_deserialize_def UpdateChannel_deserialize_def CloseChannel_deserialize_def
    SubmitSharesStandard_deserialize_def SubmitSharesExtended_deserialize_def SetCustomMiningJob_deserialize_def
    read_defs
  by (intro conjI bounded_intro)

text \<open>C23: A share submission and a custom job declaration whose fields fit their length prefixes are read
  back exactly as the client laid them out, whatever bytes come before and after them, and every
  proper prefix of them is refused with an out-of-range exception.\<close>

theorem sv2_submissions_survive_the_wire:
  assumes "SubmitSharesExtended_ok s" and "SetCustomMiningJob_ok j"
  shows "codec SubmitSharesStandard_deserialize (SubmitSharesStandard_wire t []) t \<and>
    codec SubmitSharesExtended_deserialize (SubmitSharesExtended_wire s []) s \<and>
    codec SetCustomMiningJob_deserialize (SetCustomMiningJob_wire j []) j"
  using m_sss.read_enc[of t] m_sse.read_enc[OF assms(1)] m_cj.read_enc[OF assms(2)]
  by (simp add: SubmitSharesStandard_ok_def)

abbreviation sample_submit :: SubmitSharesExtended where
  "sample_submit \<equiv> \<lparr>sse_channel_id = 1, sse_sequence_number = 7, sse_job_id = 9, sse_nonce = 0xdeadbeef,
     sse_ntime = 0x65000000, sse_version = 0x20000000, sse_extranonce = [1, 2, 3, 4, 5, 6, 7, 8]\<rparr>"

abbreviation sample_custom :: SetCustomMiningJob where
  "sample_custom \<equiv> \<lparr>cj_channel_id = 1, cj_request_id = 2, cj_mining_job_token = [1, 2], cj_version = 0x20000000,
     cj_prev_hash = replicate 32 1, cj_min_ntime = 5, cj_nbits = 0x1d00ffff, cj_coinbase_tx_version = 1,
     cj_coinbase_prefix = [3], cj_coinbase_tx_input_nSequence = 0xffffffff, cj_coinbase_tx_outputs = [4, 5],
     cj_coinbase_tx_locktime = 0, cj_merkle_path = [replicate 32 2]\<rparr>"

lemma sv2_submissions_survive_the_wire_witness:
  "SubmitSharesExtended_deserialize (mk_reader (SubmitSharesExtended_wire sample_submit [])) =
     Inr (sample_submit, \<lparr>rd_data = SubmitSharesExtended_wire sample_submit [],
       rd_pos = length (SubmitSharesExtended_wire sample_submit [])\<rparr>) \<and>
   codec SetCustomMiningJob_deserialize (SetCustomMiningJob_wire sample_custom []) sample_custom"
proof -
  have "SubmitSharesExtended_ok sample_submit" "SetCustomMiningJob_ok sample_custom"
    by (simp_all add: SubmitSharesExtended_ok_def SetCustomMiningJob_ok_def)
  note c = sv2_submissions_survive_the_wire[OF this]
  with codec_run[of SubmitSharesExtended_deserialize _ sample_submit "[]"] show ?thesis
    by (simp only: mk_reader_def append_Nil2)
qed

text \<open>What the pool sends to open an extended channel and to hand out an extended job means one thing
  only: two messages whose bytes are the beginning of the same stream are the same message, so a
  client that reads the fields in order gets exactly the job that was serialized.\<close>

theorem sv2_jobs_are_unambiguous:
  assumes "NewExtendedMiningJob_ok j" and "NewExtendedMiningJob_ok j'"
    and "OpenExtendedMiningChannelSuccess_ok c" and "OpenExtendedMiningChannelSuccess_ok c'"
  shows "(NewExtendedMiningJob_serialize j [] @ s = NewExtendedMiningJob_serialize j' [] @ s' \<longrightarrow> j = j') \<and>
    (OpenExtendedMiningChannelSuccess_serialize c [] @ s = OpenExtendedMiningChannelSuccess_serialize c' [] @ s' \<longrightarrow> c = c') \<and>
    codec NewExtendedMiningJob_parse (NewExtendedMiningJob_serialize j []) j"
  using m_nej.prefix_free[OF assms(1,2)] m_oes.prefix_free[OF assms(3,4)] m_nej.read_enc[OF assms(1)] by blast

lemma sv2_jobs_are_unambiguous_witness:
  "codec NewExtendedMiningJob_parse (NewExtendedMiningJob_serialize
     \<lparr>nej_channel_id = 1, nej_job_id = 2, nej_min_ntime = Some 3, nej_version = 4, nej_version_rolling_allowed = True,
      nej_merkle_path = [replicate 32 5], nej_coinbase_tx_prefix = [6], nej_coinbase_tx_suffix = [7, 8]\<rparr> [])
     \<lparr>nej_channel_id = 1, nej_job_id = 2, nej_min_ntime = Some 3, nej_version = 4, nej_version_rolling_allowed = True,
      nej_merkle_path = [replicate 32 5], nej_coinbase_tx_prefix = [6], nej_coinbase_tx_suffix = [7, 8]\<rparr>"
proof -
  let ?j = "\<lparr>nej_channel_id = 1, nej_job_id = 2, nej_min_ntime = Some 3, nej_version = 4,
      nej_version_rolling_allowed = True, nej_merkle_path = [replicate 32 5], nej_coinbase_tx_prefix = [6],
      nej_coinbase_tx_suffix = [7, 8]\<rparr>"
  let ?c = "\<lparr>oes_request_id = 1, oes_channel_id = 1, oes_target = replicate 32 0, oes_extranonce_size = 8,
      oes_extranonce_prefix = [1, 2, 3, 4], oes_group_channel_id = 0\<rparr>"
  have "NewExtendedMiningJob_ok ?j" and "OpenExtendedMiningChannelSuccess_ok ?c"
    by (simp_all add: NewExtendedMiningJob_ok_def OpenExtendedMiningChannelSuccess_ok_def)
  from sv2_jobs_are_unambiguous[OF this(1,1) this(2,2), of "[]" "[]"] show ?thesis
    by blast
qed

text \<open>A frame made by \<open>wrap_message\<close> is six header bytes and the payload; the header reads back as the
  message's type, the payload's length and an extension whose low fifteen bits are the caller's and
  whose top bit says whether the type is a channel message; and a payload passes the receiver's
  length check exactly when it has at most 65519 bytes.\<close>

theorem wrap_message_frames_payload:
  assumes "length payload < 2 ^ 24"
  shows "\<exists>h. Header_deserialize (mk_reader (wrap_message ext t payload)) =
      Inr (h, \<lparr>rd_data = wrap_message ext t payload, rd_pos = 6\<rparr>) \<and>
    drop 6 (wrap_message ext t payload) = payload \<and> h_msg_type h = t \<and>
    unat (h_msg_length h) = length payload \<and>
    h_extension_type h AND 0x7FFF = ext AND 0x7FFF \<and>
    (ext AND CHANNEL_MSG_BIT = 0 \<longrightarrow> (h_extension_type h AND CHANNEL_MSG_BIT \<noteq> 0 \<longleftrightarrow> is_channel_msg t)) \<and>
    (frame_length_ok (h_msg_length h) \<longleftrightarrow> length payload \<le> 65519)"
proof -
  let ?h = "\<lparr>h_extension_type = (if is_channel_msg t then ext OR CHANNEL_MSG_BIT else ext),
     h_msg_type = t, h_msg_length = of_nat (length payload)\<rparr>"
  have l: "unat (of_nat (length payload) :: u32) = length payload"
    using assms by (simp add: unat_of_nat)
  have "codec Header_deserialize (Header_serialize ?h []) ?h"
    using assms by (intro m_h.read_enc) (simp add: Header_ok_def l)
  note r = codec_run[OF this, of payload]
  have w: "wrap_message ext t payload = Header_serialize ?h [] @ payload"
    by (simp add: wrap_message_def Let_def)
  have "Header_deserialize (mk_reader (wrap_message ext t payload)) =
      Inr (?h, \<lparr>rd_data = wrap_message ext t payload, rd_pos = 6\<rparr>)"
    using r by (simp add: mk_reader_def w)
  moreover have "h_extension_type ?h AND 0x7FFF = ext AND 0x7FFF"
    using channel_bit_ignored[of ext] by simp
  moreover have "ext AND CHANNEL_MSG_BIT = 0 \<longrightarrow> (h_extension_type ?h AND CHANNEL_MSG_BIT \<noteq> 0 \<longleftrightarrow> is_channel_msg t)"
    by (simp add: bit.conj_disj_distrib2 CHANNEL_MSG_BIT_def)
  moreover have "drop 6 (wrap_message ext t payload) = payload"
    unfolding w by simp
  ultimately show ?thesis
    using l by (intro exI[of _ ?h]) (simp add: frame_length_ok_iff)
qed

lemma wrap_message_frames_payload_witness:
  "\<exists>h. Header_deserialize (mk_reader (wrap_message 0 0x1f [1, 2, 3])) =
     Inr (h, \<lparr>rd_data = wrap_message 0 0x1f [1, 2, 3], rd_pos = 6\<rparr>) \<and> unat (h_msg_length h) = 3"
proof -
  have "length [1 :: u8, 2, 3] < 2 ^ 24"
    by simp
  from wrap_message_frames_payload[OF this, of 0 "0x1f"] show ?thesis
    by (elim exE conjE) (intro exI conjI, assumption, simp)
qed

end
