(* ===== verification/Utils.thy ===== *)
theory Utils
  imports Prelude
begin

text \<open>
  \<open>src/utils.hpp\<close>: hex strings, varints, header and block assembly, compact targets, BIP34 heights,
  script pushes and the share time window. A \<open>std::string\<close> of hex digits is a \<open>string\<close>; a function
  that throws returns \<open>exn + 'a\<close>. The digest functions of OpenSSL are parameters where they are used
  (\<open>compute_coinbase_txid_le\<close> takes \<open>sha256_once\<close>).
\<close>

section \<open>Hex\<close>

type_synonym hex = string

definition hex_nibble :: "char \<Rightarrow> u8 res" where
  "hex_nibble c =
     (let n = (of_char c :: nat) in
      if 48 \<le> n \<and> n \<le> 57 then Inr (of_nat (n - 48))
      else if 97 \<le> n \<and> n \<le> 102 then Inr (of_nat (n - 97 + 10))
      else if 65 \<le> n \<and> n \<le> 70 then Inr (of_nat (n - 65 + 10))
      else Inl (Runtime_Error ''invalid hex''))"

fun hex_pairs :: "hex \<Rightarrow> bytes res" where
  "hex_pairs (a # b # h) =
     bindE (hex_nibble a) (\<lambda>x. bindE (hex_nibble b) (\<lambda>y.
       bindE (hex_pairs h) (\<lambda>bs. Inr ((push_bit 4 x OR y) # bs))))"
| "hex_pairs h = Inr []"

definition hex_to_bytes :: "hex \<Rightarrow> bytes res" where
  "hex_to_bytes h =
     (if length h mod 2 \<noteq> 0 then Inl (Runtime_Error ''odd hex length'') else hex_pairs h)"

definition hex_digit :: "nat \<Rightarrow> char" where
  "hex_digit n = ''0123456789abcdef'' ! n"

fun bytes_to_hex :: "bytes \<Rightarrow> hex" where
  "bytes_to_hex [] = []"
| "bytes_to_hex (b # bs) =
     hex_digit (unat (drop_bit 4 b)) # hex_digit (unat (b AND 0xf)) # bytes_to_hex bs"

definition is_hex_char :: "char \<Rightarrow> bool" where
  "is_hex_char c \<longleftrightarrow>
     (let n = (of_char c :: nat) in
      (48 \<le> n \<and> n \<le> 57) \<or> (97 \<le> n \<and> n \<le> 102) \<or> (65 \<le> n \<and> n \<le> 70))"

definition valid_hex :: "hex \<Rightarrow> bool" where
  "valid_hex s \<longleftrightarrow> list_all is_hex_char s \<and> s \<noteq> []"

fun int_to_hex :: "u32 \<Rightarrow> nat \<Rightarrow> hex" where
  "int_to_hex v 0 = []"
| "int_to_hex v (Suc width) = int_to_hex (drop_bit 4 v) width @ [hex_digit (unat (v AND 0xf))]"

definition le_hex_u64 :: "u64 \<Rightarrow> hex" where
  "le_hex_u64 v =
     concat (map (\<lambda>i. let b = byte_of v i in
       [hex_digit (unat (drop_bit 4 b)), hex_digit (unat (b AND 0xf))]) [0..<8])"

definition le_hex_u32 :: "u32 \<Rightarrow> hex" where
  "le_hex_u32 v = take 8 (le_hex_u64 (ucast v))"

text \<open>The printing of numbers by \<open>fmt\<close>: \<open>{:x}\<close>, \<open>{:0{w}x}\<close> and \<open>{}\<close>.\<close>

fun hex_number :: "nat \<Rightarrow> hex" where
  "hex_number n = (if n < 16 then [hex_digit n] else hex_number (n div 16) @ [hex_digit (n mod 16)])"

declare hex_number.simps [simp del]

definition pad_hex :: "nat \<Rightarrow> nat \<Rightarrow> hex" where
  "pad_hex n w = replicate (w - length (hex_number n)) (CHR ''0'') @ hex_number n"

fun dec_string :: "nat \<Rightarrow> string" where
  "dec_string n = (if n < 10 then [hex_digit n] else dec_string (n div 10) @ [hex_digit (n mod 10)])"

declare dec_string.simps [simp del]

definition put_le :: "u64 \<Rightarrow> nat \<Rightarrow> hex" where
  "put_le v n =
     concat (map (\<lambda>i. let b = byte_of v i in
       [hex_digit (unat (drop_bit 4 b)), hex_digit (unat (b AND 0xf))]) [0..<n])"

definition encode_varint :: "u64 \<Rightarrow> hex" where
  "encode_varint v =
     (if v < 0xfd then [hex_digit (unat (drop_bit 4 v AND 0xf)), hex_digit (unat (v AND 0xf))]
      else if v \<le> 0xffff then ''fd'' @ put_le v 2
      else if v \<le> 0xffffffff then ''fe'' @ put_le v 4
      else ''ff'' @ put_le v 8)"

section \<open>Blocks and coinbase\<close>

definition rebuild_coinbase :: "hex \<Rightarrow> hex \<Rightarrow> hex \<Rightarrow> hex" where
  "rebuild_coinbase cb1 cb2 full_extranonce = cb1 @ full_extranonce @ cb2"

text \<open>The output is resized to the input's length first, so an odd last digit stays \<open>NUL\<close>.\<close>

definition byte_reverse_hex :: "hex \<Rightarrow> hex" where
  "byte_reverse_hex h =
     (let n = length h div 2
      in concat (map (\<lambda>i. [h ! ((n - 1 - i) * 2), h ! ((n - 1 - i) * 2 + 1)]) [0..<n])
         @ replicate (length h - 2 * n) (char_of (0 :: nat)))"

definition build_block_header :: "hex \<Rightarrow> hex \<Rightarrow> hex \<Rightarrow> hex \<Rightarrow> hex \<Rightarrow> hex \<Rightarrow> hex" where
  "build_block_header version_hex_le prevhash_hex merkleroot_hex ntime_hex bits_hex nonce_hex =
     version_hex_le @ prevhash_hex @ merkleroot_hex @ ntime_hex @ bits_hex @ nonce_hex"

definition sha256d :: "(bytes \<Rightarrow> bytes) \<Rightarrow> bytes \<Rightarrow> bytes" where
  "sha256d sha256_once data = sha256_once (sha256_once data)"

definition compute_coinbase_txid_le :: "(bytes \<Rightarrow> bytes) \<Rightarrow> hex \<Rightarrow> hex res" where
  "compute_coinbase_txid_le sha256_once coinbase_hex =
     bindE (hex_to_bytes coinbase_hex) (\<lambda>bs. Inr (bytes_to_hex (sha256d sha256_once bs)))"

definition assemble_full_block :: "hex \<Rightarrow> hex \<Rightarrow> hex list \<Rightarrow> hex" where
  "assemble_full_block header_hex coinbase_hex txs_hex =
     header_hex @ encode_varint (of_nat (1 + length txs_hex)) @ coinbase_hex @ concat txs_hex"

section \<open>Compact target\<close>

definition target_from_bits_hex :: "hex \<Rightarrow> bytes res" where
  "target_from_bits_hex bits_hex =
     (let out = replicate 32 0 in
      if length bits_hex \<noteq> 8 then Inr out
      else bindE (hex_to_bytes bits_hex) (\<lambda>b.
        let mant = push_bit 16 (ucast (b ! 1)) OR push_bit 8 (ucast (b ! 2)) OR ucast (b ! 3) :: u32;
            shift = int (unat (b ! 0)) - 3
        in if mant = 0 then Inr out
           else if shift < 0 then
             (let m = drop_bit (nat (- shift) * 8) mant
              in Inr (out[29 := byte_of m 2, 30 := byte_of m 1, 31 := byte_of m 0]))
           else
             (let start = 32 - (3 + shift)
              in if start < 0 then Inr out
                 else Inr (out[nat start := byte_of mant 2, nat start + 1 := byte_of mant 1,
                               nat start + 2 := byte_of mant 0]))))"

section \<open>BIP34 heights, pushes and the time window\<close>

fun bip34_bytes :: "nat \<Rightarrow> bytes" where
  "bip34_bytes h = (if h = 0 then [] else of_nat (h mod 256) # bip34_bytes (h div 256))"

declare bip34_bytes.simps [simp del]

definition hex2 :: "nat \<Rightarrow> hex" where
  "hex2 n = [hex_digit (n div 16 mod 16), hex_digit (n mod 16)]"

definition encode_bip34_height :: "int \<Rightarrow> hex res" where
  "encode_bip34_height height =
     (if height < 0 then Inl (Runtime_Error ''negative height'')
      else let b = bip34_bytes (nat height); b = (if b = [] then [0] else b)
           in Inr (hex2 (length b) @ bytes_to_hex b))"

definition encode_push_bytes :: "bytes \<Rightarrow> hex res" where
  "encode_push_bytes data =
     (if length data > 0x4b then Inl (Runtime_Error ''push too long'')
      else Inr (hex2 (length data) @ bytes_to_hex data))"

definition valid_ntime :: "u32 \<Rightarrow> u32 \<Rightarrow> u32 \<Rightarrow> u32 \<Rightarrow> bool" where
  "valid_ntime submitted mintime now_unix future_slack =
     (if submitted < mintime then False
      else if submitted > now_unix + future_slack then False
      else True)"

section \<open>Hex strings denote bytes\<close>

lemma less16_cases:
  "n < 16 \<Longrightarrow> n \<in> {0, 1, 2, 3, 4, 5, 6, 7, 8, 9, 10, 11, 12, 13, 14, 15 :: nat}"
  by (simp only: insert_iff empty_iff, arith)

lemma hex_nibble_digit: "n < 16 \<Longrightarrow> hex_nibble (hex_digit n) = Inr (of_nat n)"
  by (drule less16_cases) (auto simp: hex_nibble_def hex_digit_def Let_def)

lemma is_hex_digit: "n < 16 \<Longrightarrow> is_hex_char (hex_digit n)"
  by (drule less16_cases) (auto simp: is_hex_char_def hex_digit_def Let_def)

lemma hex_nibble_Inr_iff: "(\<exists>x. hex_nibble c = Inr x) \<longleftrightarrow> is_hex_char c"
  by (auto simp: is_hex_char_def hex_nibble_def Let_def)

lemma high_nibble_less: "unat (drop_bit 4 (b :: u8)) < 16"
proof -
  have "unat (drop_bit 4 b) = drop_bit 4 (unat b)"
    by (simp only: unat_drop_bit_eq)
  then show ?thesis
    using less_mult_imp_div_less[of "unat b" 16 16] by (simp add: drop_bit_eq_div)
qed

lemma low_nibble_less: "unat (b AND 0xf :: 'a::len word) < 16" if "4 \<le> LENGTH('a)"
proof -
  have "b AND 0xf = take_bit 4 b"
    by (simp add: take_bit_eq_mask mask_eq_exp_minus_1)
  then have "unat (b AND 0xf) = take_bit 4 (unat b)"
    by (simp only: unsigned_take_bit_eq)
  then show ?thesis
    by (simp add: take_bit_eq_mod)
qed

lemma nibbles_join: "push_bit 4 (drop_bit 4 b) OR (b AND 0xf) = (b :: u8)"
proof -
  have m: "(0xf :: u8) = mask 4"
    by (simp add: mask_eq_exp_minus_1)
  show ?thesis
    unfolding m by (rule bit_word_eqI) (auto simp: bit_or_iff bit_and_iff bit_push_bit_iff bit_drop_bit_eq bit_mask_iff)
qed

lemma hex_pairs_bytes_to_hex [simp]: "hex_pairs (bytes_to_hex bs) = Inr bs"
  by (induction bs) (simp_all add: hex_nibble_digit high_nibble_less low_nibble_less nibbles_join)

lemma length_bytes_to_hex [simp, length_facts]: "length (bytes_to_hex bs) = 2 * length bs"
  by (induction bs) auto

lemma hex_to_bytes_bytes_to_hex [simp]: "hex_to_bytes (bytes_to_hex bs) = Inr bs"
  by (simp add: hex_to_bytes_def)

lemma bytes_to_hex_append [simp]: "bytes_to_hex (xs @ ys) = bytes_to_hex xs @ bytes_to_hex ys"
  by (induction xs) auto

lemma bytes_to_hex_inject [simp]: "bytes_to_hex xs = bytes_to_hex ys \<longleftrightarrow> xs = ys"
  by (metis hex_to_bytes_bytes_to_hex sum.inject(2))

lemma bytes_to_hex_Nil_iff [simp]: "bytes_to_hex bs = [] \<longleftrightarrow> bs = []"
  by (cases bs) auto

lemma valid_hex_bytes_to_hex: "valid_hex (bytes_to_hex bs) \<longleftrightarrow> bs \<noteq> []"
proof -
  have "list_all is_hex_char (bytes_to_hex bs)"
    by (induction bs) (simp_all add: is_hex_digit high_nibble_less low_nibble_less)
  then show ?thesis
    by (cases bs) (auto simp: valid_hex_def)
qed

lemma hex_pairs_Inr_iff: "even (length h) \<Longrightarrow> (\<exists>bs. hex_pairs h = Inr bs) \<longleftrightarrow> list_all is_hex_char h"
  by (induction h rule: hex_pairs.induct) (auto simp: bindE_Inr_iff hex_nibble_Inr_iff[symmetric])

lemma hex_to_bytes_Inr_iff:
  "(\<exists>bs. hex_to_bytes h = Inr bs) \<longleftrightarrow> even (length h) \<and> list_all is_hex_char h"
  using hex_pairs_Inr_iff[of h] by (auto simp: hex_to_bytes_def even_iff_mod_2_eq_zero)

lemma hex_pairs_append:
  "even (length h) \<Longrightarrow> hex_pairs (h @ k) = bindE (hex_pairs h) (\<lambda>x. bindE (hex_pairs k) (\<lambda>y. Inr (x @ y)))"
proof (induction h rule: hex_pairs.induct)
  case (1 a b h)
  then show ?case
    by (auto simp: bindE_assoc)
next
  case "2_1"
  then show ?case by (cases "hex_pairs k") auto
qed auto

lemma hex_pairs_length: "hex_pairs h = Inr bs \<Longrightarrow> length bs = length h div 2"
  by (induction h arbitrary: bs rule: hex_pairs.induct) (auto simp: bindE_Inr_iff)

lemma hex_to_bytes_length: "hex_to_bytes h = Inr bs \<Longrightarrow> length h = 2 * length bs"
  by (auto simp: hex_to_bytes_def split: if_splits dest!: hex_pairs_length)

lemma hex_to_bytes_append:
  "hex_to_bytes h = Inr x \<Longrightarrow> hex_to_bytes k = Inr y \<Longrightarrow> hex_to_bytes (h @ k) = Inr (x @ y)"
  by (auto simp: hex_to_bytes_def hex_pairs_append split: if_splits)

lemma hex_to_bytes_concat:
  "list_all2 (\<lambda>h b. hex_to_bytes h = Inr b) hs bs \<Longrightarrow> hex_to_bytes (concat hs) = Inr (concat bs)"
proof (induction rule: list_all2_induct)
  case Nil
  then show ?case by (simp add: hex_to_bytes_def)
next
  case (Cons h hs b bs)
  then show ?case by (simp add: hex_to_bytes_append)
qed

section \<open>Integers in hex are their bytes\<close>

lemma concat_map_hex:
  "concat (map (\<lambda>i. let b = f i in [hex_digit (unat (drop_bit 4 b)), hex_digit (unat (b AND 0xf))]) is)
     = bytes_to_hex (map f is)"
  by (induction "is") (simp_all add: Let_def)

lemma put_le_bytes: "put_le v n = bytes_to_hex (nat_le n (unat v))"
  by (simp add: put_le_def concat_map_hex[of "byte_of v"] bytes_of_word)

lemma le_hex_u64_bytes: "le_hex_u64 v = bytes_to_hex (nat_le 8 (unat v))"
  using put_le_bytes[of v 8] by (simp add: le_hex_u64_def put_le_def)

lemma le_hex_u32_bytes: "le_hex_u32 v = bytes_to_hex (nat_le 4 (unat v))"
proof -
  have "unat (ucast v :: u64) = unat v"
    using take_bit_nat_eq_self[of "unat v" 64] order.strict_trans2[OF unat_bounds(3)[of v], of "2 ^ 64"]
    by (simp add: unsigned_ucast_eq)
  then have "le_hex_u32 v = take 8 (bytes_to_hex (nat_le (4 + 4) (unat v)))"
    by (simp add: le_hex_u32_def le_hex_u64_bytes)
  moreover have "nat_le (4 + 4) (unat v) = nat_le 4 (unat v) @ map (\<lambda>i. of_nat (unat v div 256 ^ i)) [4..<8]"
    unfolding nat_le_map by (simp add: upt_add_eq_append[of 0 4 4, simplified])
  ultimately show ?thesis
    by simp
qed

lemma nibble_parts:
  "unat (v AND 0xf :: 'a::len word) = unat v mod 16" if "4 \<le> LENGTH('a)"
proof -
  have "v AND 0xf = take_bit 4 v"
    by (simp add: take_bit_eq_mask mask_eq_exp_minus_1)
  then have "unat (v AND 0xf) = take_bit 4 (unat v)"
    by (simp only: unsigned_take_bit_eq)
  then show ?thesis
    by (simp add: take_bit_eq_mod)
qed

lemma unat_drop4: "unat (drop_bit 4 v :: 'a::len word) = unat v div 16"
proof -
  have "unat (drop_bit 4 v) = drop_bit 4 (unat v)"
    by (simp only: unat_drop_bit_eq)
  then show ?thesis
    by (simp add: drop_bit_eq_div)
qed

lemma bytes_to_hex_of_nat:
  "bytes_to_hex [of_nat x] = [hex_digit (x div 16 mod 16), hex_digit (x mod 16)]"
proof -
  have "unat (drop_bit 4 (of_nat x :: u8)) = x mod 256 div 16"
    by (simp only: unat_drop4 unat_of_nat_u8)
  also have "\<dots> = x div 16 mod 16"
    using mod_mult2_eq[of x 16 16] by simp
  finally show ?thesis
    by (simp add: nibble_parts) (simp add: mod_mod_cancel)
qed

lemma of_nat_mod_u8: "(of_nat (x mod 256) :: u8) = of_nat x"
  by (simp add: word_unat_eq_iff)

lemma int_to_hex_append: "int_to_hex v (m + n) = int_to_hex (drop_bit (4 * n) v) m @ int_to_hex v n"
proof (induction n arbitrary: v)
  case 0
  then show ?case by simp
next
  case (Suc n)
  have "drop_bit (4 * n) (drop_bit 4 v) = drop_bit (4 * Suc n) v"
    by (simp only: drop_bit_drop_bit) (simp add: add.commute)
  with Suc[of "drop_bit 4 v"] show ?case
    by simp
qed

lemma int_to_hex_bytes: "int_to_hex v (2 * n) = bytes_to_hex (rev (nat_le n (unat v)))"
proof (induction n arbitrary: v)
  case 0
  then show ?case by simp
next
  case (Suc n)
  have d: "drop_bit 4 (drop_bit 4 v) = drop_bit 8 v" and u: "unat (drop_bit 8 v) = unat v div 256"
    by (simp_all only: drop_bit_drop_bit unat_drop_bit_eq) (simp_all add: drop_bit_eq_div)
  have "int_to_hex v (2 * Suc n) =
      int_to_hex (drop_bit 8 v) (2 * n) @ [hex_digit (unat (drop_bit 4 v AND 0xf)), hex_digit (unat (v AND 0xf))]"
    using d by simp
  also have "[hex_digit (unat (drop_bit 4 v AND 0xf)), hex_digit (unat (v AND 0xf))] =
      bytes_to_hex [of_nat (unat v)]"
    by (subst bytes_to_hex_of_nat) (simp add: nibble_parts unat_drop4)
  finally show ?case
    using Suc[of "drop_bit 8 v"] by (simp add: u of_nat_mod_u8 del: bytes_to_hex.simps)
qed

section \<open>Byte reversal\<close>

lemma nth_bytes_to_hex:
  "i < length bs \<Longrightarrow> bytes_to_hex bs ! (2 * i) = bytes_to_hex [bs ! i] ! 0"
  "i < length bs \<Longrightarrow> bytes_to_hex bs ! (2 * i + 1) = bytes_to_hex [bs ! i] ! 1"
proof (induction bs arbitrary: i)
  case (Cons b bs)
  {
    case 1
    with Cons(1) show ?case by (cases i) auto
  next
    case 2
    with Cons(2) show ?case by (cases i) auto
  }
qed auto

lemma bytes_to_hex_map: "bytes_to_hex (map f xs) = concat (map (\<lambda>x. bytes_to_hex [f x]) xs)"
  by (induction xs) auto

lemma byte_reverse_hex_bytes: "byte_reverse_hex (bytes_to_hex bs) = bytes_to_hex (rev bs)"
proof -
  let ?n = "length bs"
  have "[bytes_to_hex bs ! ((?n - 1 - i) * 2), bytes_to_hex bs ! ((?n - 1 - i) * 2 + 1)] =
      bytes_to_hex [bs ! (?n - 1 - i)]" if "i < ?n" for i
    using that nth_bytes_to_hex[of "?n - 1 - i" bs] by (simp add: mult.commute)
  then have "byte_reverse_hex (bytes_to_hex bs) =
      concat (map (\<lambda>i. bytes_to_hex [bs ! (?n - 1 - i)]) [0..<?n])"
    unfolding byte_reverse_hex_def Let_def by (auto intro!: arg_cong[where f = concat] simp: atLeast0LessThan)
  also have "\<dots> = bytes_to_hex (map (\<lambda>i. bs ! (?n - 1 - i)) [0..<?n])"
    by (rule bytes_to_hex_map[symmetric])
  also have "map (\<lambda>i. bs ! (?n - 1 - i)) [0..<?n] = rev bs"
    by (rule nth_equalityI) (auto simp: rev_nth)
  finally show ?thesis .
qed

section \<open>Padded numbers\<close>

fun hex_width :: "nat \<Rightarrow> nat \<Rightarrow> hex" where
  "hex_width 0 n = []"
| "hex_width (Suc w) n = hex_width w (n div 16) @ [hex_digit (n mod 16)]"

lemma length_hex_width [simp, length_facts]: "length (hex_width w n) = w"
  by (induction w arbitrary: n) auto

lemma hex_width_0: "hex_width w 0 = replicate w (CHR ''0'')"
  by (induction w) (auto simp: hex_digit_def replicate_append_same)

lemma hex_number_width:
  "n < 16 ^ w \<Longrightarrow> 0 < w \<Longrightarrow> length (hex_number n) \<le> w \<and> pad_hex n w = hex_width w n"
proof (induction w arbitrary: n)
  case (Suc w)
  show ?case
  proof (cases "n < 16")
    case True
    then show ?thesis
      by (simp add: pad_hex_def hex_number.simps[of n] hex_width_0)
  next
    case False
    then have "n div 16 < 16 ^ w" "0 < w"
      using Suc.prems by (simp add: less_mult_imp_div_less mult.commute, cases w) auto
    then have "length (hex_number (n div 16)) \<le> w" "pad_hex (n div 16) w = hex_width w (n div 16)"
      using Suc.IH by simp_all
    then show ?thesis
      using False by (simp add: pad_hex_def hex_number.simps[of n])
  qed
qed simp

lemma pad_hex_width: "n < 16 ^ w \<Longrightarrow> 0 < w \<Longrightarrow> pad_hex n w = hex_width w n"
  using hex_number_width by blast

lemma hex_digit_inject: "m < 16 \<Longrightarrow> n < 16 \<Longrightarrow> hex_digit m = hex_digit n \<longleftrightarrow> m = n"
  using less16_cases[of m] less16_cases[of n] by (auto simp: hex_digit_def)

lemma hex_width_inject: "m < 16 ^ w \<Longrightarrow> n < 16 ^ w \<Longrightarrow> hex_width w m = hex_width w n \<Longrightarrow> m = n"
proof (induction w arbitrary: m n)
  case (Suc w)
  then have "m div 16 = n div 16" "m mod 16 = n mod 16"
    by (auto simp: hex_digit_inject less_mult_imp_div_less mult.commute)
  then show ?case
    by (metis div_mult_mod_eq)
qed simp

lemma length_pad_hex: "n < 16 ^ w \<Longrightarrow> 0 < w \<Longrightarrow> length (pad_hex n w) = w"
  by (simp add: pad_hex_width)

section \<open>Varints\<close>

text \<open>The byte layout of a Bitcoin CompactSize and its reader.\<close>

definition varint_bytes :: "nat \<Rightarrow> bytes" where
  "varint_bytes n =
     (if n < 0xfd then [of_nat n]
      else if n \<le> 0xffff then 0xfd # nat_le 2 n
      else if n \<le> 0xffffffff then 0xfe # nat_le 4 n
      else 0xff # nat_le 8 n)"

definition varint_parse :: "bytes \<Rightarrow> (nat \<times> bytes) option" where
  "varint_parse bs =
     (case bs of [] \<Rightarrow> None
      | t # r \<Rightarrow>
        let k = (if t < 0xfd then 0 else if t = 0xfd then 2 else if t = 0xfe then 4 else 8)
        in if k = 0 then Some (unat t, r)
           else if length r < k then None
           else Some (le_val (take k r), drop k r))"

lemma varint_parse_bytes: "n < 2 ^ 64 \<Longrightarrow> varint_parse (varint_bytes n @ r) = Some (n, r)"
  by (auto simp: varint_parse_def varint_bytes_def Let_def word_less_nat_alt le_val_nat_le)

lemma of_nat_byte_of_0: "(ucast v :: u8) = of_nat (unat v)"
  by simp

lemma bytes_to_hex_nibbles:
  "[hex_digit (unat (drop_bit 4 v AND 0xf)), hex_digit (unat (v AND 0xf))] = bytes_to_hex [of_nat (unat (v :: u64))]"
  by (subst bytes_to_hex_of_nat) (simp add: nibble_parts unat_drop4)

lemma hex_marker: "''fd'' = bytes_to_hex [0xfd]" "''fe'' = bytes_to_hex [0xfe]" "''ff'' = bytes_to_hex [0xff]"
  by (simp_all add: hex_digit_def)

lemma encode_varint_bytes: "encode_varint v = bytes_to_hex (varint_bytes (unat v))"
  unfolding encode_varint_def varint_bytes_def put_le_bytes hex_marker bytes_to_hex_nibbles
  by (simp add: word_less_nat_alt word_le_nat_alt del: bytes_to_hex.simps flip: bytes_to_hex_append)

section \<open>Compact targets\<close>

definition be_val :: "bytes \<Rightarrow> nat" where
  "be_val bs = le_val (rev bs)"

lemma be_val_simps [simp]: "be_val [] = 0" "be_val [b] = unat b"
  by (simp_all add: be_val_def)

lemma be_val_append: "be_val (xs @ ys) = be_val xs * 256 ^ length ys + be_val ys"
  by (simp add: be_val_def le_val_append)

lemma be_val_zeros [simp]: "be_val (replicate n 0) = 0"
  by (induction n) (simp_all add: be_val_def le_val_append)

lemma be_val_less: "be_val bs < 256 ^ length bs"
  using le_val_less[of "rev bs"] by (simp add: be_val_def)

definition compact_value :: "nat \<Rightarrow> nat \<Rightarrow> nat" where
  "compact_value e mant =
     (if e < 3 then mant div 256 ^ (3 - e)
      else if e \<le> 32 then mant * 256 ^ (e - 3)
      else 0)"

lemma be_val_three_bytes: "be_val [byte_of m 2, byte_of m 1, byte_of m 0] = unat m" if "unat m < 256 ^ 3" for m :: u32
proof -
  have "rev [byte_of m 2, byte_of m 1, byte_of m 0] = nat_le 3 (unat m)"
    by (simp add: word_bytes_list)
  with that show ?thesis
    by (simp add: be_val_def le_val_nat_le)
qed

lemma zeros_update3:
  assumes "s \<le> 29"
  shows "(replicate 32 (0 :: u8))[s := x, s + 1 := y, s + 2 := z] =
    replicate s 0 @ [x, y, z] @ replicate (29 - s) 0"
  using assms by (auto intro!: nth_equalityI simp: nth_append nth_list_update nth_Cons' )

lemma be_val_framed: "be_val (replicate s 0 @ [x, y, z] @ replicate k 0) = be_val [x, y, z] * 256 ^ k"
  unfolding be_val_append[of "replicate s 0"] be_val_append[of "[x, y, z]"] by simp

lemma mant_word:
  "push_bit 16 (ucast a) OR push_bit 8 (ucast b) OR ucast c = (le_or 0 [c, b, a] :: u32)"
  by (simp add: ac_simps)

lemma unat_mant: "unat (le_or 0 [c, b, a] :: u32) = be_val [a, b, c]"
proof -
  have "le_val [c, b, a] < 256 ^ 3"
    using le_val_less[of "[c, b, a]"] by (simp add: numeral_3_eq_3)
  then show ?thesis
    by (simp only: le_or_val be_val_def unat_of_nat) simp
qed

lemma target_from_bits_bytes:
  "\<exists>t. target_from_bits_hex (bytes_to_hex [e, a, b, c]) = Inr t \<and> length t = 32 \<and>
     be_val t = compact_value (unat e) (be_val [a, b, c])"
proof -
  define m where "m = (le_or 0 [c, b, a] :: u32)"
  have um: "unat m = be_val [a, b, c]" and lm: "unat m < 256 ^ 3"
    using be_val_less[of "[a, b, c]"] by (simp_all only: m_def unat_mant) (simp add: numeral_3_eq_3)
  have um0: "m = 0 \<longleftrightarrow> be_val [a, b, c] = 0"
    using um by (metis unsigned_0 unat_eq_zero)
  define n where "n = unat e"
  let ?sh = "int n - 3"
  have cases: "target_from_bits_hex (bytes_to_hex [e, a, b, c]) =
      (if m = 0 then Inr (replicate 32 0)
       else if ?sh < 0 then
         Inr ((replicate 32 0)[29 := byte_of (drop_bit (nat (- ?sh) * 8) m) 2,
           29 + 1 := byte_of (drop_bit (nat (- ?sh) * 8) m) 1, 29 + 2 := byte_of (drop_bit (nat (- ?sh) * 8) m) 0])
       else if 32 - (3 + ?sh) < 0 then Inr (replicate 32 0)
       else Inr ((replicate 32 0)[nat (32 - (3 + ?sh)) := byte_of m 2,
           nat (32 - (3 + ?sh)) + 1 := byte_of m 1, nat (32 - (3 + ?sh)) + 2 := byte_of m 0]))"
    unfolding target_from_bits_hex_def hex_to_bytes_bytes_to_hex Let_def
    by (simp add: mant_word m_def n_def del: bytes_to_hex.simps le_or.simps)
  consider "m = 0" | "m \<noteq> 0" "n < 3" | "m \<noteq> 0" "3 \<le> n" "n \<le> 32" | "m \<noteq> 0" "n > 32"
    by linarith
  then show ?thesis
  proof cases
    case 1
    then show ?thesis
      using um0 unfolding cases n_def[symmetric] by (simp add: compact_value_def)
  next
    case 2
    let ?d = "drop_bit (nat (- ?sh) * 8) m"
    have d: "unat ?d = unat m div 256 ^ (3 - n)"
    proof -
      have "unat ?d = drop_bit (nat (- ?sh) * 8) (unat m)"
        by (simp only: unat_drop_bit_eq)
      then show ?thesis
        using 2 by (simp add: drop_bit_eq_div power_mult mult.commute[of _ 8] nat_diff_distrib')
    qed
    moreover have "unat ?d < 256 ^ 3"
      unfolding d by (rule order.strict_trans1[OF div_le_dividend lm])
    ultimately show ?thesis
      using 2 um be_val_three_bytes[of ?d] unfolding cases n_def[symmetric] zeros_update3[OF order.refl]
      by (simp add: compact_value_def be_val_append)
  next
    case 3
    then have s: "nat (32 - (3 + ?sh)) \<le> 29" and s': "29 - nat (32 - (3 + ?sh)) = n - 3"
        and l: "nat (32 - int n) + n - 3 = 29"
      by linarith+
    show ?thesis
      using 3 um be_val_three_bytes[OF lm] unfolding cases n_def[symmetric] zeros_update3[OF s] s'
      by (simp add: compact_value_def be_val_framed[simplified] l)
  next
    case 4
    then show ?thesis
      unfolding cases n_def[symmetric] by (simp add: compact_value_def)
  qed
qed

section \<open>BIP34 heights\<close>

text \<open>
  A script number (what \<open>OP_N\<close>-free consensus code reads back from the pushed bytes): little-endian
  magnitude, with the top bit of the last byte as the sign.
\<close>

definition script_num :: "bytes \<Rightarrow> int" where
  "script_num bs =
     (if bs = [] then 0
      else if 128 \<le> unat (last bs) then - int (le_val (butlast bs @ [last bs - 128]))
      else int (le_val bs))"

lemma le_val_bip34_bytes [simp]: "le_val (bip34_bytes h) = h"
proof (induction h rule: bip34_bytes.induct)
  case (1 h)
  then show ?case
    by (subst bip34_bytes.simps) simp
qed

lemma bip34_bytes_Nil_iff [simp]: "bip34_bytes h = [] \<longleftrightarrow> h = 0"
  by (subst bip34_bytes.simps) simp

lemma length_bip34_bytes: "h < 256 ^ n \<Longrightarrow> length (bip34_bytes h) \<le> n"
proof (induction n arbitrary: h)
  case 0
  then show ?case by simp
next
  case (Suc n)
  show ?case
  proof (cases "h = 0")
    case False
    then have "length (bip34_bytes h) = Suc (length (bip34_bytes (h div 256)))"
      by (subst bip34_bytes.simps) simp
    moreover have "h div 256 < 256 ^ n"
      using Suc.prems by (simp add: less_mult_imp_div_less mult.commute)
    ultimately show ?thesis
      using Suc.IH by fastforce
  qed (subst bip34_bytes.simps, simp)
qed

lemma of_nat_eq_0_iff_u8: "(of_nat x :: u8) = 0 \<longleftrightarrow> x mod 256 = 0"
  by (metis unat_of_nat_u8 unsigned_0 unat_eq_zero)

lemma last_bip34_bytes: "0 < h \<Longrightarrow> last (bip34_bytes h) \<noteq> 0"
proof (induction h rule: bip34_bytes.induct)
  case (1 h)
  then have b: "bip34_bytes h = of_nat (h mod 256) # bip34_bytes (h div 256)"
    by (subst bip34_bytes.simps) simp
  show ?case
  proof (cases "h div 256 = 0")
    case True
    then have "h < 256"
      by (simp add: div_eq_0_iff)
    with 1 True show ?thesis
      unfolding b by (simp add: of_nat_eq_0_iff_u8)
  next
    case False
    with 1 show ?thesis
      unfolding b by simp
  qed
qed

lemma hex2_bytes: "hex2 n = bytes_to_hex [of_nat n]"
  by (simp only: hex2_def bytes_to_hex_of_nat)

lemma encode_bip34_bytes:
  assumes "0 < h"
  shows "encode_bip34_height h =
    Inr (bytes_to_hex (of_nat (length (bip34_bytes (nat h))) # bip34_bytes (nat h)))"
  using assms by (simp add: encode_bip34_height_def Let_def hex2_bytes)

lemma encode_push_bytes_ok:
  "length data \<le> 75 \<Longrightarrow> encode_push_bytes data = Inr (bytes_to_hex (of_nat (length data) # data))"
  by (simp add: encode_push_bytes_def hex2_bytes)

section \<open>Blocks\<close>

lemma hex_to_bytes_assemble:
  assumes "hex_to_bytes hdr = Inr hb" "hex_to_bytes cb = Inr cbb"
    and "list_all2 (\<lambda>h b. hex_to_bytes h = Inr b) txs tbs"
  shows "hex_to_bytes (assemble_full_block hdr cb txs) =
    Inr (hb @ varint_bytes (unat (of_nat (1 + length txs) :: u64)) @ cbb @ concat tbs)"
  unfolding assemble_full_block_def encode_varint_bytes
  by (intro hex_to_bytes_append hex_to_bytes_concat hex_to_bytes_bytes_to_hex assms)

section \<open>Properties\<close>

text \<open>\<open>encode_varint\<close> is invertible: the hex it gives denotes bytes from which a reader of Bitcoin's
  compact sizes, whatever follows them, gets back the 64-bit value and exactly the rest.\<close>

theorem encode_varint_parses_back:
  "\<exists>bs. hex_to_bytes (encode_varint v) = Inr bs \<and> (\<forall>rest. varint_parse (bs @ rest) = Some (unat v, rest))"
proof -
  have "unat v < 2 ^ 64"
    using unsigned_less[of v] by simp
  then show ?thesis
    by (intro exI[of _ "varint_bytes (unat v)"]) (simp add: encode_varint_bytes varint_parse_bytes)
qed

text \<open>C24: The assembled block parses: after the header's bytes comes a count one above the number of
  transactions, then the coinbase's bytes, then each transaction's bytes in order, and nothing else.\<close>

theorem assembled_block_parses:
  assumes "hex_to_bytes hdr = Inr hb" "hex_to_bytes cb = Inr cbb"
    and "list_all2 (\<lambda>h b. hex_to_bytes h = Inr b) txs tbs" and "length txs < 2 ^ 64 - 1"
  shows "\<exists>block. hex_to_bytes (assemble_full_block hdr cb txs) = Inr block \<and> take (length hb) block = hb \<and>
    varint_parse (drop (length hb) block) = Some (1 + length txs, cbb @ concat tbs)"
proof -
  have "unat (of_nat (1 + length txs) :: u64) = 1 + length txs"
    using assms(4) by (simp only: unat_of_nat) simp
  then show ?thesis
    using hex_to_bytes_assemble[OF assms(1-3)] assms(4) varint_parse_bytes[of "1 + length txs"] by simp
qed

lemma assembled_block_parses_witness:
  "\<exists>block. hex_to_bytes (assemble_full_block ''0a0b'' ''0c'' [''0d'']) = Inr block \<and>
     varint_parse (drop 2 block) = Some (2, [12, 13])"
proof -
  have h: "hex_to_bytes ''0a0b'' = Inr [10, 11]" "hex_to_bytes ''0c'' = Inr [12]"
      "list_all2 (\<lambda>h b. hex_to_bytes h = Inr b) [''0d''] [[13]]"
    by (simp_all add: hex_to_bytes_def hex_nibble_def)
  have "length [''0d''] < (2 :: nat) ^ 64 - 1"
    by simp
  from assembled_block_parses[OF h this] show ?thesis
    by (elim exE conjE) (intro exI conjI, assumption, simp add: numeral_2_eq_2)
qed

text \<open>C25: The target of a compact \<open>nBits\<close> with exponent byte \<open>e\<close> and mantissa bytes \<open>a b c\<close> is the 32-byte
  big-endian number \<open>mantissa * 256 ^ (e - 3)\<close> (a right shift for \<open>e < 3\<close>), and the zero target, which no
  hash meets, for exponents above 32.\<close>

theorem target_from_bits_value:
  "\<exists>t. target_from_bits_hex (bytes_to_hex [e, a, b, c]) = Inr t \<and> length t = 32 \<and>
     be_val t =
       (let mant = 65536 * unat a + 256 * unat b + unat c; x = unat e
        in if x < 3 then mant div 256 ^ (3 - x) else if x \<le> 32 then mant * 256 ^ (x - 3) else 0)"
proof -
  have "be_val [a, b, c] = 65536 * unat a + 256 * unat b + unat c"
    by (simp add: be_val_def)
  with target_from_bits_bytes[of e a b c] show ?thesis
    by (simp add: compact_value_def Let_def)
qed

text \<open>The height push of a coinbase is a length byte and that many little-endian bytes of the height,
  without a leading zero; read back as a consensus script number it gives the height exactly when the
  most significant byte is below 128 (heights such as 128 or 32768 read back with the wrong sign).\<close>

theorem bip34_push_reads_back:
  assumes "0 < h" and "h < 2 ^ 31"
  shows "\<exists>b. encode_bip34_height h = Inr (bytes_to_hex (of_nat (length b) # b)) \<and> length b \<le> 4 \<and>
    le_val b = nat h \<and> last b \<noteq> 0 \<and> (script_num b = h \<longleftrightarrow> unat (last b) < 128)"
proof -
  let ?b = "bip34_bytes (nat h)"
  have n: "?b \<noteq> []"
    using assms by simp
  have l: "length ?b \<le> 4"
    using assms by (intro length_bip34_bytes) (simp add: nat_less_iff)
  have "last ?b \<noteq> 0"
    using assms(1) by (intro last_bip34_bytes) simp
  moreover have "script_num ?b = h \<longleftrightarrow> unat (last ?b) < 128"
    using assms(1) n by (auto simp: script_num_def)
  ultimately show ?thesis
    using encode_bip34_bytes[OF assms(1)] l by (intro exI[of _ ?b]) simp
qed

lemma bip34_push_reads_back_witness:
  "(\<exists>b. encode_bip34_height 800000 = Inr (bytes_to_hex (3 # b)) \<and> script_num b = 800000) \<and>
   (\<exists>b. encode_bip34_height 128 = Inr (bytes_to_hex (1 # b)) \<and> script_num b \<noteq> 128)"
proof -
  have b: "bip34_bytes 800000 = [0, 0x35, 0x0c]" "bip34_bytes 128 = [128]"
    by (simp_all add: bip34_bytes.simps)
  from bip34_push_reads_back[of 800000] bip34_push_reads_back[of 128] show ?thesis
    by (auto simp: encode_bip34_bytes b script_num_def simp del: bytes_to_hex.simps)
qed

end
