(* ===== verification/Job_Window.thy ===== *)
theory Job_Window
  imports Utils
begin

text \<open>
  \<open>src/job_window.hpp\<close>: the bounded window of recent jobs, keyed by job id, newest last. \<open>push\<close>
  evicts the oldest entry when the window is full; the three lookups search from the newest. A
  window is created with a positive capacity (64 by default; \<open>pop_front\<close> of an empty deque would be
  undefined behaviour, so every lemma assumes one).

  The locale \<open>job_store\<close> is what the users of the window rely on: a job is found under its id right
  after it is pushed, and a push of another id never changes which job an id denotes (it may only
  evict it).
\<close>

record 'a job_window =
  jw_items :: "(string \<times> 'a) list"
  jw_capacity :: nat

definition jw_new :: "nat \<Rightarrow> 'a job_window" where
  "jw_new capacity = \<lparr>jw_items = [], jw_capacity = capacity\<rparr>"

definition jw_push :: "string \<Rightarrow> 'a \<Rightarrow> 'a job_window \<Rightarrow> 'a job_window" where
  "jw_push job_id job w =
     (let items = (if length (jw_items w) = jw_capacity w then tl (jw_items w) else jw_items w)
      in w\<lparr>jw_items := items @ [(job_id, job)]\<rparr>)"

fun jw_scan :: "(string \<Rightarrow> bool) \<Rightarrow> (string \<times> 'a) list \<Rightarrow> 'a option" where
  "jw_scan match [] = None"
| "jw_scan match ((jid, job) # rest) = (if match jid then Some job else jw_scan match rest)"

definition jw_find :: "string \<Rightarrow> 'a job_window \<Rightarrow> 'a option" where
  "jw_find job_id w = jw_scan (\<lambda>jid. jid = job_id) (rev (jw_items w))"

text \<open>
  \<open>std::from_chars(first, first + 8, cur, 16)\<close>: the value of the longest prefix of hex digits of the
  eight characters, an error when there is none.
\<close>

fun hex_digits_val :: "string \<Rightarrow> nat \<Rightarrow> nat" where
  "hex_digits_val [] acc = acc"
| "hex_digits_val (c # cs) acc =
     (case hex_nibble c of Inr x \<Rightarrow> hex_digits_val cs (16 * acc + unat x) | Inl _ \<Rightarrow> acc)"

definition from_chars8 :: "string \<Rightarrow> u32 option" where
  "from_chars8 s =
     (let h = take 8 s
      in if h = [] \<or> \<not> is_hex_char (hd h) then None else Some (of_nat (hex_digits_val h 0)))"

definition jw_find_u32 :: "u32 \<Rightarrow> 'a job_window \<Rightarrow> 'a option" where
  "jw_find_u32 id32 w =
     jw_scan (\<lambda>jid. \<not> length jid < 8 \<and> from_chars8 jid = Some id32) (rev (jw_items w))"

definition jw_latest :: "'a job_window \<Rightarrow> 'a option" where
  "jw_latest w = (if jw_items w = [] then None else Some (snd (last (jw_items w))))"

definition jw_clear :: "'a job_window \<Rightarrow> 'a job_window" where
  "jw_clear w = w\<lparr>jw_items := []\<rparr>"

definition jw_size :: "'a job_window \<Rightarrow> nat" where
  "jw_size w = length (jw_items w)"

section \<open>The contract of a job store\<close>

definition jw_ok :: "'a job_window \<Rightarrow> bool" where
  "jw_ok w \<longleftrightarrow> 0 < jw_capacity w \<and> length (jw_items w) \<le> jw_capacity w"

locale job_store =
  fixes ok :: "'s \<Rightarrow> bool"
    and push :: "'k \<Rightarrow> 'v \<Rightarrow> 's \<Rightarrow> 's"
    and find :: "'k \<Rightarrow> 's \<Rightarrow> 'v option"
  assumes push_ok: "ok s \<Longrightarrow> ok (push k v s)"
    and find_pushed: "ok s \<Longrightarrow> find k (push k v s) = Some v"
    and find_other: "ok s \<Longrightarrow> k \<noteq> j \<Longrightarrow> find j (push k v s) \<in> {find j s, None}"
begin

definition pushes :: "('k \<times> 'v) list \<Rightarrow> 's \<Rightarrow> 's" where
  "pushes ps s = fold (\<lambda>(k, v). push k v) ps s"

lemma pushes_ok: "ok s \<Longrightarrow> ok (pushes ps s)"
  by (induction ps arbitrary: s) (auto simp: pushes_def push_ok)

text \<open>A lookup never returns a stale job: only the last job pushed under the id, or nothing.\<close>

lemma find_fresh:
  assumes "ok s" and "find k (pushes ps s) = Some v" and "k \<in> fst ` set ps"
  shows "map_of (rev ps) k = Some v"
  using assms(2, 3)
proof (induction ps rule: rev_induct)
  case Nil
  then show ?case by simp
next
  case (snoc p ps)
  obtain j u where p: "p = (j, u)" by force
  have ok: "ok (pushes ps s)"
    by (rule pushes_ok[OF assms(1)])
  have push: "pushes (ps @ [(j, u)]) s = push j u (pushes ps s)"
    by (simp add: pushes_def)
  show ?case
  proof (cases "j = k")
    case True
    with snoc.prems(1) push find_pushed[OF ok, of j u] show ?thesis
      by (simp add: p)
  next
    case False
    with snoc.prems find_other[OF ok False, of u] have "find k (pushes ps s) = Some v"
      by (auto simp: p push)
    with snoc False show ?thesis
      by (simp add: p)
  qed
qed

end

section \<open>The window meets it\<close>

lemma jw_scan_append: "jw_scan m (xs @ ys) = (case jw_scan m xs of None \<Rightarrow> jw_scan m ys | Some v \<Rightarrow> Some v)"
  by (induction m xs rule: jw_scan.induct) auto

lemma jw_scan_map_of: "jw_scan (\<lambda>jid. jid = k) xs = map_of xs k"
  by (induction xs) auto

lemma jw_find_map_of: "jw_find k w = map_of (rev (jw_items w)) k"
  by (simp add: jw_find_def jw_scan_map_of)

lemma jw_push_items:
  "jw_items (jw_push k v w) =
    (if length (jw_items w) = jw_capacity w then tl (jw_items w) else jw_items w) @ [(k, v)]"
  and jw_push_capacity [simp]: "jw_capacity (jw_push k v w) = jw_capacity w"
  by (simp_all add: jw_push_def Let_def)

interpretation jw: job_store jw_ok jw_push jw_find
proof unfold_locales
  show "jw_ok (jw_push k v s)" if "jw_ok s" for k :: string and v :: 'a and s
    using that by (auto simp: jw_ok_def jw_push_items)
  show "jw_find k (jw_push k v s) = Some v" for k and v :: 'a and s
    by (simp add: jw_find_map_of jw_push_items)
  show "jw_find j (jw_push k v s) \<in> {jw_find j s, None}" if "k \<noteq> j" for k j and v :: 'a and s
  proof -
    have "map_of (rev (tl xs)) j \<in> {map_of (rev xs) j, None}" for xs :: "(string \<times> 'a) list"
      by (cases xs) (auto simp: map_add_def split: option.split)
    with that show ?thesis
      by (auto simp: jw_find_map_of jw_push_items)
  qed
qed

section \<open>The window is the last entries pushed\<close>

lemma jw_pushes_items:
  "0 < c \<Longrightarrow> jw_items (jw.pushes ps (jw_new c)) = drop (length ps - c) ps \<and>
    jw_capacity (jw.pushes ps (jw_new c)) = c"
proof (induction ps rule: rev_induct)
  case Nil
  then show ?case by (simp add: jw.pushes_def jw_new_def)
next
  case (snoc p ps)
  have "jw.pushes (ps @ [p]) (jw_new c) = jw_push (fst p) (snd p) (jw.pushes ps (jw_new c))"
    by (simp add: jw.pushes_def split_beta)
  with snoc show ?case
    by (auto simp: jw_push_items Suc_diff_le tl_drop drop_Suc)
qed

section \<open>Ids cut to 32 bits\<close>

lemma hex_digits_val_bytes:
  "hex_digits_val (bytes_to_hex bs) acc = acc * 256 ^ length bs + be_val bs"
proof (induction bs arbitrary: acc)
  case Nil
  then show ?case by simp
next
  case (Cons b bs)
  have "256 * acc + 16 * unat (drop_bit 4 b) + unat (b AND 0xf) = 256 * acc + unat b"
    by (simp add: unat_drop4 nibble_parts)
  then have "hex_digits_val (bytes_to_hex (b # bs)) acc = hex_digits_val (bytes_to_hex bs) (256 * acc + unat b)"
    by (simp add: hex_nibble_digit high_nibble_less low_nibble_less add.assoc)
  then show ?case
    using Cons[of "256 * acc + unat b"] be_val_append[of "[b]" bs] by (simp add: algebra_simps)
qed

lemma from_chars8_bytes:
  assumes "4 \<le> length bs"
  shows "from_chars8 (bytes_to_hex bs) = Some (of_nat (be_val (take 4 bs)))"
proof -
  have "take 8 (bytes_to_hex bs) = bytes_to_hex (take 4 bs)"
    using assms bytes_to_hex_append[of "take 4 bs" "drop 4 bs"] by (simp del: bytes_to_hex_append)
  moreover have "bytes_to_hex (take 4 bs) \<noteq> []" "is_hex_char (hd (bytes_to_hex (take 4 bs)))"
    using assms valid_hex_bytes_to_hex[of "take 4 bs"]
    by (cases "bytes_to_hex (take 4 bs)"; force simp: valid_hex_def)+
  ultimately show ?thesis
    by (simp add: from_chars8_def hex_digits_val_bytes)
qed

lemma from_chars8_le_hex:
  "from_chars8 (le_hex_u64 n) = Some (of_nat (be_val (nat_le 4 (unat n))))"
proof -
  have "take 4 (nat_le 8 (unat n)) = nat_le 4 (unat n)"
    by (simp add: nat_le_map take_map min_def)
  then show ?thesis
    using from_chars8_bytes[of "nat_le 8 (unat n)"] by (simp add: le_hex_u64_bytes)
qed

lemma length_le_hex_u64 [simp, length_facts]: "length (le_hex_u64 n) = 16"
  by (simp add: le_hex_u64_bytes)

section \<open>Properties\<close>

text \<open>C31: After any sequence of pushes into a fresh window of positive capacity \<open>c\<close>, the window is
  exactly its last \<open>c\<close> entries: \<open>find\<close> gives the newest job pushed under the id among them (and
  nothing for an evicted or unknown id), \<open>latest\<close> the newest job, and \<open>size\<close> never exceeds \<open>c\<close>.\<close>

theorem job_window_is_recent_suffix:
  fixes ps :: "(string \<times> 'a) list"
  assumes "0 < c" and "w = fold (\<lambda>(k, v). jw_push k v) ps (jw_new c)"
  shows "jw_items w = drop (length ps - c) ps \<and>
    jw_find k w = map_of (rev (drop (length ps - c) ps)) k \<and>
    jw_latest w = (if ps = [] then None else Some (snd (last ps))) \<and>
    jw_size w = min c (length ps)"
  using jw_pushes_items[OF assms(1), of ps] assms(1)
  by (cases ps) (auto simp: assms(2) jw.pushes_def jw_find_map_of jw_latest_def jw_size_def)

lemma job_window_is_recent_suffix_witness:
  "jw_find ''b'' (fold (\<lambda>(k, v). jw_push k v) [(''a'', 1 :: nat), (''b'', 2), (''c'', 3)] (jw_new 2)) = Some 2"
  using job_window_is_recent_suffix[of 2 _ "[(''a'', 1 :: nat), (''b'', 2), (''c'', 3)]" "''b''"] by simp

text \<open>When every id of the window is one \<open>generate_job_id\<close> makes (sixteen hex digits of a 64-bit
  counter), \<open>find_u32\<close> on the 32-bit id Stratum V2 carries finds the newest job whose id starts with
  those four bytes; it never falls back to a job with other leading bytes.\<close>

theorem job_window_find_u32:
  assumes "jw_items w = map (\<lambda>(n, v). (le_hex_u64 n, v)) ps"
  shows "jw_find_u32 id32 w =
    map_of (rev (map (\<lambda>(n, v). (of_nat (be_val (nat_le 4 (unat n))) :: u32, v)) ps)) id32"
proof -
  have "jw_scan (\<lambda>jid. \<not> length jid < 8 \<and> from_chars8 jid = Some id32) (map (\<lambda>(n, v). (le_hex_u64 n, v)) qs) =
      map_of (map (\<lambda>(n, v). (of_nat (be_val (nat_le 4 (unat n))) :: u32, v)) qs) id32" for qs :: "(u64 \<times> 'a) list"
    by (induction qs) (auto simp: from_chars8_le_hex)
  from this[of "rev ps"] show ?thesis
    by (simp add: jw_find_u32_def assms rev_map)
qed

lemma job_window_find_u32_witness:
  "jw_find_u32 0x05000000 \<lparr>jw_items = [(le_hex_u64 5, ''j5''), (le_hex_u64 9, ''j9'')], jw_capacity = 64\<rparr> =
     map_of (rev (map (\<lambda>(n, v). (of_nat (be_val (nat_le 4 (unat n))) :: u32, v)) [(5, ''j5''), (9 :: u64, ''j9'')]))
       0x05000000"
  by (rule job_window_find_u32) simp

end
