(* ===== verification/Write_Queue.thy ===== *)
theory Write_Queue
  imports Prelude
begin

text \<open>
  \<open>src/write_queue.hpp\<close>: the write queue of a session. The state is the class's members; what the
  asio runtime holds is \<open>wq_in_flight\<close>, the buffer of the \<open>async_write\<close> that has been started and not
  completed, and what the outside sees are \<open>wq_sent\<close> (the messages whose write completed) and
  \<open>wq_drops\<close> (calls of the drop handler). \<open>wq_accepted\<close> is a history of the pushes that returned true.

  The events are the calls the session makes (\<open>push\<close>, \<open>stop\<close>), the completion of the pending write
  (with or without an error) and the destruction of the owner. \<open>wq_step\<close> allows a completion only
  while a write is pending, which is what asio guarantees.
\<close>

record write_queue =
  wq_queue :: "bytes list"
  wq_queued_bytes :: nat
  wq_high_water :: nat
  wq_writing :: bool
  wq_stopped :: bool
  wq_owner_alive :: bool
  wq_in_flight :: "bytes option"
  wq_sent :: "bytes list"
  wq_accepted :: "bytes list"
  wq_drops :: nat

definition wq_new :: "nat \<Rightarrow> write_queue" where
  "wq_new high_water =
     \<lparr>wq_queue = [], wq_queued_bytes = 0, wq_high_water = high_water, wq_writing = False,
      wq_stopped = False, wq_owner_alive = True, wq_in_flight = None, wq_sent = [],
      wq_accepted = [], wq_drops = 0\<rparr>"

definition wq_stop :: "write_queue \<Rightarrow> write_queue" where
  "wq_stop q = q\<lparr>wq_stopped := True\<rparr>"

definition wq_do_write :: "write_queue \<Rightarrow> write_queue" where
  "wq_do_write q =
     (if wq_stopped q then q\<lparr>wq_writing := False\<rparr>
      else if \<not> wq_owner_alive q then q\<lparr>wq_writing := False\<rparr>
      else q\<lparr>wq_in_flight := Some (hd (wq_queue q))\<rparr>)"

definition wq_push :: "bytes \<Rightarrow> write_queue \<Rightarrow> bool \<times> write_queue" where
  "wq_push msg q =
     (if wq_stopped q then (False, q)
      else let q = q\<lparr>wq_queued_bytes := wq_queued_bytes q + length msg\<rparr>
      in if wq_queued_bytes q > wq_high_water q then (False, q\<lparr>wq_drops := wq_drops q + 1\<rparr>)
      else let q = q\<lparr>wq_queue := wq_queue q @ [msg], wq_accepted := wq_accepted q @ [msg]\<rparr>
      in if \<not> wq_writing q then (True, wq_do_write (q\<lparr>wq_writing := True\<rparr>)) else (True, q))"

definition wq_on_written :: "bool \<Rightarrow> write_queue \<Rightarrow> write_queue" where
  "wq_on_written ec q =
     (let q = q\<lparr>wq_in_flight := None\<rparr>
      in if ec then q\<lparr>wq_writing := False, wq_drops := wq_drops q + 1\<rparr>
      else if wq_stopped q \<or> wq_queue q = [] then q\<lparr>wq_writing := False\<rparr>
      else let q = q\<lparr>wq_queued_bytes := wq_queued_bytes q - length (hd (wq_queue q)),
                     wq_sent := wq_sent q @ [hd (wq_queue q)], wq_queue := tl (wq_queue q)\<rparr>
      in if wq_queue q = [] then q\<lparr>wq_writing := False\<rparr> else wq_do_write q)"

datatype wq_event = Push bytes | Written bool | Stop | Owner_Gone

inductive wq_step :: "write_queue \<Rightarrow> wq_event \<Rightarrow> write_queue \<Rightarrow> bool" where
  step_push: "wq_owner_alive q \<Longrightarrow> wq_step q (Push msg) (snd (wq_push msg q))"
| step_written: "wq_in_flight q = Some b \<Longrightarrow> wq_step q (Written ec) (wq_on_written ec q)"
| step_stop: "wq_step q Stop (wq_stop q)"
| step_gone: "wq_in_flight q = None \<Longrightarrow> wq_step q Owner_Gone (q\<lparr>wq_owner_alive := False\<rparr>)"

inductive_cases wq_stepE: "wq_step q e q'"

section \<open>Invariant\<close>

definition wq_inv :: "write_queue \<Rightarrow> bool" where
  "wq_inv q \<longleftrightarrow>
     wq_sent q @ wq_queue q = wq_accepted q \<and>
     (wq_writing q \<longleftrightarrow> wq_in_flight q \<noteq> None) \<and>
     (\<forall>b. wq_in_flight q = Some b \<longrightarrow> wq_queue q \<noteq> [] \<and> b = hd (wq_queue q)) \<and>
     sum_list (map length (wq_queue q)) \<le> wq_queued_bytes q \<and>
     sum_list (map length (wq_queue q)) \<le> wq_high_water q"

lemma wq_inv_new: "wq_inv (wq_new h)"
  by (simp add: wq_inv_def wq_new_def)

lemma wq_inv_push: "wq_inv q \<Longrightarrow> wq_inv (snd (wq_push msg q))"
  by (auto simp: wq_inv_def wq_push_def wq_do_write_def Let_def)

lemma wq_inv_written: "wq_inv q \<Longrightarrow> wq_in_flight q = Some b \<Longrightarrow> wq_inv (wq_on_written ec q)"
  by (cases "wq_queue q") (auto simp: wq_inv_def wq_on_written_def wq_do_write_def Let_def)

lemma wq_inv_stop: "wq_inv q \<Longrightarrow> wq_inv (wq_stop q)"
  by (simp add: wq_inv_def wq_stop_def)

lemma wq_inv_gone: "wq_inv q \<Longrightarrow> wq_inv (q\<lparr>wq_owner_alive := False\<rparr>)"
  by (simp add: wq_inv_def)

interpretation wq: event_system "\<lambda>q. \<exists>h. q = wq_new h" wq_step wq_inv
proof unfold_locales
  show "wq_inv s" if "\<exists>h. s = wq_new h" for s
    using that wq_inv_new by blast
  show "wq_inv t" if "wq_inv s" and "wq_step s e t" for s e t
    using that(2, 1)
    by (elim wq_stepE) (simp_all add: wq_inv_push wq_inv_written wq_inv_stop wq_inv_gone)
qed

section \<open>Properties\<close>

text \<open>C30: In every run of a write queue (pushes, completions with or without error, stop, owner gone,
  in any order), the messages whose write completed are a prefix, in order and without loss or
  duplication, of the messages whose push returned true; what is left of it is the queue. At most
  one write is pending, it is of the front message, and the queued bytes stay under the high
  watermark.\<close>

theorem write_queue_fifo:
  assumes "reachable (\<lambda>q. \<exists>h. q = wq_new h) wq_step q"
  shows "wq_sent q @ wq_queue q = wq_accepted q \<and>
    (wq_writing q \<longleftrightarrow> wq_in_flight q \<noteq> None) \<and>
    (\<forall>b. wq_in_flight q = Some b \<longrightarrow> wq_queue q \<noteq> [] \<and> b = hd (wq_queue q)) \<and>
    sum_list (map length (wq_queue q)) \<le> wq_high_water q"
  using wq.reachable_inv[OF assms] by (auto simp: wq_inv_def)

lemma write_queue_fifo_witness:
  "\<exists>q :: write_queue. wq_accepted q = [[1], [2]] \<and> wq_sent q = [[1]] \<and> wq_sent q @ wq_queue q = wq_accepted q"
proof -
  let ?R = "reachable (\<lambda>q. \<exists>h. q = wq_new h) wq_step"
  let ?a = "snd (wq_push [1] (wq_new 8))"
  let ?b = "snd (wq_push [2] ?a)"
  let ?q = "wq_on_written False ?b"
  have "?R (wq_new 8)"
    by (rule reachable_init) blast
  moreover have "wq_step (wq_new 8) (Push [1]) ?a"
    by (rule step_push) (simp add: wq_new_def)
  moreover have "wq_step ?a (Push [2]) ?b"
    by (rule step_push) (simp add: wq_new_def wq_push_def wq_do_write_def)
  moreover have "wq_step ?b (Written False) ?q"
    by (rule step_written[where b = "[1]"]) (simp add: wq_new_def wq_push_def wq_do_write_def)
  ultimately have r: "?R ?q"
    by (meson reachable_step)
  have "wq_accepted ?q = [[1], [2]]" and "wq_sent ?q = [[1]]"
    by (simp_all add: wq_new_def wq_push_def wq_do_write_def wq_on_written_def Let_def)
  then show ?thesis
    using conjunct1[OF write_queue_fifo[OF r]] by (intro exI[of _ ?q] conjI)
qed

end
