(* ===== verification/Blacklist.thy ===== *)
theory Blacklist
  imports Prelude "HOL-Library.Sublist"
begin

text \<open>
  \<open>src/blacklist.cpp\<close>: the in-memory copy of the three blacklist tables and the three checks the
  authorize handler makes. The result of a database query is an argument of \<open>bl_reload\<close>: its rows, or
  the exception the driver threw.
\<close>

record blacklist =
  bl_addresses :: "string set"
  bl_banned_words :: "string list"
  bl_free_grants :: "string set"

definition bl_empty :: blacklist where
  "bl_empty = \<lparr>bl_addresses = {}, bl_banned_words = [], bl_free_grants = {}\<rparr>"

fun bl_normalize :: "string \<Rightarrow> string" where
  "bl_normalize [] = []"
| "bl_normalize (c # s) = (if is_alnum c then to_lower c # bl_normalize s else bl_normalize s)"

text \<open>\<open>n.find(w) != npos\<close>.\<close>

fun str_contains :: "string \<Rightarrow> string \<Rightarrow> bool" where
  "str_contains [] w = (w = [])"
| "str_contains (c # n) w = (prefix w (c # n) \<or> str_contains n w)"

type_synonym rows = "string list list"

definition column0 :: "rows \<Rightarrow> string list" where
  "column0 rs = map hd (List.filter (\<lambda>r. r \<noteq> []) rs)"

definition bl_reload :: "rows res \<Rightarrow> rows res \<Rightarrow> rows res \<Rightarrow> blacklist \<Rightarrow> blacklist" where
  "bl_reload q_addr q_words q_grants b =
     (case bindE q_addr (\<lambda>ra. bindE q_words (\<lambda>rw. bindE q_grants (\<lambda>rg. Inr (ra, rw, rg)))) of
        Inl e \<Rightarrow> b
      | Inr (ra, rw, rg) \<Rightarrow>
          \<lparr>bl_addresses = set (List.filter (\<lambda>a. a \<noteq> []) (column0 ra)),
           bl_banned_words = List.filter (\<lambda>n. n \<noteq> []) (map bl_normalize (column0 rw)),
           bl_free_grants = set (List.filter (\<lambda>a. a \<noteq> []) (column0 rg))\<rparr>)"

definition bl_address_blocked :: "string \<Rightarrow> blacklist \<Rightarrow> bool" where
  "bl_address_blocked addr b \<longleftrightarrow> addr \<in> bl_addresses b"

definition bl_worker_blocked :: "string \<Rightarrow> blacklist \<Rightarrow> bool" where
  "bl_worker_blocked worker b \<longleftrightarrow>
     (let n = bl_normalize worker
      in n \<noteq> [] \<and> list_ex (\<lambda>w. str_contains n w) (bl_banned_words b))"

definition kFreeToken :: string where "kFreeToken = ''freehashrate''"

definition bl_worker_is_free :: "string \<Rightarrow> bool" where
  "bl_worker_is_free worker \<longleftrightarrow> str_contains (bl_normalize worker) kFreeToken"

definition bl_free_granted :: "string \<Rightarrow> blacklist \<Rightarrow> bool" where
  "bl_free_granted addr b \<longleftrightarrow> addr \<in> bl_free_grants b"

section \<open>Normalization\<close>

lemma str_contains_sublist: "str_contains n w \<longleftrightarrow> sublist w n"
proof (induction n)
  case Nil
  then show ?case by simp
next
  case (Cons c n)
  then show ?case by (simp add: sublist_Cons_right)
qed

lemma bl_normalize_append [simp]: "bl_normalize (s @ t) = bl_normalize s @ bl_normalize t"
  by (induction s) auto

lemma sublist_normalize: "sublist s t \<Longrightarrow> sublist (bl_normalize s) (bl_normalize t)"
  unfolding sublist_def by (metis bl_normalize_append)

lemma to_lower_fixed: "is_alnum c \<Longrightarrow> is_lower_digit (to_lower c)"
  by (auto simp: is_alnum_def to_lower_def is_upper_def is_lower_digit_def)

lemma normalize_chars: "list_all is_lower_digit (bl_normalize s)"
  by (induction s) (auto simp: to_lower_fixed)

lemma bl_normalize_id: "list_all is_lower_digit s \<Longrightarrow> bl_normalize s = s"
  by (induction s) (auto simp: is_alnum_def to_lower_def is_upper_def is_lower_digit_def)

lemma bl_normalize_idem: "bl_normalize (bl_normalize s) = bl_normalize s"
  by (rule bl_normalize_id[OF normalize_chars])

lemma bl_reload_ok:
  "bl_reload (Inr ra) (Inr rw) (Inr rg) b =
    \<lparr>bl_addresses = set (column0 ra) - {[]},
     bl_banned_words = List.filter (\<lambda>n. n \<noteq> []) (map bl_normalize (column0 rw)),
     bl_free_grants = set (column0 rg) - {[]}\<rparr>"
  by (auto simp: bl_reload_def)

section \<open>Properties\<close>

text \<open>After a successful reload a worker name is blocked exactly when its lower-case alphanumeric
  form contains the lower-case alphanumeric form of some non-blank banned word; so any name that
  contains a banned word, in any case and with any separators put in, is blocked. A reload in which
  any of the three queries fails leaves the previous state.\<close>

theorem worker_blocked_after_reload:
  assumes "b' = bl_reload (Inr ra) (Inr rw) (Inr rg) b"
  shows "(bl_worker_blocked worker b' \<longleftrightarrow>
      (\<exists>word \<in> set (column0 rw). bl_normalize word \<noteq> [] \<and> sublist (bl_normalize word) (bl_normalize worker))) \<and>
    (\<forall>word \<in> set (column0 rw). bl_normalize word \<noteq> [] \<longrightarrow> sublist word worker \<longrightarrow> bl_worker_blocked worker b') \<and>
    (\<forall>e q. bl_reload (Inl e) q q b = b \<and> bl_reload q (Inl e) q b = b \<and> bl_reload q q (Inl e) b = b)"
proof -
  have iff: "bl_worker_blocked worker b' \<longleftrightarrow>
      (\<exists>word \<in> set (column0 rw). bl_normalize word \<noteq> [] \<and> sublist (bl_normalize word) (bl_normalize worker))"
    by (auto simp: assms bl_reload_ok bl_worker_blocked_def str_contains_sublist Let_def list_ex_iff)
  have "bl_reload (Inl e) q q b = b" "bl_reload q (Inl e) q b = b" "bl_reload q q (Inl e) b = b" for e q
    by (cases q; simp add: bl_reload_def)+
  with iff show ?thesis
    using sublist_normalize by blast
qed

lemma worker_blocked_after_reload_witness:
  "bl_worker_blocked ''My.B-A-d_Rig1'' (bl_reload (Inr []) (Inr [[''bAd''], [], [''...'']]) (Inr []) bl_empty)"
proof -
  have "bl_normalize ''My.B-A-d_Rig1'' = ''my'' @ ''bad'' @ ''rig1''"
    and "bl_normalize ''bAd'' = ''bad''"
    by code_simp+
  then have "sublist (bl_normalize ''bAd'') (bl_normalize ''My.B-A-d_Rig1'')" and "bl_normalize ''bAd'' \<noteq> []"
    by (simp_all only: sublist_appendI) simp
  moreover have "''bAd'' \<in> set (column0 [[''bAd''], [], [''...'']])"
    by (simp add: column0_def)
  ultimately show ?thesis
    using worker_blocked_after_reload[OF refl] by blast
qed

end
