(* ===== verification/Merkle.thy ===== *)
theory Merkle
  imports Utils
begin

text \<open>
  \<open>src/merkle.cpp\<close>: the coinbase's merkle branch and the root computed from it. The double SHA-256
  of OpenSSL is the parameter \<open>H\<close>, of which only the output length is assumed.
\<close>

definition from_hex :: "hex \<Rightarrow> bytes res" where
  "from_hex h =
     (if length h mod 2 \<noteq> 0 then Inl (Runtime_Error ''odd hex length'')
      else case hex_pairs h of Inl _ \<Rightarrow> Inl (Runtime_Error ''bad hex'') | Inr b \<Rightarrow> Inr b)"

definition pad_even :: "'a list \<Rightarrow> 'a list" where
  "pad_even level = (if length level mod 2 \<noteq> 0 then level @ [last level] else level)"

fun pair_hash :: "(bytes \<Rightarrow> bytes) \<Rightarrow> bytes list \<Rightarrow> bytes list" where
  "pair_hash H (a # b # level) = H (a @ b) # pair_hash H level"
| "pair_hash H level = []"

lemma length_pair_hash [simp, length_facts]: "length (pair_hash H level) = length level div 2"
  by (induction H level rule: pair_hash.induct) auto

lemma length_pad_even: "length (pad_even level) = length level + length level mod 2"
  by (auto simp: pad_even_def)

function branch_loop :: "(bytes \<Rightarrow> bytes) \<Rightarrow> bytes list \<Rightarrow> bytes list" where
  "branch_loop H level =
     (if length level \<le> 1 then []
      else let level = pad_even level in level ! 1 # branch_loop H (pair_hash H level))"
  by pat_completeness auto
termination
  by (relation "measure (\<lambda>(H, level). length level)") (auto simp: length_pad_even)

declare branch_loop.simps [simp del]

definition leaf_of_hex :: "hex \<Rightarrow> bytes res" where
  "leaf_of_hex h =
     bindE (from_hex h) (\<lambda>b.
       if length b \<noteq> 32 then Inl (Runtime_Error ''merkle: txid not 32 bytes'') else Inr b)"

definition build_branch_le_hex :: "(bytes \<Rightarrow> bytes) \<Rightarrow> hex list \<Rightarrow> hex list res" where
  "build_branch_le_hex H txids_le_hex =
     bindE (traverseE leaf_of_hex txids_le_hex) (\<lambda>leaves.
       Inr (map bytes_to_hex (branch_loop H (replicate 32 0 # leaves))))"

fun root_loop :: "(bytes \<Rightarrow> bytes) \<Rightarrow> bytes \<Rightarrow> hex list \<Rightarrow> bytes res" where
  "root_loop H cur [] = Inr cur"
| "root_loop H cur (sib_hex # rest) =
     bindE (from_hex sib_hex) (\<lambda>sib.
       if length sib \<noteq> 32 then Inl (Runtime_Error ''branch element length'')
       else root_loop H (H (cur @ sib)) rest)"

definition compute_root_le_hex :: "(bytes \<Rightarrow> bytes) \<Rightarrow> hex \<Rightarrow> hex list \<Rightarrow> hex res" where
  "compute_root_le_hex H coinbase_txid_le_hex branch_le_hex =
     bindE (from_hex coinbase_txid_le_hex) (\<lambda>cur.
       if length cur \<noteq> 32 then Inl (Runtime_Error ''coinbase txid length'')
       else bindE (root_loop H cur branch_le_hex) (\<lambda>r. Inr (bytes_to_hex r)))"

section \<open>Reference: the merkle root of a list of leaves\<close>

function merkle_root :: "(bytes \<Rightarrow> bytes) \<Rightarrow> bytes list \<Rightarrow> bytes" where
  "merkle_root H level =
     (if length level \<le> 1 then hd level else merkle_root H (pair_hash H (pad_even level)))"
  by pat_completeness auto
termination
  by (relation "measure (\<lambda>(H, level). length level)") (auto simp: length_pad_even)

declare merkle_root.simps [simp del]

lemma from_hex_bytes_to_hex [simp]: "from_hex (bytes_to_hex b) = Inr b"
  by (simp add: from_hex_def)

lemma from_hex_Inr_iff: "from_hex h = Inr b \<longleftrightarrow> hex_to_bytes h = Inr b"
  by (auto simp: from_hex_def hex_to_bytes_def split: sum.splits)

text \<open>One level up, the path stays in slot 0 and the rest does not depend on it.\<close>

lemma level_up:
  assumes "1 < length (x # rest)"
  obtains sib up where
    "\<And>z. pad_even (z # rest) ! 1 = sib"
    "\<And>z. pair_hash H (pad_even (z # rest)) = H (z @ sib) # up"
    "length up < length rest"
    "sib \<in> set rest"
    "\<And>u. u \<in> set up \<Longrightarrow> u \<in> range H"
proof -
  obtain s rs where rest: "rest = s # rs"
    using assms by (cases rest) auto
  define ext where "ext = (if length rs mod 2 \<noteq> 0 then rs @ [last rest] else rs)"
  have pad: "pad_even (z # rest) = z # s # ext" for z
    by (auto simp: pad_even_def ext_def rest split: if_splits)
  have "u \<in> range H" if "u \<in> set (pair_hash H l)" for u l
    using that by (induction H l rule: pair_hash.induct) auto
  moreover have "length (pair_hash H ext) < length rest"
    by (auto simp: ext_def rest)
  ultimately show ?thesis
    using that[of s "pair_hash H ext"] unfolding pad unfolding rest by simp
qed

lemma branch_loop_root:
  assumes H: "\<And>b. length (H b) = 32"
    and "length cb = 32" "\<forall>t \<in> set rest. length t = 32"
  shows "root_loop H cb (map bytes_to_hex (branch_loop H (x # rest))) = Inr (merkle_root H (cb # rest))"
  using assms(2, 3)
proof (induction "length rest" arbitrary: cb rest x rule: less_induct)
  case less
  show ?case
  proof (cases "rest = []")
    case True
    then show ?thesis
      by (simp add: branch_loop.simps merkle_root.simps)
  next
    case False
    then have "1 < length (x # rest)"
      by simp
    then obtain sib up where u: "\<And>z. pad_even (z # rest) ! 1 = sib"
        "\<And>z. pair_hash H (pad_even (z # rest)) = H (z @ sib) # up"
        "length up < length rest" "sib \<in> set rest" "\<And>v. v \<in> set up \<Longrightarrow> v \<in> range H"
      using level_up by metis
    have "root_loop H (H (cb @ sib)) (map bytes_to_hex (branch_loop H (H (x @ sib) # up))) =
        Inr (merkle_root H (H (cb @ sib) # up))"
      using u(5) H by (intro less(1)[OF u(3)]) auto
    moreover have "length sib = 32"
      using u(4) less.prems by blast
    moreover have "branch_loop H (x # rest) = sib # branch_loop H (H (x @ sib) # up)"
      using False by (subst branch_loop.simps) (simp add: Let_def u(1, 2) del: One_nat_def)
    moreover have "merkle_root H (cb # rest) = merkle_root H (H (cb @ sib) # up)"
      using False by (subst merkle_root.simps) (simp add: u(2))
    ultimately show ?thesis
      by simp
  qed
qed

section \<open>Properties\<close>

text \<open>C27: For any double-SHA function with 32-byte outputs, the branch \<open>build_branch_le_hex\<close> gives
  for a block's transaction ids, folded onto any coinbase txid by \<open>compute_root_le_hex\<close>, is the merkle
  root of the whole list of leaves with the coinbase first (odd levels padded with their last node).
  The branch does not depend on the coinbase, which is what lets the pool send it before the
  extranonce is known.\<close>

theorem merkle_branch_gives_root:
  assumes "\<And>b. length (H b) = 32" and "length cb = 32" and "\<forall>t \<in> set txs. length t = 32"
  shows "bindE (build_branch_le_hex H (map bytes_to_hex txs)) (compute_root_le_hex H (bytes_to_hex cb)) =
    Inr (bytes_to_hex (merkle_root H (cb # txs)))"
proof -
  have "traverseE leaf_of_hex (map bytes_to_hex txs) = Inr txs"
    using assms(3) by (induction txs) (auto simp: leaf_of_hex_def)
  then show ?thesis
    using branch_loop_root[of H cb txs] assms
    by (simp add: build_branch_le_hex_def compute_root_le_hex_def)
qed

lemma merkle_branch_gives_root_witness:
  "bindE (build_branch_le_hex (\<lambda>b. replicate 32 (hd b + 1)) (map bytes_to_hex [replicate 32 2, replicate 32 3]))
     (compute_root_le_hex (\<lambda>b. replicate 32 (hd b + 1)) (bytes_to_hex (replicate 32 7))) =
   Inr (bytes_to_hex (merkle_root (\<lambda>b. replicate 32 (hd b + 1)) [replicate 32 7, replicate 32 2, replicate 32 3]))"
  by (rule merkle_branch_gives_root) simp_all

end
