(* ===== verification/Floats.thy ===== *)
theory Floats
  imports Complex_Main "HOL-Library.Log_Nat"
begin

text \<open>
  Floating point as the sources use it: a finite value is a \<open>rat\<close>, and every operation of the code
  rounds its exact result to \<open>p\<close> significant bits, ties to even (\<open>rnd 53\<close> for \<open>double\<close>, \<open>rnd 64\<close> for
  the x87 \<open>long double\<close>). The exponent range is unbounded: overflow to infinity and subnormals are not
  modelled, and no NaN arises because each division in the modelled code is guarded.
  \<open>rnd\<close> is monotone, odd, exact on representable values and within half a unit in the last place.
\<close>

definition ilog2 :: "rat \<Rightarrow> int" where
  "ilog2 x =
     (let (n, d) = quotient_of x; k = bitlen n - bitlen d
      in if 2 powi k \<le> x then k else k - 1)"

definition round_even :: "rat \<Rightarrow> int" where
  "round_even x =
     (let f = \<lfloor>x\<rfloor>; d = x - of_int f
      in if d < 1 / 2 then f else if d > 1 / 2 then f + 1 else if even f then f else f + 1)"

definition rnd :: "nat \<Rightarrow> rat \<Rightarrow> rat" where
  "rnd p x =
     (if x = 0 then 0
      else let e = ilog2 \<bar>x\<bar> - (int p - 1)
           in of_int (round_even (x / 2 powi e)) * 2 powi e)"

abbreviation dbl :: "rat \<Rightarrow> rat" where "dbl \<equiv> rnd 53"
abbreviation ldbl :: "rat \<Rightarrow> rat" where "ldbl \<equiv> rnd 64"

text \<open>\<open>std::round\<close>: halves away from zero.\<close>

definition round_away :: "rat \<Rightarrow> rat" where
  "round_away x = (if 0 \<le> x then of_int \<lfloor>x + 1 / 2\<rfloor> else - of_int \<lfloor>- x + 1 / 2\<rfloor>)"

section \<open>Exponents\<close>

lemma powi_pos [simp]: "0 < (2 :: rat) powi k"
  by simp

lemma powi_add_one: "(2 :: rat) powi (k + 1) = 2 * 2 powi k"
  by (simp add: power_int_add)

lemma powi_mono: "j \<le> k \<Longrightarrow> (2 :: rat) powi j \<le> 2 powi k"
  by (rule power_int_increasing) simp_all

lemma powi_less_imp: "(2 :: rat) powi j < 2 powi k \<Longrightarrow> j < k"
  using powi_mono[of k j] by (meson leD leI)

lemma bitlen_rat_bounds:
  assumes "0 < n"
  shows "(2 :: rat) powi (bitlen n - 1) \<le> of_int n" and "of_int n < (2 :: rat) powi bitlen n"
proof -
  have b: "1 \<le> bitlen n"
    using assms bitlen_eq_zero_iff[of n] bitlen_nonneg[of n] by linarith
  have lo: "2 ^ nat (bitlen n - 1) \<le> n" and hi: "n < 2 ^ nat (bitlen n)"
    using bitlen_bounds[OF assms] by simp_all
  have "(2 :: rat) ^ nat (bitlen n - 1) \<le> of_int n" and "of_int n < (2 :: rat) ^ nat (bitlen n)"
    using lo hi by (metis of_int_le_iff of_int_numeral of_int_power)
      (metis hi of_int_less_iff of_int_numeral of_int_power)
  then show "(2 :: rat) powi (bitlen n - 1) \<le> of_int n" and "of_int n < (2 :: rat) powi bitlen n"
    using b by (simp_all add: power_int_def)
qed

lemma ilog2_bounds:
  assumes "0 < x"
  shows "2 powi ilog2 x \<le> x" and "x < 2 powi (ilog2 x + 1)"
proof -
  obtain n d where q: "quotient_of x = (n, d)"
    by force
  have d: "0 < d" and x: "x = of_int n / of_int d"
    using quotient_of_denom_pos[OF q] quotient_of_div[OF q] by simp_all
  with assms have n: "0 < n"
    by (simp add: zero_less_divide_iff)
  let ?k = "bitlen n - bitlen d"
  have "(2 :: rat) powi (?k - 1) * of_int d \<le> 2 powi (?k - 1) * (2 powi bitlen d)"
    using bitlen_rat_bounds(2)[OF d] by (intro mult_left_mono) auto
  also have "\<dots> = 2 powi (bitlen n - 1)"
    by (simp flip: power_int_add)
  also have "\<dots> \<le> of_int n"
    by (rule bitlen_rat_bounds(1)[OF n])
  finally have lo: "2 powi (?k - 1) \<le> x"
    using d by (simp add: x pos_le_divide_eq)
  have "of_int n < (2 :: rat) powi bitlen n"
    by (rule bitlen_rat_bounds(2)[OF n])
  also have "\<dots> = 2 powi (?k + 1) * 2 powi (bitlen d - 1)"
    by (simp flip: power_int_add)
  also have "\<dots> \<le> 2 powi (?k + 1) * of_int d"
    using bitlen_rat_bounds(1)[OF d] by (intro mult_left_mono) auto
  finally have hi: "x < 2 powi (?k + 1)"
    using d by (simp add: x pos_divide_less_eq)
  show "2 powi ilog2 x \<le> x" and "x < 2 powi (ilog2 x + 1)"
    using lo hi by (simp_all add: ilog2_def q Let_def)
qed

lemma ilog2_mono:
  assumes "0 < x" and "x \<le> y"
  shows "ilog2 x \<le> ilog2 y"
proof -
  have "0 < y"
    using assms by simp
  then have "2 powi ilog2 x < (2 :: rat) powi (ilog2 y + 1)"
    using ilog2_bounds(1)[OF assms(1)] ilog2_bounds(2)[of y] assms(2) by linarith
  then show ?thesis
    using powi_less_imp by fastforce
qed

section \<open>Rounding\<close>

lemma round_even_bounds: "\<bar>of_int (round_even x) - x\<bar> \<le> 1 / 2"
  using floor_correct[of x] by (auto simp: round_even_def Let_def abs_le_iff)

lemma round_even_of_int [simp]: "round_even (of_int k) = k"
  by (simp add: round_even_def)

lemma round_even_mono:
  assumes "x \<le> y"
  shows "round_even x \<le> round_even y"
proof (cases "\<lfloor>x\<rfloor> = \<lfloor>y\<rfloor>")
  case True
  with assms show ?thesis
    by (auto simp: round_even_def Let_def)
next
  case False
  with assms have "\<lfloor>x\<rfloor> + 1 \<le> \<lfloor>y\<rfloor>"
    using floor_mono[OF assms] by linarith
  moreover have "round_even x \<le> \<lfloor>x\<rfloor> + 1" and "\<lfloor>y\<rfloor> \<le> round_even y"
    by (auto simp: round_even_def Let_def)
  ultimately show ?thesis
    by linarith
qed

lemma round_even_minus: "round_even (- x) = - round_even x"
proof (cases "x = of_int \<lfloor>x\<rfloor>")
  case True
  then show ?thesis
    by (metis of_int_minus round_even_of_int)
next
  case False
  then have "of_int \<lfloor>x\<rfloor> < x"
    using of_int_floor_le[of x] by (metis order.not_eq_order_implies_strict)
  then have "\<lfloor>- x\<rfloor> = - \<lfloor>x\<rfloor> - 1"
    using floor_correct[of x] by (intro floor_unique) auto
  then show ?thesis
    using floor_correct[of x] by (auto simp: round_even_def Let_def)
qed

lemma rnd_0 [simp]: "rnd p 0 = 0"
  by (simp add: rnd_def)

lemma rnd_minus: "rnd p (- x) = - rnd p x"
  by (simp add: rnd_def Let_def round_even_minus)

lemma powi_shift: "(2 :: rat) powi (k + int n) = of_int (2 ^ n) * 2 powi k"
  by (simp add: power_int_add)

lemma rnd_pos_bounds:
  assumes "0 < x" and "0 < p"
  shows "2 powi ilog2 x \<le> rnd p x" and "rnd p x \<le> 2 powi (ilog2 x + 1)"
proof -
  let ?e = "ilog2 x - (int p - 1)"
  have r: "rnd p x = of_int (round_even (x / 2 powi ?e)) * 2 powi ?e"
    using assms by (simp add: rnd_def Let_def)
  have lo: "of_int (2 ^ (p - 1)) * 2 powi ?e = (2 :: rat) powi ilog2 x"
    using powi_shift[of ?e "p - 1"] assms(2) by (simp add: of_nat_diff)
  have hi: "of_int (2 ^ p) * 2 powi ?e = (2 :: rat) powi (ilog2 x + 1)"
    using powi_shift[of ?e p] by simp
  have "of_int (2 ^ (p - 1)) \<le> x / 2 powi ?e" and "x / 2 powi ?e \<le> of_int (2 ^ p)"
    using ilog2_bounds(1)[OF assms(1)] less_imp_le[OF ilog2_bounds(2)[OF assms(1)]]
    by (simp_all only: pos_le_divide_eq[OF powi_pos] pos_divide_le_eq[OF powi_pos] lo hi)
  then have "2 ^ (p - 1) \<le> round_even (x / 2 powi ?e)" and "round_even (x / 2 powi ?e) \<le> 2 ^ p"
    using round_even_mono round_even_of_int by metis+
  then have "of_int (2 ^ (p - 1)) * 2 powi ?e \<le> rnd p x" and "rnd p x \<le> of_int (2 ^ p) * 2 powi ?e"
    unfolding r by (intro mult_right_mono; simp only: of_int_le_iff; simp)+
  then show "2 powi ilog2 x \<le> rnd p x" and "rnd p x \<le> 2 powi (ilog2 x + 1)"
    by (simp_all only: lo hi)
qed

lemma rnd_mono_pos:
  assumes "0 < x" and "x \<le> y" and "0 < p"
  shows "rnd p x \<le> rnd p y"
proof (cases "ilog2 x = ilog2 y")
  case True
  then show ?thesis
    using assms by (auto simp: rnd_def Let_def intro!: mult_right_mono round_even_mono divide_right_mono)
next
  case False
  then have "ilog2 x + 1 \<le> ilog2 y"
    using ilog2_mono[OF assms(1, 2)] by simp
  then have "(2 :: rat) powi (ilog2 x + 1) \<le> 2 powi ilog2 y"
    by (rule powi_mono)
  with rnd_pos_bounds(2)[OF assms(1, 3)] rnd_pos_bounds(1)[of y p] assms show ?thesis
    by linarith
qed

lemma rnd_pos: "0 < x \<Longrightarrow> 0 < p \<Longrightarrow> 0 < rnd p x"
  using rnd_pos_bounds(1)[of x p] powi_pos[of "ilog2 x"] by linarith

lemma rnd_mono:
  assumes "x \<le> y" and "0 < p"
  shows "rnd p x \<le> rnd p y"
proof -
  consider "0 < x" | "y < 0" | "x \<le> 0" "0 \<le> y"
    using assms by linarith
  then show ?thesis
  proof cases
    case 1
    then show ?thesis by (rule rnd_mono_pos[OF _ assms])
  next
    case 2
    then have "rnd p (- y) \<le> rnd p (- x)"
      using assms by (intro rnd_mono_pos) auto
    then show ?thesis by (simp add: rnd_minus)
  next
    case 3
    have "rnd p x \<le> 0"
      using 3 rnd_pos[of "- x" p] assms(2) by (cases "x = 0") (auto simp: rnd_minus)
    moreover have "0 \<le> rnd p y"
      using 3 rnd_pos[of y p] assms(2) by (cases "y = 0") auto
    ultimately show ?thesis by simp
  qed
qed

lemma rnd_nonneg: "0 \<le> x \<Longrightarrow> 0 < p \<Longrightarrow> 0 \<le> rnd p x"
  using rnd_mono[of 0 x p] by simp

text \<open>Integers of at most \<open>p\<close> bits, scaled by any power of two, are represented exactly.\<close>

lemma rnd_exact_pos:
  assumes "0 < m" and "m < 2 ^ p" and "0 < p"
  shows "rnd p (of_int m * 2 powi k) = of_int m * 2 powi k"
proof -
  let ?x = "of_int m * 2 powi k :: rat"
  define e where "e = ilog2 ?x - (int p - 1)"
  have x: "0 < ?x"
    using assms(1) by simp
  have "of_int m * 2 powi k < of_int (2 ^ p) * (2 :: rat) powi k"
    using assms(2) by (intro mult_strict_right_mono) (simp_all only: of_int_less_iff, simp_all)
  then have "2 powi ilog2 ?x < (2 :: rat) powi (k + int p)"
    using ilog2_bounds(1)[OF x] powi_shift[of k p] by linarith
  then have e: "e \<le> k"
    using powi_less_imp unfolding e_def by fastforce
  have pk: "(2 :: rat) powi k = of_int (2 ^ nat (k - e)) * 2 powi e"
    using powi_shift[of e "nat (k - e)"] e by simp
  have "?x / 2 powi e = of_int (m * 2 ^ nat (k - e))"
    unfolding pk by simp
  then have "round_even (?x / 2 powi e) = m * 2 ^ nat (k - e)"
    by (simp only: round_even_of_int)
  then have "rnd p ?x = of_int (m * 2 ^ nat (k - e)) * 2 powi e"
    using x unfolding rnd_def Let_def e_def by simp
  also have "\<dots> = ?x"
    unfolding pk by simp
  finally show ?thesis .
qed

lemma rnd_exact:
  assumes "\<bar>m\<bar> < 2 ^ p" and "0 < p"
  shows "rnd p (of_int m * 2 powi k) = of_int m * 2 powi k"
proof -
  consider "m = 0" | "0 < m" | "m < 0"
    by linarith
  then show ?thesis
  proof cases
    case 3
    then have "rnd p (of_int (- m) * 2 powi k) = of_int (- m) * 2 powi k"
      using assms by (intro rnd_exact_pos) auto
    then show ?thesis
      using rnd_minus[of p "of_int m * 2 powi k"] by simp
  qed (use assms in \<open>auto intro: rnd_exact_pos\<close>)
qed

lemma rnd_of_int: "\<bar>m\<bar> < 2 ^ p \<Longrightarrow> 0 < p \<Longrightarrow> rnd p (of_int m) = of_int m"
  using rnd_exact[of m p 0] by simp

lemma rnd_of_nat: "n < 2 ^ p \<Longrightarrow> 0 < p \<Longrightarrow> rnd p (of_nat n) = of_nat n"
  using rnd_of_int[of "int n" p] by simp

text \<open>Relative error of one rounding.\<close>

lemma rnd_error:
  assumes "0 < x" and "0 < p"
  shows "\<bar>rnd p x - x\<bar> \<le> x / 2 ^ p"
proof -
  let ?e = "ilog2 x - (int p - 1)"
  have r: "rnd p x - x = (of_int (round_even (x / 2 powi ?e)) - x / 2 powi ?e) * 2 powi ?e"
    using assms by (simp add: rnd_def Let_def left_diff_distrib)
  have "\<bar>rnd p x - x\<bar> \<le> 1 / 2 * 2 powi ?e"
    unfolding r abs_mult using round_even_bounds[of "x / 2 powi ?e"]
    by (intro mult_mono) auto
  then have "2 ^ p * \<bar>rnd p x - x\<bar> \<le> 2 ^ p * (1 / 2 * 2 powi ?e)"
    by (rule mult_left_mono) simp
  also have "\<dots> \<le> x"
    using ilog2_bounds(1)[OF assms(1)] powi_shift[of ?e p] powi_add_one[of "ilog2 x"] by simp
  finally show ?thesis
    by (simp add: pos_le_divide_eq mult.commute)
qed

end
