(* ===== verification/Rate_Limiter.thy ===== *)
theory Rate_Limiter
  imports Prelude Floats
begin

text \<open>
  \<open>src/rate_limiter.cpp\<close>: the per-address accept bucket, the invalid-share counter and the bans. The
  clock reading \<open>steady_clock::now()\<close> is an argument, in nanoseconds; the token count is a double
  (\<open>dbl\<close> rounds each operation). Both locks of \<open>allow_connection\<close> are held within one call, so each
  operation is one step of the state.
\<close>

record rl_config =
  max_connections_per_ip :: u32
  accept_burst :: u32
  accept_refill_per_sec :: rat
  invalid_share_ban_threshold :: u32
  invalid_share_window :: int
  ban_duration :: int

record bucket =
  bk_tokens :: rat
  bk_last :: int
  bk_open_connections :: u32
  bk_invalid_shares :: u32
  bk_invalid_window_start :: int

definition new_bucket :: bucket where
  "new_bucket = \<lparr>bk_tokens = 0, bk_last = 0, bk_open_connections = 0, bk_invalid_shares = 0,
     bk_invalid_window_start = 0\<rparr>"

record rate_limiter =
  rl_cfg :: rl_config
  rl_buckets :: "string \<rightharpoonup> bucket"
  rl_bans :: "string \<rightharpoonup> int"

definition rl_new :: "rl_config \<Rightarrow> rate_limiter" where
  "rl_new cfg = \<lparr>rl_cfg = cfg, rl_buckets = Map.empty, rl_bans = Map.empty\<rparr>"

text \<open>\<open>buckets_[ip]\<close>: creates a zeroed bucket when there is none.\<close>

definition bucket_of :: "string \<Rightarrow> rate_limiter \<Rightarrow> bucket" where
  "bucket_of ip r = (case rl_buckets r ip of None \<Rightarrow> new_bucket | Some b \<Rightarrow> b)"

definition set_bucket :: "string \<Rightarrow> bucket \<Rightarrow> rate_limiter \<Rightarrow> rate_limiter" where
  "set_bucket ip b r = r\<lparr>rl_buckets := (rl_buckets r)(ip \<mapsto> b)\<rparr>"

text \<open>A 32-bit integer converts to double exactly.\<close>

definition u32_dbl :: "u32 \<Rightarrow> rat" where
  "u32_dbl n = rat_of_nat (unat n)"

lemma u32_dbl_nonneg [simp]: "0 \<le> u32_dbl n"
  unfolding u32_dbl_def by (rule of_nat_0_le_iff)

lemma dbl_u32_dbl: "dbl (u32_dbl n) = u32_dbl n"
  unfolding u32_dbl_def using order.strict_trans2[OF unat_bounds(3)[of n], of "2 ^ 53"]
  by (intro rnd_of_nat) simp_all

definition seconds_of :: "int \<Rightarrow> rat" where
  "seconds_of ns = dbl (dbl (of_int ns) / 10 ^ 9)"

definition refill_locked :: "rl_config \<Rightarrow> int \<Rightarrow> bucket \<Rightarrow> bucket" where
  "refill_locked cfg now b =
     (let elapsed = seconds_of (now - bk_last b)
      in if elapsed > 0 then
           b\<lparr>bk_tokens := min (u32_dbl (accept_burst cfg))
                          (dbl (bk_tokens b + dbl (elapsed * accept_refill_per_sec cfg))),
             bk_last := now\<rparr>
         else b)"

definition admit :: "string \<Rightarrow> int \<Rightarrow> rate_limiter \<Rightarrow> bool \<times> rate_limiter" where
  "admit ip now r =
     (let cfg = rl_cfg r; b = bucket_of ip r;
          b = (if bk_last b = 0 then b\<lparr>bk_tokens := u32_dbl (accept_burst cfg), bk_last := now\<rparr> else b);
          b = refill_locked cfg now b
      in if bk_tokens b < 1 then (False, set_bucket ip b r)
         else if bk_open_connections b \<ge> max_connections_per_ip cfg then (False, set_bucket ip b r)
         else (True, set_bucket ip (b\<lparr>bk_tokens := dbl (bk_tokens b - 1),
                                      bk_open_connections := bk_open_connections b + 1\<rparr>) r))"

definition allow_connection :: "string \<Rightarrow> int \<Rightarrow> rate_limiter \<Rightarrow> bool \<times> rate_limiter" where
  "allow_connection ip now r =
     (case rl_bans r ip of
        Some until \<Rightarrow>
          if now < until then (False, r) else admit ip now (r\<lparr>rl_bans := (rl_bans r)(ip := None)\<rparr>)
      | None \<Rightarrow> admit ip now r)"

definition rl_on_disconnect :: "string \<Rightarrow> rate_limiter \<Rightarrow> rate_limiter" where
  "rl_on_disconnect ip r =
     (case rl_buckets r ip of
        None \<Rightarrow> r
      | Some b \<Rightarrow>
          if bk_open_connections b > 0
          then set_bucket ip (b\<lparr>bk_open_connections := bk_open_connections b - 1\<rparr>) r else r)"

definition rl_ban :: "string \<Rightarrow> int \<Rightarrow> int \<Rightarrow> rate_limiter \<Rightarrow> rate_limiter" where
  "rl_ban ip duration now r = r\<lparr>rl_bans := (rl_bans r)(ip \<mapsto> now + duration)\<rparr>"

definition is_banned :: "string \<Rightarrow> int \<Rightarrow> rate_limiter \<Rightarrow> bool" where
  "is_banned ip now r = (case rl_bans r ip of None \<Rightarrow> False | Some until \<Rightarrow> now < until)"

definition record_invalid_share :: "string \<Rightarrow> int \<Rightarrow> rate_limiter \<Rightarrow> bool \<times> rate_limiter" where
  "record_invalid_share ip now r =
     (let cfg = rl_cfg r; b = bucket_of ip r;
          b = (if bk_invalid_window_start b = 0 \<or> now - bk_invalid_window_start b > invalid_share_window cfg
               then b\<lparr>bk_invalid_window_start := now, bk_invalid_shares := 0\<rparr> else b);
          b = b\<lparr>bk_invalid_shares := bk_invalid_shares b + 1\<rparr>
      in if bk_invalid_shares b \<ge> invalid_share_ban_threshold cfg
         then (True, set_bucket ip (b\<lparr>bk_invalid_shares := 0\<rparr>)
                       (r\<lparr>rl_bans := (rl_bans r)(ip \<mapsto> now + ban_duration cfg)\<rparr>))
         else (False, set_bucket ip b r))"

definition clear_invalid :: "string \<Rightarrow> rate_limiter \<Rightarrow> rate_limiter" where
  "clear_invalid ip r =
     (case rl_buckets r ip of
        None \<Rightarrow> r | Some b \<Rightarrow> set_bucket ip (b\<lparr>bk_invalid_shares := 0\<rparr>) r)"

definition rl_snapshot :: "string list \<Rightarrow> rate_limiter \<Rightarrow> nat \<times> nat" where
  "rl_snapshot ips r =
     (sum_list (map (\<lambda>ip. unat (bk_open_connections (bucket_of ip r))) ips),
      length (List.filter (\<lambda>ip. rl_bans r ip \<noteq> None) ips))"

section \<open>Runs\<close>

datatype rl_event =
  Accept string int | Disconnect string | Ban string int int | Invalid string int | Clear string

definition rl_apply :: "rl_event \<Rightarrow> rate_limiter \<Rightarrow> rate_limiter" where
  "rl_apply e r =
     (case e of
        Accept ip now \<Rightarrow> snd (allow_connection ip now r)
      | Disconnect ip \<Rightarrow> rl_on_disconnect ip r
      | Ban ip d now \<Rightarrow> rl_ban ip d now r
      | Invalid ip now \<Rightarrow> snd (record_invalid_share ip now r)
      | Clear ip \<Rightarrow> clear_invalid ip r)"

definition rl_step :: "rate_limiter \<Rightarrow> rl_event \<Rightarrow> rate_limiter \<Rightarrow> bool" where
  "rl_step r e r' \<longleftrightarrow> r' = rl_apply e r"

definition bucket_ok :: "rl_config \<Rightarrow> bucket \<Rightarrow> bool" where
  "bucket_ok cfg b \<longleftrightarrow>
     0 \<le> bk_tokens b \<and> bk_tokens b \<le> u32_dbl (accept_burst cfg) \<and>
     bk_open_connections b \<le> max_connections_per_ip cfg \<and>
     (bk_invalid_shares b < invalid_share_ban_threshold cfg \<or> bk_invalid_shares b = 0)"

definition rl_inv :: "rate_limiter \<Rightarrow> bool" where
  "rl_inv r \<longleftrightarrow>
     0 \<le> accept_refill_per_sec (rl_cfg r) \<and> (\<forall>ip b. rl_buckets r ip = Some b \<longrightarrow> bucket_ok (rl_cfg r) b)"

lemma bucket_ok_new: "bucket_ok cfg new_bucket"
  by (simp add: bucket_ok_def new_bucket_def)

lemma bucket_of_ok: "rl_inv r \<Longrightarrow> bucket_ok (rl_cfg r) (bucket_of ip r)"
  by (auto simp: rl_inv_def bucket_of_def bucket_ok_new split: option.split)

lemma set_bucket_inv: "rl_inv r \<Longrightarrow> bucket_ok (rl_cfg r) b \<Longrightarrow> rl_inv (set_bucket ip b r)"
  by (auto simp: rl_inv_def set_bucket_def)

lemma refill_ok:
  assumes "bucket_ok cfg b" and "0 \<le> accept_refill_per_sec cfg"
  shows "bucket_ok cfg (refill_locked cfg now b)"
  using assms by (auto simp: refill_locked_def bucket_ok_def Let_def intro!: rnd_nonneg add_nonneg_nonneg)

lemma dbl_dec_le:
  assumes "1 \<le> t" and "t \<le> u32_dbl n"
  shows "0 \<le> dbl (t - 1) \<and> dbl (t - 1) \<le> u32_dbl n"
  using assms rnd_mono[of "t - 1" "u32_dbl n" 53] by (simp add: rnd_nonneg dbl_u32_dbl)

lemma admit_inv:
  assumes "rl_inv r"
  shows "rl_inv (snd (admit ip now r))"
proof -
  let ?cfg = "rl_cfg r" and ?b0 = "bucket_of ip r"
  let ?b1 = "if bk_last ?b0 = 0 then ?b0\<lparr>bk_tokens := u32_dbl (accept_burst ?cfg), bk_last := now\<rparr> else ?b0"
  let ?b = "refill_locked ?cfg now ?b1"
  have "bucket_ok ?cfg ?b1"
    using bucket_of_ok[OF assms, of ip] by (auto simp: bucket_ok_def)
  then have b: "bucket_ok ?cfg ?b"
    using assms by (intro refill_ok) (auto simp: rl_inv_def)
  moreover have "bucket_ok ?cfg (?b\<lparr>bk_tokens := dbl (bk_tokens ?b - 1), bk_open_connections := bk_open_connections ?b + 1\<rparr>)"
    if "\<not> bk_tokens ?b < 1" "\<not> bk_open_connections ?b \<ge> max_connections_per_ip ?cfg"
    using b that dbl_dec_le[of "bk_tokens ?b" "accept_burst ?cfg"]
    by (auto simp: bucket_ok_def inc_le not_le)
  ultimately show ?thesis
    using assms by (auto simp: admit_def Let_def intro: set_bucket_inv)
qed

lemma admit_cfg [simp]: "rl_cfg (snd (admit ip now r)) = rl_cfg r"
  by (simp add: admit_def set_bucket_def Let_def)

lemma rl_inv_bans [simp]: "rl_inv (r\<lparr>rl_bans := bans\<rparr>) = rl_inv r"
  by (simp add: rl_inv_def)

lemma allow_connection_inv: "rl_inv r \<Longrightarrow> rl_inv (snd (allow_connection ip now r))"
  by (auto simp: allow_connection_def admit_inv split: option.split)

lemma rl_on_disconnect_inv: "rl_inv r \<Longrightarrow> rl_inv (rl_on_disconnect ip r)"
  unfolding rl_on_disconnect_def
proof (cases "rl_buckets r ip")
  case (Some b)
  assume inv: "rl_inv r"
  then have "bucket_ok (rl_cfg r) b"
    using Some by (simp add: rl_inv_def)
  moreover have "bk_open_connections b - 1 \<le> bk_open_connections b" if "bk_open_connections b > 0"
    using that by (simp add: word_le_nat_alt unat_minus_one word_greater_zero_iff)
  ultimately have "bucket_ok (rl_cfg r) (b\<lparr>bk_open_connections := bk_open_connections b - 1\<rparr>)"
    if "bk_open_connections b > 0"
    using that by (auto simp: bucket_ok_def)
  with inv Some show "rl_inv (case rl_buckets r ip of None \<Rightarrow> r | Some b \<Rightarrow>
      if bk_open_connections b > 0
      then set_bucket ip (b\<lparr>bk_open_connections := bk_open_connections b - 1\<rparr>) r else r)"
    by (simp add: set_bucket_inv)
qed simp

lemma record_invalid_share_inv:
  assumes "rl_inv r"
  shows "rl_inv (snd (record_invalid_share ip now r))"
  using assms bucket_of_ok[OF assms, of ip]
  by (auto simp: record_invalid_share_def Let_def bucket_ok_def not_le intro!: set_bucket_inv)

lemma clear_invalid_inv: "rl_inv r \<Longrightarrow> rl_inv (clear_invalid ip r)"
  by (auto simp: clear_invalid_def rl_inv_def set_bucket_def bucket_ok_def split: option.split)

interpretation rl: event_system "\<lambda>r. \<exists>cfg. 0 \<le> accept_refill_per_sec cfg \<and> r = rl_new cfg" rl_step rl_inv
proof unfold_locales
  show "rl_inv s" if "\<exists>cfg. 0 \<le> accept_refill_per_sec cfg \<and> s = rl_new cfg" for s
    using that by (auto simp: rl_inv_def rl_new_def)
  show "rl_inv t" if "rl_inv s" "rl_step s e t" for s e t
    using that by (auto simp: rl_step_def rl_apply_def rl_ban_def allow_connection_inv rl_on_disconnect_inv
        record_invalid_share_inv clear_invalid_inv split: rl_event.splits)
qed

section \<open>Bans\<close>

lemma banned_refused: "is_banned ip now r \<Longrightarrow> allow_connection ip now r = (False, r)"
  by (auto simp: is_banned_def allow_connection_def split: option.splits)

text \<open>Events that cannot shorten a ban of \<open>ip\<close> running until \<open>T\<close>.\<close>

definition keeps_ban :: "string \<Rightarrow> int \<Rightarrow> rl_config \<Rightarrow> rl_event \<Rightarrow> bool" where
  "keeps_ban ip T cfg e =
     (case e of
        Accept _ now \<Rightarrow> now < T
      | Ban ip' d now \<Rightarrow> ip' = ip \<longrightarrow> T \<le> now + d
      | Invalid ip' now \<Rightarrow> ip' = ip \<longrightarrow> T \<le> now + ban_duration cfg
      | _ \<Rightarrow> True)"

definition banned_until :: "string \<Rightarrow> int \<Rightarrow> rate_limiter \<Rightarrow> bool" where
  "banned_until ip T r \<longleftrightarrow> (\<exists>u. rl_bans r ip = Some u \<and> T \<le> u)"

definition rl_run :: "rl_event list \<Rightarrow> rate_limiter \<Rightarrow> rate_limiter" where
  "rl_run es r = fold rl_apply es r"

lemma admit_bans [simp]: "rl_bans (snd (admit ip now r)) = rl_bans r"
  by (simp add: admit_def set_bucket_def Let_def)

lemma event_keeps_ban:
  assumes "banned_until ip T r" and "keeps_ban ip T (rl_cfg r) e"
  shows "banned_until ip T (rl_run [e] r) \<and> rl_cfg (rl_run [e] r) = rl_cfg r"
  using assms
  by (cases e)
    (auto simp: banned_until_def keeps_ban_def rl_run_def rl_apply_def allow_connection_def rl_on_disconnect_def
      rl_ban_def record_invalid_share_def clear_invalid_def set_bucket_def Let_def split: option.splits)

lemma rl_run_Cons: "rl_run (e # es) r = rl_run es (rl_run [e] r)"
  by (simp add: rl_run_def)

lemma run_keeps_ban:
  "banned_until ip T r \<Longrightarrow> list_all (keeps_ban ip T (rl_cfg r)) es \<Longrightarrow> banned_until ip T (rl_run es r)"
proof (induction es arbitrary: r)
  case Nil
  then show ?case by (simp add: rl_run_def)
next
  case (Cons e es)
  then show ?case
    using event_keeps_ban[of ip T r e] by (simp add: rl_run_Cons[of e es])
qed

section \<open>Properties\<close>

text \<open>C32: In every run of the rate limiter (accepts, disconnects, bans and invalid shares at any clock
  readings), each address has between zero and \<open>accept_burst\<close> tokens (under double rounding), at most
  \<open>max_connections_per_ip\<close> open connections, and an invalid-share count below the ban threshold.\<close>

theorem rate_limiter_bounds:
  assumes "reachable (\<lambda>r. \<exists>cfg. 0 \<le> accept_refill_per_sec cfg \<and> r = rl_new cfg) rl_step r"
    and "rl_buckets r ip = Some b"
  shows "0 \<le> bk_tokens b \<and> bk_tokens b \<le> u32_dbl (accept_burst (rl_cfg r)) \<and>
    bk_open_connections b \<le> max_connections_per_ip (rl_cfg r) \<and>
    (bk_invalid_shares b < invalid_share_ban_threshold (rl_cfg r) \<or> bk_invalid_shares b = 0)"
  using rl.reachable_inv[OF assms(1)] assms(2) by (auto simp: rl_inv_def bucket_ok_def)

abbreviation sample_cfg :: rl_config where
  "sample_cfg \<equiv> \<lparr>max_connections_per_ip = 2, accept_burst = 3, accept_refill_per_sec = 1,
     invalid_share_ban_threshold = 2, invalid_share_window = 300, ban_duration = 3600\<rparr>"

lemma rate_limiter_bounds_witness:
  "\<exists>b. rl_buckets (clear_invalid ''a'' (snd (record_invalid_share ''a'' 5 (rl_new sample_cfg)))) ''a'' = Some b \<and>
     bk_open_connections b \<le> 2"
proof -
  let ?R = "reachable (\<lambda>r. \<exists>cfg. 0 \<le> accept_refill_per_sec cfg \<and> r = rl_new cfg) rl_step"
  let ?r1 = "snd (record_invalid_share ''a'' 5 (rl_new sample_cfg))"
  let ?r2 = "clear_invalid ''a'' ?r1"
  have "?R (rl_new sample_cfg)"
    by (rule reachable_init) (rule exI[of _ sample_cfg], simp)
  moreover have "rl_step (rl_new sample_cfg) (Invalid ''a'' 5) ?r1" and "rl_step ?r1 (Clear ''a'') ?r2"
    by (simp_all add: rl_step_def rl_apply_def)
  ultimately have r: "?R ?r2"
    by (meson reachable_step)
  have cfg: "rl_cfg ?r2 = sample_cfg" and "\<exists>b. rl_buckets ?r2 ''a'' = Some b"
    by (simp_all add: clear_invalid_def record_invalid_share_def bucket_of_def set_bucket_def rl_new_def Let_def
        new_bucket_def split: option.split)
  then show ?thesis
    using rate_limiter_bounds[OF r] cfg by fastforce
qed

text \<open>Once an address is banned until \<open>T\<close> (by \<open>ban\<close>, or by the invalid share that makes
  \<open>record_invalid_share\<close> return true, for \<open>ban_duration\<close>), it stays banned: after any later events with
  earlier clock readings, \<open>is_banned\<close> is true and \<open>allow_connection\<close> refuses it and changes nothing, for
  every time before \<open>T\<close>.\<close>

theorem ban_holds_until_expiry:
  assumes "record_invalid_share ip now r = (True, r1)"
    and "list_all (keeps_ban ip (now + ban_duration (rl_cfg r)) (rl_cfg r)) es"
    and "t < now + ban_duration (rl_cfg r)"
  shows "is_banned ip t (rl_run es r1) \<and> allow_connection ip t (rl_run es r1) = (False, rl_run es r1)"
proof -
  have "banned_until ip (now + ban_duration (rl_cfg r)) r1" and "rl_cfg r1 = rl_cfg r"
    using assms(1) by (auto simp: record_invalid_share_def banned_until_def set_bucket_def Let_def split: if_splits)
  then have "banned_until ip (now + ban_duration (rl_cfg r)) (rl_run es r1)"
    using run_keeps_ban assms(2) by simp
  with assms(3) have "is_banned ip t (rl_run es r1)"
    by (auto simp: banned_until_def is_banned_def)
  then show ?thesis
    by (simp add: banned_refused)
qed

lemma ban_holds_until_expiry_witness:
  "is_banned ''a'' 100 (rl_run [Accept ''a'' 7, Ban ''b'' 1 8, Clear ''a'']
     (snd (record_invalid_share ''a'' 6 (snd (record_invalid_share ''a'' 5 (rl_new sample_cfg))))))"
proof -
  let ?r = "snd (record_invalid_share ''a'' 5 (rl_new sample_cfg))"
  have "record_invalid_share ''a'' 6 ?r = (True, snd (record_invalid_share ''a'' 6 ?r))"
      and "ban_duration (rl_cfg ?r) = 3600"
    by (simp_all add: record_invalid_share_def bucket_of_def set_bucket_def rl_new_def Let_def new_bucket_def)
  then show ?thesis
    using ban_holds_until_expiry[of "''a''" 6 ?r _ "[Accept ''a'' 7, Ban ''b'' 1 8, Clear ''a'']" 100]
    by (simp add: keeps_ban_def)
qed

end
