(* ===== verification/Vardiff.thy ===== *)
theory Vardiff
  imports Prelude Floats
begin

text \<open>
  \<open>src/vardiff.cpp\<close>: the difficulty controller of a session. Doubles are rationals rounded by \<open>dbl\<close>
  after every operation, clock readings are nanoseconds (0 is the unset \<open>time_point{}\<close>), and
  \<open>std::exp\<close> is the parameter \<open>ex\<close>.
\<close>

record vd_config =
  min_difficulty :: rat
  max_difficulty :: rat

record vardiff =
  vd_cfg :: vd_config
  vd_current_diff :: rat
  vd_dsps1 :: rat
  vd_dsps5 :: rat
  vd_first_share_ts :: int
  vd_last_share_ts :: int
  vd_last_diff_change_ts :: int
  vd_ssdc :: u64

definition kOptimalMultiplier :: rat where "kOptimalMultiplier = dbl (333 / 100)"
definition kDrrLow :: rat where "kDrrLow = dbl (15 / 100)"
definition kDrrHigh :: rat where "kDrrHigh = dbl (40 / 100)"
definition kSharesPerCheck :: u64 where "kSharesPerCheck = 72"
definition kCheckSeconds :: rat where "kCheckSeconds = 240"
definition kFastWindowSeconds :: rat where "kFastWindowSeconds = 60"
definition kSlowWindowSeconds :: rat where "kSlowWindowSeconds = 300"

definition decay_time :: "(rat \<Rightarrow> rat) \<Rightarrow> rat \<Rightarrow> rat \<Rightarrow> rat \<Rightarrow> rat \<Rightarrow> rat" where
  "decay_time ex f fadd fsecs interval =
     (if fsecs \<le> 0 then f
      else let dexp = dbl (fsecs / interval);
               dexp = (if dexp > 36 then 36 else dexp);
               fprop = dbl (1 - dbl (1 / ex dexp));
               ftotal = dbl (1 + fprop);
               f = dbl (f + dbl (dbl (fadd / fsecs) * fprop));
               f = dbl (f / ftotal)
           in if f < dbl (2 / 10 ^ 16) then 0 else f)"

definition time_bias :: "(rat \<Rightarrow> rat) \<Rightarrow> rat \<Rightarrow> rat \<Rightarrow> rat" where
  "time_bias ex tdiff period =
     (let dexp = dbl (tdiff / period); dexp = (if dexp > 36 then 36 else dexp)
      in dbl (1 - dbl (1 / ex dexp)))"

definition secs_since :: "int \<Rightarrow> int \<Rightarrow> rat" where
  "secs_since a b =
     (let s = dbl (dbl (of_int (a - b)) / 10 ^ 9) in if s < dbl (1 / 1000) then dbl (1 / 1000) else s)"

definition clamp :: "rat \<Rightarrow> rat \<Rightarrow> rat \<Rightarrow> rat" where
  "clamp v lo hi = (if v < lo then lo else if hi < v then hi else v)"

definition vd_new :: "vd_config \<Rightarrow> rat \<Rightarrow> vardiff" where
  "vd_new cfg initial_difficulty =
     \<lparr>vd_cfg = cfg,
      vd_current_diff = clamp (round_away initial_difficulty) (min_difficulty cfg) (max_difficulty cfg),
      vd_dsps1 = 0, vd_dsps5 = 0, vd_first_share_ts = 0, vd_last_share_ts = 0,
      vd_last_diff_change_ts = 0, vd_ssdc = 0\<rparr>"

definition vd_set_current :: "rat \<Rightarrow> vardiff \<Rightarrow> vardiff" where
  "vd_set_current diff v =
     v\<lparr>vd_current_diff := diff, vd_ssdc := 0, vd_first_share_ts := 0, vd_last_share_ts := 0,
       vd_last_diff_change_ts := 0\<rparr>"

text \<open>The clamps of \<open>on_share\<close>, from the rounded optimum to the difficulty it considers.\<close>

definition clamp_optimal :: "vd_config \<Rightarrow> rat \<Rightarrow> rat \<Rightarrow> rat" where
  "clamp_optimal cfg network_diff optimal =
     (let optimal = max optimal (min_difficulty cfg);
          optimal = (if max_difficulty cfg > 0 then min optimal (max_difficulty cfg) else optimal)
      in if network_diff > 0 then min optimal network_diff else optimal)"

text \<open>What every share after the first does to the estimates and the share count.\<close>

definition vd_update :: "(rat \<Rightarrow> rat) \<Rightarrow> int \<Rightarrow> rat \<Rightarrow> vardiff \<Rightarrow> vardiff" where
  "vd_update ex now observed_share_diff v =
     (let decay_dt = secs_since now (vd_last_share_ts v)
      in v\<lparr>vd_last_share_ts := now,
           vd_dsps1 := decay_time ex (vd_dsps1 v) observed_share_diff decay_dt kFastWindowSeconds,
           vd_dsps5 := decay_time ex (vd_dsps5 v) observed_share_diff decay_dt kSlowWindowSeconds,
           vd_ssdc := vd_ssdc v + 1\<rparr>)"

definition vd_dsps :: "(rat \<Rightarrow> rat) \<Rightarrow> rat \<Rightarrow> vardiff \<Rightarrow> rat" where
  "vd_dsps ex bdiff v =
     (if vd_ssdc v \<ge> kSharesPerCheck
      then dbl (vd_dsps1 v / time_bias ex bdiff kFastWindowSeconds)
      else dbl (vd_dsps5 v / time_bias ex bdiff kSlowWindowSeconds))"

definition vd_on_share ::
    "(rat \<Rightarrow> rat) \<Rightarrow> int \<Rightarrow> rat \<Rightarrow> rat \<Rightarrow> vardiff \<Rightarrow> rat option \<times> vardiff" where
  "vd_on_share ex now observed_share_diff network_diff v =
     (if vd_first_share_ts v = 0 then
        (None, v\<lparr>vd_first_share_ts := now, vd_last_share_ts := now, vd_last_diff_change_ts := now, vd_ssdc := 1\<rparr>)
      else
        let v = vd_update ex now observed_share_diff v;
            bdiff = secs_since now (vd_first_share_ts v);
            tdiff = secs_since now (vd_last_diff_change_ts v)
        in if vd_ssdc v < kSharesPerCheck \<and> tdiff < kCheckSeconds then (None, v)
        else if observed_share_diff \<noteq> vd_current_diff v then (None, v\<lparr>vd_ssdc := 0\<rparr>)
        else
          let dsps = vd_dsps ex bdiff v;
              drr = dbl (dsps / vd_current_diff v)
          in if drr > kDrrLow \<and> drr < kDrrHigh then (None, v)
          else
            let optimal = clamp_optimal (vd_cfg v) network_diff (round_away (dbl (dsps * kOptimalMultiplier)))
            in if optimal < 1 then (None, v)
            else if optimal = vd_current_diff v then (None, v)
            else if optimal < vd_current_diff v \<and> vd_ssdc v = 1 then (None, v\<lparr>vd_last_diff_change_ts := now\<rparr>)
            else (Some optimal, v\<lparr>vd_ssdc := 0, vd_last_diff_change_ts := now, vd_current_diff := optimal\<rparr>))"

lemma vd_update_simps [simp]:
  "vd_cfg (vd_update ex now obs v) = vd_cfg v"
  "vd_current_diff (vd_update ex now obs v) = vd_current_diff v"
  "vd_first_share_ts (vd_update ex now obs v) = vd_first_share_ts v"
  "vd_last_diff_change_ts (vd_update ex now obs v) = vd_last_diff_change_ts v"
  "vd_ssdc (vd_update ex now obs v) = vd_ssdc v + 1"
  by (simp_all add: vd_update_def Let_def)

lemma clamp_optimal_bounds:
  "0 < max_difficulty cfg \<Longrightarrow> clamp_optimal cfg net opt \<le> max_difficulty cfg"
  "0 < net \<Longrightarrow> clamp_optimal cfg net opt \<le> net"
  "min_difficulty cfg \<le> clamp_optimal cfg net opt \<or>
    (0 < max_difficulty cfg \<and> clamp_optimal cfg net opt = max_difficulty cfg) \<or>
    (0 < net \<and> clamp_optimal cfg net opt = net)"
  by (auto simp: clamp_optimal_def Let_def min_def max_def)

section \<open>Estimates stay non-negative\<close>

lemma decay_time_nonneg:
  assumes "\<And>x. 0 \<le> x \<Longrightarrow> 1 \<le> ex x" and "0 \<le> f" and "0 \<le> fadd" and "0 < interval"
  shows "0 \<le> decay_time ex f fadd fsecs interval"
proof (cases "fsecs \<le> 0")
  case False
  define dexp where "dexp = (let d = dbl (fsecs / interval) in if d > 36 then 36 else d)"
  have "0 \<le> dexp"
    using False assms(4) by (auto simp: dexp_def Let_def intro!: rnd_nonneg)
  then have "1 \<le> ex dexp"
    by (rule assms(1))
  then have "dbl (1 / ex dexp) \<le> dbl 1"
    by (intro rnd_mono) (auto simp: divide_le_eq)
  also have "dbl 1 = 1"
    using rnd_of_int[of 1 53] by simp
  finally have fprop: "dbl (1 / ex dexp) \<le> 1" .
  show ?thesis
    using False assms(2, 3) fprop
    by (auto simp: decay_time_def Let_def dexp_def
        intro!: rnd_nonneg divide_nonneg_nonneg add_nonneg_nonneg mult_nonneg_nonneg)
qed (simp add: decay_time_def assms)

section \<open>Properties\<close>

text \<open>When \<open>on_share\<close> returns a new difficulty, it is the controller's new current difficulty, it
  differs from the old one, is at least 1, at most the configured maximum and the network difficulty
  (when those are positive), and at least the configured minimum unless one of those caps is lower;
  the share count since the change is reset, and the retarget was due: 72 shares since the last
  change or 240 seconds, on a share of the current difficulty.\<close>

theorem vardiff_retarget:
  assumes "vd_on_share ex now obs net v = (Some d, v')"
  shows "vd_current_diff v' = d \<and> d \<noteq> vd_current_diff v \<and> 1 \<le> d \<and>
    (0 < max_difficulty (vd_cfg v) \<longrightarrow> d \<le> max_difficulty (vd_cfg v)) \<and>
    (0 < net \<longrightarrow> d \<le> net) \<and>
    (min_difficulty (vd_cfg v) \<le> d \<or> (0 < max_difficulty (vd_cfg v) \<and> d = max_difficulty (vd_cfg v)) \<or> (0 < net \<and> d = net)) \<and>
    vd_ssdc v' = 0 \<and> vd_last_diff_change_ts v' = now \<and> obs = vd_current_diff v \<and>
    (kSharesPerCheck \<le> vd_ssdc v + 1 \<or> kCheckSeconds \<le> secs_since now (vd_last_diff_change_ts v))"
  using assms clamp_optimal_bounds[where cfg = "vd_cfg v" and net = net]
  unfolding vd_on_share_def Let_def by (auto simp: not_less split: if_splits)


abbreviation sample_vd :: vardiff where
  "sample_vd \<equiv> \<lparr>vd_cfg = \<lparr>min_difficulty = 1, max_difficulty = 10 ^ 9\<rparr>, vd_current_diff = 1000,
     vd_dsps1 = 0, vd_dsps5 = 0, vd_first_share_ts = 1, vd_last_share_ts = 1,
     vd_last_diff_change_ts = 1, vd_ssdc = 80\<rparr>"

lemma vardiff_retarget_witness:
  "\<exists>v'. vd_on_share (\<lambda>x. 2) (300 * 10 ^ 9) 1000 500 sample_vd = (Some 7, v') \<and>
     vd_current_diff v' = 7 \<and> vd_ssdc v' = 0"
proof -
  have "fst (vd_on_share (\<lambda>x. 2) (300 * 10 ^ 9) 1000 500 sample_vd) = Some 7"
    by code_simp
  then obtain v' where v': "vd_on_share (\<lambda>x. 2) (300 * 10 ^ 9) 1000 500 sample_vd = (Some 7, v')"
    by (metis prod.collapse)
  from vardiff_retarget[OF this] have "vd_current_diff v' = 7 \<and> vd_ssdc v' = 0"
    by blast
  with v' show ?thesis
    by blast
qed

text \<open>The decaying averages never go negative: if \<open>std::exp\<close> is at least 1 on non-negative
  arguments and every observed share difficulty is non-negative, both estimates stay non-negative
  over any sequence of shares at any clock readings.\<close>

theorem vardiff_estimates_nonneg:
  assumes "\<And>x. 0 \<le> x \<Longrightarrow> 1 \<le> ex x" and "list_all (\<lambda>(now, obs, net). 0 \<le> obs) shares"
    and "v = fold (\<lambda>(now, obs, net) v. snd (vd_on_share ex now obs net v)) shares (vd_new cfg d)"
  shows "0 \<le> vd_dsps1 v \<and> 0 \<le> vd_dsps5 v"
  unfolding assms(3)
proof (rule fold_inv)
  show "0 \<le> vd_dsps1 (vd_new cfg d) \<and> 0 \<le> vd_dsps5 (vd_new cfg d)"
    by (simp add: vd_new_def)
next
  fix e and w :: vardiff
  assume "e \<in> set shares" and w: "0 \<le> vd_dsps1 w \<and> 0 \<le> vd_dsps5 w"
  then obtain now obs net where e: "e = (now, obs, net)" and obs: "0 \<le> obs"
    using assms(2) by (cases e) (auto simp: list_all_iff)
  have "0 \<le> vd_dsps1 (vd_update ex now obs w) \<and> 0 \<le> vd_dsps5 (vd_update ex now obs w)"
    using w obs assms(1)
    by (auto simp: vd_update_def Let_def kFastWindowSeconds_def kSlowWindowSeconds_def intro!: decay_time_nonneg)
  with w show "0 \<le> vd_dsps1 ((\<lambda>(now, obs, net) v. snd (vd_on_share ex now obs net v)) e w) \<and>
      0 \<le> vd_dsps5 ((\<lambda>(now, obs, net) v. snd (vd_on_share ex now obs net v)) e w)"
    by (auto simp: e vd_on_share_def Let_def)
qed

lemma vardiff_estimates_nonneg_witness:
  "0 \<le> vd_dsps1 (fold (\<lambda>(now, obs, net) v. snd (vd_on_share (\<lambda>x. 1 + x) now obs net v))
     [(1, 16, 0), (2000000000, 16, 0)] (vd_new \<lparr>min_difficulty = 1, max_difficulty = 10 ^ 9\<rparr> 16))"
  using vardiff_estimates_nonneg[where ex = "\<lambda>x. 1 + x" and shares = "[(1, 16, 0), (2000000000, 16, 0)]", OF _ _ refl]
  by simp

end
