(* ===== verification/Json.thy ===== *)
theory Json
  imports Utils Floats
begin

text \<open>
  JSON values as the sources see them through \<open>nlohmann::json\<close>: the text parser and printer are the
  library's, a parsed value is a \<open>json\<close>. An object is its key-value list (nlohmann keeps one value
  per key). The accessors follow the library: \<open>value(k, d)\<close> is the default when the key is absent and
  converts the value otherwise, a conversion of the wrong type throws \<open>type_error\<close>, numbers convert
  to each other by \<open>static_cast\<close> (so an integer wraps to the width asked for).
\<close>

datatype json =
  JNull | JBool bool | JInt int | JFloat rat | JStr string | JArr "json list"
| JObj "(string \<times> json) list"

definition type_error :: exn where
  "type_error = Runtime_Error ''json.exception.type_error''"

fun is_object :: "json \<Rightarrow> bool" where "is_object (JObj _) = True" | "is_object _ = False"
fun is_array :: "json \<Rightarrow> bool" where "is_array (JArr _) = True" | "is_array _ = False"
fun is_string :: "json \<Rightarrow> bool" where "is_string (JStr _) = True" | "is_string _ = False"
fun is_number :: "json \<Rightarrow> bool" where
  "is_number (JInt _) = True" | "is_number (JFloat _) = True" | "is_number _ = False"

fun jfield :: "json \<Rightarrow> string \<Rightarrow> json option" where
  "jfield (JObj kvs) k = map_of kvs k"
| "jfield _ k = None"

definition contains :: "json \<Rightarrow> string \<Rightarrow> bool" where
  "contains j k \<longleftrightarrow> jfield j k \<noteq> None"

fun jelems :: "json \<Rightarrow> json list" where
  "jelems (JArr js) = js"
| "jelems _ = []"

fun get_string :: "json \<Rightarrow> string res" where
  "get_string (JStr s) = Inr s"
| "get_string _ = Inl type_error"

definition trunc :: "rat \<Rightarrow> int" where
  "trunc x = (if 0 \<le> x then \<lfloor>x\<rfloor> else - \<lfloor>- x\<rfloor>)"

text \<open>\<open>get<std::int64_t>\<close> accepts numbers; the other integer widths also accept booleans.\<close>

fun get_i64 :: "json \<Rightarrow> int res" where
  "get_i64 (JInt i) = Inr (sint (of_int i :: i64))"
| "get_i64 (JFloat x) = Inr (sint (of_int (trunc x) :: i64))"
| "get_i64 _ = Inl type_error"

fun get_u32 :: "json \<Rightarrow> u32 res" where
  "get_u32 (JInt i) = Inr (of_int i)"
| "get_u32 (JFloat x) = Inr (of_int (trunc x))"
| "get_u32 (JBool b) = Inr (if b then 1 else 0)"
| "get_u32 _ = Inl type_error"

definition get_i32 :: "json \<Rightarrow> int res" where
  "get_i32 j = bindE (get_u32 j) (\<lambda>w. Inr (sint w))"

fun get_double :: "json \<Rightarrow> rat res" where
  "get_double (JInt i) = Inr (dbl (of_int i))"
| "get_double (JFloat x) = Inr x"
| "get_double _ = Inl type_error"

definition value_or :: "(json \<Rightarrow> 'a res) \<Rightarrow> json \<Rightarrow> string \<Rightarrow> 'a \<Rightarrow> 'a res" where
  "value_or get j k d =
     (case j of
        JObj kvs \<Rightarrow> (case map_of kvs k of None \<Rightarrow> Inr d | Some v \<Rightarrow> get v)
      | _ \<Rightarrow> Inl type_error)"

end
