(* ===== verification/Stratifier.thy ===== *)
theory Stratifier
  imports Json Job_Window Merkle
begin

text \<open>
  \<open>src/stratifier.cpp\<close>: from a block template of the node to a published mining job, the window of
  recent jobs, the duplicate-share table of the current block and the best share of the round.

  \<open>parseTemplate\<close> works on the json value of the RPC answer. The double SHA-256 of the merkle branch is
  the parameter \<open>H\<close>, the random word of a job id the parameter \<open>gen\<close>. Each operation runs under its
  mutex and is one step; the lock-free maximum of \<open>note_share_diff\<close> is modelled by its atomic steps in
  the last section. Money is \<open>int\<close> (int64 in the code, read from the template with its wrap-around).
\<close>

datatype chain_kind =
  Bitcoin | BitcoinCash | BitcoinII | DigiByte | ECash | Zcash | Litecoin | Dogecoin | BitcoinCashII

record coin_config =
  chain :: chain_kind
  donationAddress :: string
  donationPercent :: rat
  coinbaseSignature :: string
  enableVersionRolling :: bool
  versionRollingMask :: u32

record template_tx =
  tx_data :: hex
  tx_txid_le :: hex
  tx_fee :: int
  tx_sigops :: int
  tx_weight :: int

record block_template =
  bt_version :: int
  bt_previousblockhash :: hex
  bt_coinbasevalue :: int
  bt_target :: hex
  bt_mintime :: u32
  bt_curtime :: u32
  bt_bits :: hex
  bt_height :: int
  bt_default_witness_commitment :: hex
  bt_reserved :: hex
  bt_zcash_merkle_root :: hex
  bt_zcash_coinbase_data :: hex
  bt_segwit_active :: bool
  bt_transactions :: "template_tx list"
  bt_miner_fund_address :: string
  bt_miner_fund_value :: int
  bt_staking_rewards_script :: hex
  bt_staking_rewards_value :: int
  bt_rtt :: "(u32 list \<times> u32) option"
  bt_aux_enabled :: bool
  bt_aux_version :: u32
  bt_aux_prevhash :: hex
  bt_aux_bits :: hex
  bt_aux_curtime :: u32
  bt_aux_height :: int
  bt_aux_coinbasevalue :: int
  bt_aux_target :: hex
  bt_mweb :: hex

section \<open>Parsing the template\<close>

text \<open>\<open>coinbasetxn.minerfund\<close> and \<open>coinbasetxn.stakingrewards\<close>, eCash only.\<close>

definition parse_miner_fund :: "json \<Rightarrow> (string \<times> int) res" where
  "parse_miner_fund cb =
     (case jfield cb ''minerfund'' of
        Some mf \<Rightarrow>
          if is_object mf then
            bindE (value_or get_i64 mf ''minimumvalue'' 0) (\<lambda>v.
              case jfield mf ''addresses'' of
                Some (JArr (a # _)) \<Rightarrow> bindE (get_string a) (\<lambda>s. Inr (s, v))
              | _ \<Rightarrow> Inr ([], v))
          else Inr ([], 0)
      | None \<Rightarrow> Inr ([], 0))"

definition parse_staking :: "json \<Rightarrow> (hex \<times> int) res" where
  "parse_staking cb =
     (case jfield cb ''stakingrewards'' of
        Some sr \<Rightarrow>
          if is_object sr then
            bindE (value_or get_i64 sr ''minimumvalue'' 0) (\<lambda>v.
              case jfield sr ''payoutscript'' of
                Some ps \<Rightarrow> if is_object ps
                  then bindE (value_or get_string ps ''hex'' []) (\<lambda>s. Inr (s, v)) else Inr ([], v)
              | None \<Rightarrow> Inr ([], v))
          else Inr ([], 0)
      | None \<Rightarrow> Inr ([], 0))"

text \<open>The \<open>rtt\<close> object: five positive receive times and eight hex digits of \<open>prevbits\<close>, or nothing.\<close>

definition rtt_time :: "json \<Rightarrow> u32 option" where
  "rtt_time v =
     (if \<not> is_number v then None
      else case get_i64 v of Inr t \<Rightarrow> if t \<le> 0 then None else Some (of_int t) | Inl _ \<Rightarrow> None)"

definition parse_rtt :: "json \<Rightarrow> ((u32 list \<times> u32) option) res" where
  "parse_rtt r =
     (case jfield r ''rtt'' of
        Some rtt \<Rightarrow>
          (case (jfield rtt ''prevheadertime'', contains rtt ''prevbits'') of
             (Some (JArr ts), True) \<Rightarrow>
               if length ts \<ge> 5 then
                 bindE (value_or get_string rtt ''prevbits'' []) (\<lambda>pb.
                   let pht = those (map rtt_time (take 5 ts))
                   in case pht of
                        Some ts' \<Rightarrow> if length pb = 8 \<and> valid_hex pb
                          then Inr (Some (ts', of_nat (hex_digits_val pb 0))) else Inr None
                      | None \<Rightarrow> Inr None)
               else Inr None
           | _ \<Rightarrow> Inr None)
      | None \<Rightarrow> Inr None)"

definition parse_tx :: "json \<Rightarrow> template_tx res" where
  "parse_tx jt =
     bindE (value_or get_string jt ''data'' []) (\<lambda>data.
     bindE (value_or get_string jt ''hash'' []) (\<lambda>hash.
     bindE (value_or get_string jt ''txid'' hash) (\<lambda>txid_display.
     bindE (value_or get_i64 jt ''fee'' 0) (\<lambda>fee.
     bindE (value_or get_i32 jt ''sigops'' 0) (\<lambda>sigops.
     bindE (value_or get_i32 jt ''weight'' 0) (\<lambda>weight.
       Inr \<lparr>tx_data = data, tx_txid_le = byte_reverse_hex txid_display, tx_fee = fee,
            tx_sigops = sigops, tx_weight = weight\<rparr>))))))"

definition parse_transactions :: "json \<Rightarrow> template_tx list res" where
  "parse_transactions r =
     (case jfield r ''transactions'' of
        Some (JArr txs) \<Rightarrow>
          bindE (traverseE parse_tx txs) (\<lambda>ts. Inr (List.filter (\<lambda>t. tx_txid_le t \<noteq> []) ts))
      | _ \<Rightarrow> Inr [])"

record aux_template =
  ax_enabled :: bool
  ax_version :: u32
  ax_prevhash :: hex
  ax_bits :: hex
  ax_curtime :: u32
  ax_height :: int
  ax_coinbasevalue :: int
  ax_target :: hex

definition no_aux :: aux_template where
  "no_aux = \<lparr>ax_enabled = False, ax_version = 0, ax_prevhash = [], ax_bits = [], ax_curtime = 0,
     ax_height = 0, ax_coinbasevalue = 0, ax_target = []\<rparr>"

definition parse_aux :: "json \<Rightarrow> aux_template res" where
  "parse_aux r =
     (case jfield r ''aux'' of
        Some a \<Rightarrow>
          if is_object a then
            bindE (value_or get_u32 a ''version'' 0) (\<lambda>ver.
            bindE (value_or get_string a ''previousblockhash'' []) (\<lambda>ph.
            bindE (value_or get_string a ''bits'' []) (\<lambda>bits.
            bindE (value_or get_u32 a ''curtime'' 0) (\<lambda>ct.
            bindE (value_or get_i32 a ''height'' 0) (\<lambda>ht.
            bindE (value_or get_i64 a ''coinbasevalue'' 0) (\<lambda>cv.
            bindE (value_or get_string a ''target'' []) (\<lambda>tgt.
              Inr \<lparr>ax_enabled = True, ax_version = ver OR 0x100, ax_prevhash = ph, ax_bits = bits,
                   ax_curtime = ct, ax_height = ht, ax_coinbasevalue = cv, ax_target = tgt\<rparr>)))))))
          else Inr no_aux
      | None \<Rightarrow> Inr no_aux)"

definition parse_template :: "json \<Rightarrow> block_template option res" where
  "parse_template gbt =
     (case jfield gbt ''result'' of
        None \<Rightarrow> Inr None
      | Some r \<Rightarrow>
          if \<not> is_object r then Inr None
          else
            bindE (value_or get_i32 r ''version'' 0) (\<lambda>version.
            bindE (value_or get_string r ''previousblockhash'' []) (\<lambda>prevhash.
            bindE (value_or get_i64 r ''coinbasevalue'' 0) (\<lambda>cbvalue.
            bindE (value_or get_string r ''target'' []) (\<lambda>target.
            bindE (value_or get_u32 r ''mintime'' 0) (\<lambda>mintime.
            bindE (value_or get_u32 r ''curtime'' 0) (\<lambda>curtime.
            bindE (value_or get_string r ''bits'' []) (\<lambda>bits.
            bindE (value_or get_i32 r ''height'' 0) (\<lambda>height.
            bindE (value_or get_string r ''default_witness_commitment'' []) (\<lambda>wc.
            bindE (value_or get_string r ''reserved'' []) (\<lambda>reserved.
            bindE (case jfield r ''defaultroots'' of
                     Some d \<Rightarrow> if is_object d
                       then bindE (value_or get_string d ''merkleroot'' []) (\<lambda>mr.
                            bindE (value_or get_string d ''blockcommitmentshash'' []) (\<lambda>bc. Inr (mr, bc)))
                       else Inr ([], reserved)
                   | None \<Rightarrow> Inr ([], reserved)) (\<lambda>(zroot, reserved).
            let cb = (case jfield r ''coinbasetxn'' of Some c \<Rightarrow> if is_object c then Some c else None | None \<Rightarrow> None)
            in
            bindE (case cb of Some c \<Rightarrow> value_or get_string c ''data'' [] | None \<Rightarrow> Inr []) (\<lambda>zcb.
            bindE (case cb of Some c \<Rightarrow> parse_miner_fund c | None \<Rightarrow> Inr ([], 0)) (\<lambda>(mfa, mfv).
            bindE (case cb of Some c \<Rightarrow> parse_staking c | None \<Rightarrow> Inr ([], 0)) (\<lambda>(srs, srv).
            bindE (parse_rtt r) (\<lambda>rtt.
            bindE (parse_transactions r) (\<lambda>txs.
            bindE (parse_aux r) (\<lambda>aux.
            bindE (value_or get_string r ''mweb'' []) (\<lambda>mweb.
              Inr (Some
                \<lparr>bt_version = version, bt_previousblockhash = prevhash, bt_coinbasevalue = cbvalue,
                 bt_target = target, bt_mintime = mintime, bt_curtime = curtime, bt_bits = bits,
                 bt_height = height, bt_default_witness_commitment = wc, bt_reserved = reserved,
                 bt_zcash_merkle_root = zroot, bt_zcash_coinbase_data = zcb,
                 bt_segwit_active = (wc \<noteq> []), bt_transactions = txs,
                 bt_miner_fund_address = mfa, bt_miner_fund_value = mfv,
                 bt_staking_rewards_script = srs, bt_staking_rewards_value = srv, bt_rtt = rtt,
                 bt_aux_enabled = ax_enabled aux, bt_aux_version = ax_version aux,
                 bt_aux_prevhash = ax_prevhash aux, bt_aux_bits = ax_bits aux,
                 bt_aux_curtime = ax_curtime aux, bt_aux_height = ax_height aux,
                 bt_aux_coinbasevalue = ax_coinbasevalue aux, bt_aux_target = ax_target aux,
                 bt_mweb = mweb\<rparr>))))))))))))))))))))"

section \<open>Mining jobs\<close>

record mining_job =
  mj_job_id :: string
  mj_previousblockhash :: hex
  mj_coinbase1 :: hex
  mj_merkle_branch_le :: "hex list"
  mj_version :: u32
  mj_bits :: hex
  mj_curtime :: u32
  mj_mintime :: u32
  mj_clean_jobs :: bool
  mj_coinbase_value :: int
  mj_total_fees :: int
  mj_height :: int
  mj_witness_commitment :: hex
  mj_reserved :: hex
  mj_zcash_merkle_root_le :: hex
  mj_zcash_full_coinbase_hex :: hex
  mj_segwit_active :: bool
  mj_extranonce1_bytes :: nat
  mj_extranonce2_bytes :: nat
  mj_donation_percent :: rat
  mj_donation_address :: string
  mj_miner_fund_address :: string
  mj_miner_fund_value :: int
  mj_staking_rewards_script :: hex
  mj_staking_rewards_value :: int
  mj_rtt :: "(u32 list \<times> u32) option"
  mj_tx_hexes :: "hex list"
  mj_aux_enabled :: bool
  mj_aux_version :: u32
  mj_aux_prevhash :: hex
  mj_aux_bits :: hex
  mj_aux_curtime :: u32
  mj_aux_height :: int
  mj_aux_coinbasevalue :: int
  mj_aux_target :: hex
  mj_mweb :: hex
  mj_notify_prefix :: string
  mj_notify_suffix :: string

record stratifier =
  st_coin :: coin_config
  st_jobs :: "mining_job job_window"
  st_last_prevhash :: hex
  st_version_mask :: u32
  st_best_share_round :: rat
  st_seen_shares :: "string set"

definition st_new :: "coin_config \<Rightarrow> nat \<Rightarrow> stratifier" where
  "st_new coin window =
     \<lparr>st_coin = coin, st_jobs = jw_new window, st_last_prevhash = [], st_version_mask = 0x1fffe000,
      st_best_share_round = 0, st_seen_shares = {}\<rparr>"

definition set_coin_config :: "coin_config \<Rightarrow> stratifier \<Rightarrow> stratifier" where
  "set_coin_config cc s =
     s\<lparr>st_coin := cc, st_version_mask := (if enableVersionRolling cc then versionRollingMask cc else 0)\<rparr>"

definition latest_job :: "stratifier \<Rightarrow> mining_job option" where
  "latest_job s = jw_latest (st_jobs s)"

definition find_job :: "string \<Rightarrow> stratifier \<Rightarrow> mining_job option" where
  "find_job jid s = jw_find jid (st_jobs s)"

definition find_job_u32 :: "u32 \<Rightarrow> stratifier \<Rightarrow> mining_job option" where
  "find_job_u32 id32 s = jw_find_u32 id32 (st_jobs s)"

text \<open>\<open>generate_job_id\<close> and \<open>generate_job_id_32\<close>, from a random word and the global counter.\<close>

definition generate_job_id :: "u64 \<Rightarrow> u64 \<Rightarrow> string" where
  "generate_job_id gen counter = le_hex_u64 ((gen AND 0xffffffff) XOR counter)"

definition generate_job_id_32 :: "u64 \<Rightarrow> u64 \<Rightarrow> string" where
  "generate_job_id_32 gen counter = int_to_hex (ucast gen XOR ucast counter) 8"

section \<open>From a template to a job\<close>

definition zeros64 :: hex where "zeros64 = replicate 64 (CHR ''0'')"

definition aux_commit_placeholder :: hex where
  "aux_commit_placeholder = ''fabe6d6d'' @ zeros64 @ ''01000000'' @ ''00000000''"

definition quoted :: "string \<Rightarrow> string" where
  "quoted t = [char_of (34 :: nat)] @ t @ [char_of (34 :: nat)]"

fun comma_join :: "string list \<Rightarrow> string" where
  "comma_join [] = []"
| "comma_join [x] = x"
| "comma_join (x # y # ys) = x @ '','' @ comma_join (y # ys)"

definition branch_json :: "hex list \<Rightarrow> string" where
  "branch_json branch = ''['' @ comma_join (map quoted branch) @ '']''"

text \<open>The eight 32-bit words of the previous hash in reverse order.\<close>

definition swap_prevhash_words :: "hex \<Rightarrow> hex" where
  "swap_prevhash_words h =
     (if length h = 64 then concat (map (\<lambda>w. take 8 (drop ((7 - w) * 8) h)) [0..<8]) else h)"

text \<open>The head and the tail of the text \<open>{"id":null,"method":"mining.notify","params":[...]}\<close>.\<close>

definition notify_head :: string where
  "notify_head = ''{'' @ quoted ''id'' @ '':null,'' @ quoted ''method'' @ '':'' @ quoted ''mining.notify''
     @ '','' @ quoted ''params'' @ '':[''"

definition bool_text :: "bool \<Rightarrow> string" where
  "bool_text b = (if b then ''true'' else ''false'')"

definition notify_tail :: "bool \<Rightarrow> string" where
  "notify_tail clean = bool_text clean @ '']}'' @ [char_of (10 :: nat)]"

definition build_coinbase1 :: "coin_config \<Rightarrow> block_template \<Rightarrow> nat \<Rightarrow> hex option res" where
  "build_coinbase1 cc bt en2 =
     (let en1 = 4 in
      bindE (encode_bip34_height (bt_height bt)) (\<lambda>height_push.
      bindE (if coinbaseSignature cc = [] then Inr []
             else encode_push_bytes (map (\<lambda>c. of_nat (of_char c)) (coinbaseSignature cc))) (\<lambda>sig_push.
        let aux_commit = (if bt_aux_enabled bt \<and> bt_aux_prevhash bt \<noteq> [] then aux_commit_placeholder else []);
            scriptSigLen = length height_push div 2 + length sig_push div 2 + en1 + en2
              + (if aux_commit \<noteq> [] then length aux_commit div 2 else 0)
        in if scriptSigLen > 0xfc then Inr None
           else if chain cc = Zcash then Inr (Some (bt_zcash_coinbase_data bt))
           else Inr (Some (le_hex_u32 1 @ ''01'' @ zeros64 @ ''ffffffff'' @ hex2 scriptSigLen
                           @ height_push @ sig_push @ aux_commit)))))"

definition notify_texts :: "coin_config \<Rightarrow> mining_job \<Rightarrow> string \<times> string" where
  "notify_texts cc mj =
     (if chain cc = Zcash then
        (notify_head @ comma_join
           [quoted (mj_job_id mj), quoted (le_hex_u32 (mj_version mj)),
            quoted (byte_reverse_hex (mj_previousblockhash mj)), quoted (mj_zcash_merkle_root_le mj),
            quoted (if mj_reserved mj = [] then zeros64 else byte_reverse_hex (mj_reserved mj)),
            quoted (le_hex_u32 (mj_curtime mj)), quoted (byte_reverse_hex (mj_bits mj)), []]
         @ notify_tail (mj_clean_jobs mj), [])
      else
        (notify_head @ quoted (mj_job_id mj) @ '','' @ quoted (swap_prevhash_words (mj_previousblockhash mj))
           @ '','' @ quoted (mj_coinbase1 mj) @ '','' @ [char_of (34 :: nat)],
         [char_of (34 :: nat)] @ '','' @ branch_json (mj_merkle_branch_le mj) @ '',''
           @ quoted (int_to_hex (mj_version mj) 8) @ '','' @ quoted (mj_bits mj) @ '',''
           @ quoted (int_to_hex (mj_curtime mj) 8) @ '','' @ notify_tail (mj_clean_jobs mj)))"

text \<open>
  \<open>updateWork\<close>: the new state and the published job, or the unchanged state and no job on one of the
  early returns (a template that does not parse, no donation address, a script that is too long, a
  merkle error), or an exception that leaves the function before any change.
\<close>

definition update_work ::
    "(bytes \<Rightarrow> bytes) \<Rightarrow> u64 \<Rightarrow> u64 \<Rightarrow> json \<Rightarrow> stratifier \<Rightarrow> (stratifier \<times> mining_job option) res" where
  "update_work H gen counter gbt s =
     bindE (parse_template gbt) (\<lambda>parsed.
       case parsed of
         None \<Rightarrow> Inr (s, None)
       | Some bt \<Rightarrow>
         let cc = st_coin s; zc = (chain cc = Zcash); en2 = (if zc then 4 else 8) in
         if donationAddress cc = [] then Inr (s, None)
         else bindE (build_coinbase1 cc bt en2) (\<lambda>cb1.
           case cb1 of
             None \<Rightarrow> Inr (s, None)
           | Some coinbase1 \<Rightarrow>
             (case build_branch_le_hex H (map tx_txid_le (bt_transactions bt)) of
                Inl _ \<Rightarrow> Inr (s, None)
              | Inr branch \<Rightarrow>
                let clean = (bt_previousblockhash bt \<noteq> st_last_prevhash s);
                    mj = \<lparr>mj_job_id = (if zc then generate_job_id_32 gen counter else generate_job_id gen counter),
                      mj_previousblockhash = bt_previousblockhash bt, mj_coinbase1 = coinbase1,
                      mj_merkle_branch_le = branch, mj_version = of_int (bt_version bt), mj_bits = bt_bits bt,
                      mj_curtime = bt_curtime bt, mj_mintime = bt_mintime bt, mj_clean_jobs = clean,
                      mj_coinbase_value = bt_coinbasevalue bt,
                      mj_total_fees = sum_list (map tx_fee (bt_transactions bt)),
                      mj_height = bt_height bt, mj_witness_commitment = bt_default_witness_commitment bt,
                      mj_reserved = bt_reserved bt,
                      mj_zcash_merkle_root_le = (if zc then byte_reverse_hex (bt_zcash_merkle_root bt) else []),
                      mj_zcash_full_coinbase_hex = (if zc then bt_zcash_coinbase_data bt else []),
                      mj_segwit_active = bt_segwit_active bt, mj_extranonce1_bytes = 4,
                      mj_extranonce2_bytes = en2, mj_donation_percent = donationPercent cc,
                      mj_donation_address = donationAddress cc,
                      mj_miner_fund_address = bt_miner_fund_address bt,
                      mj_miner_fund_value = bt_miner_fund_value bt,
                      mj_staking_rewards_script = bt_staking_rewards_script bt,
                      mj_staking_rewards_value = bt_staking_rewards_value bt, mj_rtt = bt_rtt bt,
                      mj_tx_hexes = map tx_data (bt_transactions bt),
                      mj_aux_enabled = bt_aux_enabled bt, mj_aux_version = bt_aux_version bt,
                      mj_aux_prevhash = bt_aux_prevhash bt, mj_aux_bits = bt_aux_bits bt,
                      mj_aux_curtime = bt_aux_curtime bt, mj_aux_height = bt_aux_height bt,
                      mj_aux_coinbasevalue = bt_aux_coinbasevalue bt, mj_aux_target = bt_aux_target bt,
                      mj_mweb = bt_mweb bt, mj_notify_prefix = [], mj_notify_suffix = []\<rparr>;
                    (prefix, suffix) = notify_texts cc mj;
                    mj = mj\<lparr>mj_notify_prefix := prefix, mj_notify_suffix := suffix\<rparr>
                in Inr (s\<lparr>st_last_prevhash := bt_previousblockhash bt,
                          st_seen_shares := (if clean then {} else st_seen_shares s),
                          st_best_share_round := (if clean then 0 else st_best_share_round s),
                          st_jobs := jw_push (mj_job_id mj) mj (st_jobs s)\<rparr>, Some mj))))"

definition current_prevhash :: "stratifier \<Rightarrow> hex" where
  "current_prevhash s = st_last_prevhash s"

definition register_share :: "string \<Rightarrow> stratifier \<Rightarrow> bool \<times> stratifier" where
  "register_share fingerprint s =
     (let seen = (if card (st_seen_shares s) > 1000000 then {} else st_seen_shares s)
      in (fingerprint \<notin> seen, s\<lparr>st_seen_shares := insert fingerprint seen\<rparr>))"

definition note_share_diff :: "rat \<Rightarrow> stratifier \<Rightarrow> stratifier" where
  "note_share_diff d s =
     (if \<not> d > 0 then s
      else if d > st_best_share_round s then s\<lparr>st_best_share_round := d\<rparr> else s)"

definition reset_best_share :: "stratifier \<Rightarrow> stratifier" where
  "reset_best_share s = s\<lparr>st_best_share_round := 0\<rparr>"

section \<open>Publishing\<close>

lemma update_work_cases:
  assumes "update_work H gen counter gbt s = Inr (s', Some mj)"
  obtains bt cb1 branch where
    "parse_template gbt = Inr (Some bt)"
    "build_coinbase1 (st_coin s) bt (mj_extranonce2_bytes mj) = Inr (Some cb1)"
    "build_branch_le_hex H (map tx_txid_le (bt_transactions bt)) = Inr branch"
    "mj_coinbase1 mj = cb1" "mj_merkle_branch_le mj = branch"
    "mj_previousblockhash mj = bt_previousblockhash bt"
    "mj_tx_hexes mj = map tx_data (bt_transactions bt)"
    "mj_clean_jobs mj \<longleftrightarrow> bt_previousblockhash bt \<noteq> st_last_prevhash s"
    "mj_extranonce2_bytes mj = (if chain (st_coin s) = Zcash then 4 else 8)"
    "s' = s\<lparr>st_last_prevhash := bt_previousblockhash bt,
            st_seen_shares := (if mj_clean_jobs mj then {} else st_seen_shares s),
            st_best_share_round := (if mj_clean_jobs mj then 0 else st_best_share_round s),
            st_jobs := jw_push (mj_job_id mj) mj (st_jobs s)\<rparr>"
proof -
  obtain bt where bt: "parse_template gbt = Inr (Some bt)"
    using assms by (auto simp: update_work_def bindE_Inr_iff split: option.splits)
  define en2 where "en2 = (if chain (st_coin s) = Zcash then 4 else 8 :: nat)"
  obtain cb1 where cb1: "build_coinbase1 (st_coin s) bt en2 = Inr (Some cb1)"
    using assms bt by (auto simp: update_work_def bindE_Inr_iff Let_def en2_def split: option.splits if_splits)
  obtain branch where br: "build_branch_le_hex H (map tx_txid_le (bt_transactions bt)) = Inr branch"
    using assms bt cb1
    by (cases "build_branch_le_hex H (map tx_txid_le (bt_transactions bt))")
      (auto simp: update_work_def Let_def en2_def split: if_splits)
  obtain p q where pq: "Inr (s', Some mj) = (Inr (s\<lparr>st_last_prevhash := bt_previousblockhash bt,
            st_seen_shares := (if mj_clean_jobs mj then {} else st_seen_shares s),
            st_best_share_round := (if mj_clean_jobs mj then 0 else st_best_share_round s),
            st_jobs := jw_push (mj_job_id mj) mj (st_jobs s)\<rparr>, Some mj) :: exn + _)"
      "mj_coinbase1 mj = cb1" "mj_merkle_branch_le mj = branch"
      "mj_previousblockhash mj = bt_previousblockhash bt"
      "mj_tx_hexes mj = map tx_data (bt_transactions bt)"
      "mj_clean_jobs mj \<longleftrightarrow> bt_previousblockhash bt \<noteq> st_last_prevhash s"
      "mj_extranonce2_bytes mj = en2"
    using assms bt cb1 br
    by (auto simp: update_work_def Let_def en2_def split_beta split: if_splits)
  then show ?thesis
    using that bt cb1 br unfolding en2_def by simp
qed

section \<open>The shared half of the coinbase\<close>

text \<open>The bytes of \<open>coinbase1\<close>: version 1, one input with a null outpoint, a script of the length the
  byte announces, of which \<open>script\<close> is here and the two extranonces follow.\<close>

definition coinbase1_bytes :: "nat \<Rightarrow> bytes \<Rightarrow> bytes" where
  "coinbase1_bytes en_len script =
     [1, 0, 0, 0] @ [1] @ replicate 32 0 @ replicate 4 0xff @ [of_nat (length script + en_len)] @ script"

lemma hex_constants:
  "le_hex_u32 1 = bytes_to_hex [1, 0, 0, 0]" "''01'' = bytes_to_hex [1]" "''ffffffff'' = bytes_to_hex (replicate 4 0xff)"
  "zeros64 = bytes_to_hex (replicate 32 0)"
  "aux_commit_placeholder = bytes_to_hex ([0xfa, 0xbe, 0x6d, 0x6d] @ replicate 32 0 @ [1, 0, 0, 0] @ [0, 0, 0, 0])"
  by code_simp+

lemma encode_bip34_is_bytes:
  "encode_bip34_height h = Inr x \<Longrightarrow> \<exists>b. x = bytes_to_hex b"
  unfolding encode_bip34_height_def hex2_bytes Let_def bytes_to_hex_append[symmetric]
  by (auto split: if_splits simp del: bytes_to_hex.simps bytes_to_hex_append)

lemma encode_push_is_bytes: "encode_push_bytes d = Inr x \<Longrightarrow> \<exists>b. x = bytes_to_hex b"
  unfolding encode_push_bytes_def hex2_bytes bytes_to_hex_append[symmetric]
  by (auto split: if_splits simp del: bytes_to_hex.simps bytes_to_hex_append)

lemma build_coinbase1_bytes:
  assumes "build_coinbase1 cc bt en2 = Inr (Some cb1)" and "chain cc \<noteq> Zcash"
  shows "\<exists>script. cb1 = bytes_to_hex (coinbase1_bytes (4 + en2) script) \<and> length script + (4 + en2) \<le> 0xfc"
proof -
  obtain hp where hp: "encode_bip34_height (bt_height bt) = Inr hp"
    using assms(1) by (auto simp: build_coinbase1_def bindE_Inr_iff)
  obtain sp where sp: "(if coinbaseSignature cc = [] then Inr []
      else encode_push_bytes (map (\<lambda>c. of_nat (of_char c)) (coinbaseSignature cc))) = Inr sp"
    using assms(1) hp by (auto simp: build_coinbase1_def bindE_Inr_iff)
  define aux where "aux = (if bt_aux_enabled bt \<and> bt_aux_prevhash bt \<noteq> [] then aux_commit_placeholder else [])"
  define l where "l = length hp div 2 + length sp div 2 + 4 + en2 + (if aux \<noteq> [] then length aux div 2 else 0)"
  have cb: "cb1 = le_hex_u32 1 @ ''01'' @ zeros64 @ ''ffffffff'' @ hex2 l @ hp @ sp @ aux" and l: "l \<le> 0xfc"
    using assms hp sp unfolding build_coinbase1_def Let_def aux_def l_def by (auto split: if_splits)
  obtain hb where hb: "hp = bytes_to_hex hb"
    using encode_bip34_is_bytes[OF hp] by blast
  obtain sb where sb: "sp = bytes_to_hex sb"
    using sp encode_push_is_bytes bytes_to_hex.simps(1) by (metis sum.inject(2))
  obtain ab where ab: "aux = bytes_to_hex ab"
    unfolding aux_def using hex_constants(5) bytes_to_hex.simps(1) by metis
  have ll: "l = length (hb @ sb @ ab) + (4 + en2)"
    by (simp add: l_def hb sb ab)
  have "cb1 = bytes_to_hex (coinbase1_bytes (4 + en2) (hb @ sb @ ab))"
    using ll unfolding cb hex_constants(1-4) hex2_bytes hb sb ab coinbase1_bytes_def by simp
  moreover have "length (hb @ sb @ ab) + (4 + en2) \<le> 0xfc"
    using l ll by simp
  ultimately show ?thesis
    by blast
qed

lemma job_coinbase1_bytes:
  assumes "update_work H gen counter gbt s = Inr (s', Some mj)" and "chain (st_coin s) \<noteq> Zcash"
  shows "\<exists>script. mj_coinbase1 mj = bytes_to_hex (coinbase1_bytes 12 script) \<and> length script + 12 \<le> 0xfc \<and>
    mj_extranonce2_bytes mj = 8"
  using assms(1)
proof (rule update_work_cases)
  fix bt cb1
  assume "build_coinbase1 (st_coin s) bt (mj_extranonce2_bytes mj) = Inr (Some cb1)" "mj_coinbase1 mj = cb1"
    and "mj_extranonce2_bytes mj = (if chain (st_coin s) = Zcash then 4 else 8)"
  then show ?thesis
    using build_coinbase1_bytes[of "st_coin s" bt "mj_extranonce2_bytes mj" cb1] assms(2) by auto
qed

section \<open>Share events\<close>

datatype share_event = Share string | Note rat | Reset_Best

fun st_event :: "share_event \<Rightarrow> stratifier \<times> string list \<Rightarrow> stratifier \<times> string list" where
  "st_event (Share fp) (s, accepted) =
     (let (fresh, s') = register_share fp s in (s', if fresh then accepted @ [fp] else accepted))"
| "st_event (Note d) (s, accepted) = (note_share_diff d s, accepted)"
| "st_event Reset_Best (s, accepted) = (reset_best_share s, accepted)"

lemma note_share_diff_seen [simp]: "st_seen_shares (note_share_diff d s) = st_seen_shares s"
  and reset_best_seen [simp]: "st_seen_shares (reset_best_share s) = st_seen_shares s"
  by (auto simp: note_share_diff_def reset_best_share_def)

lemma share_run_inv:
  assumes "length es \<le> 1000000" and "st_seen_shares s = {}"
    and "fold st_event es (s, []) = (s', accepted)"
  shows "distinct accepted \<and> set accepted = {fp. Share fp \<in> set es} \<and>
    st_seen_shares s' = set accepted \<and> length accepted \<le> length es"
  using assms(1, 3)
proof (induction es arbitrary: s' accepted rule: rev_induct)
  case Nil
  with assms(2) show ?case by simp
next
  case (snoc e es)
  obtain s1 acc where run: "fold st_event es (s, []) = (s1, acc)"
    by force
  have ih: "distinct acc" "set acc = {fp. Share fp \<in> set es}" "st_seen_shares s1 = set acc" "length acc \<le> length es"
    using snoc.IH[OF _ run] snoc.prems(1) by auto
  have "card (st_seen_shares s1) \<le> 1000000"
    using ih snoc.prems(1) distinct_card[OF ih(1)] by simp
  with ih snoc.prems(2) run show ?case
    by (cases e) (auto simp: register_share_def Let_def split: if_splits)
qed

section \<open>The lock-free maximum\<close>

text \<open>
  \<open>note_share_diff\<close> of several session threads: each loads the atomic, then compares and exchanges
  until its value is not above the one it last saw. A weak compare-exchange may fail although the
  value is unchanged; a failure reloads it. The state is the atomic and where each thread stands.
\<close>

datatype noter = Start rat | Loaded rat rat | Done rat

fun noter_value :: "noter \<Rightarrow> rat" where
  "noter_value (Start d) = d" | "noter_value (Loaded d cur) = d" | "noter_value (Done d) = d"

inductive note_step :: "rat \<times> (nat \<Rightarrow> noter) \<Rightarrow> nat \<Rightarrow> rat \<times> (nat \<Rightarrow> noter) \<Rightarrow> bool" where
  note_skip: "th i = Start d \<Longrightarrow> \<not> d > 0 \<Longrightarrow> note_step (best, th) i (best, th(i := Done d))"
| note_load: "th i = Start d \<Longrightarrow> d > 0 \<Longrightarrow> note_step (best, th) i (best, th(i := Loaded d best))"
| note_exit: "th i = Loaded d cur \<Longrightarrow> \<not> d > cur \<Longrightarrow> note_step (best, th) i (best, th(i := Done d))"
| note_cas_ok: "th i = Loaded d cur \<Longrightarrow> d > cur \<Longrightarrow> best = cur \<Longrightarrow> note_step (best, th) i (d, th(i := Done d))"
| note_cas_fail: "th i = Loaded d cur \<Longrightarrow> d > cur \<Longrightarrow> note_step (best, th) i (best, th(i := Loaded d best))"

inductive_cases note_stepE: "note_step x i y"

definition note_init :: "(nat \<Rightarrow> rat) \<Rightarrow> rat \<times> (nat \<Rightarrow> noter) \<Rightarrow> bool" where
  "note_init d x \<longleftrightarrow> x = (0, \<lambda>i. Start (d i))"

definition note_inv :: "(nat \<Rightarrow> rat) \<Rightarrow> rat \<times> (nat \<Rightarrow> noter) \<Rightarrow> bool" where
  "note_inv d x \<longleftrightarrow>
     (\<forall>i. noter_value (snd x i) = d i) \<and>
     (\<forall>i e cur. snd x i = Loaded e cur \<longrightarrow> cur \<le> fst x) \<and>
     (\<forall>i e. snd x i = Done e \<longrightarrow> e \<le> fst x) \<and>
     0 \<le> fst x \<and> (fst x = 0 \<or> (\<exists>i. snd x i = Done (fst x)))"

lemma note_inv_update:
  assumes inv: "note_inv d (best, th)" and x: "noter_value y = noter_value (th i)" "\<forall>e. th i \<noteq> Done e"
    and le: "best \<le> best'" "\<forall>e cur. y = Loaded e cur \<longrightarrow> cur \<le> best'" "\<forall>e. y = Done e \<longrightarrow> e \<le> best'"
    and b: "best' = best \<or> y = Done best'"
  shows "note_inv d (best', th(i := y))"
proof -
  have L: "\<forall>j e cur. th j = Loaded e cur \<longrightarrow> cur \<le> best" and D: "\<forall>j e. th j = Done e \<longrightarrow> e \<le> best"
    using inv by (simp_all add: note_inv_def)
  have "noter_value ((th(i := y)) j) = d j" for j
    using inv x by (simp add: note_inv_def)
  moreover have "cur \<le> best'" if "(th(i := y)) j = Loaded e cur" for j e cur
    using L le that by (cases "j = i") (simp_all, metis order.trans)
  moreover have "e \<le> best'" if "(th(i := y)) j = Done e" for j e
    using D le that by (cases "j = i") (simp_all, metis order.trans)
  moreover have "0 \<le> best'"
    using inv le by (auto simp: note_inv_def)
  moreover have "best' = 0 \<or> (\<exists>j. (th(i := y)) j = Done best')"
    using inv x(2) b by (auto simp: note_inv_def)
  ultimately show ?thesis
    by (simp add: note_inv_def)
qed

interpretation noting: event_system "note_init d" note_step "note_inv d" for d
proof unfold_locales
  show "note_inv d s" if "note_init d s" for s
    using that by (auto simp: note_init_def note_inv_def)
  show "note_inv d t" if "note_inv d s" and "note_step s e t" for s e t
    using that(2, 1)
    by (elim note_stepE; hypsubst; intro note_inv_update) (auto simp: note_inv_def, meson order.trans not_le, meson order.trans not_le)
qed

section \<open>Properties\<close>

text \<open>When \<open>updateWork\<close> publishes a job, the job is at once the latest one and the one found under
  its id, the pool's tip is the job's previous hash, and \<open>clean_jobs\<close> is set exactly when that differs
  from the tip before; on a clean job the duplicate-share table and the best share of the round start
  over, otherwise both are kept. Any other outcome leaves the stratifier unchanged.\<close>

theorem update_work_publishes:
  assumes "jw_ok (st_jobs s)" and "update_work H gen counter gbt s = Inr (s', published)"
  shows "(case published of
      None \<Rightarrow> s' = s
    | Some mj \<Rightarrow>
        find_job (mj_job_id mj) s' = Some mj \<and> latest_job s' = Some mj \<and>
        current_prevhash s' = mj_previousblockhash mj \<and>
        (mj_clean_jobs mj \<longleftrightarrow> mj_previousblockhash mj \<noteq> current_prevhash s) \<and>
        st_seen_shares s' = (if mj_clean_jobs mj then {} else st_seen_shares s) \<and>
        st_best_share_round s' = (if mj_clean_jobs mj then 0 else st_best_share_round s))"
proof (cases published)
  case None
  obtain parsed where P: "parse_template gbt = Inr parsed"
    using assms(2) by (cases "parse_template gbt") (auto simp: update_work_def)
  show ?thesis
  proof (cases parsed)
    case p: (Some bt)
    define en2 where "en2 = (if chain (st_coin s) = Zcash then 4 else 8 :: nat)"
    show ?thesis
      using None assms(2) P p
      by (cases "build_coinbase1 (st_coin s) bt en2"; cases "build_branch_le_hex H (map tx_txid_le (bt_transactions bt))")
        (auto simp: update_work_def Let_def split_beta en2_def split: option.splits if_splits)
  qed (use None assms(2) P in \<open>simp add: update_work_def\<close>)
next
  case (Some mj)
  then have "update_work H gen counter gbt s = Inr (s', Some mj)"
    using assms(2) by simp
  then show ?thesis
    using jw.find_pushed[OF assms(1), of "mj_job_id mj" mj] Some
    by (elim update_work_cases) (auto simp: find_job_def latest_job_def current_prevhash_def jw_latest_def jw_push_items)
qed

abbreviation sample_coin :: coin_config where
  "sample_coin \<equiv> \<lparr>chain = Bitcoin, donationAddress = ''bc1q'', donationPercent = 1,
     coinbaseSignature = ''/mk/'', enableVersionRolling = True, versionRollingMask = 0x1fffe000\<rparr>"

abbreviation sample_gbt :: json where
  "sample_gbt \<equiv> JObj [(''result'', JObj [(''version'', JInt 536870912), (''previousblockhash'', JStr ''ab''),
     (''height'', JInt 100), (''bits'', JStr ''1d00ffff'')])]"

lemma sample_update:
  "\<exists>s' mj. update_work (\<lambda>b. replicate 32 0) 5 7 sample_gbt (st_new sample_coin 32) = Inr (s', Some mj) \<and>
     mj_previousblockhash mj = ''ab''"
  by (simp add: update_work_def parse_template_def value_or_def get_i32_def parse_rtt_def parse_aux_def
      parse_transactions_def build_coinbase1_def encode_bip34_height_def encode_push_bytes_def no_aux_def
      st_new_def build_branch_le_hex_def split_beta Let_def hex2_def bip34_bytes.simps branch_loop.simps)

lemma update_work_publishes_witness:
  "\<exists>s' mj. update_work (\<lambda>b. replicate 32 0) 5 7 sample_gbt (st_new sample_coin 32) = Inr (s', Some mj) \<and>
     mj_clean_jobs mj \<and> current_prevhash s' = ''ab''"
proof -
  obtain s' mj where u: "update_work (\<lambda>b. replicate 32 0) 5 7 sample_gbt (st_new sample_coin 32) = Inr (s', Some mj)"
      and p: "mj_previousblockhash mj = ''ab''"
    using sample_update by blast
  have ok: "jw_ok (st_jobs (st_new sample_coin 32))"
    by (simp add: st_new_def jw_new_def jw_ok_def)
  show ?thesis
    using update_work_publishes[OF ok u] u p by (auto simp: current_prevhash_def st_new_def)
qed

text \<open>The \<open>coinbase1\<close> of a published job (on every chain but Zcash, whose node gives the coinbase) is
  the hex of a version-1 transaction with one null-outpoint input, whose script-length byte is the
  number of script bytes present plus the four of extranonce1 and the eight of extranonce2.\<close>

theorem job_coinbase1_layout:
  assumes "update_work H gen counter gbt s = Inr (s', Some mj)" and "chain (st_coin s) \<noteq> Zcash"
  shows "\<exists>script. hex_to_bytes (mj_coinbase1 mj) =
      Inr ([1, 0, 0, 0] @ [1] @ replicate 32 0 @ replicate 4 0xff @ [of_nat (length script + 4 + 8)] @ script) \<and>
    length script + 4 + 8 \<le> 252 \<and> mj_extranonce2_bytes mj = 8"
  using job_coinbase1_bytes[OF assms] by (auto simp: coinbase1_bytes_def simp del: bytes_to_hex.simps)

lemma job_coinbase1_layout_witness:
  "\<exists>s' mj. update_work (\<lambda>b. replicate 32 0) 5 7 sample_gbt (st_new sample_coin 32) = Inr (s', Some mj) \<and>
     mj_extranonce2_bytes mj = 8 \<and> (\<exists>bs. hex_to_bytes (mj_coinbase1 mj) = Inr bs)"
proof -
  obtain s' mj where u: "update_work (\<lambda>b. replicate 32 0) 5 7 sample_gbt (st_new sample_coin 32) = Inr (s', Some mj)"
    using sample_update by blast
  have c: "chain (st_coin (st_new sample_coin 32)) \<noteq> Zcash"
    by (simp add: st_new_def)
  from job_coinbase1_layout[OF u c] u show ?thesis
    by blast
qed



text \<open>However the loads and compare-exchanges of concurrent \<open>note_share_diff\<close> calls interleave, and
  whichever of the weak exchanges fail, a finished call's difficulty is never above the recorded
  best, and a recorded best other than 0 is the difficulty of some finished call: when all are
  finished the best is their maximum.\<close>

theorem best_share_is_atomic_max:
  assumes "reachable (note_init d) note_step (best, th)"
  shows "(\<forall>i. th i = Done (d i) \<longrightarrow> d i \<le> best) \<and> (best = 0 \<or> (\<exists>i. th i = Done (d i) \<and> d i = best))"
proof -
  have inv: "note_inv d (best, th)"
    using noting.reachable_inv[OF assms] .
  have "d i = best" if "th i = Done best" for i
    using inv that by (auto simp: note_inv_def dest: spec[of _ i])
  with inv show ?thesis
    by (auto simp: note_inv_def) metis
qed

lemma best_share_is_atomic_max_witness:
  "\<exists>th. reachable (note_init (\<lambda>i. 3)) note_step (3, th) \<and> th 0 = Done 3 \<and>
     (\<forall>i. th i = Done 3 \<longrightarrow> (3 :: rat) \<le> 3)"
proof -
  let ?th = "(\<lambda>i :: nat. Start 3)"
  have "reachable (note_init (\<lambda>i. 3)) note_step (0, ?th)"
    by (rule reachable_init) (simp add: note_init_def)
  moreover have "note_step (0, ?th) 0 (0, ?th(0 := Loaded 3 0))"
    by (rule note_load) simp_all
  moreover have "note_step (0, ?th(0 := Loaded 3 0)) 0 (3, (?th(0 := Loaded 3 0))(0 := Done 3))"
    by (rule note_cas_ok) simp_all
  ultimately have r: "reachable (note_init (\<lambda>i. 3)) note_step (3, (?th(0 := Loaded 3 0))(0 := Done 3))"
    by (meson reachable_step)
  with best_share_is_atomic_max[OF r] show ?thesis
    by (intro exI[of _ "(?th(0 := Loaded 3 0))(0 := Done 3)"]) auto
qed

end
