(* ===== verification/Address.thy ===== *)
theory Address
  imports Utils
begin

text \<open>
  \<open>src/address.cpp\<close>: decoding of CashAddr, Bech32/Bech32m and Base58Check addresses and the script they
  stand for. \<open>std::expected<T, Error>\<close> is \<open>addr_error + 'a\<close>. SHA-256 is the parameter \<open>sha256\<close>. The
  \<open>noexcept\<close> wrapper \<open>decode\<close> only turns a failure of OpenSSL into \<open>Internal\<close>, which the model of the
  digest as a function does not have.
\<close>

datatype network =
  BitcoinMainnet | BitcoinTestnet | BitcoinSignet | BitcoinRegtest | BchMainnet | BchTestnet | BchRegtest

datatype addr_type = P2PKH | P2SH | P2WPKH | P2WSH | P2TR | BchP2PKH | BchP2SH

datatype addr_error =
  Empty | UnknownPrefix | BadLength | BadChecksum | BadCharacter | UnsupportedVersion
| UnsupportedNetwork | Internal

record decoded =
  d_type :: addr_type
  d_network :: network
  d_program :: bytes

definition code_of :: "char \<Rightarrow> nat" where "code_of c = of_char c"

fun index_of :: "'a \<Rightarrow> 'a list \<Rightarrow> nat option" where
  "index_of c [] = None"
| "index_of c (x # xs) = (if x = c then Some 0 else map_option Suc (index_of c xs))"

section \<open>Base58Check\<close>

definition kBase58Alphabet :: string where
  "kBase58Alphabet = ''123456789ABCDEFGHJKLMNPQRSTUVWXYZabcdefghijkmnopqrstuvwxyz''"

text \<open>One digit: multiply the big-endian accumulator by 58 and add, from its last byte up.\<close>

fun mul58_add :: "bytes \<Rightarrow> nat \<Rightarrow> bytes \<times> nat" where
  "mul58_add [] carry = ([], carry)"
| "mul58_add (b # bs) carry =
     (let (bs', carry) = mul58_add bs carry; carry = carry + 58 * unat b
      in (of_nat (carry mod 256) # bs', carry div 256))"

fun base58_loop :: "string \<Rightarrow> bytes \<Rightarrow> addr_error + bytes" where
  "base58_loop [] b256 = Inr b256"
| "base58_loop (c # s) b256 =
     (case index_of c kBase58Alphabet of
        None \<Rightarrow> Inl BadCharacter
      | Some d \<Rightarrow>
          let (b256, carry) = mul58_add b256 d
          in if carry \<noteq> 0 then Inl BadLength else base58_loop s b256)"

definition base58_decode :: "string \<Rightarrow> addr_error + bytes" where
  "base58_decode s =
     (let zeros = length (takeWhile (\<lambda>c. c = CHR ''1'') s)
      in bindE (base58_loop (drop zeros s) (replicate (length s * 733 div 1000 + 1) 0)) (\<lambda>b256.
           Inr (replicate zeros 0 @ dropWhile (\<lambda>b. b = 0) b256)))"

definition base58check_verify :: "(bytes \<Rightarrow> bytes) \<Rightarrow> bytes \<Rightarrow> bool" where
  "base58check_verify sha256 payload \<longleftrightarrow>
     (if length payload < 5 then False
      else let n = length payload - 4; body = take n payload; sum = drop n payload
           in take 4 (sha256 (sha256 body)) = sum)"

section \<open>Bech32 and Bech32m\<close>

definition kBech32Charset :: string where
  "kBech32Charset = ''qpzry9x8gf2tvdw0s3jn54khce6mua7l''"

definition kBech32Const :: u32 where "kBech32Const = 1"
definition kBech32mConst :: u32 where "kBech32mConst = 0x2bc830a3"

definition bech32_G :: "u32 list" where
  "bech32_G = [0x3b6a57b2, 0x26508e6d, 0x1ea119fa, 0x3d4233dd, 0x2a1462b3]"

text \<open>\<open>if ((b >> i) & 1) chk ^= G[i]\<close>, for each generator.\<close>

definition xor_gens :: "'a::len word \<Rightarrow> 'a word list \<Rightarrow> 'a word \<Rightarrow> 'a word" where
  "xor_gens b G chk = fold (\<lambda>i chk. if bit b i then chk XOR (G ! i) else chk) [0..<5] chk"

definition bech32_step :: "u8 \<Rightarrow> u32 \<Rightarrow> u32" where
  "bech32_step v chk =
     (let b = drop_bit 25 chk in xor_gens b bech32_G (push_bit 5 (chk AND 0x1ffffff) XOR ucast v))"

definition bech32_polymod :: "bytes \<Rightarrow> u32" where
  "bech32_polymod values = fold bech32_step values 1"

definition bech32_hrp_expand :: "string \<Rightarrow> bytes" where
  "bech32_hrp_expand hrp =
     map (\<lambda>c. of_nat (code_of c div 32)) hrp @ [0] @ map (\<lambda>c. of_nat (code_of c mod 32)) hrp"

definition mixed_case :: "string \<Rightarrow> bool" where
  "mixed_case s \<longleftrightarrow>
     list_ex is_upper s \<and> list_ex (\<lambda>c. 97 \<le> code_of c \<and> code_of c \<le> 122) s"

fun charset_values :: "string \<Rightarrow> addr_error + bytes" where
  "charset_values [] = Inr []"
| "charset_values (c # s) =
     (case index_of c kBech32Charset of
        None \<Rightarrow> Inl BadCharacter
      | Some i \<Rightarrow> bindE (charset_values s) (\<lambda>vs. Inr (of_nat i # vs)))"

text \<open>\<open>rfind('1')\<close>: the position of the last \<open>1\<close>.\<close>

definition rfind1 :: "string \<Rightarrow> nat option" where
  "rfind1 s = map_option (\<lambda>i. length s - 1 - i) (index_of (CHR ''1'') (rev s))"

definition bech32_decode :: "string \<Rightarrow> string \<Rightarrow> addr_error + (nat \<times> bytes)" where
  "bech32_decode hrp_expected s =
     (if mixed_case s then Inl BadCharacter
      else let lower = map to_lower s in
        case rfind1 lower of
          None \<Rightarrow> Inl BadLength
        | Some pos \<Rightarrow>
            if pos < 1 \<or> pos + 7 > length lower then Inl BadLength
            else let hrp = take pos lower in
              if hrp \<noteq> hrp_expected then Inl UnknownPrefix
              else bindE (charset_values (drop (pos + 1) lower)) (\<lambda>values.
                let chk = bech32_polymod (bech32_hrp_expand hrp @ values);
                    stripped = take (length values - 6) values
                in if chk = kBech32Const then Inr (0, stripped)
                   else if chk = kBech32mConst then Inr (1, stripped)
                   else Inl BadChecksum))"

text \<open>
  \<open>convert_bits\<close>. The inner loop emits bytes while \<open>bits >= to_bits\<close>; \<open>to_bits\<close> is 8 at every call.
\<close>

function emit_groups :: "nat \<Rightarrow> u32 \<Rightarrow> nat \<Rightarrow> nat \<times> bytes" where
  "emit_groups to_bits acc bits =
     (if to_bits = 0 \<or> bits < to_bits then (bits, [])
      else let bits = bits - to_bits; (rest, out) = emit_groups to_bits acc bits
           in (rest, ucast (drop_bit bits acc AND mask to_bits) # out))"
  by pat_completeness auto
termination
  by (relation "measure (\<lambda>(t, a, b). b)") auto

declare emit_groups.simps [simp del]

fun convert_loop :: "nat \<Rightarrow> nat \<Rightarrow> bytes \<Rightarrow> u32 \<Rightarrow> nat \<Rightarrow> addr_error + (u32 \<times> nat \<times> bytes)" where
  "convert_loop from_bits to_bits [] acc bits = Inr (acc, bits, [])"
| "convert_loop from_bits to_bits (v # vs) acc bits =
     (if drop_bit from_bits v \<noteq> 0 then Inl BadCharacter
      else let acc = (push_bit from_bits acc OR ucast v) AND mask (from_bits + to_bits - 1);
               (bits, out) = emit_groups to_bits acc (bits + from_bits)
           in bindE (convert_loop from_bits to_bits vs acc bits) (\<lambda>(acc, bits, rest).
                Inr (acc, bits, out @ rest)))"

definition convert_bits :: "bytes \<Rightarrow> nat \<Rightarrow> nat \<Rightarrow> bool \<Rightarrow> addr_error + bytes" where
  "convert_bits vs from_bits to_bits pad =
     bindE (convert_loop from_bits to_bits vs 0 0) (\<lambda>(acc, bits, out).
       let tail = push_bit (to_bits - bits) acc AND mask to_bits
       in if pad then Inr (if bits \<noteq> 0 then out @ [ucast tail] else out)
          else if bits \<ge> from_bits \<or> tail \<noteq> 0 then Inl BadLength
          else Inr out)"

definition segwit_decode :: "string \<Rightarrow> string \<Rightarrow> addr_error + (nat \<times> bytes)" where
  "segwit_decode hrp s =
     bindE (bech32_decode hrp s) (\<lambda>(enc, data).
       if data = [] then Inl BadLength
       else let version = unat (hd data) in
         if version > 16 then Inl UnsupportedVersion
         else bindE (convert_bits (tl data) 5 8 False) (\<lambda>prog.
           if length prog < 2 \<or> length prog > 40 then Inl BadLength
           else if version = 0 \<and> length prog \<noteq> 20 \<and> length prog \<noteq> 32 then Inl BadLength
           else if (version = 0 \<and> enc \<noteq> 0) \<or> (version \<ge> 1 \<and> enc \<noteq> 1) then Inl BadChecksum
           else Inr (version, prog)))"

section \<open>CashAddr\<close>

definition cashaddr_G :: "u64 list" where
  "cashaddr_G = [0x98f2bc8e61, 0x79b76d99e2, 0xf33e5fb3c4, 0xae2eabe2a8, 0x1e4f43e470]"

definition cashaddr_step :: "u8 \<Rightarrow> u64 \<Rightarrow> u64" where
  "cashaddr_step d c =
     (let c0 = drop_bit 35 c in xor_gens c0 cashaddr_G (push_bit 5 (c AND 0x07ffffffff) XOR ucast d))"

definition cashaddr_polymod :: "bytes \<Rightarrow> u64" where
  "cashaddr_polymod v = fold cashaddr_step v 1 XOR 1"

definition cashaddr_expand_prefix :: "string \<Rightarrow> bytes" where
  "cashaddr_expand_prefix prefix = map (\<lambda>c. of_nat (code_of c mod 32)) prefix @ [0]"

definition kSizeMap :: "nat list" where
  "kSizeMap = [160, 192, 224, 256, 320, 384, 448, 512]"

text \<open>The prefix, the type bits and the hash.\<close>

definition cashaddr_decode :: "string \<Rightarrow> addr_error + (string \<times> nat \<times> bytes)" where
  "cashaddr_decode s =
     (let (prefix, payload) =
            (case index_of (CHR '':'') s of
               Some i \<Rightarrow> (take i s, drop (i + 1) s)
             | None \<Rightarrow> (''bitcoincash'', s))
      in if mixed_case payload then Inl BadCharacter
      else let prefix = map to_lower prefix in
        bindE (charset_values (map to_lower payload)) (\<lambda>values.
          if length values < 8 then Inl BadLength
          else if cashaddr_polymod (cashaddr_expand_prefix prefix @ values) \<noteq> 0 then Inl BadChecksum
          else bindE (convert_bits (take (length values - 8) values) 5 8 False) (\<lambda>bs.
            if bs = [] then Inl BadLength
            else let version = unat (hd bs); type = version div 8 mod 32;
                     expected = (kSizeMap ! (version mod 8)) div 8
              in if length bs - 1 \<noteq> expected then Inl BadLength
                 else Inr (prefix, type, tl bs))))"

section \<open>Detection\<close>

definition cash_network :: "string \<Rightarrow> network option" where
  "cash_network prefix =
     (if prefix \<in> {''bitcoincash'', ''ecash'', ''bitcoincashii''} then Some BchMainnet
      else if prefix \<in> {''bchtest'', ''ectest''} then Some BchTestnet
      else if prefix \<in> {''bchreg'', ''ecreg''} then Some BchRegtest
      else None)"

definition try_bech :: "string \<Rightarrow> string \<Rightarrow> network \<Rightarrow> decoded option" where
  "try_bech addr hrp net =
     (if length addr > length hrp + 1 \<and> to_lower (addr ! 0) = hrp ! 0 \<and> to_lower (addr ! 1) = hrp ! 1 \<and>
         (addr ! length hrp = CHR ''1'' \<or> (length hrp \<ge> 3 \<and> to_lower (addr ! 2) = hrp ! 2))
      then (case segwit_decode hrp addr of
              Inl _ \<Rightarrow> None
            | Inr (version, program) \<Rightarrow>
                if version = 0 \<and> length program = 20 then Some \<lparr>d_type = P2WPKH, d_network = net, d_program = program\<rparr>
                else if version = 0 \<and> length program = 32 then Some \<lparr>d_type = P2WSH, d_network = net, d_program = program\<rparr>
                else if version = 1 \<and> length program = 32 then Some \<lparr>d_type = P2TR, d_network = net, d_program = program\<rparr>
                else None)
      else None)"

definition known_hrps :: "(string \<times> network) list" where
  "known_hrps = [(''bc'', BitcoinMainnet), (''tb'', BitcoinTestnet), (''bcrt'', BitcoinRegtest),
     (''ltc'', BitcoinMainnet), (''tltc'', BitcoinTestnet), (''dgb'', BitcoinMainnet),
     (''dgbt'', BitcoinTestnet), (''tdgb'', BitcoinTestnet)]"

fun first_bech :: "string \<Rightarrow> (string \<times> network) list \<Rightarrow> decoded option" where
  "first_bech addr [] = None"
| "first_bech addr ((hrp, net) # hs) =
     (case try_bech addr hrp net of Some d \<Rightarrow> Some d | None \<Rightarrow> first_bech addr hs)"

definition base58_version :: "nat \<Rightarrow> (addr_type \<times> network) option" where
  "base58_version v =
     map_of [(0x00, (P2PKH, BitcoinMainnet)), (0x05, (P2SH, BitcoinMainnet)),
       (0x6f, (P2PKH, BitcoinTestnet)), (0xc4, (P2SH, BitcoinTestnet)), (0x30, (P2PKH, BitcoinMainnet)),
       (0x32, (P2SH, BitcoinMainnet)), (0x3a, (P2SH, BitcoinTestnet)), (0x1e, (P2PKH, BitcoinMainnet)),
       (0x16, (P2SH, BitcoinMainnet)), (0x71, (P2PKH, BitcoinTestnet)), (0x3f, (P2SH, BitcoinMainnet)),
       (0x7e, (P2PKH, BitcoinTestnet)), (0x8c, (P2SH, BitcoinTestnet))] v"

definition zcash_version :: "nat \<Rightarrow> (addr_type \<times> network) option" where
  "zcash_version v =
     map_of [(0x1cb8, (P2PKH, BitcoinMainnet)), (0x1cbd, (P2SH, BitcoinMainnet)),
       (0x1d25, (P2PKH, BitcoinTestnet)), (0x1cba, (P2SH, BitcoinTestnet))] v"

definition decode_base58 :: "(bytes \<Rightarrow> bytes) \<Rightarrow> string \<Rightarrow> addr_error + decoded" where
  "decode_base58 sha256 addr =
     (case base58_decode addr of
        Inl _ \<Rightarrow> Inl UnknownPrefix
      | Inr raw \<Rightarrow>
          if length raw < 5 then Inl BadLength
          else if \<not> base58check_verify sha256 raw then Inl BadChecksum
          else let vlen = (if length raw = 26 then 2 else 1);
                   body = take (length raw - 4 - vlen) (drop vlen raw)
            in if length body \<noteq> 20 then Inl BadLength
               else case (if vlen = 2 then zcash_version (256 * unat (raw ! 0) + unat (raw ! 1))
                          else base58_version (unat (raw ! 0))) of
                      None \<Rightarrow> Inl UnsupportedVersion
                    | Some (t, net) \<Rightarrow> Inr \<lparr>d_type = t, d_network = net, d_program = body\<rparr>)"

definition decode :: "(bytes \<Rightarrow> bytes) \<Rightarrow> string \<Rightarrow> addr_error + decoded" where
  "decode sha256 addr =
     (if addr = [] then Inl Empty
      else if length addr > 128 then Inl BadLength
      else
        let colon = CHR '':'' \<in> set addr;
            prefixless_cash = (\<not> colon \<and> to_lower (hd addr) \<in> {CHR ''q'', CHR ''p'', CHR ''r''});
            rest = (case first_bech addr known_hrps of
                      Some d \<Rightarrow> Inr d | None \<Rightarrow> decode_base58 sha256 addr)
        in if colon \<or> prefixless_cash then
             (case cashaddr_decode addr of
                Inr (prefix, type, hash) \<Rightarrow>
                  (case cash_network prefix of
                     None \<Rightarrow> Inl UnsupportedNetwork
                   | Some net \<Rightarrow>
                       Inr \<lparr>d_type = (if type = 0 then BchP2PKH else BchP2SH), d_network = net, d_program = hash\<rparr>)
              | Inl e \<Rightarrow> if colon then Inl e else rest)
           else rest)"

section \<open>Scripts\<close>

definition script_pubkey_hex :: "decoded \<Rightarrow> hex" where
  "script_pubkey_hex d =
     (case d_type d of
        P2PKH \<Rightarrow> ''76a914'' @ bytes_to_hex (d_program d) @ ''88ac''
      | BchP2PKH \<Rightarrow> ''76a914'' @ bytes_to_hex (d_program d) @ ''88ac''
      | P2SH \<Rightarrow> ''a914'' @ bytes_to_hex (d_program d) @ ''87''
      | BchP2SH \<Rightarrow> ''a914'' @ bytes_to_hex (d_program d) @ ''87''
      | P2WPKH \<Rightarrow> ''0014'' @ bytes_to_hex (d_program d)
      | P2WSH \<Rightarrow> ''0020'' @ bytes_to_hex (d_program d)
      | P2TR \<Rightarrow> ''5120'' @ bytes_to_hex (d_program d))"

definition decode_to_script_hex :: "(bytes \<Rightarrow> bytes) \<Rightarrow> string \<Rightarrow> addr_error + hex" where
  "decode_to_script_hex sha256 addr = bindE (decode sha256 addr) (\<lambda>d. Inr (script_pubkey_hex d))"

definition output_vbytes :: "addr_type \<Rightarrow> nat" where
  "output_vbytes t =
     (case t of P2PKH \<Rightarrow> 34 | BchP2PKH \<Rightarrow> 34 | P2SH \<Rightarrow> 32 | BchP2SH \<Rightarrow> 32 | P2WPKH \<Rightarrow> 31 | P2WSH \<Rightarrow> 43 | P2TR \<Rightarrow> 43)"

section \<open>Base58 is positional notation\<close>

definition base58_value :: "string \<Rightarrow> nat" where
  "base58_value s = fold (\<lambda>c acc. 58 * acc + the (index_of c kBase58Alphabet)) s 0"

lemma index_of_less: "index_of c xs = Some i \<Longrightarrow> i < length xs"
  by (induction xs arbitrary: i) (auto split: if_splits)

lemma index_of_None_iff: "index_of c xs = None \<longleftrightarrow> c \<notin> set xs"
  by (induction xs) auto

lemma mul58_add_value:
  "mul58_add bs carry = (bs', carry') \<Longrightarrow>
    length bs' = length bs \<and> be_val bs' + 256 ^ length bs * carry' = 58 * be_val bs + carry"
proof (induction bs arbitrary: bs' carry')
  case Nil
  then show ?case by simp
next
  case (Cons b bs)
  obtain r c where rc: "mul58_add bs carry = (r, c)"
    by force
  define m d where "m = (c + 58 * unat b) mod 256" and "d = (c + 58 * unat b) div 256"
  have md: "m + 256 * d = c + 58 * unat b" and m: "m < 256"
    by (simp_all add: m_def d_def)
  have ih: "length r = length bs" "be_val r + 256 ^ length bs * c = 58 * be_val bs + carry"
    using Cons.IH[OF rc] by simp_all
  have bs': "bs' = of_nat m # r" and carry': "carry' = d"
    using Cons.prems rc by (auto simp: Let_def m_def d_def)
  have "be_val bs' = m * 256 ^ length bs + be_val r"
    using be_val_append[of "[of_nat m]" r] m by (simp add: bs' ih(1))
  then have "be_val bs' + 256 ^ length (b # bs) * carry' = be_val r + 256 ^ length bs * (m + 256 * d)"
    by (simp add: carry' algebra_simps)
  also have "\<dots> = 58 * (be_val bs + 256 ^ length bs * unat b) + carry"
    unfolding md using ih(2) by (simp add: algebra_simps)
  finally show ?case
    using be_val_append[of "[b]" bs] by (simp add: bs' ih(1) algebra_simps)
qed

lemma fold_base58: "fold (\<lambda>c acc. 58 * acc + f c) s a = a * 58 ^ length s + fold (\<lambda>c acc. 58 * acc + f c) s (0 :: nat)"
proof (induction s arbitrary: a)
  case Nil
  then show ?case by simp
next
  case (Cons c s)
  show ?case
    using Cons[of "58 * a + f c"] Cons[of "f c"] by (simp add: algebra_simps)
qed

lemma fold_base58_less:
  "set s \<subseteq> set kBase58Alphabet \<Longrightarrow> base58_value s < 58 ^ length s"
proof (induction s)
  case Nil
  then show ?case by (simp add: base58_value_def)
next
  case (Cons c s)
  obtain i where i: "index_of c kBase58Alphabet = Some i"
    using Cons.prems index_of_None_iff[of c kBase58Alphabet] by (cases "index_of c kBase58Alphabet") auto
  have "i < 58"
    using index_of_less[OF i] by (simp add: kBase58Alphabet_def)
  then have "i * 58 ^ length s + 58 ^ length s \<le> 58 * 58 ^ length s"
    using mult_le_mono1[of "Suc i" 58 "58 ^ length s"] by simp
  moreover have "base58_value (c # s) = i * 58 ^ length s + base58_value s"
    using fold_base58[of "\<lambda>c. the (index_of c kBase58Alphabet)" s i] i by (simp add: base58_value_def)
  moreover have "base58_value s < 58 ^ length s"
    using Cons by simp
  ultimately show ?case
    by (simp only: list.size power_Suc add_0_right add_Suc_right)
qed

lemma base58_fits: "58 ^ n < (256 :: nat) ^ (n * 733 div 1000 + 1)"
proof -
  have "n * 52 < (n * 733 div 1000 + 1) * 71"
  proof -
    have "n * 733 mod 1000 < 1000"
      by simp
    moreover have "1000 * (n * 733 div 1000) + n * 733 mod 1000 = n * 733"
      by simp
    moreover obtain q r where "q = n * 733 div 1000" "r = n * 733 mod 1000"
      by blast
    ultimately have "1000 * q + r = n * 733" "r < 1000" and q: "q = n * 733 div 1000"
      by simp_all
    then have "n * 52 < (q + 1) * 71"
      by simp
    then show ?thesis
      by (simp only: q)
  qed
  have "(58 :: nat) ^ 71 \<le> 256 ^ 52"
    by simp
  then have "((58 :: nat) ^ 71) ^ n \<le> (256 ^ 52) ^ n"
    by (rule power_mono) simp
  then have "(58 :: nat) ^ (n * 71) \<le> 256 ^ (n * 52)"
    by (simp only: power_mult[symmetric] mult.commute[of n])
  also have "\<dots> < 256 ^ ((n * 733 div 1000 + 1) * 71)"
    by (rule power_strict_increasing[OF \<open>n * 52 < _\<close>]) simp
  finally have "((58 :: nat) ^ n) ^ 71 < (256 ^ (n * 733 div 1000 + 1)) ^ 71"
    by (simp only: power_mult)
  then show ?thesis
    by (rule power_less_imp_less_base) simp
qed

lemma base58_loop_value:
  assumes "set s \<subseteq> set kBase58Alphabet"
    and "be_val b * 58 ^ length s + base58_value s < 256 ^ length b"
  shows "\<exists>out. base58_loop s b = Inr out \<and> length out = length b \<and>
    be_val out = be_val b * 58 ^ length s + base58_value s"
  using assms
proof (induction s arbitrary: b)
  case Nil
  then show ?case by (simp add: base58_value_def)
next
  case (Cons c s)
  obtain i where i: "index_of c kBase58Alphabet = Some i"
    using Cons.prems(1) index_of_None_iff[of c kBase58Alphabet] by (cases "index_of c kBase58Alphabet") auto
  obtain b' carry where m: "mul58_add b i = (b', carry)"
    by force
  have v: "base58_value (c # s) = i * 58 ^ length s + base58_value s"
    using fold_base58[of "\<lambda>c. the (index_of c kBase58Alphabet)" s i] i by (simp add: base58_value_def)
  have l: "length b' = length b" and e: "be_val b' + 256 ^ length b * carry = 58 * be_val b + i"
    using mul58_add_value[OF m] by simp_all
  have total: "(58 * be_val b + i) * 58 ^ length s + base58_value s < 256 ^ length b"
    using Cons.prems(2) by (simp add: v algebra_simps)
  have "carry = 0"
  proof (rule ccontr)
    assume "carry \<noteq> 0"
    then have "256 ^ length b \<le> 256 ^ length b * carry"
      by simp
    also have "\<dots> \<le> (58 * be_val b + i) * 58 ^ length s"
      unfolding e[symmetric] by (simp add: algebra_simps trans_le_add2)
    finally show False
      using total by simp
  qed
  then have "be_val b' = 58 * be_val b + i"
    using e by simp
  then have "be_val b' * 58 ^ length s + base58_value s < 256 ^ length b'"
    using total l by simp
  from Cons.IH[OF _ this] Cons.prems(1) show ?case
    using \<open>carry = 0\<close> \<open>be_val b' = _\<close> by (simp add: i m l v algebra_simps)
qed

section \<open>Regrouping bits\<close>

definition value32 :: "bytes \<Rightarrow> nat" where
  "value32 vs = fold (\<lambda>v acc. 32 * acc + unat v) vs 0"

lemma value32_snoc: "value32 (vs @ [v]) = 32 * value32 vs + unat v"
  by (simp add: value32_def)

lemma emit_groups_value:
  "emit_groups 8 acc bits = (rest, out) \<Longrightarrow>
    rest < 8 \<and> bits = rest + 8 * length out \<and>
    unat acc mod 2 ^ bits = be_val out * 2 ^ rest + unat acc mod 2 ^ rest"
proof (induction "8 :: nat" acc bits arbitrary: rest out rule: emit_groups.induct)
  case (1 acc bits)
  show ?case
  proof (cases "bits < 8")
    case True
    with 1(2) show ?thesis
      by (auto simp: emit_groups.simps)
  next
    case False
    obtain r o' where e: "emit_groups 8 acc (bits - 8) = (r, o')"
      by force
    let ?b = "bits - 8"
    have ro: "rest = r" "out = ucast (drop_bit ?b acc AND mask 8) # o'"
      using 1(2) e False by (subst (asm) emit_groups.simps; simp)+
    have ih: "r < 8" "?b = r + 8 * length o'" "unat acc mod 2 ^ ?b = be_val o' * 2 ^ r + unat acc mod 2 ^ r"
      using 1(1)[OF _ refl e[unfolded refl]] False by auto
    have "drop_bit ?b acc AND mask 8 = take_bit 8 (drop_bit ?b acc)"
      by (simp add: take_bit_eq_mask)
    then have "unat (drop_bit ?b acc AND mask 8) = take_bit 8 (drop_bit ?b (unat acc))"
      by (simp only: unsigned_take_bit_eq unat_drop_bit_eq)
    then have u: "unat (ucast (drop_bit ?b acc AND mask 8) :: u8) = unat acc div 2 ^ ?b mod 256"
      by (simp add: unsigned_ucast_eq take_bit_eq_mod drop_bit_eq_div)
    have len: "256 ^ length o' * 2 ^ r = (2 :: nat) ^ ?b"
    proof -
      have "(256 :: nat) ^ length o' = 2 ^ (8 * length o')"
        by (simp add: power_mult)
      then show ?thesis
        by (simp add: ih(2) power_add mult.commute)
    qed
    have "unat acc mod 2 ^ bits = 2 ^ ?b * (unat acc div 2 ^ ?b mod 256) + unat acc mod 2 ^ ?b"
    proof -
      have "(2 :: nat) ^ (?b + 8) = 2 ^ ?b * 256"
        by (simp add: power_add)
      then have "(2 :: nat) ^ bits = 2 ^ ?b * 256"
        using False by simp
      then show ?thesis
        by (simp only: mod_mult2_eq)
    qed
    also have "\<dots> = (be_val o' + unat acc div 2 ^ ?b mod 256 * 256 ^ length o') * 2 ^ r + unat acc mod 2 ^ r"
      unfolding ih(3) by (simp only: len[symmetric] algebra_simps)
    also have "be_val o' + unat acc div 2 ^ ?b mod 256 * 256 ^ length o' = be_val out"
      using be_val_append[of "[ucast (drop_bit ?b acc AND mask 8)]" o'] u by (simp add: ro(2))
    finally show ?thesis
      using ih(1, 2) ro False by auto
  qed
qed

lemma push_in_value:
  fixes acc :: u32 and v :: u8
  assumes v: "drop_bit 5 v = 0" and b: "bits \<le> 7"
  shows "unat ((push_bit 5 acc OR ucast v) AND mask (5 + 8 - 1)) mod 2 ^ (bits + 5) =
    32 * (unat acc mod 2 ^ bits) + unat v \<and> unat v < 32"
proof -
  have "unat (drop_bit 5 v) = drop_bit 5 (unat v)"
    by (simp only: unat_drop_bit_eq)
  then have v32: "unat v < 32"
    using v by (simp add: drop_bit_eq_div div_eq_0_iff)
  have bv: "\<not> bit v n" if "5 \<le> n" for n
    using v bit_drop_bit_eq[of 5 v] that by (metis bit_0_eq bot_apply bot_bool_def le_add_diff_inverse comp_apply)
  have "push_bit 5 acc AND ucast v = 0"
    by (rule bit_word_eqI) (auto simp: bit_simps bv)
  then have "push_bit 5 acc OR ucast v = push_bit 5 acc + ucast v"
    by (simp only: disjunctive_add_eq_or)
  also have "\<dots> = of_nat (32 * unat acc + unat v)"
    by (simp add: push_bit_eq_mult)
  finally have o: "push_bit 5 acc OR ucast v = (of_nat (32 * unat acc + unat v) :: u32)" .
  have "unat ((push_bit 5 acc OR ucast v) AND mask 12) = take_bit 12 (unat (push_bit 5 acc OR ucast v :: u32))"
    by (simp only: take_bit_eq_mask[symmetric] unsigned_take_bit_eq)
  also have "\<dots> = (32 * unat acc + unat v) mod 2 ^ 32 mod 2 ^ 12"
    unfolding o by (simp only: unat_of_nat take_bit_eq_mod len_num0 len_bit0 len_num1 mult_1_right) simp
  also have "\<dots> = (32 * unat acc + unat v) mod 2 ^ 12"
    by (rule mod_mod_cancel) simp
  finally have u: "unat ((push_bit 5 acc OR ucast v) AND mask 12) = (32 * unat acc + unat v) mod 2 ^ 12" .
  have "(32 * unat acc + unat v) mod 2 ^ 12 mod 2 ^ (bits + 5) = (32 * unat acc + unat v) mod 2 ^ (bits + 5)"
    using b by (intro mod_mod_cancel le_imp_power_dvd) simp
  also have "\<dots> = (32 * unat acc + unat v) mod (32 * 2 ^ bits)"
    by (simp add: power_add mult.commute)
  also have "\<dots> = 32 * ((32 * unat acc + unat v) div 32 mod 2 ^ bits) + (32 * unat acc + unat v) mod 32"
    by (rule mod_mult2_eq)
  also have "\<dots> = 32 * (unat acc mod 2 ^ bits) + unat v"
    using v32 by simp
  finally show ?thesis
    using u v32 by simp
qed

lemma fold_value32: "fold (\<lambda>v acc. 32 * acc + unat v) vs a = a * 32 ^ length vs + value32 vs" for vs :: bytes
proof (induction vs arbitrary: a)
  case Nil
  then show ?case by (simp add: value32_def)
next
  case (Cons v vs)
  show ?case
    using Cons[of "32 * a + unat v"] Cons[of "unat v"] by (simp add: value32_def algebra_simps)
qed

lemma convert_loop_value:
  "convert_loop 5 8 vs acc bits = Inr (acc', bits', out) \<Longrightarrow> bits \<le> 7 \<Longrightarrow>
    bits' < 8 \<and> 8 * length out + bits' = bits + 5 * length vs \<and> (\<forall>v \<in> set vs. unat v < 32) \<and>
    (unat acc mod 2 ^ bits) * 32 ^ length vs + value32 vs = be_val out * 2 ^ bits' + unat acc' mod 2 ^ bits'"
proof (induction vs arbitrary: acc bits out)
  case Nil
  then show ?case by (simp add: value32_def)
next
  case (Cons v vs)
  let ?a = "(push_bit 5 acc OR ucast v) AND mask (5 + 8 - 1) :: u32"
  have v0: "drop_bit 5 v = 0"
    using Cons.prems(1) by (auto split: if_splits)
  obtain b1 o1 where e: "emit_groups 8 ?a (bits + 5) = (b1, o1)"
    by force
  obtain o2 where c: "convert_loop 5 8 vs ?a b1 = Inr (acc', bits', o2)" and out: "out = o1 @ o2"
    using Cons.prems(1) v0 e by (auto simp: Let_def bindE_Inr_iff)
  have g: "b1 < 8" "bits + 5 = b1 + 8 * length o1"
      "unat ?a mod 2 ^ (bits + 5) = be_val o1 * 2 ^ b1 + unat ?a mod 2 ^ b1"
    using emit_groups_value[OF e] by auto
  have p: "unat ?a mod 2 ^ (bits + 5) = 32 * (unat acc mod 2 ^ bits) + unat v" and v32: "unat v < 32"
    using push_in_value[OF v0 Cons.prems(2)] by blast+
  have ih: "bits' < 8" "8 * length o2 + bits' = b1 + 5 * length vs" "\<forall>v \<in> set vs. unat v < 32"
      "(unat ?a mod 2 ^ b1) * 32 ^ length vs + value32 vs = be_val o2 * 2 ^ bits' + unat acc' mod 2 ^ bits'"
    using Cons.IH[OF c] g(1) by auto
  have v: "value32 (v # vs) = unat v * 32 ^ length vs + value32 vs"
    using fold_value32[of vs "unat v"] by (simp add: value32_def)
  have pow: "(2 :: nat) ^ b1 * 32 ^ length vs = 256 ^ length o2 * 2 ^ bits'"
  proof -
    have "(2 :: nat) ^ b1 * 32 ^ length vs = 2 ^ (b1 + 5 * length vs)"
      by (simp add: power_add power_mult)
    also have "\<dots> = 256 ^ length o2 * 2 ^ bits'"
      unfolding ih(2)[symmetric] by (simp add: power_add power_mult)
    finally show ?thesis .
  qed
  have "(unat acc mod 2 ^ bits) * 32 ^ length (v # vs) + value32 (v # vs) =
      (32 * (unat acc mod 2 ^ bits) + unat v) * 32 ^ length vs + value32 vs"
    by (simp add: v algebra_simps)
  also have "\<dots> = be_val o1 * (2 ^ b1 * 32 ^ length vs) + ((unat ?a mod 2 ^ b1) * 32 ^ length vs + value32 vs)"
    unfolding p[symmetric] g(3) by (simp only: algebra_simps)
  also have "\<dots> = be_val out * 2 ^ bits' + unat acc' mod 2 ^ bits'"
    unfolding ih(4) pow by (simp add: out be_val_append algebra_simps)
  finally show ?case
    using ih(1-3) g(2) v32 out by auto
qed

lemma convert_bits_value:
  assumes "convert_bits vs 5 8 False = Inr out"
  shows "\<exists>pad < 5. 5 * length vs = 8 * length out + pad \<and> value32 vs = be_val out * 2 ^ pad \<and> (\<forall>v \<in> set vs. unat v < 32)"
proof -
  obtain acc bits where c: "convert_loop 5 8 vs 0 0 = Inr (acc, bits, out)" and b: "bits < 5"
      and tail: "push_bit (8 - bits) acc AND mask 8 = (0 :: u32)"
    using assms by (auto simp: convert_bits_def bindE_Inr_iff Let_def not_le split: if_splits)
  have "\<not> bit acc n" if "n < bits" for n
  proof -
    have "\<not> bit (push_bit (8 - bits) acc AND mask 8 :: u32) (n + (8 - bits))"
      unfolding tail by simp
    with that b show ?thesis
      by (auto simp: bit_simps)
  qed
  then have "take_bit bits acc = 0"
    by (intro bit_word_eqI) (auto simp: bit_simps)
  then have "take_bit bits (unat acc) = 0"
    by (metis unsigned_take_bit_eq unsigned_0)
  then have "unat acc mod 2 ^ bits = 0"
    by (simp add: take_bit_eq_mod)
  with convert_loop_value[OF c] b show ?thesis
    by (intro exI[of _ bits]) auto
qed

section \<open>Programs and scripts\<close>

definition program_ok :: "decoded \<Rightarrow> bool" where
  "program_ok d \<longleftrightarrow>
     (case d_type d of
        P2PKH \<Rightarrow> length (d_program d) = 20 | P2SH \<Rightarrow> length (d_program d) = 20
      | P2WPKH \<Rightarrow> length (d_program d) = 20 | P2WSH \<Rightarrow> length (d_program d) = 32
      | P2TR \<Rightarrow> length (d_program d) = 32
      | _ \<Rightarrow> length (d_program d) \<in> {20, 24, 28, 32, 40, 48, 56, 64})"

lemma first_bech_ok: "first_bech addr hs = Some d \<Longrightarrow> program_ok d"
  by (induction addr hs rule: first_bech.induct)
    (auto simp: try_bech_def program_ok_def split: option.splits if_splits sum.splits prod.splits)

lemma map_of_range: "map_of xs k = Some v \<Longrightarrow> v \<in> snd ` set xs"
  by (metis map_of_SomeD image_eqI snd_conv)

lemma base58_versions_legacy:
  "base58_version v = Some (t, net) \<Longrightarrow> t \<in> {P2PKH, P2SH}"
  "zcash_version v = Some (t, net) \<Longrightarrow> t \<in> {P2PKH, P2SH}"
  unfolding base58_version_def zcash_version_def by (drule map_of_range, fastforce)+

lemma decode_base58_ok: "decode_base58 sha256 addr = Inr d \<Longrightarrow> program_ok d"
  by (auto simp: decode_base58_def program_ok_def Let_def split: sum.splits if_splits option.splits prod.splits
      dest!: base58_versions_legacy)

lemma cashaddr_hash_length:
  "cashaddr_decode addr = Inr (prefix, type, hash) \<Longrightarrow> length hash \<in> {20, 24, 28, 32, 40, 48, 56, 64}"
proof -
  assume a: "cashaddr_decode addr = Inr (prefix, type, hash)"
  then obtain bs :: bytes where "bs \<noteq> []" "length bs - 1 = (kSizeMap ! (unat (hd bs) mod 8)) div 8" "hash = tl bs"
    by (auto simp: cashaddr_decode_def Let_def bindE_Inr_iff split: if_splits option.splits prod.splits)
  moreover have "kSizeMap ! n div 8 \<in> {20, 24, 28, 32, 40, 48, 56, 64}" if "n < 8" for n
  proof -
    have "\<forall>n < 8. kSizeMap ! n div 8 \<in> {20, 24, 28, 32, 40, 48, 56, 64}"
      by code_simp
    with that show ?thesis by blast
  qed
  ultimately show ?thesis
    by simp
qed

lemma decode_program_ok:
  assumes "decode sha256 addr = Inr d"
  shows "program_ok d"
proof -
  have rest: "program_ok d" if "(case first_bech addr known_hrps of Some d \<Rightarrow> Inr d | None \<Rightarrow> decode_base58 sha256 addr) = Inr d"
    using that first_bech_ok decode_base58_ok by (auto split: option.splits)
  have cash: "program_ok \<lparr>d_type = (if type = 0 then BchP2PKH else BchP2SH), d_network = net, d_program = hash\<rparr>"
    if "cashaddr_decode addr = Inr (prefix, type, hash)" for prefix type hash net
    using cashaddr_hash_length[OF that] by (simp add: program_ok_def)
  show ?thesis
    using assms rest cash unfolding decode_def Let_def
    by (auto split: if_splits sum.splits option.splits prod.splits)
qed

definition script_bytes :: "decoded \<Rightarrow> bytes" where
  "script_bytes d =
     (case d_type d of
        P2PKH \<Rightarrow> [0x76, 0xa9, 20] @ d_program d @ [0x88, 0xac]
      | BchP2PKH \<Rightarrow> [0x76, 0xa9, 20] @ d_program d @ [0x88, 0xac]
      | P2SH \<Rightarrow> [0xa9, 20] @ d_program d @ [0x87]
      | BchP2SH \<Rightarrow> [0xa9, 20] @ d_program d @ [0x87]
      | P2WPKH \<Rightarrow> [0, 20] @ d_program d
      | P2WSH \<Rightarrow> [0, 32] @ d_program d
      | P2TR \<Rightarrow> [0x51, 32] @ d_program d)"

lemma script_hex_constants:
  "''76a914'' = bytes_to_hex [0x76, 0xa9, 20]" "''88ac'' = bytes_to_hex [0x88, 0xac]"
  "''a914'' = bytes_to_hex [0xa9, 20]" "''87'' = bytes_to_hex [0x87]" "''0014'' = bytes_to_hex [0, 20]"
  "''0020'' = bytes_to_hex [0, 32]" "''5120'' = bytes_to_hex [0x51, 32]"
  by code_simp+

lemma script_pubkey_bytes: "script_pubkey_hex d = bytes_to_hex (script_bytes d)"
  unfolding script_pubkey_hex_def script_bytes_def script_hex_constants(1) unfolding script_hex_constants
  by (cases "d_type d"; simp only: addr_type.case bytes_to_hex_append append_assoc)

definition is_cash :: "addr_type \<Rightarrow> bool" where
  "is_cash t \<longleftrightarrow> t = BchP2PKH \<or> t = BchP2SH"

section \<open>Properties\<close>

text \<open>C35: Whatever address string decodes, its program has the length its type announces: 20 bytes for
  P2PKH, P2SH and P2WPKH, 32 for P2WSH and P2TR, one of the eight CashAddr sizes for a CashAddr
  type. For the non-CashAddr types the script emitted is the hex of the standard template with a
  push of exactly the program's length, and a transaction output with it has \<open>output_vbytes\<close> bytes.\<close>

theorem decoded_script_well_formed:
  assumes "decode sha256 addr = Inr d"
  shows "hex_to_bytes (script_pubkey_hex d) = Inr (script_bytes d) \<and> program_ok d \<and>
    (\<not> is_cash (d_type d) \<longrightarrow> 9 + length (script_bytes d) = output_vbytes (d_type d)) \<and>
    (is_cash (d_type d) \<longrightarrow> length (d_program d) \<in> {20, 24, 28, 32, 40, 48, 56, 64})"
  using decode_program_ok[OF assms] unfolding script_pubkey_bytes
  by (auto simp: program_ok_def script_bytes_def output_vbytes_def is_cash_def
      simp del: bytes_to_hex.simps split: addr_type.splits)

abbreviation cash32 :: string where
  "cash32 \<equiv> ''bitcoincash:qvqqzqsrqszsvpcgpy9qkrqdpc83qygjzv2p29shrqv35xcur50p77hk2ql29''"

lemma cash32_cashaddr: "cashaddr_decode cash32 = Inr (''bitcoincash'', 0, map of_nat [0..<32])"
  by code_simp

lemma cash32_decodes:
  "decode id cash32 = Inr \<lparr>d_type = BchP2PKH, d_network = BchMainnet, d_program = map of_nat [0..<32]\<rparr>"
  unfolding decode_def cash32_cashaddr by (simp add: cash_network_def Let_def del: upt_rec_numeral)

lemma decoded_script_well_formed_witness:
  "hex_to_bytes (script_pubkey_hex \<lparr>d_type = BchP2PKH, d_network = BchMainnet, d_program = map of_nat [0..<32]\<rparr>) =
     Inr ([0x76, 0xa9, 20] @ map of_nat [0..<32] @ [0x88, 0xac])"
  using conjunct1[OF decoded_script_well_formed[OF cash32_decodes]] by (simp add: script_bytes_def)

lemma base58_loop_append: "base58_loop (s @ t) b = bindE (base58_loop s b) (base58_loop t)"
  by (induction s arbitrary: b) (auto split: option.split prod.split simp: Let_def)

lemma base58_decode_loop:
  "base58_decode s = bindE (base58_loop (dropWhile (\<lambda>c. c = CHR ''1'') s) (replicate (length s * 733 div 1000 + 1) 0))
     (\<lambda>b256. Inr (replicate (length (takeWhile (\<lambda>c. c = CHR ''1'') s)) 0 @ dropWhile (\<lambda>b. b = 0) b256))"
  by (simp add: base58_decode_def Let_def dropWhile_eq_drop[symmetric])

lemma base58_value_ones: "base58_value (dropWhile (\<lambda>c. c = CHR ''1'') s) = base58_value s"
proof -
  have "index_of (CHR ''1'') kBase58Alphabet = Some 0"
    by (simp add: kBase58Alphabet_def)
  then have "fold (\<lambda>c acc. 58 * acc + the (index_of c kBase58Alphabet)) (takeWhile (\<lambda>c. c = CHR ''1'') t) 0 = 0" for t
    by (induction t) simp_all
  then show ?thesis
    unfolding base58_value_def by (metis takeWhile_dropWhile_id fold_append comp_apply)
qed

lemma base58_alphabet_ones:
  "set (dropWhile (\<lambda>c. c = CHR ''1'') s) \<subseteq> set kBase58Alphabet \<longleftrightarrow> set s \<subseteq> set kBase58Alphabet"
proof -
  have "CHR ''1'' \<in> set kBase58Alphabet"
    by (simp add: kBase58Alphabet_def)
  moreover have "set s = set (takeWhile (\<lambda>c. c = CHR ''1'') s) \<union> set (dropWhile (\<lambda>c. c = CHR ''1'') s)"
    by (metis set_append takeWhile_dropWhile_id)
  ultimately show ?thesis
    using set_takeWhileD[of _ "\<lambda>c. c = CHR ''1''" s] by auto
qed

lemma base58_decode_ok:
  assumes "set s \<subseteq> set kBase58Alphabet"
  shows "\<exists>bs. base58_decode s = Inr (replicate (length (takeWhile (\<lambda>c. c = CHR ''1'') s)) 0 @ bs) \<and>
    be_val bs = base58_value s \<and> (bs = [] \<or> hd bs \<noteq> 0)"
proof -
  define t b where "t = dropWhile (\<lambda>c. c = CHR ''1'') s" and "b = replicate (length s * 733 div 1000 + 1) (0 :: u8)"
  have val: "base58_value t = base58_value s" and t: "set t \<subseteq> set kBase58Alphabet"
    using assms by (simp_all only: t_def base58_value_ones base58_alphabet_ones)
  have "be_val b = 0" and "base58_value s < 256 ^ length b"
    using order.strict_trans[OF fold_base58_less[OF assms] base58_fits] by (simp_all only: b_def be_val_zeros length_replicate)
  then obtain out where out: "base58_loop t b = Inr out" "be_val out = base58_value s"
    using base58_loop_value[OF t, of b] val by auto
  have "be_val (dropWhile (\<lambda>b. b = 0) out) = be_val out"
    by (induction out) (auto simp: be_val_def le_val_append)
  with out show ?thesis
    using hd_dropWhile[of "\<lambda>b. b = 0" out] by (auto simp: base58_decode_loop t_def b_def)
qed

lemma base58_loop_bad:
  assumes bad: "\<not> set t \<subseteq> set kBase58Alphabet" and fits: "58 ^ length t < (256 :: nat) ^ length b" and "be_val b = 0"
  shows "base58_loop t b = Inl BadCharacter"
proof -
  let ?g = "takeWhile (\<lambda>c. c \<in> set kBase58Alphabet) t"
  obtain c r where cr: "dropWhile (\<lambda>c. c \<in> set kBase58Alphabet) t = c # r" and c: "c \<notin> set kBase58Alphabet"
    using bad by (cases "dropWhile (\<lambda>c. c \<in> set kBase58Alphabet) t") (auto simp: dropWhile_eq_Nil_conv dropWhile_eq_Cons_conv)
  have g: "set ?g \<subseteq> set kBase58Alphabet"
    using set_takeWhileD[of _ "\<lambda>c. c \<in> set kBase58Alphabet" t] by auto
  have "base58_value ?g < 58 ^ length ?g"
    by (rule fold_base58_less[OF g])
  also have "\<dots> \<le> 58 ^ length t"
    by (intro power_increasing length_takeWhile_le) simp
  also note fits
  finally obtain out where "base58_loop ?g b = Inr out"
    using base58_loop_value[OF g, of b] assms(3) by auto
  moreover have "base58_loop (c # r) out = Inl BadCharacter"
    using c by (simp add: index_of_None_iff[symmetric])
  ultimately have "base58_loop (?g @ c # r) b = Inl BadCharacter"
    by (simp add: base58_loop_append)
  then show ?thesis
    using cr by (metis takeWhile_dropWhile_id)
qed

lemma base58_decode_bad:
  assumes "\<not> set s \<subseteq> set kBase58Alphabet"
  shows "base58_decode s = Inl BadCharacter"
proof -
  have "(58 :: nat) ^ length (dropWhile (\<lambda>c. c = CHR ''1'') s) \<le> 58 ^ length s"
    by (intro power_increasing length_dropWhile_le) simp
  also note base58_fits[of "length s"]
  finally have "base58_loop (dropWhile (\<lambda>c. c = CHR ''1'') s) (replicate (length s * 733 div 1000 + 1) 0) = Inl BadCharacter"
    using assms by (intro base58_loop_bad) (simp_all only: base58_alphabet_ones length_replicate be_val_zeros not_False_eq_True)
  then show ?thesis
    by (simp add: base58_decode_loop)
qed

text \<open>\<open>base58_decode\<close> is positional base 58: it fails only on a character outside the alphabet (its
  accumulator is always long enough), and otherwise returns one zero byte per leading \<open>1\<close> followed by
  the big-endian bytes, without leading zeros, of the value of the digits.\<close>

theorem base58_decode_positional:
  "if set s \<subseteq> set kBase58Alphabet
   then \<exists>bs. base58_decode s = Inr (replicate (length (takeWhile (\<lambda>c. c = CHR ''1'') s)) 0 @ bs) \<and>
     be_val bs = base58_value s \<and> (bs = [] \<or> hd bs \<noteq> 0)
   else base58_decode s = Inl BadCharacter"
  using base58_decode_ok[of s] base58_decode_bad[of s] by auto

lemma base58_decode_positional_witness:
  "\<exists>bs. base58_decode ''1z'' = Inr (0 # bs) \<and> be_val bs = 57 \<and> bs \<noteq> [] \<and> hd bs \<noteq> 0"
proof -
  have "set ''1z'' \<subseteq> set kBase58Alphabet" "base58_value ''1z'' = 57"
    "length (takeWhile (\<lambda>c. c = CHR ''1'') ''1z'') = 1"
    by code_simp+
  then show ?thesis
    using base58_decode_positional[of "''1z''"] by (auto simp: be_val_def)
qed

text \<open>The bit regrouping of segwit programs and CashAddr payloads loses nothing: when
  \<open>convert_bits\<close> accepts 5-bit groups, each group is below 32, fewer than 5 padding bits are left, all
  of them zero, and the bytes are the groups' value as a number shifted right by the padding.\<close>

theorem convert_bits_preserves_value:
  assumes "convert_bits vs 5 8 False = Inr out"
  shows "\<exists>pad < 5. 5 * length vs = 8 * length out + pad \<and> value32 vs = be_val out * 2 ^ pad \<and>
    (\<forall>v \<in> set vs. unat v < 32)"
  by (rule convert_bits_value[OF assms])

lemma convert_bits_preserves_value_witness:
  "convert_bits [31, 28] 5 8 False = Inr [0xff] \<and> (\<exists>pad < 5. value32 [31, 28] = be_val [0xff] * 2 ^ pad)"
proof -
  have c: "convert_bits [31, 28] 5 8 False = Inr [0xff]"
    by code_simp
  with convert_bits_preserves_value[OF c] show ?thesis
    by blast
qed

text \<open>
  A CashAddr with a 32-byte hash decodes as \<open>BchP2PKH\<close>, and the script emitted for it announces a push
  of 20 bytes in front of 32: it is not the standard template of its program.
\<close>

lemma cashaddr_32_byte_script:
  "script_bytes \<lparr>d_type = BchP2PKH, d_network = BchMainnet, d_program = map of_nat [0..<32]\<rparr> ! 2 = 20 \<and>
   length (d_program \<lparr>d_type = BchP2PKH, d_network = BchMainnet, d_program = map of_nat [0..<32]\<rparr>) = 32"
  by (simp add: script_bytes_def)

end
