(* ===== verification/Coinbase.thy ===== *)
theory Coinbase
  imports Stratifier Address
begin

text \<open>
  The coinbase code of \<open>src/client_session.cpp\<close>: the session's half of the coinbase
  (\<open>build_session_coinbase2\<close>), the Dogecoin coinbase and header of merged mining (\<open>build_doge_coinbase\<close>,
  \<open>build_session_aux\<close>), the witness form for block submission (\<open>segwitify_coinbase\<close>) and the shares of
  the reward. Money is \<open>int\<close> (int64); a percentage is a double; \<open>std::llround\<close> rounds halves away from
  zero. SHA-256 is the parameter \<open>sha256\<close>.

  The reference is the Bitcoin transaction format \<open>serialize_tx\<close>: the theorems show that what miner and
  pool concatenate is exactly one well-formed transaction with the intended outputs.
\<close>

section \<open>Reward shares\<close>

definition llround :: "rat \<Rightarrow> int" where
  "llround x = \<lfloor>round_away x\<rfloor>"

text \<open>\<open>llround((double)value * percent / 100.0)\<close>.\<close>

definition percent_of :: "int \<Rightarrow> rat \<Rightarrow> int" where
  "percent_of v percent = llround (dbl (dbl (dbl (of_int v) * percent) / 100))"

text \<open>\<open>snprintf(buf, 3, "%02zx", n)\<close>: at least two digits, cut to two.\<close>

definition snprintf_02x :: "nat \<Rightarrow> hex" where
  "snprintf_02x n = take 2 (if n < 16 then CHR ''0'' # hex_number n else hex_number n)"

definition append_output :: "int \<Rightarrow> hex \<Rightarrow> hex \<Rightarrow> hex" where
  "append_output v spk_hex cb = cb @ le_hex_u64 (of_int v) @ snprintf_02x (length spk_hex div 2) @ spk_hex"

section \<open>The session's half of the coinbase\<close>

definition default_miner_fund_script :: hex where
  "default_miner_fund_script = ''a914d37c4c809fe9840e7bfa77b86bd47163f6fb6c6087''"

definition default_staking_script :: hex where
  "default_staking_script = ''76a9140e1ce96692cf15155985bf010264725428d3233e88ac''"

text \<open>The eCash consensus outputs: values and scripts, all zero on the other chains.\<close>

definition ecash_values :: "(bytes \<Rightarrow> bytes) \<Rightarrow> chain_kind \<Rightarrow> mining_job \<Rightarrow> (int \<times> hex) \<times> (int \<times> hex)" where
  "ecash_values sha256 ch job =
     (if ch \<noteq> ECash then ((0, default_miner_fund_script), (0, default_staking_script))
      else
        ((if mj_miner_fund_value job > 0 then mj_miner_fund_value job
          else percent_of (mj_coinbase_value job) 32,
          if mj_miner_fund_address job \<noteq> [] then
            (case decode sha256 (mj_miner_fund_address job) of
               Inr d \<Rightarrow> script_pubkey_hex d | Inl _ \<Rightarrow> default_miner_fund_script)
          else default_miner_fund_script),
         (if mj_staking_rewards_value job > 0 then mj_staking_rewards_value job
          else percent_of (mj_coinbase_value job) 10,
          if mj_staking_rewards_script job \<noteq> [] then mj_staking_rewards_script job
          else default_staking_script)))"

text \<open>The operator's donation out of the remaining value, and its script.\<close>

definition session_donation :: "(bytes \<Rightarrow> bytes) \<Rightarrow> mining_job \<Rightarrow> int \<Rightarrow> int \<times> hex" where
  "session_donation sha256 job remaining =
     (if mj_donation_percent job > 0 \<and> mj_donation_address job \<noteq> [] then
        (case decode sha256 (mj_donation_address job) of
           Inl _ \<Rightarrow> (0, [])
         | Inr d \<Rightarrow>
             let donation = percent_of remaining (mj_donation_percent job)
             in if donation > remaining then (0, []) else (donation, script_pubkey_hex d))
      else (0, []))"

definition build_session_coinbase2 :: "(bytes \<Rightarrow> bytes) \<Rightarrow> chain_kind \<Rightarrow> mining_job \<Rightarrow> hex \<Rightarrow> hex" where
  "build_session_coinbase2 sha256 ch job miner_script_hex =
     (if miner_script_hex = [] then []
      else
        let ((mf_val, mf_script), (sr_val, sr_script)) = ecash_values sha256 ch job;
            remaining = mj_coinbase_value job - mf_val - sr_val;
            (donation, donation_script) = session_donation sha256 job remaining;
            miner_value = remaining - donation;
            add_commit = (mj_segwit_active job \<and> mj_witness_commitment job \<noteq> []);
            outputs = (if ch = ECash then (if donation > 0 then 2 else 1) + 2
                       else (if donation > 0 then 2 else 1) + (if add_commit then 1 else 0));
            cb = ''ffffffff'' @ snprintf_02x outputs;
            cb = append_output miner_value miner_script_hex cb;
            cb = (if donation > 0 \<and> donation_script \<noteq> [] then append_output donation donation_script cb else cb);
            cb = (if ch = ECash then append_output sr_val sr_script (append_output mf_val mf_script cb) else cb);
            cb = (if add_commit then append_output 0 (mj_witness_commitment job) cb else cb)
        in cb @ ''00000000'')"

section \<open>Witness form\<close>

definition segwitify_coinbase :: "hex \<Rightarrow> hex" where
  "segwitify_coinbase cb_hex =
     (if length cb_hex < 16 then cb_hex
      else take 8 cb_hex @ ''0001'' @ take (length cb_hex - 16) (drop 8 cb_hex) @ ''01'' @ ''20'' @ zeros64
           @ drop (length cb_hex - 8) cb_hex)"

section \<open>Dogecoin\<close>

definition build_doge_coinbase :: "int \<Rightarrow> string \<Rightarrow> int \<Rightarrow> hex \<Rightarrow> hex \<Rightarrow> rat \<Rightarrow> hex res" where
  "build_doge_coinbase height sig value miner_script donation_script donation_percent =
     bindE (encode_bip34_height height) (\<lambda>hp.
     bindE (if sig = [] then Inr [] else encode_push_bytes (map (\<lambda>c. of_nat (of_char c)) sig)) (\<lambda>sp.
       let script_sig = hp @ sp; ss_len = length script_sig div 2
       in if ss_len > 0xfc then Inr []
          else
            let donation = (if donation_percent > 0 \<and> donation_script \<noteq> [] then
                              (let d = percent_of value donation_percent
                               in if d < 0 \<or> d > value then 0 else d)
                            else 0);
                miner_value = value - donation;
                outputs = (if donation > 0 \<and> donation_script \<noteq> [] then 2 else 1);
                cb = ''01000000'' @ ''01'' @ zeros64 @ ''ffffffff'' @ snprintf_02x ss_len @ script_sig
                     @ ''ffffffff'' @ snprintf_02x outputs;
                cb = append_output miner_value miner_script cb;
                cb = (if donation > 0 \<and> donation_script \<noteq> [] then append_output donation donation_script cb else cb)
            in Inr (cb @ ''00000000'')))"

record session_aux =
  sa_aux_target :: hex
  sa_aux_commit :: hex
  sa_doge_coinbase :: hex
  sa_doge_header :: hex
  sa_doge_block_hash :: hex
  sa_aux_height :: int
  sa_aux_value :: int

record aux_config =
  aux_donationPercent :: rat
  aux_donationAddress :: string

definition build_session_aux ::
    "(bytes \<Rightarrow> bytes) \<Rightarrow> aux_config \<Rightarrow> string \<Rightarrow> hex \<Rightarrow> mining_job \<Rightarrow> session_aux option res" where
  "build_session_aux sha256 acfg sig doge_script_hex job =
     (if \<not> mj_aux_enabled job \<or> doge_script_hex = [] then Inr None
      else if length (mj_aux_prevhash job) \<noteq> 64 \<or> length (mj_aux_bits job) \<noteq> 8 then Inr None
      else if length (mj_aux_target job) \<noteq> 64 then Inr None
      else
        let donation_script =
              (if aux_donationPercent acfg > 0 \<and> aux_donationAddress acfg \<noteq> [] then
                 (case decode sha256 (aux_donationAddress acfg) of Inr d \<Rightarrow> script_pubkey_hex d | Inl _ \<Rightarrow> [])
               else [])
        in bindE (build_doge_coinbase (mj_aux_height job) sig (mj_aux_coinbasevalue job) doge_script_hex
                    donation_script (aux_donationPercent acfg)) (\<lambda>doge_cb.
             if doge_cb = [] then Inr None
             else bindE (compute_coinbase_txid_le sha256 doge_cb) (\<lambda>merkleroot.
               let doge_header = le_hex_u32 (mj_aux_version job) @ byte_reverse_hex (mj_aux_prevhash job)
                     @ merkleroot @ le_hex_u32 (mj_aux_curtime job) @ byte_reverse_hex (mj_aux_bits job)
                     @ ''00000000''
               in bindE (compute_coinbase_txid_le sha256 doge_header) (\<lambda>h.
                    let aux_hash = byte_reverse_hex h
                    in Inr (Some \<lparr>sa_aux_target = mj_aux_target job,
                         sa_aux_commit = ''fabe6d6d'' @ aux_hash @ ''01000000'' @ ''00000000'',
                         sa_doge_coinbase = doge_cb, sa_doge_header = doge_header,
                         sa_doge_block_hash = aux_hash, sa_aux_height = mj_aux_height job,
                         sa_aux_value = mj_aux_coinbasevalue job\<rparr>)))))"

text \<open>Splicing the session's commitment over the last 88 digits of \<open>coinbase1\<close>.\<close>

definition splice_aux_commit :: "hex \<Rightarrow> hex \<Rightarrow> hex" where
  "splice_aux_commit coinbase1 aux_commit =
     (if length coinbase1 \<ge> 88 then take (length coinbase1 - 88) coinbase1 @ aux_commit else coinbase1)"

section \<open>Reference: the transaction format\<close>

record tx_out =
  to_value :: nat
  to_script :: bytes

definition serialize_out :: "tx_out \<Rightarrow> bytes" where
  "serialize_out t = nat_le 8 (to_value t) @ varint_bytes (length (to_script t)) @ to_script t"

definition serialize_outs :: "tx_out list \<Rightarrow> bytes" where
  "serialize_outs outs = varint_bytes (length outs) @ concat (map serialize_out outs)"

text \<open>A version-1 transaction with a single null-outpoint input (a coinbase), locktime 0.\<close>

definition serialize_coinbase :: "bytes \<Rightarrow> tx_out list \<Rightarrow> bytes" where
  "serialize_coinbase script_sig outs =
     [1, 0, 0, 0] @ varint_bytes 1 @ replicate 32 0 @ replicate 4 0xff
     @ varint_bytes (length script_sig) @ script_sig @ replicate 4 0xff
     @ serialize_outs outs @ replicate 4 0"

text \<open>The same transaction with the witness marker, flag and reserved value.\<close>

definition serialize_coinbase_witness :: "bytes \<Rightarrow> tx_out list \<Rightarrow> bytes" where
  "serialize_coinbase_witness script_sig outs =
     [1, 0, 0, 0] @ [0, 1] @ varint_bytes 1 @ replicate 32 0 @ replicate 4 0xff
     @ varint_bytes (length script_sig) @ script_sig @ replicate 4 0xff
     @ serialize_outs outs @ [1, 32] @ replicate 32 0 @ replicate 4 0"

section \<open>Pieces in bytes\<close>

lemma snprintf_02x_bytes:
  assumes "n < 0xfd"
  shows "snprintf_02x n = bytes_to_hex (varint_bytes n)"
proof -
  have "snprintf_02x n = [hex_digit (n div 16 mod 16), hex_digit (n mod 16)]"
    using assms by (auto simp: snprintf_02x_def hex_number.simps[of n] hex_number.simps[of "n div 16"]
        hex_digit_def div_less)
  also have "\<dots> = bytes_to_hex [of_nat n]"
    by (rule bytes_to_hex_of_nat[symmetric])
  finally show ?thesis
    using assms by (simp add: varint_bytes_def)
qed

lemma le_hex_of_int:
  assumes "0 \<le> v" and "v < 2 ^ 64"
  shows "le_hex_u64 (of_int v) = bytes_to_hex (nat_le 8 (nat v))"
proof -
  have "unat (of_int v :: u64) = nat v"
    using assms by (simp add: unsigned_of_int take_bit_int_eq_self)
  then show ?thesis
    by (simp add: le_hex_u64_bytes)
qed

lemma append_output_bytes:
  assumes "0 \<le> v" "v < 2 ^ 64" "length sb < 0xfd"
  shows "append_output v (bytes_to_hex sb) cb = cb @ bytes_to_hex (serialize_out \<lparr>to_value = nat v, to_script = sb\<rparr>)"
  using assms by (simp add: append_output_def serialize_out_def le_hex_of_int snprintf_02x_bytes)

lemma round_away_nonneg: "0 \<le> x \<Longrightarrow> 0 \<le> round_away x"
  by (simp add: round_away_def)

lemma percent_of_nonneg: "0 \<le> v \<Longrightarrow> 0 \<le> p \<Longrightarrow> 0 \<le> percent_of v p"
  by (simp add: percent_of_def llround_def round_away_nonneg rnd_nonneg)

lemma hex_pieces:
  "''00000000'' = bytes_to_hex (replicate 4 0)" "''0001'' = bytes_to_hex [0, 1]" "''20'' = bytes_to_hex [32]"
  "''01000000'' = bytes_to_hex [1, 0, 0, 0]" "''fabe6d6d'' = bytes_to_hex [0xfa, 0xbe, 0x6d, 0x6d]"
  "default_miner_fund_script = bytes_to_hex ([0xa9, 0x14, 0xd3, 0x7c, 0x4c, 0x80, 0x9f, 0xe9, 0x84, 0x0e, 0x7b,
     0xfa, 0x77, 0xb8, 0x6b, 0xd4, 0x71, 0x63, 0xf6, 0xfb, 0x6c, 0x60, 0x87])"
  "default_staking_script = bytes_to_hex ([0x76, 0xa9, 0x14, 0x0e, 0x1c, 0xe9, 0x66, 0x92, 0xcf, 0x15, 0x15,
     0x59, 0x85, 0xbf, 0x01, 0x02, 0x64, 0x72, 0x54, 0x28, 0xd3, 0x23, 0x3e, 0x88, 0xac])"
  by code_simp+

lemma script_bytes_short: "program_ok d \<Longrightarrow> length (script_bytes d) < 0xfd \<and> script_bytes d \<noteq> []"
  by (auto simp: program_ok_def script_bytes_def split: addr_type.splits)

lemma session_donation_cases:
  assumes "session_donation sha256 job remaining = (donation, dscript)" and "0 \<le> remaining"
    and "0 \<le> mj_donation_percent job"
  shows "0 \<le> donation \<and> donation \<le> remaining \<and>
    (\<exists>db. dscript = bytes_to_hex db \<and> length db < 0xfd \<and> (0 < donation \<longrightarrow> db \<noteq> []))"
proof -
  have nil: "[] = bytes_to_hex []"
    by simp
  have "\<exists>db. script_pubkey_hex d = bytes_to_hex db \<and> length db < 0xfd \<and> db \<noteq> []"
    if "decode sha256 a = Inr d" for a d
    using script_bytes_short[OF decode_program_ok[OF that]] script_pubkey_bytes[of d] by blast
  with assms show ?thesis
    using percent_of_nonneg[OF assms(2, 3)]
    by (auto simp: session_donation_def Let_def split: if_splits sum.splits intro: exI[of _ "[]"])
qed

lemma ecash_scripts:
  assumes "ecash_values sha256 ch job = ((mf, mfs), (sr, srs))"
    and "mj_staking_rewards_script job = bytes_to_hex stb" "length stb < 0xfd"
  shows "(\<exists>b. mfs = bytes_to_hex b \<and> length b < 0xfd) \<and> (\<exists>b. srs = bytes_to_hex b \<and> length b < 0xfd) \<and>
    (ch \<noteq> ECash \<longrightarrow> mf = 0 \<and> sr = 0)"
proof -
  have mfd: "\<exists>b. default_miner_fund_script = bytes_to_hex b \<and> length b < 0xfd"
    unfolding hex_pieces by (rule exI, rule conjI, rule refl) simp
  have srd: "\<exists>b. default_staking_script = bytes_to_hex b \<and> length b < 0xfd"
    unfolding hex_pieces by (rule exI, rule conjI, rule refl) simp
  have "\<exists>b. script_pubkey_hex d = bytes_to_hex b \<and> length b < 0xfd" if "decode sha256 a = Inr d" for a d
    using script_bytes_short[OF decode_program_ok[OF that]] script_pubkey_bytes[of d] by blast
  with assms mfd srd show ?thesis
    by (auto simp: ecash_values_def split: if_splits sum.splits)
qed

section \<open>The concatenation is one transaction\<close>

definition adds_commit :: "mining_job \<Rightarrow> bool" where
  "adds_commit job \<longleftrightarrow> mj_segwit_active job \<and> mj_witness_commitment job \<noteq> []"

lemma session_coinbase2_bytes:
  fixes ms wc stb :: bytes
  assumes ms: "ms \<noteq> []" "length ms < 0xfd"
    and wc: "mj_witness_commitment job = bytes_to_hex wc" "length wc < 0xfd"
    and st: "mj_staking_rewards_script job = bytes_to_hex stb" "length stb < 0xfd"
    and ec: "ecash_values sha256 ch job = ((mf, mfs), (sr, srs))"
    and don: "session_donation sha256 job (mj_coinbase_value job - mf - sr) = (donation, dscript)"
    and pos: "0 \<le> mf" "0 \<le> sr" "mf + sr \<le> mj_coinbase_value job" "mj_coinbase_value job < 2 ^ 63"
    and pct: "0 \<le> mj_donation_percent job"
    and commit: "ch = ECash \<Longrightarrow> \<not> adds_commit job"
  shows "\<exists>rest. build_session_coinbase2 sha256 ch job (bytes_to_hex ms) =
      bytes_to_hex (replicate 4 0xff @
        serialize_outs (\<lparr>to_value = nat (mj_coinbase_value job - mf - sr - donation), to_script = ms\<rparr> # rest) @
        replicate 4 0) \<and>
    sum_list (map to_value rest) = nat (mf + sr + donation)"
proof -
  let ?rem = "mj_coinbase_value job - mf - sr"
  obtain db where d: "0 \<le> donation" "donation \<le> ?rem" "dscript = bytes_to_hex db" "length db < 0xfd"
      "0 < donation \<longrightarrow> db \<noteq> []"
    using session_donation_cases[OF don] pos pct by auto
  obtain mb sb where e: "mfs = bytes_to_hex mb" "length mb < 0xfd" "srs = bytes_to_hex sb" "length sb < 0xfd"
      "ch \<noteq> ECash \<longrightarrow> mf = 0 \<and> sr = 0"
    using ecash_scripts[OF ec st] by blast
  define rest where "rest =
    (if 0 < donation then [\<lparr>to_value = nat donation, to_script = db\<rparr>] else []) @
    (if ch = ECash then [\<lparr>to_value = nat mf, to_script = mb\<rparr>, \<lparr>to_value = nat sr, to_script = sb\<rparr>] else []) @
    (if adds_commit job then [\<lparr>to_value = 0, to_script = wc\<rparr>] else [])"
  have commit_nil: "wc \<noteq> [] \<and> mj_segwit_active job \<longleftrightarrow> adds_commit job"
    by (auto simp: adds_commit_def wc)
  define n where "n = (if ch = ECash then (if donation > 0 then 2 else 1) + 2
      else (if donation > 0 then 2 else 1) + (if adds_commit job then 1 else 0 :: nat))"
  have "n = Suc (length rest)" and "n < 0xfd"
    using commit by (auto simp: n_def rest_def)
  then have n: "snprintf_02x n = bytes_to_hex (varint_bytes (Suc (length rest)))"
    using snprintf_02x_bytes by simp
  have out: "append_output v (bytes_to_hex b) cb = cb @ bytes_to_hex (serialize_out \<lparr>to_value = nat v, to_script = b\<rparr>)"
    if "0 \<le> v" "v < 2 ^ 63" "length b < 0xfd" for v b cb
    using that by (intro append_output_bytes) auto
  have "build_session_coinbase2 sha256 ch job (bytes_to_hex ms) = ''ffffffff'' @ snprintf_02x n @
      bytes_to_hex (concat (map serialize_out (\<lparr>to_value = nat (?rem - donation), to_script = ms\<rparr> # rest))) @ ''00000000''"
    using ms wc d e pos commit
    unfolding build_session_coinbase2_def ec don Let_def split_beta fst_conv snd_conv
    by (auto simp: out rest_def n_def adds_commit_def simp del: bytes_to_hex.simps(2))
  then have "build_session_coinbase2 sha256 ch job (bytes_to_hex ms) =
      bytes_to_hex (replicate 4 0xff @
        serialize_outs (\<lparr>to_value = nat (?rem - donation), to_script = ms\<rparr> # rest) @ replicate 4 0)"
    unfolding n hex_constants(3) hex_pieces(1) serialize_outs_def by (simp del: bytes_to_hex.simps(2))
  moreover have "sum_list (map to_value rest) = nat (mf + sr + donation)"
    using d(1, 2) e(5) pos by (auto simp: rest_def nat_add_distrib)
  ultimately show ?thesis
    by blast
qed

lemma segwitify_bytes:
  assumes "length a = 4" "length l = 4"
  shows "segwitify_coinbase (bytes_to_hex (a @ mid @ l)) =
    bytes_to_hex (a @ [0, 1] @ mid @ [1, 32] @ replicate 32 0 @ l)"
proof -
  have two: "bytes_to_hex [1, 32] = bytes_to_hex [1] @ bytes_to_hex [32]"
    by simp
  have "take (length (bytes_to_hex (a @ mid @ l)) - 16) (drop 8 (bytes_to_hex (a @ mid @ l))) = bytes_to_hex mid"
      "drop (length (bytes_to_hex (a @ mid @ l)) - 8) (bytes_to_hex (a @ mid @ l)) = bytes_to_hex l"
      "take 8 (bytes_to_hex (a @ mid @ l)) = bytes_to_hex a" "\<not> length (bytes_to_hex (a @ mid @ l)) < 16"
    using assms by simp_all
  then show ?thesis
    unfolding segwitify_coinbase_def hex_pieces(2)
    by (simp only: if_False hex_pieces(3) hex_constants(2,4) bytes_to_hex_append append_assoc two)
qed

lemma segwitify_coinbase_tx:
  "segwitify_coinbase (bytes_to_hex (serialize_coinbase s outs)) = bytes_to_hex (serialize_coinbase_witness s outs)"
  using segwitify_bytes[of "[1, 0, 0, 0]" "replicate 4 0" "varint_bytes 1 @ replicate 32 0 @ replicate 4 0xff
     @ varint_bytes (length s) @ s @ replicate 4 0xff @ serialize_outs outs"]
  by (simp add: serialize_coinbase_def serialize_coinbase_witness_def del: bytes_to_hex.simps(2) bytes_to_hex_append)

lemma coinbase1_serialize:
  assumes "length script + en_len \<le> 0xfc" "length en = en_len"
  shows "coinbase1_bytes en_len script @ en @ replicate 4 0xff @ serialize_outs outs @ replicate 4 0 =
    serialize_coinbase (script @ en) outs"
  using assms by (simp add: coinbase1_bytes_def serialize_coinbase_def varint_bytes_def)

section \<open>Merged mining\<close>

lemma varint_one: "varint_bytes 1 = [1]"
  by (simp add: varint_bytes_def)

lemma build_doge_coinbase_bytes:
  fixes ms db :: bytes
  assumes "build_doge_coinbase height sig v (bytes_to_hex ms) (bytes_to_hex db) pct = Inr cb" "cb \<noteq> []"
    and "length ms < 0xfd" "length db < 0xfd" "0 \<le> v" "v < 2 ^ 63"
  shows "\<exists>script outs. cb = bytes_to_hex (serialize_coinbase script outs) \<and>
    hd outs = \<lparr>to_value = to_value (hd outs), to_script = ms\<rparr> \<and> sum_list (map to_value outs) = nat v"
proof -
  obtain hp sp where hp: "encode_bip34_height height = Inr hp"
      and sp: "(if sig = [] then Inr [] else encode_push_bytes (map (\<lambda>c. of_nat (of_char c)) sig)) = Inr sp"
    using assms(1) by (auto simp: build_doge_coinbase_def bindE_Inr_iff)
  obtain hb where hb: "hp = bytes_to_hex hb"
    using encode_bip34_is_bytes[OF hp] by blast
  obtain sb where sb: "sp = bytes_to_hex sb"
    using sp encode_push_is_bytes bytes_to_hex.simps(1) by (metis sum.inject(2))
  define script where "script = hb @ sb"
  have ss: "hp @ sp = bytes_to_hex script"
    by (simp add: script_def hb sb)
  define donation where "donation = (if pct > 0 \<and> bytes_to_hex db \<noteq> [] then
      (if percent_of v pct < 0 \<or> percent_of v pct > v then 0 else percent_of v pct) else 0)"
  have don: "0 \<le> donation" "donation \<le> v" "0 < donation \<longrightarrow> db \<noteq> []"
    using assms(5) by (auto simp: donation_def Let_def)
  define outs where "outs = \<lparr>to_value = nat (v - donation), to_script = ms\<rparr> #
      (if 0 < donation then [\<lparr>to_value = nat donation, to_script = db\<rparr>] else [])"
  have ln: "length (hp @ sp) div 2 = length script"
    by (simp add: ss)
  have len: "length script \<le> 0xfc"
  proof (rule ccontr)
    assume "\<not> length script \<le> 0xfc"
    then have "build_doge_coinbase height sig v (bytes_to_hex ms) (bytes_to_hex db) pct = Inr []"
      by (simp only: build_doge_coinbase_def hp sp bindE.simps Let_def ln not_le if_True)
    with assms(1, 2) show False
      by simp
  qed
  have out: "append_output w (bytes_to_hex b) c = c @ bytes_to_hex (serialize_out \<lparr>to_value = nat w, to_script = b\<rparr>)"
    if "0 \<le> w" "w < 2 ^ 63" "length b < 0xfd" for w b c
    using that by (intro append_output_bytes) auto
  define n where "n = (if donation > 0 \<and> bytes_to_hex db \<noteq> [] then 2 else 1 :: nat)"
  have nl: "n = length outs" and n: "snprintf_02x n = bytes_to_hex (varint_bytes n)"
    using don by (auto simp: n_def outs_def intro!: snprintf_02x_bytes)
  have nlen: "\<not> 0xfc < length script"
    using len by simp
  have "build_doge_coinbase height sig v (bytes_to_hex ms) (bytes_to_hex db) pct =
      Inr ((let c = append_output (v - donation) (bytes_to_hex ms) (''01000000'' @ ''01'' @ zeros64 @ ''ffffffff''
              @ snprintf_02x (length script) @ bytes_to_hex script @ ''ffffffff'' @ snprintf_02x n)
            in if donation > 0 \<and> bytes_to_hex db \<noteq> [] then append_output donation (bytes_to_hex db) c else c)
           @ ''00000000'')"
    by (simp only: build_doge_coinbase_def hp sp bindE.simps Let_def ln[unfolded ss] nlen if_False
        donation_def[symmetric] n_def ss)
  then have "cb = ''01000000'' @ ''01'' @ zeros64 @ ''ffffffff'' @ snprintf_02x (length script) @ bytes_to_hex script
       @ ''ffffffff'' @ snprintf_02x n @ bytes_to_hex (concat (map serialize_out outs)) @ ''00000000''"
    using assms(1, 3-6) don by (auto simp: out outs_def Let_def simp del: bytes_to_hex.simps(2))
  moreover have "snprintf_02x (length script) = bytes_to_hex (varint_bytes (length script))"
    using len by (intro snprintf_02x_bytes) simp
  ultimately have "cb = bytes_to_hex (serialize_coinbase script outs)"
    unfolding n hex_constants(2-4) hex_pieces(1,4)
    by (simp only: serialize_coinbase_def serialize_outs_def nl bytes_to_hex_append append_assoc varint_one)
  moreover have "sum_list (map to_value outs) = nat v"
    using don by (auto simp: outs_def nat_diff_distrib)
  ultimately show ?thesis
    by (intro exI[of _ script] exI[of _ outs]) (simp add: outs_def)
qed

lemma session_aux_parts:
  assumes "build_session_aux sha256 acfg sig dsh job = Inr (Some sa)"
  shows "\<exists>ds cb. build_doge_coinbase (mj_aux_height job) sig (mj_aux_coinbasevalue job) dsh
        ds (aux_donationPercent acfg) = Inr cb \<and> cb \<noteq> [] \<and> (\<exists>db. ds = bytes_to_hex db \<and> length db < 0xfd) \<and>
      length (mj_aux_prevhash job) = 64 \<and> length (mj_aux_bits job) = 8 \<and>
      bindE (compute_coinbase_txid_le sha256 cb) (\<lambda>m.
        let h = le_hex_u32 (mj_aux_version job) @ byte_reverse_hex (mj_aux_prevhash job)
              @ m @ le_hex_u32 (mj_aux_curtime job) @ byte_reverse_hex (mj_aux_bits job) @ ''00000000''
        in bindE (compute_coinbase_txid_le sha256 h) (\<lambda>h'. Inr (Some \<lparr>sa_aux_target = mj_aux_target job,
                         sa_aux_commit = ''fabe6d6d'' @ byte_reverse_hex h' @ ''01000000'' @ ''00000000'',
                         sa_doge_coinbase = cb, sa_doge_header = h,
                         sa_doge_block_hash = byte_reverse_hex h', sa_aux_height = mj_aux_height job,
                         sa_aux_value = mj_aux_coinbasevalue job\<rparr>))) = Inr (Some sa)"
proof -
  define ds where "ds = (if aux_donationPercent acfg > 0 \<and> aux_donationAddress acfg \<noteq> [] then
      (case decode sha256 (aux_donationAddress acfg) of Inr d \<Rightarrow> script_pubkey_hex d | Inl _ \<Rightarrow> []) else [])"
  have "\<exists>db. script_pubkey_hex d = bytes_to_hex db \<and> length db < 0xfd" if "decode sha256 a = Inr d" for a d
    using script_bytes_short[OF decode_program_ok[OF that]] script_pubkey_bytes[of d] by blast
  moreover have "\<exists>db. [] = bytes_to_hex db \<and> length db < 0xfd"
    by (rule exI[of _ "[]"]) simp
  ultimately have "\<exists>db. ds = bytes_to_hex db \<and> length db < 0xfd"
    unfolding ds_def by (auto split: sum.splits simp del: bytes_to_hex_Nil_iff)
  moreover obtain cb where "build_doge_coinbase (mj_aux_height job) sig (mj_aux_coinbasevalue job) dsh
        ds (aux_donationPercent acfg) = Inr cb"
    using assms unfolding build_session_aux_def ds_def[symmetric]
    by (cases "build_doge_coinbase (mj_aux_height job) sig (mj_aux_coinbasevalue job) dsh
        ds (aux_donationPercent acfg)") (auto simp: Let_def split: if_splits)
  ultimately show ?thesis
    using assms unfolding build_session_aux_def ds_def[symmetric]
    by (intro exI[of _ ds] exI[of _ cb]) (auto simp: Let_def split: if_splits)
qed

lemma session_aux_bytes:
  assumes "bindE (compute_coinbase_txid_le sha256 (bytes_to_hex tx)) (\<lambda>m.
        let h = le_hex_u32 v @ byte_reverse_hex (bytes_to_hex ph)
              @ m @ le_hex_u32 ct @ byte_reverse_hex (bytes_to_hex bb) @ ''00000000''
        in bindE (compute_coinbase_txid_le sha256 h) (\<lambda>h'. Inr (Some \<lparr>sa_aux_target = tgt,
                         sa_aux_commit = ''fabe6d6d'' @ byte_reverse_hex h' @ ''01000000'' @ ''00000000'',
                         sa_doge_coinbase = cb, sa_doge_header = h,
                         sa_doge_block_hash = byte_reverse_hex h', sa_aux_height = ht,
                         sa_aux_value = cv\<rparr>))) = Inr (Some sa)"
  defines "hdr \<equiv> nat_le 4 (unat v) @ rev ph @ sha256d sha256 tx @ nat_le 4 (unat ct) @ rev bb @ replicate 4 0"
  shows "sa_doge_header sa = bytes_to_hex hdr \<and> sa_doge_coinbase sa = cb \<and> sa_aux_commit sa =
    bytes_to_hex ([0xfa, 0xbe, 0x6d, 0x6d] @ rev (sha256d sha256 hdr) @ [1, 0, 0, 0] @ [0, 0, 0, 0])"
proof -
  have h: "compute_coinbase_txid_le sha256 (bytes_to_hex x) = Inr (bytes_to_hex (sha256d sha256 x))" for x
    by (simp add: compute_coinbase_txid_le_def sha256d_def)
  have z: "''00000000'' = bytes_to_hex [0, 0, 0, 0]" "replicate 4 0 = ([0, 0, 0, 0] :: bytes)"
    by code_simp (simp add: eval_nat_numeral)
  have "Inr (Some sa) = (Inr (Some \<lparr>sa_aux_target = tgt,
      sa_aux_commit = bytes_to_hex ([0xfa, 0xbe, 0x6d, 0x6d] @ rev (sha256d sha256 hdr) @ [1, 0, 0, 0] @ [0, 0, 0, 0]),
      sa_doge_coinbase = cb, sa_doge_header = bytes_to_hex hdr,
      sa_doge_block_hash = bytes_to_hex (rev (sha256d sha256 hdr)), sa_aux_height = ht, sa_aux_value = cv\<rparr>) :: exn + _)"
    using assms(1)[symmetric]
    unfolding h bindE.simps Let_def le_hex_u32_bytes byte_reverse_hex_bytes z(1) hex_pieces(4,5) hdr_def z(2)
    by (simp only: bytes_to_hex_append[symmetric] h bindE.simps byte_reverse_hex_bytes)
  then show ?thesis
    by simp
qed

lemma splice_bytes:
  assumes "length x = 44" "length y = 44"
  shows "splice_aux_commit (bytes_to_hex (coinbase1_bytes n (sc @ x))) (bytes_to_hex y) =
    bytes_to_hex (coinbase1_bytes n (sc @ y))"
proof -
  define a where "a = [1, 0, 0, 0] @ [1] @ replicate 32 0 @ replicate 4 0xff @ [of_nat (length sc + 44 + n)] @ sc"
  have "coinbase1_bytes n (sc @ z) = a @ z" if "length z = 44" for z
    using that by (simp add: coinbase1_bytes_def a_def)
  with assms show ?thesis
    by (simp add: splice_aux_commit_def)
qed

section \<open>Properties\<close>

text \<open>C26: A block candidate's coinbase is sound by construction: the published job's \<open>coinbase1\<close>, any twelve
  bytes of extranonce and the session's \<open>coinbase2\<close> concatenate to the serialization of exactly one
  version-1 coinbase transaction (every announced length and count agrees with what follows), whose
  outputs add up to the template's coinbase value, never more, with the first one paying the miner's
  script; \<open>segwitify_coinbase\<close> turns it into the witness form of the same transaction.\<close>

theorem coinbase_is_one_transaction:
  fixes ms wc stb en :: bytes
  assumes "update_work H gen counter gbt s = Inr (s', Some job)" and "chain (st_coin s) \<noteq> Zcash"
    and "length en = 12" and "ms \<noteq> []" "length ms < 0xfd"
    and "mj_witness_commitment job = bytes_to_hex wc" "length wc < 0xfd"
    and "mj_staking_rewards_script job = bytes_to_hex stb" "length stb < 0xfd"
    and "0 \<le> fst (fst (ecash_values sha256 ch job))" "0 \<le> fst (snd (ecash_values sha256 ch job))"
    and "fst (fst (ecash_values sha256 ch job)) + fst (snd (ecash_values sha256 ch job)) \<le> mj_coinbase_value job"
    and "mj_coinbase_value job < 2 ^ 63" and "0 \<le> mj_donation_percent job"
    and "ch = ECash \<Longrightarrow> mj_witness_commitment job = []"
  shows "\<exists>script miner rest. script \<noteq> [] \<and>
    mj_coinbase1 job @ bytes_to_hex en @ build_session_coinbase2 sha256 ch job (bytes_to_hex ms) =
      bytes_to_hex (serialize_coinbase script (\<lparr>to_value = miner, to_script = ms\<rparr> # rest)) \<and>
    miner + sum_list (map to_value rest) = nat (mj_coinbase_value job) \<and>
    segwitify_coinbase (mj_coinbase1 job @ bytes_to_hex en @ build_session_coinbase2 sha256 ch job (bytes_to_hex ms)) =
      bytes_to_hex (serialize_coinbase_witness script (\<lparr>to_value = miner, to_script = ms\<rparr> # rest))"
proof -
  obtain mf mfs sr srs where ec: "ecash_values sha256 ch job = ((mf, mfs), (sr, srs))"
    by (metis surj_pair)
  obtain donation ds where don: "session_donation sha256 job (mj_coinbase_value job - mf - sr) = (donation, ds)"
    by (metis surj_pair)
  obtain script where c1: "mj_coinbase1 job = bytes_to_hex (coinbase1_bytes 12 script)" "length script + 12 \<le> 0xfc"
    using job_coinbase1_bytes[OF assms(1,2)] by blast
  have commit: "ch = ECash \<Longrightarrow> \<not> adds_commit job"
    using assms(15) by (simp add: adds_commit_def)
  have v: "0 \<le> mf" "0 \<le> sr" "mf + sr \<le> mj_coinbase_value job"
    using assms(10-12) ec by simp_all
  obtain rest where c2: "build_session_coinbase2 sha256 ch job (bytes_to_hex ms) =
      bytes_to_hex (replicate 4 0xff @
        serialize_outs (\<lparr>to_value = nat (mj_coinbase_value job - mf - sr - donation), to_script = ms\<rparr> # rest) @
        replicate 4 0)" and sum: "sum_list (map to_value rest) = nat (mf + sr + donation)"
    using session_coinbase2_bytes[OF assms(4-9) ec don v assms(13,14) commit] by blast
  let ?outs = "\<lparr>to_value = nat (mj_coinbase_value job - mf - sr - donation), to_script = ms\<rparr> # rest"
  have tx: "mj_coinbase1 job @ bytes_to_hex en @ build_session_coinbase2 sha256 ch job (bytes_to_hex ms) =
      bytes_to_hex (serialize_coinbase (script @ en) ?outs)"
    using c2 c1 coinbase1_serialize[OF c1(2) assms(3), of ?outs, symmetric] by (simp only: bytes_to_hex_append)
  have d: "0 \<le> donation" "donation \<le> mj_coinbase_value job - mf - sr"
    using session_donation_cases[OF don] v assms(14) by auto
  show ?thesis
    using tx segwitify_coinbase_tx[of "script @ en" ?outs] sum d v assms(3)
    by (intro exI[of _ "script @ en"] exI[of _ "nat (mj_coinbase_value job - mf - sr - donation)"] exI[of _ rest])
      (simp add: nat_add_distrib[symmetric], auto)
qed

abbreviation rich_gbt :: json where
  "rich_gbt \<equiv> JObj [(''result'', JObj [(''version'', JInt 536870912), (''previousblockhash'', JStr ''ab''),
     (''height'', JInt 100), (''bits'', JStr ''1d00ffff''), (''coinbasevalue'', JInt 5000000000)])]"

lemma rich_update:
  "\<exists>s' mj. update_work (\<lambda>b. replicate 32 0) 5 7 rich_gbt (st_new sample_coin 32) = Inr (s', Some mj) \<and>
     mj_witness_commitment mj = [] \<and> mj_staking_rewards_script mj = [] \<and> mj_coinbase_value mj = 5000000000 \<and>
     mj_donation_percent mj = 1"
  by (simp add: update_work_def parse_template_def value_or_def get_i32_def parse_rtt_def parse_aux_def
      parse_transactions_def parse_miner_fund_def parse_staking_def build_coinbase1_def encode_bip34_height_def
      encode_push_bytes_def no_aux_def
      st_new_def build_branch_le_hex_def split_beta Let_def hex2_def bip34_bytes.simps branch_loop.simps)

lemma coinbase_is_one_transaction_witness:
  "\<exists>s' job outs script. update_work (\<lambda>b. replicate 32 0) 5 7 rich_gbt (st_new sample_coin 32) = Inr (s', Some job) \<and>
     mj_coinbase1 job @ bytes_to_hex (replicate 12 7) @ build_session_coinbase2 (\<lambda>b. b) Bitcoin job (bytes_to_hex [0x51]) =
       bytes_to_hex (serialize_coinbase script outs) \<and> sum_list (map to_value outs) = 5000000000"
proof -
  obtain s' job where u: "update_work (\<lambda>b. replicate 32 0) 5 7 rich_gbt (st_new sample_coin 32) = Inr (s', Some job)"
      and j: "mj_witness_commitment job = []" "mj_staking_rewards_script job = []" "mj_coinbase_value job = 5000000000"
        "mj_donation_percent job = 1"
    using rich_update by blast
  have c: "chain (st_coin (st_new sample_coin 32)) \<noteq> Zcash"
    by (simp add: st_new_def)
  have e: "ecash_values (\<lambda>b. b) Bitcoin job = ((0, default_miner_fund_script), (0, default_staking_script))"
    by (simp add: ecash_values_def)
  obtain script miner rest where
    "mj_coinbase1 job @ bytes_to_hex (replicate 12 7) @ build_session_coinbase2 (\<lambda>b. b) Bitcoin job (bytes_to_hex [0x51]) =
      bytes_to_hex (serialize_coinbase script (\<lparr>to_value = miner, to_script = [0x51]\<rparr> # rest))"
    "miner + sum_list (map to_value rest) = nat (mj_coinbase_value job)"
    using coinbase_is_one_transaction[OF u c, of "replicate 12 7" "[0x51]" "[]" "[]" "\<lambda>b. b" Bitcoin] j e by auto
  with u j show ?thesis
    by (intro exI[of _ s'] exI[of _ job] exI[of _ "\<lparr>to_value = miner, to_script = [0x51]\<rparr> # rest"] exI[of _ script]) simp
qed

text \<open>C34: The merged-mining data of a session fits together: the Dogecoin coinbase is one well-formed
  transaction paying the miner first and the auxiliary block's whole value in all; the Dogecoin
  header has 80 bytes and holds the coinbase's double SHA-256 as its merkle root; and splicing the
  commitment over a \<open>coinbase1\<close> that ends in the placeholder gives a \<open>coinbase1\<close> of the same
  announced script length, committing to the byte-reversed double SHA-256 of exactly that header.\<close>

theorem aux_commits_to_doge_header:
  fixes ms ph bb sc :: bytes
  assumes "build_session_aux sha256 acfg sig (bytes_to_hex ms) job = Inr (Some sa)"
    and "\<And>x. length (sha256 x) = 32" and "length ms < 0xfd"
    and "mj_aux_prevhash job = bytes_to_hex ph" "mj_aux_bits job = bytes_to_hex bb"
    and "0 \<le> mj_aux_coinbasevalue job" "mj_aux_coinbasevalue job < 2 ^ 63"
  shows "\<exists>hdr script outs. sa_doge_header sa = bytes_to_hex hdr \<and> length hdr = 80 \<and>
    sa_doge_coinbase sa = bytes_to_hex (serialize_coinbase script outs) \<and>
    to_script (hd outs) = ms \<and> sum_list (map to_value outs) = nat (mj_aux_coinbasevalue job) \<and>
    take 32 (drop 36 hdr) = sha256d sha256 (serialize_coinbase script outs) \<and>
    splice_aux_commit (bytes_to_hex (coinbase1_bytes n (sc @ replicate 44 0))) (sa_aux_commit sa) =
      bytes_to_hex (coinbase1_bytes n
        (sc @ [0xfa, 0xbe, 0x6d, 0x6d] @ rev (sha256d sha256 hdr) @ [1, 0, 0, 0] @ [0, 0, 0, 0]))"
proof -
  obtain ds cb where cb: "build_doge_coinbase (mj_aux_height job) sig (mj_aux_coinbasevalue job) (bytes_to_hex ms)
        ds (aux_donationPercent acfg) = Inr cb" "cb \<noteq> []" "\<exists>db. ds = bytes_to_hex db \<and> length db < 0xfd"
    and l: "length ph = 32" "length bb = 4"
    and sa: "bindE (compute_coinbase_txid_le sha256 cb) (\<lambda>m.
        let h = le_hex_u32 (mj_aux_version job) @ byte_reverse_hex (mj_aux_prevhash job)
              @ m @ le_hex_u32 (mj_aux_curtime job) @ byte_reverse_hex (mj_aux_bits job) @ ''00000000''
        in bindE (compute_coinbase_txid_le sha256 h) (\<lambda>h'. Inr (Some \<lparr>sa_aux_target = mj_aux_target job,
                         sa_aux_commit = ''fabe6d6d'' @ byte_reverse_hex h' @ ''01000000'' @ ''00000000'',
                         sa_doge_coinbase = cb, sa_doge_header = h,
                         sa_doge_block_hash = byte_reverse_hex h', sa_aux_height = mj_aux_height job,
                         sa_aux_value = mj_aux_coinbasevalue job\<rparr>))) = Inr (Some sa)"
    using session_aux_parts[OF assms(1)] assms(4,5) by auto
  obtain db where db: "ds = bytes_to_hex db" "length db < 0xfd"
    using cb(3) by blast
  obtain script outs where tx: "cb = bytes_to_hex (serialize_coinbase script outs)"
      "hd outs = \<lparr>to_value = to_value (hd outs), to_script = ms\<rparr>"
      "sum_list (map to_value outs) = nat (mj_aux_coinbasevalue job)"
    using build_doge_coinbase_bytes[OF cb(1)[unfolded db(1)] cb(2) assms(3) db(2) assms(6,7)] by blast
  define root where "root = sha256d sha256 (serialize_coinbase script outs)"
  define hdr where "hdr = nat_le 4 (unat (mj_aux_version job)) @ rev ph @ root
      @ nat_le 4 (unat (mj_aux_curtime job)) @ rev bb @ replicate 4 0"
  have h: "compute_coinbase_txid_le sha256 (bytes_to_hex x) = Inr (bytes_to_hex (sha256d sha256 x))" for x
    by (simp add: compute_coinbase_txid_le_def sha256d_def)
  have hdr: "sa_doge_header sa = bytes_to_hex hdr"
      and commit: "sa_aux_commit sa = bytes_to_hex
        ([0xfa, 0xbe, 0x6d, 0x6d] @ rev (sha256d sha256 hdr) @ [1, 0, 0, 0] @ [0, 0, 0, 0])"
      and dc: "sa_doge_coinbase sa = cb"
    using session_aux_bytes[OF sa[unfolded tx(1) assms(4,5)]] unfolding hdr_def root_def tx(1) by blast+
  have lr: "length root = 32" "length (sha256d sha256 hdr) = 32"
    by (simp_all add: root_def sha256d_def assms(2))
  have "length hdr = 80" and "take 32 (drop 36 hdr) = root"
    using l lr(1) by (simp_all add: hdr_def)
  moreover have "to_script (hd outs) = ms"
    by (subst tx(2)) simp
  moreover have "splice_aux_commit (bytes_to_hex (coinbase1_bytes n (sc @ replicate 44 0))) (sa_aux_commit sa) =
      bytes_to_hex (coinbase1_bytes n
        (sc @ [0xfa, 0xbe, 0x6d, 0x6d] @ rev (sha256d sha256 hdr) @ [1, 0, 0, 0] @ [0, 0, 0, 0]))"
    unfolding commit by (rule splice_bytes) (simp_all add: lr)
  ultimately show ?thesis
    using hdr dc tx(1,3) unfolding root_def by blast
qed

lemma sample_aux:
  fixes j0 :: mining_job
  defines "job \<equiv> j0\<lparr>mj_aux_enabled := True, mj_aux_prevhash := bytes_to_hex (replicate 32 7),
    mj_aux_bits := bytes_to_hex (replicate 4 3), mj_aux_target := replicate 64 CHR ''f'', mj_aux_height := 100,
    mj_aux_coinbasevalue := 10000, mj_aux_version := 2\<rparr>"
  shows "\<exists>sa. build_session_aux (\<lambda>x. replicate 32 9) \<lparr>aux_donationPercent = 0, aux_donationAddress = []\<rparr>
    ''mk'' (bytes_to_hex [0x51]) job = Inr (Some sa)"
proof -
  have d: "\<exists>cb. build_doge_coinbase 100 ''mk'' 10000 (bytes_to_hex [0x51]) [] 0 = Inr cb \<and> cb \<noteq> [] \<and>
      (\<exists>b. hex_to_bytes cb = Inr b)"
  proof -
    have "\<exists>cb. build_doge_coinbase 100 ''mk'' 10000 (bytes_to_hex [0x51]) (bytes_to_hex []) 0 = Inr cb \<and> cb \<noteq> []"
      by (simp add: build_doge_coinbase_def encode_bip34_height_def bip34_bytes.simps encode_push_bytes_def
          hex2_def Let_def del: bytes_to_hex.simps)
    then show ?thesis
      using build_doge_coinbase_bytes[of 100 "''mk''" 10000 "[0x51]" "[]" 0] by fastforce
  qed
  then obtain cb b where cb: "build_doge_coinbase 100 ''mk'' 10000 (bytes_to_hex [0x51]) [] 0 = Inr cb" "cb \<noteq> []"
      "hex_to_bytes cb = Inr b"
    by blast
  have z: "''00000000'' = bytes_to_hex (replicate 4 0)"
    by code_simp
  have t: "compute_coinbase_txid_le (\<lambda>x. replicate 32 9) (bytes_to_hex y) = Inr (bytes_to_hex (replicate 32 9))" for y
    by (simp add: compute_coinbase_txid_le_def sha256d_def)
  have "compute_coinbase_txid_le (\<lambda>x. replicate 32 9) cb = Inr (bytes_to_hex (replicate 32 9))"
    by (simp add: compute_coinbase_txid_le_def sha256d_def cb(3))
  then show ?thesis
    unfolding build_session_aux_def job_def le_hex_u32_bytes z
    by (simp add: cb(1,2) byte_reverse_hex_bytes t Let_def bytes_to_hex_append[symmetric]
        del: bytes_to_hex.simps bytes_to_hex_append replicate_Suc)
qed

lemma aux_commits_to_doge_header_witness:
  "\<exists>job sa hdr. build_session_aux (\<lambda>x. replicate 32 9) \<lparr>aux_donationPercent = 0, aux_donationAddress = []\<rparr>
     ''mk'' (bytes_to_hex [0x51]) job = Inr (Some sa) \<and> sa_doge_header sa = bytes_to_hex hdr \<and> length hdr = 80"
proof -
  obtain j0 :: mining_job where True
    by blast
  define job where "job = j0\<lparr>mj_aux_enabled := True, mj_aux_prevhash := bytes_to_hex (replicate 32 7),
    mj_aux_bits := bytes_to_hex (replicate 4 3), mj_aux_target := replicate 64 CHR ''f'', mj_aux_height := 100,
    mj_aux_coinbasevalue := 10000, mj_aux_version := 2\<rparr>"
  obtain sa where sa: "build_session_aux (\<lambda>x. replicate 32 9) \<lparr>aux_donationPercent = 0, aux_donationAddress = []\<rparr>
      ''mk'' (bytes_to_hex [0x51]) job = Inr (Some sa)"
    using sample_aux[of j0] unfolding job_def by blast
  have j: "mj_aux_prevhash job = bytes_to_hex (replicate 32 7)" "mj_aux_bits job = bytes_to_hex (replicate 4 3)"
      "mj_aux_coinbasevalue job = 10000"
    by (simp_all add: job_def del: bytes_to_hex.simps)
  have "length (replicate 32 (9 :: u8)) = 32" "length [0x51 :: u8] < 0xfd" "0 \<le> mj_aux_coinbasevalue job"
      "mj_aux_coinbasevalue job < 2 ^ 63"
    using j by simp_all
  from aux_commits_to_doge_header[OF sa this(1,2) j(1,2) this(3,4)] sa show ?thesis
    by blast
qed

end
