(* ===== verification/Upstream_Types.thy ===== *)
theory Upstream_Types
  imports Job_Window
begin

text \<open>
  The data of \<open>src/upstream_client.hpp\<close> that the V1 and the SV2 upstream clients and the proxy
  sessions exchange, and the C library's \<open>std::stoul(text, nullptr, 16)\<close> they read hex words with. A
  sink (a \<open>weak_ptr\<close> to a downstream session) is a number; whether it is still alive is the
  parameter \<open>live\<close> of the operations that lock it.
\<close>

record proxy_notify =
  pn_notify_line :: string
  pn_job_id :: string
  pn_prevhash_stratum :: hex
  pn_coinbase1 :: hex
  pn_coinbase2 :: hex
  pn_merkle_branch :: "hex list"
  pn_version :: u32
  pn_bits :: hex
  pn_ntime :: hex
  pn_mintime :: u32
  pn_clean :: bool
  pn_net_target_be :: bytes
  pn_seq :: u64

record proxy_slot =
  ps_ok :: bool
  ps_link_id :: int
  ps_slot_id :: u32
  ps_slot_hex :: hex
  ps_en1_hex :: hex
  ps_en2_size :: nat

definition no_slot :: proxy_slot where
  "no_slot = \<lparr>ps_ok = False, ps_link_id = -1, ps_slot_id = 0, ps_slot_hex = [], ps_en1_hex = [], ps_en2_size = 0\<rparr>"

record upstream_submit =
  us_job_id :: string
  us_en2_full_hex :: hex
  us_ntime_hex :: hex
  us_nonce_hex :: hex
  us_version_bits :: "u32 option"

section \<open>Reading hex numbers\<close>

definition is_space :: "char \<Rightarrow> bool" where
  "is_space c \<longleftrightarrow> of_char c \<in> {32 :: nat, 9, 10, 11, 12, 13}"

definition strip_sign :: "string \<Rightarrow> bool \<times> string" where
  "strip_sign t =
     (case t of
        [] \<Rightarrow> (False, [])
      | c # r \<Rightarrow> if c = CHR ''-'' then (True, r) else if c = CHR ''+'' then (False, r) else (False, t))"

definition strip_0x :: "string \<Rightarrow> string" where
  "strip_0x t =
     (case t of
        z # x # d # r \<Rightarrow>
          if z = CHR ''0'' \<and> (x = CHR ''x'' \<or> x = CHR ''X'') \<and> is_hex_char d then d # r else t
      | _ \<Rightarrow> t)"

text \<open>\<open>None\<close> is \<open>std::invalid_argument\<close> (no digit) or \<open>std::out_of_range\<close> (above 64 bits).\<close>

definition stoul16 :: "string \<Rightarrow> nat option" where
  "stoul16 s =
     (let (neg, t) = strip_sign (dropWhile is_space s);
          ds = takeWhile is_hex_char (strip_0x t);
          v = hex_digits_val ds 0
      in if ds = [] \<or> v \<ge> 2 ^ 64 then None
         else Some (if neg then (2 ^ 64 - v) mod 2 ^ 64 else v))"

lemma takeWhile_hex [simp]: "takeWhile is_hex_char (bytes_to_hex bs) = bytes_to_hex bs"
  by (induction bs) (simp_all add: is_hex_digit high_nibble_less low_nibble_less)

lemma hex_digit_not_special: "n < 16 \<Longrightarrow> \<not> is_space (hex_digit n) \<and> hex_digit n \<noteq> CHR ''-'' \<and>
    hex_digit n \<noteq> CHR ''+'' \<and> hex_digit n \<noteq> CHR ''x'' \<and> hex_digit n \<noteq> CHR ''X''"
  using less16_cases[of n] by (auto simp: hex_digit_def is_space_def)

lemma stoul16_bytes_to_hex:
  assumes "bs \<noteq> []" and "length bs \<le> 8"
  shows "stoul16 (bytes_to_hex bs) = Some (be_val bs)"
proof -
  obtain b r where b: "bs = b # r"
    using assms(1) by (cases bs) auto
  obtain h l where hl: "bytes_to_hex bs = hex_digit h # hex_digit l # bytes_to_hex r" "h < 16" "l < 16"
    using high_nibble_less[of b] low_nibble_less[of b] by (simp add: b)
  have n: "strip_sign (dropWhile is_space (bytes_to_hex bs)) = (False, bytes_to_hex bs)"
    using hex_digit_not_special[OF hl(2)] by (simp add: hl(1) strip_sign_def)
  have x: "strip_0x (bytes_to_hex bs) = bytes_to_hex bs"
    using hex_digit_not_special[OF hl(3)] by (simp add: hl(1) strip_0x_def split: list.splits)
  have "be_val bs < 256 ^ 8"
    using be_val_less[of bs] power_increasing[OF assms(2), of "256 :: nat"] by simp
  then show ?thesis
    using assms(1) by (simp add: stoul16_def n x hex_digits_val_bytes)
qed

text \<open>The two ways the sources wrap it: any text, or exactly eight characters.\<close>

definition parse_hex_any_u32 :: "string \<Rightarrow> u32 option" where
  "parse_hex_any_u32 h = map_option of_nat (stoul16 h)"

definition parse_hex8_u32 :: "string \<Rightarrow> u32 option" where
  "parse_hex8_u32 h = (if length h \<noteq> 8 then None else parse_hex_any_u32 h)"

lemma parse_hex_any_u32_int_to_hex [simp]: "parse_hex_any_u32 (int_to_hex v 8) = Some v"
proof -
  have "be_val (rev (nat_le 4 (unat v))) = unat v"
    using unat_bounds(3)[of v] by (simp add: be_val_def le_val_nat_le)
  moreover have "nat_le 4 (unat v) \<noteq> []"
    using length_nat_le[of 4 "unat v"] by force
  ultimately show ?thesis
    using stoul16_bytes_to_hex[of "rev (nat_le 4 (unat v))"] int_to_hex_bytes[of v 4]
    by (simp add: parse_hex_any_u32_def)
qed

text \<open>The 4 bytes within each of the 8 words of a previous hash, reversed.\<close>

definition swap_ix :: "nat \<Rightarrow> nat" where
  "swap_ix i = 8 * (i div 8) + 2 * (3 - i mod 8 div 2) + i mod 2"

definition swap_words_hex :: "hex \<Rightarrow> hex" where
  "swap_words_hex p = (if length p \<noteq> 64 then p else map (\<lambda>i. p ! swap_ix i) [0..<64])"

lemma length_swap_words_hex [simp, length_facts]: "length (swap_words_hex p) = length p"
  by (simp add: swap_words_hex_def)

lemma swap_words_hex_involution [simp]: "swap_words_hex (swap_words_hex p) = p"
proof (cases "length p = 64")
  case True
  have "list_all (\<lambda>i. swap_ix i < 64 \<and> swap_ix (swap_ix i) = i) [0..<64]"
    by code_simp
  then have "swap_ix i < 64 \<and> swap_ix (swap_ix i) = i" if "i < 64" for i
    using that by (simp add: list_all_iff)
  with True show ?thesis
    by (intro nth_equalityI) (simp_all add: swap_words_hex_def)
qed (simp add: swap_words_hex_def)

end
