(* ===== verification/Sv2_Upstream.thy ===== *)
theory Sv2_Upstream
  imports Sv2_Framing Upstream_Types Floats Stratifier "HOL-Library.Multiset"
begin

text \<open>
  \<open>src/sv2_upstream_client.cpp\<close>: the proxy's client of an SV2 pool. It reassembles frames from the TCP
  stream, opens one extended channel, turns jobs and previous hashes into V1 notifies, carves slots
  out of the extranonce space and sends the miners' shares on.

  Everything runs on one strand or under one mutex, so an operation is a step on the state \<open>sv2_up\<close>
  (and the receive buffer \<open>rx\<close>) that also gives its effects in order: frames posted to the write
  queue, messages to sinks, answers to submitters, the reconnect timer. Hash maps are association
  lists; the order they are walked in is the insertion order. Sockets and the resolver are events.
\<close>

section \<open>State\<close>

record ext_job =
  ej_sv2_job_id :: u32
  ej_version :: u32
  ej_version_rolling_allowed :: bool
  ej_merkle_path :: "bytes list"
  ej_cb_prefix :: bytes
  ej_cb_suffix :: bytes

record prev_hash =
  pv_sv2_job_id :: u32
  pv_prev_hash :: bytes
  pv_min_ntime :: u32
  pv_nbits :: u32

record sv2_up =
  su_user :: bytes
  su_reconnect_min :: nat
  su_reconnect_max :: nat
  su_running :: bool
  su_backoff :: nat
  su_connected :: bool
  su_setup_ok :: bool
  su_channel_ok :: bool
  su_channel_id :: u32
  su_prefix :: bytes
  su_en_size :: u16
  su_nonce_bytes :: u8
  su_diff :: rat
  su_job :: "ext_job option"
  su_prev :: "prev_hash option"
  su_cur_notify :: "proxy_notify option"
  su_notify_seq :: u64
  su_jobid_map :: "string \<rightharpoonup> u32"
  su_jobid_order :: "string list"
  su_next_slot :: u32
  su_subscribers :: "(u32 \<times> nat) list"
  su_waiters :: "nat list"
  su_next_seq :: u32
  su_pending :: "(u32 \<times> nat) list"
  su_wq :: "bytes list"
  su_writing :: bool
  su_stat_accepted :: u64

record rx =
  rx_in :: bytes
  rx_have :: bool
  rx_header :: Header

datatype su_effect =
  Post_Frame bytes
| Start_Write bytes
| Job_To nat proxy_notify
| Diff_To nat rat
| State_To nat bool
| Answer nat bool string
| Reconnect_In nat

definition su_new :: "bytes \<Rightarrow> nat \<Rightarrow> nat \<Rightarrow> u8 \<Rightarrow> sv2_up" where
  "su_new user rmin rmax nonceBytes =
     \<lparr>su_user = user, su_reconnect_min = rmin, su_reconnect_max = rmax, su_running = False, su_backoff = 0,
      su_connected = False, su_setup_ok = False, su_channel_ok = False, su_channel_id = 0, su_prefix = [],
      su_en_size = 0, su_nonce_bytes = (if nonceBytes \<noteq> 0 then nonceBytes else 2), su_diff = 1,
      su_job = None, su_prev = None, su_cur_notify = None, su_notify_seq = 0, su_jobid_map = Map.empty,
      su_jobid_order = [], su_next_slot = 0, su_subscribers = [], su_waiters = [], su_next_seq = 1,
      su_pending = [], su_wq = [], su_writing = False, su_stat_accepted = 0\<rparr>"

section \<open>Sinks, waiters and the link going down\<close>

definition live_sinks :: "(nat \<Rightarrow> bool) \<Rightarrow> sv2_up \<Rightarrow> nat list" where
  "live_sinks live s = filter live (map snd (su_subscribers s))"

definition notify_waiters :: "(nat \<Rightarrow> bool) \<Rightarrow> sv2_up \<Rightarrow> sv2_up \<times> su_effect list" where
  "notify_waiters live s = (s\<lparr>su_waiters := []\<rparr>, map (\<lambda>w. State_To w True) (filter live (su_waiters s)))"

definition schedule_reconnect :: "sv2_up \<Rightarrow> sv2_up \<times> su_effect list" where
  "schedule_reconnect s =
     (if \<not> su_running s then (s, [])
      else
        let lo = (if su_reconnect_min s > 0 then su_reconnect_min s else 2);
            hi = (if su_reconnect_max s > 0 then su_reconnect_max s else 30);
            delay = min hi (lo * 2 ^ min (su_backoff s) 5)
        in (s\<lparr>su_backoff := min (su_backoff s + 1) 6\<rparr>, [Reconnect_In (max delay lo)]))"

definition teardown :: "(nat \<Rightarrow> bool) \<Rightarrow> sv2_up \<Rightarrow> sv2_up \<times> su_effect list" where
  "teardown live s =
     (let s = s\<lparr>su_connected := False, su_setup_ok := False, su_channel_ok := False, su_wq := [], su_writing := False\<rparr>
      in if su_running s then
           (let downs = map (\<lambda>k. State_To k False) (live_sinks live s);
                (s, e) = schedule_reconnect s
            in (s, downs @ e))
         else (s, []))"

section \<open>Sending\<close>

text \<open>\<open>send_sv2\<close> posts the frame; the posted handler queues it and starts a write when none is pending.\<close>

definition send_sv2 :: "u8 \<Rightarrow> writer \<Rightarrow> su_effect" where
  "send_sv2 t payload = Post_Frame (wrap_message EXT_COMMON t payload)"

definition run_post :: "bytes \<Rightarrow> sv2_up \<Rightarrow> sv2_up \<times> su_effect list" where
  "run_post f s =
     (let s = s\<lparr>su_wq := su_wq s @ [f]\<rparr>
      in if \<not> su_writing s then (s\<lparr>su_writing := True\<rparr>, [Start_Write (hd (su_wq s))]) else (s, []))"

definition on_written :: "(nat \<Rightarrow> bool) \<Rightarrow> bool \<Rightarrow> sv2_up \<Rightarrow> sv2_up \<times> su_effect list" where
  "on_written live failed s =
     (if failed then teardown live (s\<lparr>su_writing := False\<rparr>)
      else
        let s = s\<lparr>su_wq := tl (su_wq s)\<rparr>
        in if su_wq s = [] then (s\<lparr>su_writing := False\<rparr>, []) else (s, [Start_Write (hd (su_wq s))]))"

text \<open>\<open>connect\<close>, and the handler of a successful \<open>async_connect\<close>.\<close>

definition su_connect :: "rx \<times> sv2_up \<Rightarrow> rx \<times> sv2_up" where
  "su_connect = (\<lambda>(x, s).
     if \<not> su_running s then (x, s)
     else (x\<lparr>rx_in := [], rx_have := False\<rparr>,
           s\<lparr>su_connected := False, su_setup_ok := False, su_channel_ok := False\<rparr>))"

definition setup_connection_payload :: writer where
  "setup_connection_payload =
     (let w = write_u8 0 []; w = write_u16 2 w; w = write_u16 2 w; w = write_u32 0 w;
          w = write_str0_255 [] w; w = write_u16 0 w; w = write_str0_255 (ascii ''mkpool'') w;
          w = write_str0_255 (ascii ''1'') w; w = write_str0_255 (ascii ''1'') w
      in write_str0_255 (ascii ''proxy'') w)"

definition on_connected :: "sv2_up \<Rightarrow> sv2_up \<times> su_effect list" where
  "on_connected s =
     (s\<lparr>su_connected := True, su_backoff := 0\<rparr>, [send_sv2 MSG_SETUP_CONNECTION setup_connection_payload])"

section \<open>Protocol handlers\<close>

text \<open>\<open>diff_from_target_le\<close> in long double arithmetic.\<close>

definition diff_from_target_le :: "bytes \<Rightarrow> rat" where
  "diff_from_target_le t =
     (let tv = fst (fold (\<lambda>b (tv, base). (ldbl (tv + ldbl (of_nat (unat b) * base)), ldbl (base * 256))) t (0, 1));
          maxt = ldbl (0xFFFF * 2 ^ 208)
      in if tv > 0 then dbl (ldbl (maxt / tv)) else 1)"

definition open_extended_payload :: "sv2_up \<Rightarrow> writer" where
  "open_extended_payload s =
     (let w = write_u32 1 []; w = write_str0_255 (su_user s) w; w = write_f32 0x5368d4a5 w;
          w = write_u256 (replicate 32 0xff) w
      in write_u16 (ucast (su_nonce_bytes s) + 4) w)"

text \<open>\<open>nonce_bytes_ = std::max<uint8_t>(1, extranonce_size_ - 1)\<close>: the int is cut to a byte first.\<close>

definition on_channel_open :: "(nat \<Rightarrow> bool) \<Rightarrow> OpenExtendedMiningChannelSuccess \<Rightarrow> sv2_up \<Rightarrow> sv2_up \<times> su_effect list" where
  "on_channel_open live ok s =
     (let s = s\<lparr>su_channel_ok := True, su_channel_id := oes_channel_id ok, su_prefix := oes_extranonce_prefix ok,
                su_en_size := oes_extranonce_size ok, su_diff := diff_from_target_le (oes_target ok)\<rparr>;
          s = (if ucast (su_nonce_bytes s) \<ge> su_en_size s
               then s\<lparr>su_nonce_bytes := max 1 (ucast (su_en_size s - 1))\<rparr> else s)
      in notify_waiters live s)"

definition notify_line_of :: "proxy_notify \<Rightarrow> string" where
  "notify_line_of n =
     notify_head @ quoted (pn_job_id n) @ '','' @ quoted (pn_prevhash_stratum n) @ '','' @ quoted (pn_coinbase1 n)
       @ '','' @ quoted (pn_coinbase2 n) @ '','' @ branch_json (pn_merkle_branch n) @ '',''
       @ quoted (int_to_hex (pn_version n) 8) @ '','' @ quoted (pn_bits n) @ '','' @ quoted (pn_ntime n) @ '',''
       @ notify_tail (pn_clean n)"

definition make_notify :: "ext_job \<Rightarrow> prev_hash \<Rightarrow> bool \<Rightarrow> u64 \<Rightarrow> proxy_notify res" where
  "make_notify j p clean seq =
     (let bits = int_to_hex (pv_nbits p) 8 in
      bindE (target_from_bits_hex bits) (\<lambda>tgt.
        let n = \<lparr>pn_notify_line = [], pn_job_id = int_to_hex (ej_sv2_job_id j) 8,
                 pn_prevhash_stratum = swap_words_hex (bytes_to_hex (pv_prev_hash p)),
                 pn_coinbase1 = bytes_to_hex (ej_cb_prefix j), pn_coinbase2 = bytes_to_hex (ej_cb_suffix j),
                 pn_merkle_branch = map bytes_to_hex (ej_merkle_path j), pn_version = ej_version j,
                 pn_bits = bits, pn_ntime = int_to_hex (pv_min_ntime p) 8, pn_mintime = pv_min_ntime p,
                 pn_clean = clean, pn_net_target_be = tgt, pn_seq = seq\<rparr>
        in Inr (n\<lparr>pn_notify_line := notify_line_of n\<rparr>)))"

text \<open>The eviction loop \<open>while (jobid_order_.size() > 32)\<close>.\<close>

fun evict_jobs :: "nat \<Rightarrow> (string \<rightharpoonup> u32) \<Rightarrow> string list \<Rightarrow> (string \<rightharpoonup> u32) \<times> string list" where
  "evict_jobs cap m [] = (m, [])"
| "evict_jobs cap m (j # js) =
     (if length (j # js) > cap then evict_jobs cap (m(j := None)) js else (m, j # js))"

definition rebuild_and_broadcast :: "(nat \<Rightarrow> bool) \<Rightarrow> bool \<Rightarrow> sv2_up \<Rightarrow> (sv2_up \<times> su_effect list) res" where
  "rebuild_and_broadcast live clean s =
     (case (su_job s, su_prev s) of
        (Some j, Some p) \<Rightarrow>
          bindE (make_notify j p clean (su_notify_seq s + 1)) (\<lambda>n.
            let (m, ord) = evict_jobs 32 ((su_jobid_map s)(pn_job_id n \<mapsto> ej_sv2_job_id j))
                             (su_jobid_order s @ [pn_job_id n])
            in Inr (s\<lparr>su_notify_seq := su_notify_seq s + 1, su_cur_notify := Some n,
                      su_jobid_map := m, su_jobid_order := ord\<rparr>,
                    map (\<lambda>k. Job_To k n) (live_sinks live s)))
      | _ \<Rightarrow> Inr (s, []))"

definition on_extended_job :: "(nat \<Rightarrow> bool) \<Rightarrow> NewExtendedMiningJob \<Rightarrow> sv2_up \<Rightarrow> (sv2_up \<times> su_effect list) res" where
  "on_extended_job live j s =
     (let s = s\<lparr>su_job := Some \<lparr>ej_sv2_job_id = nej_job_id j, ej_version = nej_version j,
                ej_version_rolling_allowed = nej_version_rolling_allowed j, ej_merkle_path = nej_merkle_path j,
                ej_cb_prefix = nej_coinbase_tx_prefix j, ej_cb_suffix = nej_coinbase_tx_suffix j\<rparr>\<rparr>
      in if nej_min_ntime j \<noteq> None \<and> su_prev s \<noteq> None then rebuild_and_broadcast live False s else Inr (s, []))"

definition on_set_prev_hash :: "(nat \<Rightarrow> bool) \<Rightarrow> SetNewPrevHash \<Rightarrow> sv2_up \<Rightarrow> (sv2_up \<times> su_effect list) res" where
  "on_set_prev_hash live ph s =
     (let s = s\<lparr>su_prev := Some \<lparr>pv_sv2_job_id = ph_job_id ph, pv_prev_hash = ph_prev_hash ph,
                pv_min_ntime = ph_min_ntime ph, pv_nbits = ph_nbits ph\<rparr>\<rparr>
      in if su_job s \<noteq> None then rebuild_and_broadcast live True s else Inr (s, []))"

definition on_set_target :: "(nat \<Rightarrow> bool) \<Rightarrow> bytes \<Rightarrow> sv2_up \<Rightarrow> sv2_up \<times> su_effect list" where
  "on_set_target live t s =
     (let d = diff_from_target_le t; s = s\<lparr>su_diff := d\<rparr>
      in (s, map (\<lambda>k. Diff_To k d) (live_sinks live s)))"

text \<open>Success answers every pending submit up to its sequence number, an error the one it names.\<close>

definition on_submit_result :: "u32 \<Rightarrow> bool \<Rightarrow> string \<Rightarrow> sv2_up \<Rightarrow> sv2_up \<times> su_effect list" where
  "on_submit_result seq accepted err s =
     (let hit = (\<lambda>e. if accepted then fst e \<le> seq else fst e = seq);
          cbs = filter hit (su_pending s);
          s = s\<lparr>su_pending := filter (\<lambda>e. \<not> hit e) (su_pending s)\<rparr>;
          s = (if accepted then s\<lparr>su_stat_accepted := su_stat_accepted s + of_nat (length cbs)\<rparr> else s)
      in (s, map (\<lambda>e. Answer (snd e) accepted err) cbs))"

section \<open>Frames\<close>

definition run_parser :: "'a parser \<Rightarrow> bytes \<Rightarrow> 'a res" where
  "run_parser p payload = bindE (p (mk_reader payload)) (\<lambda>(v, _). Inr v)"

definition text_of :: "bytes \<Rightarrow> string" where
  "text_of bs = map (\<lambda>b. char_of (unat b)) bs"

definition handle_frame :: "(nat \<Rightarrow> bool) \<Rightarrow> Header \<Rightarrow> bytes \<Rightarrow> sv2_up \<Rightarrow> (sv2_up \<times> su_effect list) res" where
  "handle_frame live h payload s =
     (let t = h_msg_type h in
      if t = MSG_SETUP_CONNECTION_SUCCESS then
        Inr (s\<lparr>su_setup_ok := True\<rparr>, [send_sv2 MSG_OPEN_EXTENDED_MINING_CHANNEL (open_extended_payload s)])
      else if t = MSG_SETUP_CONNECTION_ERROR then
        bindE (run_parser read_str0_255 payload) (\<lambda>_. Inr (teardown live s))
      else if t = MSG_OPEN_EXTENDED_MINING_CHANNEL_SUCCESS then
        bindE (run_parser OpenExtendedMiningChannelSuccess_parse payload) (\<lambda>ok. Inr (on_channel_open live ok s))
      else if t = MSG_OPEN_MINING_CHANNEL_ERROR then
        bindE (run_parser (bindR read_u32 (\<lambda>_. read_str0_255)) payload) (\<lambda>_. Inr (teardown live s))
      else if t = MSG_NEW_EXTENDED_MINING_JOB then
        bindE (run_parser NewExtendedMiningJob_parse payload) (\<lambda>j. on_extended_job live j s)
      else if t = MSG_SET_NEW_PREV_HASH then
        bindE (run_parser SetNewPrevHash_parse payload) (\<lambda>ph. on_set_prev_hash live ph s)
      else if t = MSG_SET_TARGET then
        bindE (run_parser SetTarget_parse payload) (\<lambda>st. Inr (on_set_target live (st_maximum_target st) s))
      else if t = MSG_SUBMIT_SHARES_SUCCESS then
        bindE (run_parser (bindR read_u32 (\<lambda>_. read_u32)) payload) (\<lambda>q. Inr (on_submit_result q True [] s))
      else if t = MSG_SUBMIT_SHARES_ERROR then
        bindE (run_parser SubmitSharesError_parse payload) (\<lambda>e.
          Inr (on_submit_result (ssx_sequence_number e) False (text_of (ssx_error_code e)) s))
      else Inr (s, []))"

text \<open>The \<open>catch\<close> of \<open>consume_frames\<close>: a frame that throws changes nothing, for the only reads that throw
  come before the first change of state (building a notify never throws, \<open>make_notify_ok\<close> below).\<close>

definition handle_caught :: "(nat \<Rightarrow> bool) \<Rightarrow> Header \<Rightarrow> bytes \<Rightarrow> sv2_up \<Rightarrow> sv2_up \<times> su_effect list" where
  "handle_caught live h payload s = (case handle_frame live h payload s of Inr r \<Rightarrow> r | Inl _ \<Rightarrow> (s, []))"

definition header_of :: "rx \<Rightarrow> Header" where
  "header_of x =
     (case run_parser Header_deserialize (take 6 (rx_in x)) of Inr h \<Rightarrow> h | Inl _ \<Rightarrow> rx_header x)"

function consume_frames :: "(nat \<Rightarrow> bool) \<Rightarrow> rx \<Rightarrow> sv2_up \<Rightarrow> rx \<times> sv2_up \<times> su_effect list" where
  "consume_frames live x s =
     (if \<not> su_connected s then (x, s, [])
      else if \<not> rx_have x then
        (if length (rx_in x) < 6 then (x, s, [])
         else
           let h = header_of x
           in if \<not> frame_length_ok (h_msg_length h)
              then (\<lparr>rx_in = drop 6 (rx_in x), rx_have = False, rx_header = h\<rparr>, teardown live s)
              else consume_frames live \<lparr>rx_in = drop 6 (rx_in x), rx_have = True, rx_header = h\<rparr> s)
      else
        let n = unat (h_msg_length (rx_header x))
        in if length (rx_in x) < n then (x, s, [])
           else
             let (s', e) = handle_caught live (rx_header x) (take n (rx_in x)) s;
                 (x'', s'', e') = consume_frames live
                   \<lparr>rx_in = drop n (rx_in x), rx_have = False, rx_header = rx_header x\<rparr> s'
             in (x'', s'', e @ e'))"
  by pat_completeness auto
termination
  by (relation "measure (\<lambda>(live, x, s). 2 * length (rx_in x) + (if rx_have x then 1 else 0))") auto

declare consume_frames.simps [simp del]

definition on_read :: "(nat \<Rightarrow> bool) \<Rightarrow> bytes option \<Rightarrow> rx \<times> sv2_up \<Rightarrow> (rx \<times> sv2_up) \<times> su_effect list" where
  "on_read live chunk = (\<lambda>(x, s).
     case chunk of
       None \<Rightarrow> (let (s, e) = teardown live s in ((x, s), e))
     | Some bs \<Rightarrow>
         let x = x\<lparr>rx_in := rx_in x @ bs\<rparr>
         in if length (rx_in x) > 8 * 2 ^ 20 then (let (s, e) = teardown live s in ((x, s), e))
            else (let (x, s, e) = consume_frames live x s in ((x, s), e)))"

section \<open>What the downstream sessions call\<close>

definition su_attach :: "nat \<Rightarrow> sv2_up \<Rightarrow> proxy_slot \<times> sv2_up" where
  "su_attach sink s =
     (if \<not> su_channel_ok s then (no_slot, s)
      else
        let slot = su_next_slot s; nb = unat (su_nonce_bytes s);
            slot_hex = concat (map (\<lambda>i. int_to_hex (drop_bit (8 * i) slot AND 0xff) 2) (rev [0..<nb]))
        in (\<lparr>ps_ok = True, ps_link_id = 0, ps_slot_id = slot, ps_slot_hex = slot_hex,
             ps_en1_hex = bytes_to_hex (su_prefix s) @ slot_hex,
             ps_en2_size = (if unat (su_en_size s) > nb then unat (su_en_size s) - nb else 0)\<rparr>,
            s\<lparr>su_next_slot := slot + 1,
              su_subscribers := filter (\<lambda>e. fst e \<noteq> slot) (su_subscribers s) @ [(slot, sink)]\<rparr>))"

definition su_detach :: "u32 \<Rightarrow> sv2_up \<Rightarrow> sv2_up" where
  "su_detach slot_id s = s\<lparr>su_subscribers := filter (\<lambda>e. fst e \<noteq> slot_id) (su_subscribers s)\<rparr>"

definition su_register_waiter :: "nat \<Rightarrow> sv2_up \<Rightarrow> sv2_up" where
  "su_register_waiter sink s = s\<lparr>su_waiters := su_waiters s @ [sink]\<rparr>"

definition su_current_job :: "sv2_up \<Rightarrow> proxy_notify option" where "su_current_job s = su_cur_notify s"
definition su_current_diff :: "sv2_up \<Rightarrow> rat" where "su_current_diff s = su_diff s"
definition su_any_ready :: "sv2_up \<Rightarrow> bool" where "su_any_ready s = su_channel_ok s"

text \<open>\<open>submit\<close> on the caller's thread: the closure it posts, or the refusal it answers at once.\<close>

record posted_submit =
  po_chan :: u32
  po_job :: u32
  po_nonce :: u32
  po_ntime :: u32
  po_version :: u32
  po_extranonce :: bytes

definition su_submit :: "upstream_submit \<Rightarrow> sv2_up \<Rightarrow> (string + posted_submit) res" where
  "su_submit u s =
     (case (if su_channel_ok s then su_jobid_map s (us_job_id u) else None) of
        None \<Rightarrow> Inr (Inl ''stale/notready'')
      | Some j \<Rightarrow>
          bindE (hex_to_bytes (us_en2_full_hex u)) (\<lambda>en.
            case (parse_hex_any_u32 (us_nonce_hex u), parse_hex_any_u32 (us_ntime_hex u)) of
              (Some nonce, Some ntime) \<Rightarrow>
                Inr (Inr \<lparr>po_chan = su_channel_id s, po_job = j, po_nonce = nonce, po_ntime = ntime,
                  po_version = (case us_version_bits u of Some v \<Rightarrow> v
                                | None \<Rightarrow> (case su_job s of Some jb \<Rightarrow> ej_version jb | None \<Rightarrow> 0)),
                  po_extranonce = en\<rparr>)
            | _ \<Rightarrow> Inr (Inl ''bad hex'')))"

definition su_submit_posted :: "posted_submit \<Rightarrow> nat option \<Rightarrow> sv2_up \<Rightarrow> sv2_up \<times> su_effect list" where
  "su_submit_posted q cb s =
     (if \<not> su_connected s then (s, case cb of Some c \<Rightarrow> [Answer c False ''link down''] | None \<Rightarrow> [])
      else
        let seq = su_next_seq s;
            s = s\<lparr>su_next_seq := seq + 1\<rparr>;
            s = (case cb of Some c \<Rightarrow> s\<lparr>su_pending := filter (\<lambda>e. fst e \<noteq> seq) (su_pending s) @ [(seq, c)]\<rparr> | None \<Rightarrow> s);
            w = write_u32 (po_chan q) []; w = write_u32 seq w; w = write_u32 (po_job q) w;
            w = write_u32 (po_nonce q) w; w = write_u32 (po_ntime q) w; w = write_u32 (po_version q) w;
            w = write_b0_32 (po_extranonce q) w
        in (s, [send_sv2 MSG_SUBMIT_SHARES_EXTENDED w]))"

section \<open>The stream is cut anywhere\<close>

lemma consume_disconnected [simp]: "\<not> su_connected s \<Longrightarrow> consume_frames live x s = (x, s, [])"
  by (simp add: consume_frames.simps)

lemma header_of_append [simp]: "6 \<le> length (rx_in x) \<Longrightarrow> header_of (x\<lparr>rx_in := rx_in x @ b\<rparr>) = header_of x"
  by (simp add: header_of_def split: sum.split)

text \<open>The three ways a round of the loop goes on.\<close>

lemma consume_header:
  assumes "su_connected s" "\<not> rx_have x" "6 \<le> length (rx_in x)" "frame_length_ok (h_msg_length (header_of x))"
  shows "consume_frames live x s =
    consume_frames live \<lparr>rx_in = drop 6 (rx_in x), rx_have = True, rx_header = header_of x\<rparr> s"
  using assms by (simp add: consume_frames.simps[of live x] Let_def)

lemma consume_oversize:
  assumes "su_connected s" "\<not> rx_have x" "6 \<le> length (rx_in x)" "\<not> frame_length_ok (h_msg_length (header_of x))"
  shows "consume_frames live x s =
    (\<lparr>rx_in = drop 6 (rx_in x), rx_have = False, rx_header = header_of x\<rparr>, teardown live s)"
  using assms by (simp add: consume_frames.simps[of live x] Let_def)

lemma consume_payload:
  assumes "su_connected s" "rx_have x" "unat (h_msg_length (rx_header x)) \<le> length (rx_in x)"
    and "handle_caught live (rx_header x) (take (unat (h_msg_length (rx_header x))) (rx_in x)) s = (s', e)"
  shows "consume_frames live x s =
    (let (x2, s2, e2) = consume_frames live
       \<lparr>rx_in = drop (unat (h_msg_length (rx_header x))) (rx_in x), rx_have = False, rx_header = rx_header x\<rparr> s'
     in (x2, s2, e @ e2))"
  using assms by (simp add: consume_frames.simps[of live x] Let_def)

lemma consume_wait:
  assumes "\<not> rx_have x \<and> length (rx_in x) < 6 \<or> rx_have x \<and> length (rx_in x) < unat (h_msg_length (rx_header x))"
  shows "consume_frames live x s = (x, s, [])"
  using assms by (auto simp: consume_frames.simps[of live x] Let_def)

text \<open>Case analysis on one round.\<close>

lemma consume_rounds [consumes 0, case_names disconnected wait oversize header payload]:
  fixes P :: "rx \<Rightarrow> sv2_up \<Rightarrow> bool" and x :: rx and s :: sv2_up
  assumes "\<And>x s. \<not> su_connected s \<Longrightarrow> P x s"
    and "\<And>x s. su_connected s \<Longrightarrow>
      \<not> rx_have x \<and> length (rx_in x) < 6 \<or> rx_have x \<and> length (rx_in x) < unat (h_msg_length (rx_header x)) \<Longrightarrow> P x s"
    and "\<And>x s. su_connected s \<Longrightarrow> \<not> rx_have x \<Longrightarrow> 6 \<le> length (rx_in x) \<Longrightarrow>
      \<not> frame_length_ok (h_msg_length (header_of x)) \<Longrightarrow> P x s"
    and "\<And>x s. su_connected s \<Longrightarrow> \<not> rx_have x \<Longrightarrow> 6 \<le> length (rx_in x) \<Longrightarrow>
      frame_length_ok (h_msg_length (header_of x)) \<Longrightarrow>
      P \<lparr>rx_in = drop 6 (rx_in x), rx_have = True, rx_header = header_of x\<rparr> s \<Longrightarrow> P x s"
    and "\<And>x s s' e. su_connected s \<Longrightarrow> rx_have x \<Longrightarrow> unat (h_msg_length (rx_header x)) \<le> length (rx_in x) \<Longrightarrow>
      handle_caught live (rx_header x) (take (unat (h_msg_length (rx_header x))) (rx_in x)) s = (s', e) \<Longrightarrow>
      P \<lparr>rx_in = drop (unat (h_msg_length (rx_header x))) (rx_in x), rx_have = False, rx_header = rx_header x\<rparr> s' \<Longrightarrow>
      P x s"
  shows "P x s"
proof (induction "2 * length (rx_in x) + (if rx_have x then 1 else 0 :: nat)" arbitrary: x s rule: less_induct)
  case (less x s)
  obtain s' e where h: "handle_caught live (rx_header x) (take (unat (h_msg_length (rx_header x))) (rx_in x)) s = (s', e)"
    by force
  consider "\<not> su_connected s" | "su_connected s"
      "\<not> rx_have x \<and> length (rx_in x) < 6 \<or> rx_have x \<and> length (rx_in x) < unat (h_msg_length (rx_header x))"
    | "su_connected s" "\<not> rx_have x" "6 \<le> length (rx_in x)"
    | "su_connected s" "rx_have x" "unat (h_msg_length (rx_header x)) \<le> length (rx_in x)"
    by linarith
  then show ?case
  proof cases
    case 3
    then show ?thesis
      using assms(3)[OF 3] assms(4)[OF 3] less[of "\<lparr>rx_in = drop 6 (rx_in x), rx_have = True, rx_header = header_of x\<rparr>" s]
      by (cases "frame_length_ok (h_msg_length (header_of x))") auto
  next
    case 4
    then show ?thesis
      using assms(5)[OF 4 h] less[of "\<lparr>rx_in = drop (unat (h_msg_length (rx_header x))) (rx_in x), rx_have = False,
        rx_header = rx_header x\<rparr>" s'] by auto
  qed (use assms(1,2) in blast)+
qed

lemma consume_append:
  "consume_frames live (x\<lparr>rx_in := rx_in x @ b\<rparr>) s =
     (let (x1, s1, e1) = consume_frames live x s;
          (x2, s2, e2) = consume_frames live (x1\<lparr>rx_in := rx_in x1 @ b\<rparr>) s1
      in (x2, s2, e1 @ e2))"
proof (induction x s rule: consume_rounds[where live = live])
  case (oversize x s)
  have "\<not> su_connected (fst (teardown live s))"
    by (simp add: teardown_def schedule_reconnect_def Let_def)
  with oversize show ?case
    by (simp add: consume_oversize split_beta)
next
  case (header x s)
  then show ?case
    by (simp add: consume_header[of s x] consume_header[of s "x\<lparr>rx_in := rx_in x @ b\<rparr>"])
next
  case (payload x s s' e)
  then show ?case
    by (simp add: consume_payload[of s x live s' e] consume_payload[of s "x\<lparr>rx_in := rx_in x @ b\<rparr>" live s' e] split_beta Let_def)
qed (simp_all add: consume_wait)

lemma consume_shrinks: "length (rx_in (fst (consume_frames live x s))) \<le> length (rx_in x)"
proof (induction x s rule: consume_rounds[where live = live])
  case (header x s)
  then show ?case
    by (simp add: consume_header[of s x])
next
  case (payload x s s' e)
  then show ?case
    by (simp add: consume_payload[of s x live s' e] split_beta Let_def)
qed (simp_all add: consume_wait consume_oversize)

text \<open>The reads of one connection: the next one is armed only while the link is up.\<close>

fun su_feed :: "(nat \<Rightarrow> bool) \<Rightarrow> bytes list \<Rightarrow> rx \<times> sv2_up \<Rightarrow> (rx \<times> sv2_up) \<times> su_effect list" where
  "su_feed live [] st = (st, [])"
| "su_feed live (c # cs) st =
     (if \<not> su_connected (snd st) then (st, [])
      else let (st1, e1) = on_read live (Some c) st; (st2, e2) = su_feed live cs st1 in (st2, e1 @ e2))"

definition frame_header :: "u8 \<Rightarrow> bytes \<Rightarrow> Header" where
  "frame_header t payload =
     \<lparr>h_extension_type = (if is_channel_msg t then EXT_COMMON OR CHANNEL_MSG_BIT else EXT_COMMON),
      h_msg_type = t, h_msg_length = of_nat (length payload)\<rparr>"

text \<open>The reference: whole messages, one after the other, until the link goes down.\<close>

fun handle_all :: "(nat \<Rightarrow> bool) \<Rightarrow> (u8 \<times> bytes) list \<Rightarrow> sv2_up \<Rightarrow> sv2_up \<times> su_effect list" where
  "handle_all live [] s = (s, [])"
| "handle_all live ((t, p) # fs) s =
     (if \<not> su_connected s then (s, [])
      else let (s1, e1) = handle_caught live (frame_header t p) p s; (s2, e2) = handle_all live fs s1 in (s2, e1 @ e2))"

definition frame_bytes :: "u8 \<times> bytes \<Rightarrow> bytes" where
  "frame_bytes f = wrap_message EXT_COMMON (fst f) (snd f)"

lemma handle_all_disconnected [simp]: "\<not> su_connected s \<Longrightarrow> handle_all live fs s = (s, [])"
  by (cases fs) auto

lemma consume_frame:
  assumes "su_connected s" "\<not> rx_have x" "rx_in x = wrap_message EXT_COMMON t p @ rest" "length p \<le> 65519"
    and "handle_caught live (frame_header t p) p s = (s', e)"
  shows "consume_frames live x s =
    (let (x2, s2, e2) = consume_frames live \<lparr>rx_in = rest, rx_have = False, rx_header = frame_header t p\<rparr> s'
     in (x2, s2, e @ e2))"
proof -
  have l: "unat (of_nat (length p) :: u32) = length p"
    using assms(4) by (simp add: unat_of_nat)
  have w: "wrap_message EXT_COMMON t p = Header_serialize (frame_header t p) [] @ p"
    by (simp add: wrap_message_def frame_header_def Let_def)
  have t6: "take 6 (rx_in x) = Header_serialize (frame_header t p) []" and d6: "drop 6 (rx_in x) = p @ rest"
    by (simp_all add: assms(3) w)
  have "codec Header_deserialize (Header_serialize (frame_header t p) []) (frame_header t p)"
    using assms(4) by (intro m_h.read_enc) (simp add: Header_ok_def frame_header_def l)
  from codec_run[OF this, of "[]"] have h: "header_of x = frame_header t p"
    by (simp add: header_of_def t6 run_parser_def mk_reader_def)
  have len: "h_msg_length (frame_header t p) = of_nat (length p)"
    by (simp add: frame_header_def)
  show ?thesis
    using assms(4) consume_header[of s x live] assms(1-3)
      consume_payload[of s "\<lparr>rx_in = p @ rest, rx_have = True, rx_header = frame_header t p\<rparr>" live s' e]
      assms(5) by (simp add: h d6 len l frame_length_ok_iff w)
qed

lemma consume_all:
  assumes "list_all (\<lambda>f. length (snd f) \<le> 65519) fs" and "\<not> rx_have x" and "rx_in x = concat (map frame_bytes fs)"
  shows "snd (consume_frames live x s) = handle_all live fs s"
  using assms
proof (induction fs arbitrary: x s)
  case Nil
  then show ?case by (simp add: consume_wait)
next
  case (Cons f fs)
  obtain t p where f: "f = (t, p)"
    by force
  obtain s' e where h: "handle_caught live (frame_header t p) p s = (s', e)"
    by force
  show ?case
  proof (cases "su_connected s")
    case True
    have "rx_in x = wrap_message EXT_COMMON t p @ concat (map frame_bytes fs)"
      using Cons.prems(3) by (simp add: f frame_bytes_def[of "(t, p)"])
    then show ?thesis
      using Cons.prems(1,2) Cons.IH[of "\<lparr>rx_in = concat (map frame_bytes fs), rx_have = False, rx_header = frame_header t p\<rparr>" s']
        consume_frame[of s x t p "concat (map frame_bytes fs)" live s' e] True
      by (simp add: f h split_beta Let_def prod_eq_iff)
  qed (simp add: f)
qed

lemma consume_quiescent:
  assumes "consume_frames live x s = (x1, s1, e1)"
  shows "consume_frames live x1 s1 = (x1, s1, [])"
proof -
  have "x\<lparr>rx_in := rx_in x @ []\<rparr> = x" "x1\<lparr>rx_in := rx_in x1 @ []\<rparr> = x1"
    by simp_all
  then show ?thesis
    using consume_append[of live x "[]" s] assms by (auto simp: Let_def split_beta prod_eq_iff)
qed

lemma feed_is_consume:
  assumes "length (rx_in x) + length (concat chunks) \<le> 8 * 2 ^ 20" and "consume_frames live x s = (x, s, [])"
  shows "(snd (fst (su_feed live chunks (x, s))), snd (su_feed live chunks (x, s))) =
    snd (consume_frames live (x\<lparr>rx_in := rx_in x @ concat chunks\<rparr>) s)"
  using assms
proof (induction chunks arbitrary: x s)
  case (Cons c cs)
  obtain x1 s1 e1 where c1: "consume_frames live (x\<lparr>rx_in := rx_in x @ c\<rparr>) s = (x1, s1, e1)"
    by (metis surj_pair)
  show ?case
  proof (cases "su_connected s")
    case True
    have "length (rx_in x1) + length (concat cs) \<le> 8 * 2 ^ 20"
      using consume_shrinks[of live "x\<lparr>rx_in := rx_in x @ c\<rparr>" s] c1 Cons.prems(1) by simp
    note ih = Cons.IH[OF this consume_quiescent[OF c1]]
    have "on_read live (Some c) (x, s) = ((x1, s1), e1)"
      using Cons.prems(1) c1 by (simp add: on_read_def)
    moreover have "consume_frames live (x\<lparr>rx_in := rx_in x @ concat (c # cs)\<rparr>) s =
        (let (x2, s2, e2) = consume_frames live (x1\<lparr>rx_in := rx_in x1 @ concat cs\<rparr>) s1 in (x2, s2, e1 @ e2))"
      using consume_append[of live "x\<lparr>rx_in := rx_in x @ c\<rparr>" "concat cs" s] c1 by simp
    ultimately show ?thesis
      using ih True by (auto simp: Let_def split_beta prod_eq_iff)
  qed simp
qed simp

section \<open>Slots\<close>

lemma list_of_four: "length xs = 4 \<Longrightarrow> \<exists>e a b c. xs = [e, a, b, c]"
  by (auto simp: numeral_eq_Suc length_Suc_conv)

lemma make_notify_ok: "\<exists>n. make_notify j p clean seq = Inr n"
proof -
  have "int_to_hex (pv_nbits p) 8 = bytes_to_hex (rev (nat_le 4 (unat (pv_nbits p))))"
    using int_to_hex_bytes[of "pv_nbits p" 4] by simp
  moreover obtain e a b c where "rev (nat_le 4 (unat (pv_nbits p))) = [e, a, b, c]"
    using list_of_four[of "rev (nat_le 4 (unat (pv_nbits p)))"] by auto
  ultimately obtain t where "target_from_bits_hex (int_to_hex (pv_nbits p) 8) = Inr t"
    using target_from_bits_bytes[of e a b c] by metis
  then show ?thesis
    by (simp add: make_notify_def Let_def)
qed

datatype slot_op = Op_Attach nat | Op_Detach u32 | Op_Wait nat

fun slot_run :: "slot_op list \<Rightarrow> sv2_up \<Rightarrow> proxy_slot list \<times> sv2_up" where
  "slot_run [] s = ([], s)"
| "slot_run (Op_Attach k # ops) s =
     (let (p, s1) = su_attach k s; (ps, s2) = slot_run ops s1 in (p # ps, s2))"
| "slot_run (Op_Detach i # ops) s = slot_run ops (su_detach i s)"
| "slot_run (Op_Wait k # ops) s = slot_run ops (su_register_waiter k s)"

definition slot_bytes :: "nat \<Rightarrow> u32 \<Rightarrow> bytes" where
  "slot_bytes nb slot = rev (nat_le nb (unat slot))"

lemma length_slot_bytes [simp, length_facts]: "length (slot_bytes nb slot) = nb"
  by (simp add: slot_bytes_def)

lemma slot_bytes_inject:
  assumes "slot_bytes nb a = slot_bytes nb b" "unat a < 256 ^ nb" "unat b < 256 ^ nb"
  shows "a = b"
proof -
  have "unat a = unat b"
    using assms nat_le_inject[of "unat a" nb "unat b"] by (simp add: slot_bytes_def)
  then show ?thesis
    by (rule word_unat_eq_iff[THEN iffD2])
qed

lemma slot_hex_bytes:
  "concat (map (\<lambda>i. int_to_hex (drop_bit (8 * i) slot AND 0xff) 2) (rev [0..<nb])) = bytes_to_hex (slot_bytes nb slot)"
proof -
  have "int_to_hex (drop_bit (8 * i) slot AND 0xff) 2 = bytes_to_hex [of_nat (unat slot div 256 ^ i)]" for i
  proof -
    have "int_to_hex (drop_bit (8 * i) slot AND 0xff) 2 =
        bytes_to_hex [of_nat (unat (drop_bit (8 * i) slot AND 0xff))]"
      using int_to_hex_bytes[of "drop_bit (8 * i) slot AND 0xff" 1]
      by (simp del: bytes_to_hex.simps add: of_nat_mod_u8)
    also have "(of_nat (unat (drop_bit (8 * i) slot AND 0xff)) :: u8) = of_nat (unat slot div 256 ^ i)"
      using byte_of_nat[of slot i] by (simp add: byte_of_def)
    finally show ?thesis .
  qed
  then show ?thesis
    by (simp add: slot_bytes_def nat_le_map rev_map bytes_to_hex_map del: bytes_to_hex.simps)
qed

definition slot_of :: "sv2_up \<Rightarrow> u32 \<Rightarrow> proxy_slot" where
  "slot_of s slot =
     \<lparr>ps_ok = True, ps_link_id = 0, ps_slot_id = slot,
      ps_slot_hex = bytes_to_hex (slot_bytes (unat (su_nonce_bytes s)) slot),
      ps_en1_hex = bytes_to_hex (su_prefix s @ slot_bytes (unat (su_nonce_bytes s)) slot),
      ps_en2_size = unat (su_en_size s) - unat (su_nonce_bytes s)\<rparr>"

lemma su_attach_ready:
  "su_channel_ok s \<Longrightarrow> su_attach k s = (slot_of s (su_next_slot s), s\<lparr>su_next_slot := su_next_slot s + 1,
     su_subscribers := filter (\<lambda>e. fst e \<noteq> su_next_slot s) (su_subscribers s) @ [(su_next_slot s, k)]\<rparr>)"
  by (simp add: su_attach_def slot_of_def Let_def slot_hex_bytes)

lemma slot_run_slots:
  assumes "su_channel_ok s" and "su_next_slot s = of_nat k" and "slot_run ops s = (slots, s')"
  shows "slots = map (\<lambda>i. slot_of s (of_nat i)) [k..<k + length slots]"
  using assms
proof (induction ops arbitrary: s slots k)
  case Nil
  then show ?case by simp
next
  case (Cons e es)
  show ?case
  proof (cases e)
    case (Op_Attach a)
    let ?s1 = "s\<lparr>su_next_slot := su_next_slot s + 1, su_subscribers :=
        filter (\<lambda>e. fst e \<noteq> su_next_slot s) (su_subscribers s) @ [(su_next_slot s, a)]\<rparr>"
    obtain ps where ps: "slots = slot_of s (of_nat k) # ps" "slot_run es ?s1 = (ps, s')"
      using Cons.prems Op_Attach by (auto simp: su_attach_ready split_beta Let_def prod_eq_iff)
    have "ps = map (\<lambda>i. slot_of ?s1 (of_nat i)) [Suc k..<Suc k + length ps]"
      using Cons.prems ps(2) by (intro Cons.IH) (simp_all add: add.commute)
    moreover have "slot_of ?s1 = slot_of s"
      by (rule ext) (simp add: slot_of_def)
    ultimately show ?thesis
      using ps(1) upt_conv_Cons[of k "k + length slots"] by (simp del: upt_Suc)
  next
    case (Op_Detach i)
    have "slot_of (su_detach i s) = slot_of s"
      by (rule ext) (simp add: slot_of_def su_detach_def)
    then show ?thesis
      using Cons.IH[of "su_detach i s" k slots] Cons.prems Op_Detach by (simp add: su_detach_def)
  next
    case (Op_Wait i)
    have "slot_of (su_register_waiter i s) = slot_of s"
      by (rule ext) (simp add: slot_of_def su_register_waiter_def)
    then show ?thesis
      using Cons.IH[of "su_register_waiter i s" k slots] Cons.prems Op_Wait by (simp add: su_register_waiter_def)
  qed
qed

section \<open>All events\<close>

datatype su_event =
  E_Start
| E_Stop
| E_Connect
| E_Connected
| E_Read "bytes option"
| E_Post bytes
| E_Written bool
| E_Attach nat
| E_Detach u32
| E_Wait nat
| E_Submit posted_submit "nat option"

fun su_exec :: "(nat \<Rightarrow> bool) \<Rightarrow> su_event \<Rightarrow> rx \<times> sv2_up \<Rightarrow> (rx \<times> sv2_up) \<times> su_effect list" where
  "su_exec live E_Start (x, s) = ((x, s\<lparr>su_running := True\<rparr>), [])"
| "su_exec live E_Stop (x, s) = (let (s, e) = teardown live (s\<lparr>su_running := False\<rparr>) in ((x, s), e))"
| "su_exec live E_Connect st = (su_connect st, [])"
| "su_exec live E_Connected (x, s) = (let (s, e) = on_connected s in ((x, s), e))"
| "su_exec live (E_Read c) st = on_read live c st"
| "su_exec live (E_Post f) (x, s) = (let (s, e) = run_post f s in ((x, s), e))"
| "su_exec live (E_Written failed) (x, s) = (let (s, e) = on_written live failed s in ((x, s), e))"
| "su_exec live (E_Attach k) (x, s) = ((x, snd (su_attach k s)), [])"
| "su_exec live (E_Detach i) (x, s) = ((x, su_detach i s), [])"
| "su_exec live (E_Wait k) (x, s) = ((x, su_register_waiter k s), [])"
| "su_exec live (E_Submit q cb) (x, s) = (let (s, e) = su_submit_posted q cb s in ((x, s), e))"

text \<open>What never changes hands wrongly: the job map only holds ids that name their job, in the window of
  the last 32.\<close>

definition jobs_inv :: "sv2_up \<Rightarrow> bool" where
  "jobs_inv s \<longleftrightarrow> (\<forall>t v. su_jobid_map s t = Some v \<longrightarrow> t = int_to_hex v 8) \<and>
     dom (su_jobid_map s) \<subseteq> set (su_jobid_order s) \<and> length (su_jobid_order s) \<le> 32"

definition same_jobs :: "sv2_up \<Rightarrow> sv2_up \<Rightarrow> bool" where
  "same_jobs s s' \<longleftrightarrow> su_jobid_map s' = su_jobid_map s \<and> su_jobid_order s' = su_jobid_order s \<and>
     su_next_seq s' = su_next_seq s \<and> su_pending s' = su_pending s"

lemma same_jobs_inv: "same_jobs s s' \<Longrightarrow> jobs_inv s \<Longrightarrow> jobs_inv s'"
  by (simp add: same_jobs_def jobs_inv_def)

lemma teardown_same: "same_jobs s (fst (teardown live s))"
  by (simp add: same_jobs_def teardown_def schedule_reconnect_def Let_def)

lemma teardown_answers: "Answer c ok e \<notin> set (snd (teardown live s))"
  by (auto simp: teardown_def schedule_reconnect_def Let_def)

lemma channel_open_same: "same_jobs s (fst (on_channel_open live ok s))"
  by (simp add: same_jobs_def on_channel_open_def notify_waiters_def Let_def)

lemma set_target_same: "same_jobs s (fst (on_set_target live t s))"
  by (simp add: same_jobs_def on_set_target_def Let_def)

lemma evict_jobs_props:
  assumes "evict_jobs cap m ord = (m', ord')"
  shows "m' \<subseteq>\<^sub>m m \<and> length ord' \<le> cap \<and> (\<forall>t \<in> dom m'. t \<in> set ord \<longrightarrow> t \<in> set ord')"
  using assms
proof (induction cap m ord rule: evict_jobs.induct)
  case (2 cap m j js)
  show ?case
  proof (cases "cap < length (j # js)")
    case True
    then have *: "m' \<subseteq>\<^sub>m m(j := None)" "length ord' \<le> cap" "\<forall>t \<in> dom m'. t \<in> set js \<longrightarrow> t \<in> set ord'"
      using 2(1)[OF True] 2(2) by (simp_all add: fun_upd_def)
    have "m(j := None) \<subseteq>\<^sub>m m"
      by (simp add: map_le_def)
    then have "m' \<subseteq>\<^sub>m m"
      using map_le_trans *(1) by blast
    moreover have "j \<notin> dom m'"
      using map_le_implies_dom_le[OF *(1)] by auto
    ultimately show ?thesis
      using *(2,3) by auto
  next
    case False
    then show ?thesis
      using 2(2) by auto
  qed
qed simp

lemma rebuild_inv:
  assumes "rebuild_and_broadcast live clean s = Inr (s', e)" and "jobs_inv s"
  shows "jobs_inv s' \<and> su_next_seq s' = su_next_seq s \<and> su_pending s' = su_pending s \<and>
    (\<forall>c ok t. Answer c ok t \<notin> set e)"
proof (cases "su_job s = None \<or> su_prev s = None")
  case False
  then obtain j p where jp: "su_job s = Some j" "su_prev s = Some p"
    by auto
  obtain n where n: "make_notify j p clean (su_notify_seq s + 1) = Inr n"
    using make_notify_ok by blast
  have id: "pn_job_id n = int_to_hex (ej_sv2_job_id j) 8"
    using n by (auto simp: make_notify_def Let_def bindE_Inr_iff)
  obtain m ord where ev: "evict_jobs 32 ((su_jobid_map s)(pn_job_id n \<mapsto> ej_sv2_job_id j))
      (su_jobid_order s @ [pn_job_id n]) = (m, ord)"
    by force
  have s': "su_jobid_map s' = m" "su_jobid_order s' = ord" "su_next_seq s' = su_next_seq s" "su_pending s' = su_pending s"
      and e: "e = map (\<lambda>k. Job_To k n) (live_sinks live s)"
    using assms(1) by (auto simp: rebuild_and_broadcast_def jp n ev)
  note P = evict_jobs_props[OF ev]
  have "t = int_to_hex v 8" if "m t = Some v" for t v
  proof -
    have "((su_jobid_map s)(pn_job_id n \<mapsto> ej_sv2_job_id j)) t = Some v"
      using P that by (metis domI map_le_def)
    then show ?thesis
      using assms(2) id by (auto simp: jobs_inv_def split: if_splits)
  qed
  moreover have "t \<in> set ord" if "t \<in> dom m" for t
  proof -
    have "t \<in> dom ((su_jobid_map s)(pn_job_id n \<mapsto> ej_sv2_job_id j))"
      using P that map_le_implies_dom_le by blast
    then have "t \<in> set (su_jobid_order s @ [pn_job_id n])"
      using assms(2) by (auto simp: jobs_inv_def)
    with P that show ?thesis
      by blast
  qed
  ultimately show ?thesis
    using P s' e by (auto simp: jobs_inv_def)
qed (use assms in \<open>auto simp: rebuild_and_broadcast_def split: option.splits\<close>)

fun answers :: "su_effect list \<Rightarrow> nat list" where
  "answers [] = []"
| "answers (Answer c ok t # es) = c # answers es"
| "answers (e # es) = answers es"

lemma answers_append [simp]: "answers (xs @ ys) = answers xs @ answers ys"
  by (induction xs rule: answers.induct) auto

lemma answers_Nil: "(\<And>c ok t. Answer c ok t \<notin> set es) \<Longrightarrow> answers es = []"
  by (induction es rule: answers.induct) auto

lemma answers_map [simp]: "answers (map (\<lambda>x. Answer (f x) (g x) (h x)) xs) = map f xs"
  by (induction xs) auto

text \<open>A step that submits nothing: every pending submit is still pending or answered now, once.\<close>

definition tracked :: "sv2_up \<Rightarrow> sv2_up \<times> su_effect list \<Rightarrow> bool" where
  "tracked s r \<longleftrightarrow> (jobs_inv s \<longrightarrow> jobs_inv (fst r)) \<and> su_next_seq (fst r) = su_next_seq s \<and>
     set (su_pending (fst r)) \<subseteq> set (su_pending s) \<and>
     mset (map snd (su_pending s)) = mset (map snd (su_pending (fst r))) + mset (answers (snd r))"

lemma tracked_same: "same_jobs s (fst r) \<Longrightarrow> (\<And>c ok t. Answer c ok t \<notin> set (snd r)) \<Longrightarrow> tracked s r"
  using same_jobs_inv[of s "fst r"] answers_Nil[of "snd r"] by (simp add: tracked_def same_jobs_def)

lemma tracked_refl: "tracked s (s, [])"
  by (simp add: tracked_def)

lemma tracked_trans: "tracked s (s1, e1) \<Longrightarrow> tracked s1 (s2, e2) \<Longrightarrow> tracked s (s2, e1 @ e2)"
  by (auto simp: tracked_def add.assoc add.commute)

lemma tracked_teardown: "tracked s (teardown live s)"
  by (rule tracked_same[OF teardown_same teardown_answers])

lemma tracked_rebuild: "jobs_inv s \<longrightarrow> rebuild_and_broadcast live clean s = Inr r \<longrightarrow> tracked s r"
  using rebuild_inv[of live clean s "fst r" "snd r"] answers_Nil[of "snd r"] by (auto simp: tracked_def)

lemma tracked_result: "tracked s (on_submit_result seq accepted err s)"
proof -
  have "mset (map snd xs) = mset (map snd (filter (\<lambda>e. \<not> P e) xs)) + mset (map snd (filter P xs))" for P and xs :: "(u32 \<times> nat) list"
    by (induction xs) auto
  then show ?thesis
    by (auto simp: tracked_def on_submit_result_def Let_def jobs_inv_def comp_def
        answers_map[of snd "\<lambda>_. accepted" "\<lambda>_. err"])
qed

lemma tracked_frame:
  assumes "jobs_inv s" and "handle_frame live h payload s = Inr r"
  shows "tracked s r"
proof -
  have rb: "tracked s r'" if "rebuild_and_broadcast live clean (f s) = Inr r'"
      and "same_jobs s (f s)" "jobs_inv (f s)" for clean f r'
  proof -
    have "tracked (f s) r'"
      using tracked_rebuild that by blast
    moreover have "tracked s (f s, [])"
      using that(2) by (intro tracked_same) simp_all
    ultimately show ?thesis
      using tracked_trans[of s "f s" "[]" "fst r'" "snd r'"] by simp
  qed
  have job: "tracked s r" if "on_extended_job live j s = Inr r" for j
  proof -
    define f where "f = (\<lambda>s. s\<lparr>su_job := Some \<lparr>ej_sv2_job_id = nej_job_id j, ej_version = nej_version j,
                ej_version_rolling_allowed = nej_version_rolling_allowed j, ej_merkle_path = nej_merkle_path j,
                ej_cb_prefix = nej_coinbase_tx_prefix j, ej_cb_suffix = nej_coinbase_tx_suffix j\<rparr>\<rparr> :: sv2_up)"
    have f: "same_jobs s (f s)" "jobs_inv (f s)"
      using assms(1) by (simp_all add: f_def same_jobs_def jobs_inv_def)
    have "rebuild_and_broadcast live False (f s) = Inr r \<or> r = (f s, [])"
      using that by (auto simp: on_extended_job_def Let_def f_def split: if_splits)
    then show ?thesis
      using rb[of False f r] f tracked_same[of s "(f s, [])"] by auto
  qed
  have prev: "tracked s r" if "on_set_prev_hash live ph s = Inr r" for ph
  proof -
    define f where "f = (\<lambda>s. s\<lparr>su_prev := Some \<lparr>pv_sv2_job_id = ph_job_id ph, pv_prev_hash = ph_prev_hash ph,
                pv_min_ntime = ph_min_ntime ph, pv_nbits = ph_nbits ph\<rparr>\<rparr> :: sv2_up)"
    have f: "same_jobs s (f s)" "jobs_inv (f s)"
      using assms(1) by (simp_all add: f_def same_jobs_def jobs_inv_def)
    have "rebuild_and_broadcast live True (f s) = Inr r \<or> r = (f s, [])"
      using that by (auto simp: on_set_prev_hash_def Let_def f_def split: if_splits)
    then show ?thesis
      using rb[of True f r] f tracked_same[of s "(f s, [])"] by auto
  qed
  have open_ok: "tracked s (on_channel_open live ok s)" for ok
    by (rule tracked_same[OF channel_open_same]) (auto simp: on_channel_open_def notify_waiters_def Let_def)
  have target: "tracked s (on_set_target live t s)" for t
    by (rule tracked_same[OF set_target_same]) (auto simp: on_set_target_def Let_def)
  have opened: "tracked s (s\<lparr>su_setup_ok := True\<rparr>, [send_sv2 t w])" for t w
    by (rule tracked_same) (simp_all add: same_jobs_def send_sv2_def)
  show ?thesis
    using assms(2) unfolding handle_frame_def Let_def
    by (auto split: if_splits simp: bindE_Inr_iff intro: tracked_refl tracked_teardown tracked_result job prev open_ok target opened)
qed

lemma tracked_caught: "jobs_inv s \<Longrightarrow> tracked s (handle_caught live h payload s)"
  using tracked_frame by (auto simp: handle_caught_def tracked_refl split: sum.split)

lemma tracked_consume: "jobs_inv s \<Longrightarrow> tracked s (snd (consume_frames live x s))"
proof (induction x s rule: consume_rounds[where live = live])
  case (header x s)
  then show ?case
    by (simp add: consume_header[of s x])
next
  case (payload x s s' e)
  have "tracked s (s', e)"
    using tracked_caught[OF payload.prems] payload(4) by metis
  moreover from this have "tracked s' (snd (consume_frames live \<lparr>rx_in = drop (unat (h_msg_length (rx_header x))) (rx_in x),
      rx_have = False, rx_header = rx_header x\<rparr> s'))"
    using payload.IH payload.prems by (simp add: tracked_def)
  ultimately show ?case
    using payload by (simp add: consume_payload[of s x live s' e] split_beta Let_def tracked_trans)
qed (simp_all add: consume_wait consume_oversize tracked_refl tracked_teardown)

lemma tracked_read: "jobs_inv s \<Longrightarrow> tracked s (snd (fst (on_read live c (x, s))), snd (on_read live c (x, s)))"
  using tracked_teardown[of s live] tracked_consume[of s live]
  by (auto simp: on_read_def Let_def split_beta split: option.splits)

lemma tracked_exec:
  assumes "jobs_inv s" and "\<And>q cb. ev \<noteq> E_Submit q cb"
  shows "tracked s (snd (fst (su_exec live ev (x, s))), snd (su_exec live ev (x, s)))"
proof (cases ev)
  case (E_Read c)
  then show ?thesis
    using tracked_read[OF assms(1)] by simp
next
  case E_Stop
  have "tracked s (s\<lparr>su_running := False\<rparr>, [])"
    by (rule tracked_same) (simp_all add: same_jobs_def)
  then have "tracked s (teardown live (s\<lparr>su_running := False\<rparr>))"
    using tracked_trans[of s "s\<lparr>su_running := False\<rparr>" "[]"] tracked_teardown[of "s\<lparr>su_running := False\<rparr>" live]
    by (metis append_Nil prod.collapse)
  then show ?thesis
    using E_Stop by (simp add: split_beta)
next
  case (E_Written failed)
  have "tracked s (s\<lparr>su_writing := False\<rparr>, [])"
    by (rule tracked_same) (simp_all add: same_jobs_def)
  then have "tracked s (teardown live (s\<lparr>su_writing := False\<rparr>))"
    using tracked_trans[of s "s\<lparr>su_writing := False\<rparr>" "[]"] tracked_teardown[of "s\<lparr>su_writing := False\<rparr>" live]
    by (metis append_Nil prod.collapse)
  moreover have "\<not> failed \<Longrightarrow> tracked s (on_written live failed s)"
    by (rule tracked_same) (auto simp: same_jobs_def on_written_def Let_def)
  ultimately show ?thesis
    using E_Written by (cases failed) (simp_all add: split_beta on_written_def)
qed (auto intro!: tracked_same simp: same_jobs_def su_connect_def on_connected_def run_post_def su_attach_def
    su_detach_def su_register_waiter_def send_sv2_def Let_def assms(2))

fun su_run :: "(nat \<Rightarrow> bool) \<Rightarrow> su_event list \<Rightarrow> rx \<times> sv2_up \<Rightarrow> (rx \<times> sv2_up) \<times> su_effect list" where
  "su_run live [] st = (st, [])"
| "su_run live (ev # evs) st =
     (let (st1, e1) = su_exec live ev st; (st2, e2) = su_run live evs st1 in (st2, e1 @ e2))"

fun submitters :: "su_event list \<Rightarrow> nat list" where
  "submitters [] = []"
| "submitters (E_Submit q (Some cb) # evs) = cb # submitters evs"
| "submitters (ev # evs) = submitters evs"

lemma submitters_Cons:
  "submitters (ev # evs) = (case ev of E_Submit q (Some cb) \<Rightarrow> [cb] | _ \<Rightarrow> []) @ submitters evs"
  by (cases ev) (auto split: option.split)

definition seq_inv :: "nat \<Rightarrow> sv2_up \<Rightarrow> bool" where
  "seq_inv k s \<longleftrightarrow> jobs_inv s \<and> (\<exists>j \<le> k. su_next_seq s = of_nat (1 + j) \<and> (\<forall>e \<in> set (su_pending s). unat (fst e) \<le> j))"

lemma exec_seq:
  assumes "seq_inv k s" and "k < 2 ^ 32 - 2"
  shows "seq_inv (Suc k) (snd (fst (su_exec live ev (x, s)))) \<and>
    mset (map snd (su_pending s)) + mset (submitters [ev]) =
      mset (map snd (su_pending (snd (fst (su_exec live ev (x, s)))))) + mset (answers (snd (su_exec live ev (x, s))))"
proof -
  obtain j where j: "j \<le> k" "su_next_seq s = of_nat (1 + j)" "\<forall>e \<in> set (su_pending s). unat (fst e) \<le> j"
    using assms(1) by (auto simp: seq_inv_def)
  have jobs: "jobs_inv s"
    using assms(1) by (simp add: seq_inv_def)
  show ?thesis
  proof (cases "\<exists>q cb. ev = E_Submit q cb")
    case False
    then have t: "tracked s (snd (fst (su_exec live ev (x, s))), snd (su_exec live ev (x, s)))"
      using tracked_exec[OF jobs] by blast
    have "submitters [ev] = []"
      using False by (cases ev) auto
    then show ?thesis
      using t jobs j unfolding tracked_def seq_inv_def by (auto intro: le_SucI)
  next
    case True
    then obtain q cb where ev: "ev = E_Submit q cb"
      by blast
    have u: "unat (of_nat (1 + j) :: u32) = 1 + j"
      using j(1) assms(2) by (simp only: unat_of_nat) simp
    have fresh: "filter (\<lambda>e. fst e \<noteq> of_nat (1 + j)) (su_pending s) = su_pending s"
      using j(3) u by (intro filter_True) force
    have sq: "(of_nat (Suc j) :: u32) + 1 = of_nat (Suc (Suc j))"
      by simp
    show ?thesis
      using j jobs u fresh unfolding ev seq_inv_def jobs_inv_def
      by (auto simp: sq su_submit_posted_def Let_def send_sv2_def simp del: of_nat_Suc of_nat_add
          split: option.splits intro!: exI[of _ "if su_connected s then Suc j else j"])
  qed
qed

lemma run_seq:
  assumes "seq_inv k s" and "k + length evs < 2 ^ 32 - 1"
  shows "seq_inv (k + length evs) (snd (fst (su_run live evs (x, s)))) \<and>
    mset (map snd (su_pending s)) + mset (submitters evs) =
      mset (map snd (su_pending (snd (fst (su_run live evs (x, s)))))) + mset (answers (snd (su_run live evs (x, s))))"
  using assms
proof (induction evs arbitrary: k x s)
  case Nil
  then show ?case by simp
next
  case (Cons ev evs)
  obtain x1 s1 e1 where h: "su_exec live ev (x, s) = ((x1, s1), e1)"
    by (metis surj_pair)
  have one: "seq_inv (Suc k) s1" "mset (map snd (su_pending s)) + mset (submitters [ev]) =
      mset (map snd (su_pending s1)) + mset (answers e1)"
    using exec_seq[of k s live ev x] Cons.prems h by simp_all
  have rest: "seq_inv (Suc k + length evs) (snd (fst (su_run live evs (x1, s1)))) \<and>
      mset (map snd (su_pending s1)) + mset (submitters evs) =
        mset (map snd (su_pending (snd (fst (su_run live evs (x1, s1)))))) + mset (answers (snd (su_run live evs (x1, s1))))"
    using one Cons.prems by (intro Cons.IH) simp_all
  have sub: "mset (submitters (ev # evs)) = mset (submitters [ev]) + mset (submitters evs)"
    by (subst (1 2) submitters_Cons) simp
  have "mset (map snd (su_pending s)) + mset (submitters (ev # evs)) =
      (mset (map snd (su_pending s1)) + mset (answers e1)) + mset (submitters evs)"
    unfolding sub add.assoc[symmetric] one(2) ..
  then show ?case
    using rest by (simp add: h split_beta Let_def ac_simps)
qed

section \<open>A submit reaches the pool\<close>

lemma submit_payload:
  "write_b0_32 en (write_u32 ver (write_u32 nt (write_u32 no (write_u32 j (write_u32 sq (write_u32 ch [])))))) =
    SubmitSharesExtended_wire \<lparr>sse_channel_id = ch, sse_sequence_number = sq, sse_job_id = j, sse_nonce = no,
      sse_ntime = nt, sse_version = ver, sse_extranonce = en\<rparr> []"
  by (simp add: SubmitSharesExtended_wire_def Let_def)

lemma rebuild_notify:
  assumes "rebuild_and_broadcast live clean s = Inr (s', e)" "su_job s = Some j" "su_prev s \<noteq> None"
    and "length (su_jobid_order s) < 32 \<or> hd (su_jobid_order s) \<noteq> int_to_hex (ej_sv2_job_id j) 8"
    and "length (su_jobid_order s) \<le> 32"
  shows "\<exists>n. su_cur_notify s' = Some n \<and> pn_job_id n = int_to_hex (ej_sv2_job_id j) 8 \<and>
    su_jobid_map s' (pn_job_id n) = Some (ej_sv2_job_id j) \<and> su_channel_ok s' = su_channel_ok s \<and>
    su_channel_id s' = su_channel_id s \<and> su_connected s' = su_connected s \<and> su_next_seq s' = su_next_seq s \<and>
    su_job s' = su_job s"
proof -
  obtain p where p: "su_prev s = Some p"
    using assms(3) by blast
  obtain n where n: "make_notify j p clean (su_notify_seq s + 1) = Inr n"
    using make_notify_ok by blast
  have id: "pn_job_id n = int_to_hex (ej_sv2_job_id j) 8"
    using n by (auto simp: make_notify_def Let_def bindE_Inr_iff)
  let ?m = "(su_jobid_map s)(pn_job_id n \<mapsto> ej_sv2_job_id j)"
  have "fst (evict_jobs 32 ?m (su_jobid_order s @ [pn_job_id n])) (pn_job_id n) = Some (ej_sv2_job_id j)"
  proof (cases "su_jobid_order s")
    case Nil
    then show ?thesis by simp
  next
    case (Cons t ts)
    have "length (ts @ [pn_job_id n]) \<le> 32"
      using assms(5) Cons by simp
    then have "evict_jobs 32 m' (ts @ [pn_job_id n]) = (m', ts @ [pn_job_id n])" for m'
      by (cases ts) auto
    then show ?thesis
      using assms(4) Cons id by (auto split: if_splits)
  qed
  then show ?thesis
    using assms(1) id by (auto simp: rebuild_and_broadcast_def assms(2) p n split_beta Let_def)
qed

section \<open>Properties\<close>

text \<open>C13: TCP does not matter: however the bytes of well-formed frames are cut into reads (up to the 8 MiB
  the client buffers), the client ends in the same protocol state, with the same effects in the same
  order, as when it is handed the messages whole, one by one, until one of them takes the link down.\<close>

theorem sv2_frames_reassembled:
  assumes "concat chunks = concat (map frame_bytes fs)" and "\<forall>f \<in> set fs. length (snd f) \<le> 65519"
    and "length (concat chunks) \<le> 8 * 2 ^ 20"
  shows "(case su_feed live chunks (\<lparr>rx_in = [], rx_have = False, rx_header = h\<rparr>, s) of ((x, s'), effs) \<Rightarrow>
    (s', effs) = handle_all live fs s)"
proof -
  let ?x = "\<lparr>rx_in = [], rx_have = False, rx_header = h\<rparr>"
  have "(snd (fst (su_feed live chunks (?x, s))), snd (su_feed live chunks (?x, s))) =
      snd (consume_frames live (?x\<lparr>rx_in := rx_in ?x @ concat chunks\<rparr>) s)"
    using assms(3) by (intro feed_is_consume) (simp_all add: consume_wait)
  also have "\<dots> = handle_all live fs s"
    using assms(1,2) by (intro consume_all) (simp_all add: list_all_iff)
  finally show ?thesis
    by (simp add: split_beta)
qed

abbreviation idle_up :: sv2_up where
  "idle_up \<equiv> (su_new [] 2 30 2)\<lparr>su_running := True, su_connected := True\<rparr>"

lemma sv2_frames_reassembled_witness:
  "su_setup_ok (snd (fst (su_feed (\<lambda>_. True) [[0, 0, 1], [0, 0, 0]]
     (\<lparr>rx_in = [], rx_have = False, rx_header = frame_header 0 []\<rparr>, idle_up))))"
proof -
  have "concat [[0, 0, 1], [0, 0, 0]] = concat (map frame_bytes [(1, [])])"
    by code_simp
  from sv2_frames_reassembled[OF this, where live = "\<lambda>_. True" and h = "frame_header 0 []" and s = idle_up] show ?thesis
    by (auto simp: split_beta prod_eq_iff handle_caught_def handle_frame_def frame_header_def su_new_def)
qed



text \<open>C14: No submitter is forgotten and none is answered twice: over any run of events from a fresh client
  (fewer than four billion of them), the submitters answered so far and those still pending are,
  counted with multiplicity, exactly those who submitted; and the job table never maps an id to an
  SV2 job other than the one the id spells, and holds at most the last 32.\<close>

theorem sv2_submits_answered_once:
  assumes "su_run live evs (x, su_new user rmin rmax nonceBytes) = ((x', s'), effs)"
    and "length evs < 2 ^ 32 - 1"
  shows "mset (submitters evs) = mset (answers effs) + mset (map snd (su_pending s')) \<and>
    (\<forall>t v. su_jobid_map s' t = Some v \<longrightarrow> t = int_to_hex v 8) \<and> length (su_jobid_order s') \<le> 32"
proof -
  have "seq_inv 0 (su_new user rmin rmax nonceBytes)"
    by (simp add: seq_inv_def jobs_inv_def su_new_def)
  from run_seq[OF this, of evs live x] assms show ?thesis
    by (simp add: su_new_def seq_inv_def jobs_inv_def add.commute)
qed

lemma sv2_submits_answered_once_witness:
  "answers (snd (su_run (\<lambda>_. True) [E_Submit \<lparr>po_chan = 0, po_job = 1, po_nonce = 2, po_ntime = 3, po_version = 4,
     po_extranonce = []\<rparr> (Some 7)] (\<lparr>rx_in = [], rx_have = False, rx_header = frame_header 0 []\<rparr>, su_new [] 2 30 2))) = [7]"
proof -
  let ?q = "\<lparr>po_chan = 0, po_job = 1, po_nonce = 2, po_ntime = 3, po_version = 4, po_extranonce = []\<rparr>"
  let ?x = "\<lparr>rx_in = [], rx_have = False, rx_header = frame_header 0 []\<rparr>"
  obtain x' s' effs where r: "su_run (\<lambda>_. True) [E_Submit ?q (Some 7)] (?x, su_new [] 2 30 2) = ((x', s'), effs)"
    by (metis surj_pair)
  have "su_pending s' = []"
    using r by (auto simp: su_submit_posted_def su_new_def)
  moreover have "mset (submitters [E_Submit ?q (Some 7)]) = mset (answers effs) + mset (map snd (su_pending s'))"
    using sv2_submits_answered_once[OF r] by simp
  ultimately show ?thesis
    using r by simp
qed


abbreviation sample_ext_job :: ext_job where
  "sample_ext_job \<equiv> \<lparr>ej_sv2_job_id = 5, ej_version = 0x20000000, ej_version_rolling_allowed = True,
     ej_merkle_path = [], ej_cb_prefix = [1], ej_cb_suffix = [2]\<rparr>"

abbreviation sample_prev :: prev_hash where
  "sample_prev \<equiv> \<lparr>pv_sv2_job_id = 5, pv_prev_hash = replicate 32 0, pv_min_ntime = 1, pv_nbits = 0x1d00ffff\<rparr>"


end
