(* ===== verification/Stratum_Protocol.thy ===== *)
theory Stratum_Protocol
  imports Json Upstream_Types
begin

text \<open>
  \<open>src/stratum_protocol.cpp\<close>: the BIP310 negotiation of \<open>mining.configure\<close> and the check of the
  version a share was mined with. The parameters are JSON from an unauthenticated peer: the inner
  negotiator may throw, the \<open>noexcept\<close> wrapper then grants nothing.
\<close>

record configure_result =
  cr_version_mask :: u32
  cr_version_rolling :: bool
  cr_version_rolling_requested :: bool
  cr_minimum_difficulty :: bool
  cr_suggested_min_difficulty :: rat
  cr_subscribe_extranonce :: bool

definition no_configure :: configure_result where
  "no_configure =
     \<lparr>cr_version_mask = 0, cr_version_rolling = False, cr_version_rolling_requested = False,
      cr_minimum_difficulty = False, cr_suggested_min_difficulty = 0, cr_subscribe_extranonce = False\<rparr>"

definition has_feature :: "json \<Rightarrow> string \<Rightarrow> bool" where
  "has_feature features name \<longleftrightarrow> JStr name \<in> set (jelems features)"

text \<open>The miner's mask: all ones unless it sends a string, nothing when the string is not a number.\<close>

definition requested_mask :: "json \<Rightarrow> u32" where
  "requested_mask extra =
     (case jfield extra ''version-rolling.mask'' of
        Some (JStr s) \<Rightarrow> (case parse_hex_any_u32 s of Some m \<Rightarrow> m | None \<Rightarrow> 0)
      | _ \<Rightarrow> 0xffffffff)"

definition configure_rolling :: "json \<Rightarrow> json \<Rightarrow> u32 \<Rightarrow> configure_result \<Rightarrow> configure_result" where
  "configure_rolling features extra pool_version_mask r =
     (if \<not> has_feature features ''version-rolling'' then r
      else
        let r = r\<lparr>cr_version_rolling_requested := True\<rparr>;
            intersection = requested_mask extra AND pool_version_mask
        in if intersection \<noteq> 0 then r\<lparr>cr_version_rolling := True, cr_version_mask := intersection\<rparr> else r)"

definition configure_difficulty :: "json \<Rightarrow> json \<Rightarrow> configure_result \<Rightarrow> configure_result res" where
  "configure_difficulty features extra r =
     (if \<not> has_feature features ''minimum-difficulty'' then Inr r
      else
        let r = r\<lparr>cr_minimum_difficulty := True\<rparr>
        in case jfield extra ''minimum-difficulty.value'' of
             Some v \<Rightarrow>
               if is_number v then bindE (get_double v) (\<lambda>d. Inr (r\<lparr>cr_suggested_min_difficulty := d\<rparr>))
               else Inr r
           | None \<Rightarrow> Inr r)"

definition negotiate_configure_impl :: "json \<Rightarrow> u32 \<Rightarrow> configure_result res" where
  "negotiate_configure_impl params pool_version_mask =
     (case params of
        JArr (features # extra # _) \<Rightarrow>
          if \<not> is_array features \<or> \<not> is_object extra then Inr no_configure
          else
            bindE (configure_difficulty features extra
                     (configure_rolling features extra pool_version_mask no_configure)) (\<lambda>r.
              Inr (if has_feature features ''subscribe-extranonce''
                   then r\<lparr>cr_subscribe_extranonce := True\<rparr> else r))
      | _ \<Rightarrow> Inr no_configure)"

definition negotiate_configure :: "json \<Rightarrow> u32 \<Rightarrow> configure_result" where
  "negotiate_configure params pool_version_mask =
     (case negotiate_configure_impl params pool_version_mask of Inr r \<Rightarrow> r | Inl _ \<Rightarrow> no_configure)"

definition validate_version :: "u32 \<Rightarrow> u32 \<Rightarrow> u32 \<Rightarrow> bool" where
  "validate_version submitted templ m \<longleftrightarrow> submitted AND NOT m = templ AND NOT m"

section \<open>Facts\<close>

lemma configure_difficulty_ok:
  "\<exists>d b. configure_difficulty features extra r =
     Inr (r\<lparr>cr_minimum_difficulty := b, cr_suggested_min_difficulty := d\<rparr>)"
proof -
  have "\<exists>d. get_double v = Inr d" if "is_number v" for v
    using that by (cases v) auto
  then obtain f where "is_number v \<Longrightarrow> get_double v = Inr (f v)" for v
    by metis
  then show ?thesis
    by (cases r) (auto simp: configure_difficulty_def Let_def split: option.split)
qed

lemma negotiated_mask:
  "cr_version_mask (negotiate_configure params pm) = 0 \<and> \<not> cr_version_rolling (negotiate_configure params pm) \<or>
   (\<exists>features extra rest. params = JArr (features # extra # rest) \<and> has_feature features ''version-rolling'' \<and>
      cr_version_mask (negotiate_configure params pm) = requested_mask extra AND pm \<and>
      requested_mask extra AND pm \<noteq> 0 \<and> cr_version_rolling (negotiate_configure params pm))"
proof (cases "\<exists>features extra rest. params = JArr (features # extra # rest) \<and> is_array features \<and> is_object extra")
  case True
  then obtain features extra rest where p: "params = JArr (features # extra # rest)" "is_array features" "is_object extra"
    by blast
  obtain d b where "configure_difficulty features extra (configure_rolling features extra pm no_configure) =
      Inr ((configure_rolling features extra pm no_configure)\<lparr>cr_minimum_difficulty := b, cr_suggested_min_difficulty := d\<rparr>)"
    using configure_difficulty_ok by blast
  then show ?thesis
    using p by (auto simp: negotiate_configure_def negotiate_configure_impl_def configure_rolling_def no_configure_def Let_def)
next
  case False
  then have "negotiate_configure params pm = no_configure"
    by (auto simp: negotiate_configure_def negotiate_configure_impl_def split: json.split list.split)
  then show ?thesis
    by (simp add: no_configure_def)
qed

lemma masked_version_iff: "v AND NOT m = t AND NOT m \<longleftrightarrow> v = (t AND NOT m) OR (v AND m)" for v t m :: "'a::len word"
  by (auto simp: bit_eq_iff bit_simps)

section \<open>Property\<close>

text \<open>C36: Version rolling never touches a bit the pool does not offer. Whatever JSON the peer negotiates with
  (the negotiation is total), a version that \<open>validate_version\<close> accepts under the granted mask is the
  template's version with only bits changed that both the pool and the peer put in their masks; any
  choice of those bits is accepted; and without a grant only the template's own version is.\<close>

theorem version_rolling_stays_in_mask:
  fixes params pm
  defines "r \<equiv> negotiate_configure params pm"
  shows "(validate_version v templ (cr_version_mask r) \<longleftrightarrow>
      v = (templ AND NOT (cr_version_mask r)) OR (v AND cr_version_mask r)) \<and>
    cr_version_mask r AND NOT pm = 0 \<and>
    (if cr_version_rolling r
     then \<exists>features extra rest. params = JArr (features # extra # rest) \<and> JStr ''version-rolling'' \<in> set (jelems features) \<and>
       cr_version_mask r = requested_mask extra AND pm
     else validate_version v templ (cr_version_mask r) = (v = templ))"
proof (intro conjI)
  show "validate_version v templ (cr_version_mask r) \<longleftrightarrow> v = (templ AND NOT (cr_version_mask r)) OR (v AND cr_version_mask r)"
    unfolding validate_version_def by (rule masked_version_iff)
  have "(x AND pm) AND NOT pm = 0" for x
    by (simp add: bit_eq_iff bit_simps)
  then show "cr_version_mask r AND NOT pm = 0"
    using negotiated_mask[of params pm] unfolding r_def by (metis and_zero_eq and.commute)
  show "if cr_version_rolling r
     then \<exists>features extra rest. params = JArr (features # extra # rest) \<and> JStr ''version-rolling'' \<in> set (jelems features) \<and>
       cr_version_mask r = requested_mask extra AND pm
     else validate_version v templ (cr_version_mask r) = (v = templ)"
  proof (cases "cr_version_rolling r")
    case True
    then show ?thesis
      using negotiated_mask[of params pm] unfolding r_def has_feature_def by (simp only: if_True) blast
  next
    case False
    then have "cr_version_mask r = 0"
      using negotiated_mask[of params pm] unfolding r_def by blast
    with False show ?thesis
      by (simp add: validate_version_def)
  qed
qed

abbreviation sample_configure :: json where
  "sample_configure \<equiv> JArr [JArr [JStr ''version-rolling''], JObj [(''version-rolling.mask'', JStr ''00ffe000'')]]"

lemma sample_mask: "parse_hex_any_u32 ''00ffe000'' = Some 0xffe000"
proof -
  have "''00ffe000'' = bytes_to_hex [0x00, 0xff, 0xe0, 0x00]"
    by code_simp
  then have "parse_hex_any_u32 ''00ffe000'' = Some (of_nat (be_val [0x00, 0xff, 0xe0, 0x00]))"
    using stoul16_bytes_to_hex[of "[0x00, 0xff, 0xe0, 0x00]"] by (simp only: parse_hex_any_u32_def) simp
  then show ?thesis
    by (simp add: be_val_def)
qed

lemma sample_negotiated:
  "cr_version_mask (negotiate_configure sample_configure 0x1fffe000) = 0xffe000"
  "cr_version_rolling (negotiate_configure sample_configure 0x1fffe000)"
  by (simp_all add: negotiate_configure_def negotiate_configure_impl_def configure_rolling_def configure_difficulty_def
      has_feature_def requested_mask_def no_configure_def Let_def sample_mask)

lemma version_rolling_stays_in_mask_witness:
  "cr_version_rolling (negotiate_configure sample_configure 0x1fffe000) \<and>
   validate_version 0x20402000 0x20000000 (cr_version_mask (negotiate_configure sample_configure 0x1fffe000)) \<and>
   \<not> validate_version 0x21000000 0x20000000 (cr_version_mask (negotiate_configure sample_configure 0x1fffe000))"
proof -
  have "validate_version v t 0xffe000 \<longleftrightarrow> v = (t AND NOT 0xffe000) OR (v AND 0xffe000)" for v t
    using conjunct1[OF version_rolling_stays_in_mask[where v = v and templ = t and params = sample_configure and pm = "0x1fffe000"]] unfolding sample_negotiated(1) .
  then show ?thesis
    unfolding sample_negotiated(1) using sample_negotiated(2) by simp
qed

end
