(* ===== verification/Zcash.thy ===== *)
theory Zcash
  imports Address Floats
begin

text \<open>
  \<open>src/zcash.hpp\<close>: the per-miner coinbase of a Zcash v5 transaction. The node's coinbase is parsed into
  the offsets of its outputs, the largest output is redirected to the miner, and the txid is
  recomputed as ZIP-244 defines it. Positions are \<open>size_t\<close>: sums wrap at \<open>2 ^ 64\<close>. A read through
  \<open>raw[i]\<close> or a pair of iterators outside the vector is undefined behaviour, which the model keeps
  apart from an exception. BLAKE2b (libsodium) is the parameter \<open>blake\<close>, from a personalization and
  the data to 32 bytes.
\<close>

datatype fault = Throws exn | Undefined

type_synonym 'a faulty = "fault + 'a"

section \<open>CompactSize\<close>

definition read_compact :: "bytes \<Rightarrow> nat \<Rightarrow> (u64 \<times> nat) faulty" where
  "read_compact b pos =
     (if pos \<ge> length b then Inl (Throws (Runtime_Error ''zcash: compact OOB''))
      else
        let n = b ! pos; pos = pos + 1;
            rd = (\<lambda>k. if pos + k \<le> length b then Inr (le_or 0 (take k (drop pos b)), pos + k)
                      else Inl (Throws (Out_Of_Range ''vector::_M_range_check'')))
        in if n < 0xfd then Inr (ucast n, pos)
           else if n = 0xfd then rd 2
           else if n = 0xfe then rd 4
           else rd 8)"

text \<open>There is no nine-byte form: a count above \<open>2 ^ 32 - 1\<close> is cut to its low four bytes.\<close>

definition write_compact :: "u64 \<Rightarrow> bytes" where
  "write_compact n =
     (if n < 0xfd then [ucast n]
      else if n \<le> 0xffff then [0xfd, byte_of n 0, byte_of n 1]
      else 0xfe # map (byte_of n) [0..<4])"

section \<open>The transparent layout of a v5 coinbase\<close>

definition adv :: "nat \<Rightarrow> nat \<Rightarrow> nat" where
  "adv p n = (p + n) mod 2 ^ 64"

record coinbase_layout =
  cl_vout_count_pos :: nat
  cl_outputs_start :: nat
  cl_outputs_end :: nat
  cl_outputs :: "(nat \<times> nat \<times> nat) list"

fun skip_inputs :: "bytes \<Rightarrow> nat \<Rightarrow> nat \<Rightarrow> nat faulty" where
  "skip_inputs raw 0 p = Inr p"
| "skip_inputs raw (Suc k) p =
     bindE (read_compact raw (adv p 36)) (\<lambda>(sl, p). skip_inputs raw k (adv (adv p (unat sl)) 4))"

fun scan_outputs :: "bytes \<Rightarrow> nat \<Rightarrow> nat \<Rightarrow> ((nat \<times> nat \<times> nat) list \<times> nat) faulty" where
  "scan_outputs raw 0 p = Inr ([], p)"
| "scan_outputs raw (Suc k) p =
     bindE (read_compact raw (adv p 8)) (\<lambda>(sl, q).
       bindE (scan_outputs raw k (adv q (unat sl))) (\<lambda>(os, e). Inr ((p, q, unat sl) # os, e)))"

definition parse_layout :: "bytes \<Rightarrow> coinbase_layout faulty" where
  "parse_layout raw =
     bindE (read_compact raw 20) (\<lambda>(vin, p).
     bindE (skip_inputs raw (unat vin) p) (\<lambda>vpos.
     bindE (read_compact raw vpos) (\<lambda>(vout, start).
     bindE (scan_outputs raw (unat vout) start) (\<lambda>(os, e).
       Inr \<lparr>cl_vout_count_pos = vpos, cl_outputs_start = start, cl_outputs_end = e, cl_outputs = os\<rparr>))))"

section \<open>The ZIP-244 txid\<close>

text \<open>The iterator range \<open>raw.begin() + a, raw.begin() + b\<close>.\<close>

definition slice :: "bytes \<Rightarrow> nat \<Rightarrow> nat \<Rightarrow> bytes faulty" where
  "slice raw a b = (if a \<le> b \<and> b \<le> length raw then Inr (take (b - a) (drop a raw)) else Inl Undefined)"

fun gather_inputs :: "bytes \<Rightarrow> nat \<Rightarrow> nat \<Rightarrow> bytes \<Rightarrow> bytes \<Rightarrow> (bytes \<times> bytes \<times> nat) faulty" where
  "gather_inputs raw 0 p prevouts sequences = Inr (prevouts, sequences, p)"
| "gather_inputs raw (Suc k) p prevouts sequences =
     bindE (slice raw p (p + 36)) (\<lambda>o'.
     bindE (read_compact raw (adv p 36)) (\<lambda>(sl, p).
       let p = adv p (unat sl) in
       bindE (slice raw p (p + 4)) (\<lambda>q.
         gather_inputs raw k (adv p 4) (prevouts @ o') (sequences @ q))))"

definition zip244_txid :: "(bytes \<Rightarrow> bytes \<Rightarrow> bytes) \<Rightarrow> bytes \<Rightarrow> bytes faulty" where
  "zip244_txid blake raw =
     bindE (slice raw 0 20) (\<lambda>header.
     let branch = [raw ! 8, raw ! 9, raw ! 10, raw ! 11] in
     bindE (read_compact raw 20) (\<lambda>(vin, p).
     bindE (gather_inputs raw (unat vin) p [] []) (\<lambda>(prevouts, sequences, p).
     bindE (read_compact raw p) (\<lambda>(vout, ods).
     bindE (scan_outputs raw (unat vout) ods) (\<lambda>(_, p).
     bindE (slice raw ods p) (\<lambda>outputs.
       let hd' = blake (ascii ''ZTxIdHeadersHash'') header;
           pd = blake (ascii ''ZTxIdPrevoutHash'') prevouts;
           sqd = blake (ascii ''ZTxIdSequencHash'') sequences;
           od = blake (ascii ''ZTxIdOutputsHash'') outputs;
           td = blake (ascii ''ZTxIdTranspaHash'') (pd @ sqd @ od);
           sd = blake (ascii ''ZTxIdSaplingHash'') [];
           orchd = blake (ascii ''ZTxIdOrchardHash'') []
       in Inr (blake (ascii ''ZcashTxHash_'' @ branch) (hd' @ td @ sd @ orchd))))))))"

section \<open>Transparent addresses\<close>

fun b58_carry :: "bytes \<Rightarrow> nat \<Rightarrow> bytes" where
  "b58_carry (d # ds) carry =
     (let carry = carry + 58 * unat d in of_nat (carry mod 256) # b58_carry ds (carry div 256))"
| "b58_carry [] carry = (if carry = 0 then [] else of_nat (carry mod 256) # b58_carry [] (carry div 256))"

declare b58_carry.simps(2) [simp del]

fun b58_digits :: "string \<Rightarrow> bytes \<Rightarrow> bytes option" where
  "b58_digits [] b = Some b"
| "b58_digits (c # s) b =
     (case index_of c kBase58Alphabet of None \<Rightarrow> None | Some i \<Rightarrow> b58_digits s (b58_carry b i))"

definition b58_decode :: "string \<Rightarrow> bytes option" where
  "b58_decode s =
     (case b58_digits s [] of
        None \<Rightarrow> None
      | Some b \<Rightarrow> Some (rev (b @ replicate (length (takeWhile (\<lambda>c. c = CHR ''1'') s)) 0)))"

definition taddr_to_script :: "(bytes \<Rightarrow> bytes) \<Rightarrow> string \<Rightarrow> bytes" where
  "taddr_to_script sha256 addr =
     (case b58_decode addr of
        None \<Rightarrow> []
      | Some raw \<Rightarrow>
          if length raw \<noteq> 26 then []
          else if drop 22 raw \<noteq> take 4 (sha256d sha256 (take 22 raw)) then []
          else
            let ver = push_bit 8 (ucast (raw ! 0)) OR ucast (raw ! 1) :: u16;
                h160 = take 20 (drop 2 raw)
            in if ver = 0x1cb8 \<or> ver = 0x1d25 then [0x76, 0xa9, 0x14] @ h160 @ [0x88, 0xac]
               else if ver = 0x1cbd \<or> ver = 0x1cba then [0xa9, 0x14] @ h160 @ [0x87]
               else [])"

section \<open>Redirecting the miner's output\<close>

definition zc_append_output :: "bytes \<Rightarrow> u64 \<Rightarrow> bytes \<Rightarrow> bytes" where
  "zc_append_output outs value script =
     outs @ map (byte_of value) [0..<8] @ write_compact (of_nat (length script)) @ script"

text \<open>The largest output, the last one among equals, starting from \<open>best = 0\<close> and index 0.\<close>

fun best_output :: "bytes \<Rightarrow> (nat \<times> nat \<times> nat) list \<Rightarrow> nat \<Rightarrow> nat \<Rightarrow> u64 \<Rightarrow> (nat \<times> u64) faulty" where
  "best_output raw [] i mi best = Inr (mi, best)"
| "best_output raw ((vstart, _) # os) i mi best =
     bindE (slice raw vstart (vstart + 8)) (\<lambda>bs.
       let v = le_or 0 bs in
       if v \<ge> best then best_output raw os (i + 1) i v else best_output raw os (i + 1) mi best)"

text \<open>The donation: long double arithmetic, and a conversion that is undefined out of range.\<close>

definition zc_donation :: "u64 \<Rightarrow> rat \<Rightarrow> u64 faulty" where
  "zc_donation miner_val percent =
     (let x = ldbl (ldbl (ldbl (of_nat (unat miner_val) * percent) / 100) + 1 / 2)
      in if x < 2 ^ 64 then Inr (of_int \<lfloor>x\<rfloor>) else Inl Undefined)"

fun rebuild_outputs ::
    "bytes \<Rightarrow> bytes \<Rightarrow> nat \<Rightarrow> (nat \<times> nat \<times> nat) list \<Rightarrow> nat \<Rightarrow> nat \<Rightarrow> bytes \<Rightarrow> nat \<Rightarrow> (bytes \<times> nat) faulty" where
  "rebuild_outputs raw own k [] i mi newouts n = Inr (newouts, n)"
| "rebuild_outputs raw own k ((vstart, sstart, slen) # os) i mi newouts n =
     (if i = mi then rebuild_outputs raw own k os (i + 1) mi (newouts @ own) (n + k)
      else
        bindE (slice raw vstart (vstart + 8)) (\<lambda>v.
        bindE (slice raw sstart (sstart + slen)) (\<lambda>script.
          rebuild_outputs raw own k os (i + 1) mi (newouts @ v @ write_compact (of_nat slen) @ script) (n + 1))))"

definition swap_miner_output :: "bytes \<Rightarrow> bytes \<Rightarrow> bytes \<Rightarrow> rat \<Rightarrow> bytes faulty" where
  "swap_miner_output raw miner_script donation_script donation_percent =
     bindE (parse_layout raw) (\<lambda>L.
       if cl_outputs L = [] \<or> miner_script = [] then Inr []
       else
         bindE (best_output raw (cl_outputs L) 0 0 0) (\<lambda>(mi, miner_val).
         bindE (if donation_script \<noteq> [] \<and> donation_percent > 0 then zc_donation miner_val donation_percent else Inr 0) (\<lambda>d.
           let split = (d \<noteq> 0 \<and> d < miner_val);
               donation_val = (if split then d else 0);
               own = zc_append_output [] (miner_val - donation_val) miner_script;
               own = (if split then zc_append_output own donation_val donation_script else own)
           in bindE (rebuild_outputs raw own (if split then 2 else 1) (cl_outputs L) 0 mi [] 0) (\<lambda>(newouts, out_count).
              bindE (slice raw 0 (cl_vout_count_pos L)) (\<lambda>pre.
              bindE (slice raw (cl_outputs_end L) (length raw)) (\<lambda>post.
                Inr (pre @ write_compact (of_nat out_count) @ newouts @ post)))))))"

section \<open>Transactions\<close>

text \<open>A v5 transaction with transparent parts only: the 20 header bytes, inputs of outpoint, script and
  sequence, outputs of value and script, and the empty shielded bundles as opaque tail.\<close>

record ztx =
  zt_header :: bytes
  zt_inputs :: "(bytes \<times> bytes \<times> bytes) list"
  zt_outputs :: "(u64 \<times> bytes) list"
  zt_tail :: bytes

definition zin_bytes :: "bytes \<times> bytes \<times> bytes \<Rightarrow> bytes" where
  "zin_bytes = (\<lambda>(outpoint, script, sequence). outpoint @ varint_bytes (length script) @ script @ sequence)"

definition zout_bytes :: "u64 \<times> bytes \<Rightarrow> bytes" where
  "zout_bytes = (\<lambda>(value, script). nat_le 8 (unat value) @ varint_bytes (length script) @ script)"

definition zins :: "(bytes \<times> bytes \<times> bytes) list \<Rightarrow> bytes" where "zins is = concat (map zin_bytes is)"
definition zouts :: "(u64 \<times> bytes) list \<Rightarrow> bytes" where "zouts os = concat (map zout_bytes os)"

definition ztx_bytes :: "ztx \<Rightarrow> bytes" where
  "ztx_bytes t =
     zt_header t @ varint_bytes (length (zt_inputs t)) @ zins (zt_inputs t) @
     varint_bytes (length (zt_outputs t)) @ zouts (zt_outputs t) @ zt_tail t"

definition ztx_ok :: "ztx \<Rightarrow> bool" where
  "ztx_ok t \<longleftrightarrow> length (zt_header t) = 20 \<and> length (ztx_bytes t) < 2 ^ 64 \<and>
     (\<forall>(outpoint, _, sequence) \<in> set (zt_inputs t). length outpoint = 36 \<and> length sequence = 4)"

text \<open>The digest tree of ZIP-244 for such a transaction.\<close>

definition ztx_id :: "(bytes \<Rightarrow> bytes \<Rightarrow> bytes) \<Rightarrow> ztx \<Rightarrow> bytes" where
  "ztx_id blake t =
     blake (ascii ''ZcashTxHash_'' @ take 4 (drop 8 (zt_header t)))
       (blake (ascii ''ZTxIdHeadersHash'') (zt_header t) @
        blake (ascii ''ZTxIdTranspaHash'')
          (blake (ascii ''ZTxIdPrevoutHash'') (concat (map fst (zt_inputs t))) @
           blake (ascii ''ZTxIdSequencHash'') (concat (map (snd \<circ> snd) (zt_inputs t))) @
           blake (ascii ''ZTxIdOutputsHash'') (zouts (zt_outputs t))) @
        blake (ascii ''ZTxIdSaplingHash'') [] @ blake (ascii ''ZTxIdOrchardHash'') [])"

section \<open>Reading a serialized transaction\<close>

lemma zins_simps [simp]: "zins [] = []" "zins (i # is) = zin_bytes i @ zins is"
  by (simp_all add: zins_def)

lemma zouts_simps [simp]: "zouts [] = []" "zouts (x # xs) = zout_bytes x @ zouts xs"
  "zouts (xs @ ys) = zouts xs @ zouts ys"
  by (simp_all add: zouts_def)

lemma length_varint_pos: "0 < length (varint_bytes n)"
  by (simp add: varint_bytes_def)

lemma length_zout: "length (zout_bytes (v, s)) = 8 + length (varint_bytes (length s)) + length s"
  by (simp add: zout_bytes_def)

lemma length_zouts_ge: "length os \<le> length (zouts os)"
  using length_varint_pos by (induction os) (auto simp: length_zout Suc_le_eq intro!: add_mono)

lemma length_zin_pos: "1 \<le> length (zin_bytes i)"
  by (cases i) (simp add: zin_bytes_def varint_bytes_def)

lemma length_zins_ge: "length is \<le> length (zins is)"
proof (induction "is")
  case (Cons i "is")
  then show ?case
    using length_zin_pos[of i] by simp
qed simp

lemma unat_u64: "n < 2 ^ 64 \<Longrightarrow> unat (of_nat n :: u64) = n"
  by (simp only: unat_of_nat) simp

lemma ucast_small: "n < 0xfd \<Longrightarrow> ucast (of_nat n :: u8) = (of_nat n :: u64)"
  by (simp add: word_unat_eq_iff unsigned_ucast_eq unat_of_nat take_bit_eq_mod)

lemma read_compact_varint:
  assumes "raw = pre @ varint_bytes n @ post" and "n < 2 ^ 64" and "p = length pre"
  shows "read_compact raw p = Inr (of_nat n, p + length (varint_bytes n))"
  using assms(2) unfolding assms(1,3) read_compact_def varint_bytes_def
  by (auto simp: Let_def word_less_nat_alt le_or_nat_le nth_append le_or_val le_val_nat_le ucast_small)

lemma write_compact_varint:
  assumes "n < 2 ^ 32"
  shows "write_compact (of_nat n) = varint_bytes n"
proof -
  have u: "unat (of_nat n :: u64) = n"
    using assms by (intro unat_u64) simp
  have small: "n < 256 \<Longrightarrow> (ucast (of_nat n :: u64) :: u8) = of_nat n"
    by (simp add: of_nat_byte_of_0 u)
  have two: "[byte_of (of_nat n :: u64) 0, byte_of (of_nat n :: u64) 1] = nat_le 2 n"
    using word_bytes_list(1)[of "of_nat n :: u64"] by (simp add: u)
  have four: "map (byte_of (of_nat n :: u64)) [0..<4] = nat_le 4 n"
    using bytes_of_word[of "of_nat n :: u64" 4] by (simp only: u) simp
  have "(of_nat n :: u64) < 0xfd \<longleftrightarrow> n < 0xfd" "(of_nat n :: u64) \<le> 0xffff \<longleftrightarrow> n \<le> 0xffff"
    by (simp_all add: word_less_nat_alt word_le_nat_alt u)
  then show ?thesis
    using small two four assms by (auto simp: write_compact_def varint_bytes_def simp del: nat_le.simps upt_rec_numeral)
qed

lemma adv_less: "p + n < 2 ^ 64 \<Longrightarrow> adv p n = p + n"
  by (simp add: adv_def)

lemma skip_inputs_zins:
  assumes "raw = pre @ zins is @ post" and "length raw < 2 ^ 64"
    and "\<forall>(outpoint, _, sequence) \<in> set is. length outpoint = 36 \<and> length sequence = 4"
  shows "skip_inputs raw (length is) (length pre) = Inr (length pre + length (zins is))"
  using assms
proof (induction "is" arbitrary: pre)
  case (Cons i "is")
  obtain op sc sq where i: "i = (op, sc, sq)"
    by (cases i)
  have l: "length op = 36" "length sq = 4"
    using Cons.prems(3) by (auto simp: i)
  have raw: "raw = (pre @ op) @ varint_bytes (length sc) @ sc @ sq @ zins is @ post"
    using Cons.prems(1) by (simp add: i zin_bytes_def)
  have len: "length pre + 36 + length (varint_bytes (length sc)) + length sc + 4 + length (zins is) < 2 ^ 64"
    using Cons.prems(2) l by (simp add: raw)
  have c: "read_compact raw (length pre + 36) = Inr (of_nat (length sc), length pre + 36 + length (varint_bytes (length sc)))"
    by (rule read_compact_varint[OF raw]) (use len l in simp_all)
  have "skip_inputs raw (length is) (length (pre @ zin_bytes i)) = Inr (length (pre @ zin_bytes i) + length (zins is))"
    using Cons.prems by (intro Cons.IH) auto
  moreover have "adv (length pre) 36 = length pre + 36"
    "adv (adv (length pre + 36 + length (varint_bytes (length sc))) (unat (of_nat (length sc) :: u64))) 4 = length (pre @ zin_bytes i)"
    using len l by (simp_all add: adv_less unat_u64 i zin_bytes_def)
  ultimately show ?case
    using c by (simp del: length_append) (simp add: i zin_bytes_def)
qed simp

lemma gather_inputs_zins:
  assumes "raw = pre @ zins is @ post" and "length raw < 2 ^ 64"
    and "\<forall>(outpoint, _, sequence) \<in> set is. length outpoint = 36 \<and> length sequence = 4"
  shows "gather_inputs raw (length is) (length pre) a b =
    Inr (a @ concat (map fst is), b @ concat (map (snd \<circ> snd) is), length pre + length (zins is))"
  using assms
proof (induction "is" arbitrary: pre a b)
  case (Cons i "is")
  obtain op sc sq where i: "i = (op, sc, sq)"
    by (cases i)
  have l: "length op = 36" "length sq = 4"
    using Cons.prems(3) by (auto simp: i)
  have raw: "raw = (pre @ op) @ varint_bytes (length sc) @ sc @ sq @ zins is @ post"
    using Cons.prems(1) by (simp add: i zin_bytes_def)
  have len: "length pre + 36 + length (varint_bytes (length sc)) + length sc + 4 + length (zins is) < 2 ^ 64"
    using Cons.prems(2) l by (simp add: raw)
  have c: "read_compact raw (length pre + 36) = Inr (of_nat (length sc), length pre + 36 + length (varint_bytes (length sc)))"
    by (rule read_compact_varint[OF raw]) (use len l in simp_all)
  define q where "q = length pre + 36 + length (varint_bytes (length sc)) + length sc"
  have s1: "slice raw (length pre) (length pre + 36) = Inr op"
    using l by (simp add: slice_def raw)
  have s2: "slice raw q (q + 4) = Inr sq"
    using l by (simp add: slice_def raw q_def)
  have "gather_inputs raw (length is) (length (pre @ zin_bytes i)) (a @ op) (b @ sq) =
      Inr ((a @ op) @ concat (map fst is), (b @ sq) @ concat (map (snd \<circ> snd) is), length (pre @ zin_bytes i) + length (zins is))"
    using Cons.prems by (intro Cons.IH) auto
  moreover have "adv (length pre) 36 = length pre + 36"
    "adv (length pre + 36 + length (varint_bytes (length sc))) (unat (of_nat (length sc) :: u64)) = q" "adv q 4 = q + 4"
    and qe: "length (pre @ zin_bytes i) = q + 4"
    using len l by (simp_all add: adv_less unat_u64 q_def i zin_bytes_def)
  ultimately have "gather_inputs raw (length (i # is)) (length pre) a b =
      Inr (a @ op @ concat (map fst is), b @ sq @ concat (map (snd \<circ> snd) is), q + 4 + length (zins is))"
    using s1 s2 c by (simp add: Let_def del: length_append)
  then show ?case
    by (simp add: i qe[symmetric] comp_def)
qed simp

fun out_spans :: "nat \<Rightarrow> (u64 \<times> bytes) list \<Rightarrow> (nat \<times> nat \<times> nat) list" where
  "out_spans p [] = []"
| "out_spans p ((v, s) # os) =
     (p, p + 8 + length (varint_bytes (length s)), length s) # out_spans (p + length (zout_bytes (v, s))) os"

lemma scan_outputs_zouts:
  assumes "raw = pre @ zouts os @ post" and "length raw < 2 ^ 64"
  shows "scan_outputs raw (length os) (length pre) = Inr (out_spans (length pre) os, length pre + length (zouts os))"
  using assms
proof (induction os arbitrary: pre)
  case (Cons x os)
  obtain v s where x: "x = (v, s)"
    by (cases x)
  have raw: "raw = (pre @ nat_le 8 (unat v)) @ varint_bytes (length s) @ s @ zouts os @ post"
    using Cons.prems(1) by (simp add: x zout_bytes_def)
  have len: "length pre + 8 + length (varint_bytes (length s)) + length s + length (zouts os) < 2 ^ 64"
    using Cons.prems(2) by (simp add: raw)
  have c: "read_compact raw (length pre + 8) = Inr (of_nat (length s), length pre + 8 + length (varint_bytes (length s)))"
    by (rule read_compact_varint[OF raw]) (use len in simp_all)
  have "scan_outputs raw (length os) (length (pre @ zout_bytes x)) =
      Inr (out_spans (length (pre @ zout_bytes x)) os, length (pre @ zout_bytes x) + length (zouts os))"
    using Cons.prems by (intro Cons.IH) auto
  moreover have "adv (length pre) 8 = length pre + 8"
    "adv (length pre + 8 + length (varint_bytes (length s))) (unat (of_nat (length s) :: u64)) = length (pre @ zout_bytes x)"
    using len by (simp_all add: adv_less unat_u64 x length_zout)
  moreover have u: "unat (of_nat (length s) :: u64) = length s"
    using len by (intro unat_u64) simp
  ultimately show ?case
    using c by (simp add: x u del: length_append) (simp add: add.assoc)
qed simp

text \<open>Where the parts of a serialized transaction start.\<close>

definition vpos :: "ztx \<Rightarrow> nat" where
  "vpos t = 20 + length (varint_bytes (length (zt_inputs t))) + length (zins (zt_inputs t))"

definition opos :: "ztx \<Rightarrow> nat" where
  "opos t = vpos t + length (varint_bytes (length (zt_outputs t)))"

definition zpre :: "ztx \<Rightarrow> bytes" where
  "zpre t = zt_header t @ varint_bytes (length (zt_inputs t)) @ zins (zt_inputs t)"

lemma ztx_bytes_pre: "ztx_bytes t = zpre t @ varint_bytes (length (zt_outputs t)) @ zouts (zt_outputs t) @ zt_tail t"
  by (simp add: ztx_bytes_def zpre_def)

lemma ztx_reads:
  assumes "ztx_ok t"
  shows "length (zpre t) = vpos t"
    and "length (zt_header t) = 20"
    and "read_compact (ztx_bytes t) 20 = Inr (of_nat (length (zt_inputs t)), 20 + length (varint_bytes (length (zt_inputs t))))"
    and "skip_inputs (ztx_bytes t) (length (zt_inputs t)) (20 + length (varint_bytes (length (zt_inputs t)))) = Inr (vpos t)"
    and "gather_inputs (ztx_bytes t) (length (zt_inputs t)) (20 + length (varint_bytes (length (zt_inputs t)))) [] [] =
      Inr (concat (map fst (zt_inputs t)), concat (map (snd \<circ> snd) (zt_inputs t)), vpos t)"
    and "read_compact (ztx_bytes t) (vpos t) = Inr (of_nat (length (zt_outputs t)), opos t)"
    and "scan_outputs (ztx_bytes t) (length (zt_outputs t)) (opos t) =
      Inr (out_spans (opos t) (zt_outputs t), opos t + length (zouts (zt_outputs t)))"
    and "unat (of_nat (length (zt_inputs t)) :: u64) = length (zt_inputs t)"
    and "unat (of_nat (length (zt_outputs t)) :: u64) = length (zt_outputs t)"
proof -
  let ?hv = "zt_header t @ varint_bytes (length (zt_inputs t))"
  let ?ov = "zpre t @ varint_bytes (length (zt_outputs t))"
  have h: "length (zt_header t) = 20" and len: "length (ztx_bytes t) < 2 ^ 64"
    and ok: "\<forall>(outpoint, _, sequence) \<in> set (zt_inputs t). length outpoint = 36 \<and> length sequence = 4"
    using assms by (simp_all add: ztx_ok_def)
  show v: "length (zpre t) = vpos t" and "length (zt_header t) = 20"
    using h by (simp_all add: zpre_def vpos_def)
  have ni: "length (zt_inputs t) < 2 ^ 64" and no: "length (zt_outputs t) < 2 ^ 64"
    using len length_zins_ge[of "zt_inputs t"] length_zouts_ge[of "zt_outputs t"] by (simp_all add: ztx_bytes_def)
  show "read_compact (ztx_bytes t) 20 = Inr (of_nat (length (zt_inputs t)), 20 + length (varint_bytes (length (zt_inputs t))))"
    by (rule read_compact_varint[OF ztx_bytes_def ni]) (simp add: h)
  have raw: "ztx_bytes t = ?hv @ zins (zt_inputs t) @ varint_bytes (length (zt_outputs t)) @ zouts (zt_outputs t) @ zt_tail t"
    by (simp add: ztx_bytes_def)
  show "skip_inputs (ztx_bytes t) (length (zt_inputs t)) (20 + length (varint_bytes (length (zt_inputs t)))) = Inr (vpos t)"
    using skip_inputs_zins[OF raw len ok] by (simp add: h vpos_def)
  show "gather_inputs (ztx_bytes t) (length (zt_inputs t)) (20 + length (varint_bytes (length (zt_inputs t)))) [] [] =
      Inr (concat (map fst (zt_inputs t)), concat (map (snd \<circ> snd) (zt_inputs t)), vpos t)"
    using gather_inputs_zins[OF raw len ok, of "[]" "[]"] by (simp add: h vpos_def)
  show "read_compact (ztx_bytes t) (vpos t) = Inr (of_nat (length (zt_outputs t)), opos t)"
    unfolding opos_def by (rule read_compact_varint[OF ztx_bytes_pre no]) (simp add: v)
  have raw': "ztx_bytes t = ?ov @ zouts (zt_outputs t) @ zt_tail t"
    by (simp add: ztx_bytes_pre)
  have "length ?ov = opos t"
    by (simp add: v opos_def)
  then show "scan_outputs (ztx_bytes t) (length (zt_outputs t)) (opos t) =
      Inr (out_spans (opos t) (zt_outputs t), opos t + length (zouts (zt_outputs t)))"
    using scan_outputs_zouts[OF raw' len] by simp
  show "unat (of_nat (length (zt_inputs t)) :: u64) = length (zt_inputs t)"
    "unat (of_nat (length (zt_outputs t)) :: u64) = length (zt_outputs t)"
    by (rule unat_u64, fact)+
qed

lemma parse_layout_ztx:
  assumes "ztx_ok t"
  shows "parse_layout (ztx_bytes t) =
    Inr \<lparr>cl_vout_count_pos = vpos t, cl_outputs_start = opos t, cl_outputs_end = opos t + length (zouts (zt_outputs t)),
         cl_outputs = out_spans (opos t) (zt_outputs t)\<rparr>"
  by (simp add: parse_layout_def ztx_reads[OF assms])

lemma slice_mid: "raw = pre @ m @ post \<Longrightarrow> a = length pre \<Longrightarrow> b = a + length m \<Longrightarrow> slice raw a b = Inr m"
  by (simp add: slice_def)

lemma zip244_txid_ztx:
  assumes "ztx_ok t"
  shows "zip244_txid blake (ztx_bytes t) = Inr (ztx_id blake t)"
proof -
  have h: "slice (ztx_bytes t) 0 20 = Inr (zt_header t)"
    using ztx_reads(2)[OF assms] by (intro slice_mid[where pre = "[]"]) (simp_all add: ztx_bytes_def)
  have o: "slice (ztx_bytes t) (opos t) (opos t + length (zouts (zt_outputs t))) = Inr (zouts (zt_outputs t))"
    using ztx_reads(1)[OF assms]
    by (intro slice_mid[where pre = "zpre t @ varint_bytes (length (zt_outputs t))"]) (simp_all add: ztx_bytes_pre opos_def)
  have "[ztx_bytes t ! 8, ztx_bytes t ! 9, ztx_bytes t ! 10, ztx_bytes t ! 11] = take 4 (drop 8 (zt_header t))"
    using ztx_reads(2)[OF assms] by (intro nth_equalityI) (auto simp: ztx_bytes_def nth_append less_Suc_eq numeral_eq_Suc)
  then show ?thesis
    by (simp add: zip244_txid_def ztx_reads[OF assms] h o ztx_id_def Let_def)
qed

section \<open>The swap on a serialized transaction\<close>

text \<open>The index of the last largest value.\<close>

fun last_max :: "u64 list \<Rightarrow> nat \<Rightarrow> nat \<Rightarrow> u64 \<Rightarrow> nat \<times> u64" where
  "last_max [] i mi best = (mi, best)"
| "last_max (v # vs) i mi best = (if v \<ge> best then last_max vs (i + 1) i v else last_max vs (i + 1) mi best)"

lemma last_max_props:
  "last_max vs i mi best = (mj, b) \<Longrightarrow>
    (mj = mi \<and> b = best \<and> (\<forall>v \<in> set vs. v < best)) \<or>
    (i \<le> mj \<and> mj < i + length vs \<and> vs ! (mj - i) = b \<and> best \<le> b \<and> (\<forall>v \<in> set vs. v \<le> b))"
proof (induction vs arbitrary: i mi best)
  case (Cons v vs)
  show ?case
  proof (cases "v \<ge> best")
    case True
    with Cons.IH[of "i + 1" i v] Cons.prems show ?thesis
      by (auto simp: nth_Cons' not_less intro: order_trans less_imp_le)
  next
    case False
    with Cons.IH[of "i + 1" mi best] Cons.prems show ?thesis
      by (auto simp: nth_Cons' intro: order_trans less_imp_le)
  qed
qed simp

lemma last_max_0:
  assumes "last_max vs 0 0 0 = (mi, b)" and "vs \<noteq> []"
  shows "mi < length vs \<and> vs ! mi = b \<and> (\<forall>v \<in> set vs. v \<le> b)"
  using last_max_props[OF assms(1)] assms(2) by (cases vs) auto

lemma best_output_zouts:
  assumes "raw = pre @ zouts os @ post"
  shows "best_output raw (out_spans (length pre) os) i mi best = Inr (last_max (map fst os) i mi best)"
  using assms
proof (induction os arbitrary: pre i mi best)
  case (Cons x os)
  obtain v s where x: "x = (v, s)"
    by (cases x)
  have "slice raw (length pre) (length pre + 8) = Inr (nat_le 8 (unat v))"
    using Cons.prems by (intro slice_mid[where pre = pre]) (simp_all add: x zout_bytes_def)
  moreover have "le_or 0 (nat_le 8 (unat v)) = v"
    using unat_bounds(4)[of v] by (rule le_or_nat_le)
  moreover have "best_output raw (out_spans (length pre + length (zout_bytes x)) os) j mj b = Inr (last_max (map fst os) j mj b)" for j mj b
    using Cons.IH[of "pre @ zout_bytes x"] Cons.prems by simp
  ultimately show ?case
    by (simp add: x Let_def)
qed simp

lemma rebuild_outputs_zouts:
  assumes "raw = pre @ zouts os @ post" and "\<forall>x \<in> set os. length (snd x) < 2 ^ 32"
  shows "rebuild_outputs raw own k (out_spans (length pre) os) i mi acc n =
    (if i \<le> mi \<and> mi < i + length os
     then Inr (acc @ zouts (take (mi - i) os) @ own @ zouts (drop (Suc (mi - i)) os), n + length os + k - 1)
     else Inr (acc @ zouts os, n + length os))"
  using assms
proof (induction os arbitrary: pre i acc n)
  case (Cons x os)
  obtain v s where x: "x = (v, s)"
    by (cases x)
  have IH: "rebuild_outputs raw own k (out_spans (length pre + length (zout_bytes x)) os) j mi acc n =
    (if j \<le> mi \<and> mi < j + length os
     then Inr (acc @ zouts (take (mi - j) os) @ own @ zouts (drop (Suc (mi - j)) os), n + length os + k - 1)
     else Inr (acc @ zouts os, n + length os))" for j acc n
    using Cons.IH[of "pre @ zout_bytes x"] Cons.prems by simp
  show ?case
  proof (cases "i = mi")
    case True
    then show ?thesis
      by (simp add: x IH[unfolded x])
  next
    case False
    have s1: "slice raw (length pre) (length pre + 8) = Inr (nat_le 8 (unat v))"
      using Cons.prems(1) by (intro slice_mid[where pre = pre]) (simp_all add: x zout_bytes_def)
    have s2: "slice raw (length pre + 8 + length (varint_bytes (length s))) (length pre + 8 + length (varint_bytes (length s)) + length s) = Inr s"
      using Cons.prems(1)
      by (intro slice_mid[where pre = "pre @ nat_le 8 (unat v) @ varint_bytes (length s)"]) (simp_all add: x zout_bytes_def)
    have w: "write_compact (of_nat (length s)) = varint_bytes (length s)"
      using Cons.prems(2) by (intro write_compact_varint) (simp add: x)
    have "rebuild_outputs raw own k (out_spans (length pre) (x # os)) i mi acc n =
        rebuild_outputs raw own k (out_spans (length pre + length (zout_bytes x)) os) (i + 1) mi (acc @ zout_bytes x) (n + 1)"
      using False s1 s2 w by (simp add: x zout_bytes_def)
    moreover have "mi - i = Suc (mi - Suc i)" if "Suc i \<le> mi"
      using that by simp
    ultimately show ?thesis
      using False by (auto simp: IH)
  qed
qed auto

lemma append_output_zout: "length script < 2 ^ 32 \<Longrightarrow> zc_append_output outs v script = outs @ zout_bytes (v, script)"
  by (simp add: zc_append_output_def zout_bytes_def write_compact_varint bytes_of_word del: upt_rec_numeral)

text \<open>Within the money supply the donation is a defined conversion.\<close>

lemma zc_donation_defined:
  assumes "unat v \<le> 2100000000000000" and "percent \<le> 100"
  shows "\<exists>d. zc_donation v percent = Inr d"
proof -
  have v: "(of_nat (unat v) :: rat) \<le> 2100000000000000"
    using assms(1) of_nat_le_iff[of "unat v" 2100000000000000, where 'a = rat] by simp
  have "(of_nat (unat v) :: rat) * percent \<le> of_nat (unat v) * 100"
    by (rule mult_left_mono[OF assms(2) of_nat_0_le_iff])
  also have "\<dots> \<le> of_int 210000000000000000"
    using v by simp
  finally have "ldbl (of_nat (unat v) * percent) \<le> ldbl (of_int 210000000000000000)"
    by (rule rnd_mono) simp
  also have "\<dots> = 210000000000000000"
    by (subst rnd_of_int) simp_all
  finally have "ldbl (of_nat (unat v) * percent) / 100 \<le> of_int 2100000000000000"
    by simp
  then have "ldbl (ldbl (of_nat (unat v) * percent) / 100) \<le> ldbl (of_int 2100000000000000)"
    by (rule rnd_mono) simp
  also have "\<dots> = 2100000000000000"
    by (subst rnd_of_int) simp_all
  finally have "ldbl (ldbl (of_nat (unat v) * percent) / 100) + 1 / 2 \<le> of_int 2100000000000001"
    by simp
  then have "ldbl (ldbl (ldbl (of_nat (unat v) * percent) / 100) + 1 / 2) \<le> ldbl (of_int 2100000000000001)"
    by (rule rnd_mono) simp
  also have "\<dots> = 2100000000000001"
    by (subst rnd_of_int) simp_all
  finally show ?thesis
    by (simp add: zc_donation_def Let_def)
qed

lemma swap_ztx:
  assumes ok: "ztx_ok t" and os: "zt_outputs t \<noteq> []" and m: "miner \<noteq> []"
    and size: "length (ztx_bytes t) + length miner + length don < 2 ^ 31"
    and best: "last_max (map fst (zt_outputs t)) 0 0 0 = (mi, v)"
    and d: "(if don \<noteq> [] \<and> percent > 0 then zc_donation v percent else Inr 0) = Inr d"
    and own: "own = (if d \<noteq> 0 \<and> d < v then [(v - d, miner), (d, don)] else [(v, miner)])"
  shows "swap_miner_output (ztx_bytes t) miner don percent =
    Inr (ztx_bytes (t\<lparr>zt_outputs := take mi (zt_outputs t) @ own @ drop (Suc mi) (zt_outputs t)\<rparr>))"
proof -
  let ?os = "zt_outputs t"
  let ?ov = "zpre t @ varint_bytes (length ?os)"
  have raw: "ztx_bytes t = ?ov @ zouts ?os @ zt_tail t"
    by (simp add: ztx_bytes_pre)
  have lov: "length ?ov = opos t"
    using ztx_reads(1)[OF ok] by (simp add: opos_def)
  have mi: "mi < length ?os"
    using last_max_0[OF best] os by simp
  have each: "length s \<le> length (zouts ys)" if "(x, s) \<in> set ys" for x s ys
    using that by (induction ys) (auto simp: length_zout)
  have "length (zouts ?os) < 2 ^ 31"
    using size by (simp add: raw)
  then have small: "\<forall>x \<in> set ?os. length (snd x) < 2 ^ 32" and n: "length ?os + 1 < 2 ^ 32"
    using each[where ys = ?os] length_zouts_ge[of ?os] by (fastforce, simp)
  have lm: "length miner < 2 ^ 32" "length don < 2 ^ 32"
    using size by simp_all
  have bo: "best_output (ztx_bytes t) (out_spans (opos t) ?os) 0 0 0 = Inr (mi, v)"
    using best_output_zouts[OF raw, of 0 0 0] by (simp only: lov best)
  define k :: nat where "k = (if d \<noteq> 0 \<and> d < v then 2 else 1)"
  have rb: "rebuild_outputs (ztx_bytes t) (zouts own) k (out_spans (opos t) ?os) 0 mi [] 0 =
      Inr (zouts (take mi ?os) @ zouts own @ zouts (drop (Suc mi) ?os), length ?os + k - 1)"
    using rebuild_outputs_zouts[OF raw small, of "zouts own" k 0 mi "[]" 0] mi by (simp only: lov) simp
  have pre: "slice (ztx_bytes t) 0 (vpos t) = Inr (zpre t)"
    using ztx_reads(1)[OF ok] by (intro slice_mid[where pre = "[]"]) (simp_all add: ztx_bytes_pre)
  have post: "slice (ztx_bytes t) (opos t + length (zouts ?os)) (length (ztx_bytes t)) = Inr (zt_tail t)"
    using lov by (intro slice_mid[where pre = "?ov @ zouts ?os"]) (simp_all add: raw)
  have cnt: "write_compact (of_nat (length ?os + k - 1)) = varint_bytes (length (take mi ?os @ own @ drop (Suc mi) ?os))"
    using n mi by (subst write_compact_varint) (auto simp: k_def own)
  have "out_spans (opos t) ?os \<noteq> []"
    using os by (cases ?os) (auto split: prod.split)
  moreover have "zouts own = (if d \<noteq> 0 \<and> d < v then zc_append_output (zc_append_output [] (v - d) miner) d don
      else zc_append_output [] v miner)"
    using lm by (simp add: own append_output_zout)
  ultimately have "swap_miner_output (ztx_bytes t) miner don percent =
      bindE (rebuild_outputs (ztx_bytes t) (zouts own) k (out_spans (opos t) ?os) 0 mi [] 0)
        (\<lambda>(newouts, n). Inr (zpre t @ write_compact (of_nat n) @ newouts @ zt_tail t))"
    using m by (cases "d \<noteq> 0 \<and> d < v") (auto simp: swap_miner_output_def parse_layout_ztx[OF ok] bo d Let_def pre post k_def)
  also have "\<dots> = Inr (zpre t @ varint_bytes (length (take mi ?os @ own @ drop (Suc mi) ?os)) @
      zouts (take mi ?os @ own @ drop (Suc mi) ?os) @ zt_tail t)"
    by (simp only: rb bindE.simps prod.case cnt zouts_simps(3) append_assoc)
  finally show ?thesis
    by (simp add: ztx_bytes_pre zpre_def)
qed

lemma swap_length:
  assumes "mi < length os"
  shows "length (zouts (take mi os @ own @ drop (Suc mi) os)) \<le> length (zouts os) + length (zouts own)"
  using arg_cong[OF id_take_nth_drop[OF assms], of "\<lambda>xs. length (zouts xs)"] by simp

lemma length_varint_le: "length (varint_bytes n) \<le> 9"
  by (simp add: varint_bytes_def)

lemma swap_ok:
  assumes "ztx_ok t" and "mi < length (zt_outputs t)"
    and "length (ztx_bytes t) + length miner + length don < 2 ^ 31"
    and "length own \<le> 2" and "length (zouts own) \<le> length miner + length don + 34"
  shows "ztx_ok (t\<lparr>zt_outputs := take mi (zt_outputs t) @ own @ drop (Suc mi) (zt_outputs t)\<rparr>)"
proof -
  let ?t = "t\<lparr>zt_outputs := take mi (zt_outputs t) @ own @ drop (Suc mi) (zt_outputs t)\<rparr>"
  have "length (ztx_bytes ?t) \<le> length (ztx_bytes t) + length (zouts own) + 9"
    using swap_length[OF assms(2), of own] length_varint_le[of "length (zt_outputs ?t)"]
    by (simp add: ztx_bytes_def)
  then show ?thesis
    using assms by (simp add: ztx_ok_def)
qed

section \<open>Base 58\<close>

lemma b58_carry_value: "le_val (b58_carry b carry) = 58 * le_val b + carry"
  by (induction b carry rule: b58_carry.induct) (auto simp: Let_def algebra_simps b58_carry.simps(2))

lemma b58_carry_minimal: "b = [] \<or> last b \<noteq> 0 \<Longrightarrow> b58_carry b carry = [] \<or> last (b58_carry b carry) \<noteq> 0"
proof (induction b carry rule: b58_carry.induct)
  case (1 d ds carry)
  define m where "m = carry + 58 * unat d"
  have eq: "b58_carry (d # ds) carry = of_nat (m mod 256) # b58_carry ds (m div 256)"
    by (simp add: m_def Let_def)
  have IH: "b58_carry ds (m div 256) = [] \<or> last (b58_carry ds (m div 256)) \<noteq> 0"
    using 1(1)[OF m_def] 1(2) by (auto split: if_splits)
  show ?case
  proof (cases "b58_carry ds (m div 256) = []")
    case True
    have z: "58 * le_val ds + m div 256 = 0"
      using b58_carry_value[of ds "m div 256"] True by simp
    have "ds = []"
      using True by (cases ds) (auto simp: Let_def)
    then have "d \<noteq> 0"
      using 1(2) by simp
    then have "m \<noteq> 0"
      by (simp add: m_def unat_eq_zero)
    moreover have "m < 256"
      using z by (simp add: div_eq_0_iff)
    ultimately have "m mod 256 \<noteq> 0"
      by simp
    then have "(of_nat (m mod 256) :: u8) \<noteq> 0"
      by (simp add: of_nat_eq_0_iff_u8)
    then show ?thesis
      unfolding eq True by simp
  next
    case False
    with IH show ?thesis
      by (simp only: eq) simp
  qed
next
  case (2 carry)
  have nil: "b58_carry [] c = [] \<longleftrightarrow> c = 0" for c
    by (subst b58_carry.simps) simp
  show ?case
  proof (cases "carry = 0")
    case True
    then show ?thesis
      by (simp add: nil)
  next
    case False
    have "b58_carry [] carry = of_nat (carry mod 256) # b58_carry [] (carry div 256)"
      by (subst b58_carry.simps) (simp add: False)
    moreover have "(of_nat (carry mod 256) :: u8) \<noteq> 0" if "carry div 256 = 0"
      using False that by (simp add: of_nat_eq_0_iff_u8 div_eq_0_iff)
    ultimately show ?thesis
      using 2 False by (auto simp: nil)
  qed
qed

lemma index_of_Some_in: "index_of c xs = Some i \<Longrightarrow> c \<in> set xs"
  using index_of_None_iff[of c xs] by fastforce

lemma b58_digits_value:
  "b58_digits s b = (if set s \<subseteq> set kBase58Alphabet then Some (fold (\<lambda>c b. b58_carry b (the (index_of c kBase58Alphabet))) s b) else None)"
  by (induction s arbitrary: b) (auto simp: index_of_None_iff dest: index_of_Some_in split: option.split)

lemma b58_fold:
  fixes s b
  defines "out \<equiv> fold (\<lambda>c b. b58_carry b (the (index_of c kBase58Alphabet))) s b"
  assumes "b = [] \<or> last b \<noteq> 0"
  shows "le_val out = fold (\<lambda>c acc. 58 * acc + the (index_of c kBase58Alphabet)) s (le_val b) \<and> (out = [] \<or> last out \<noteq> 0)"
  using assms(2) unfolding out_def
  by (induction s arbitrary: b) (simp_all add: b58_carry_value b58_carry_minimal)

text \<open>A number has one little-endian representation without a leading zero.\<close>

lemma le_minimal_length: "bs \<noteq> [] \<Longrightarrow> last bs \<noteq> 0 \<Longrightarrow> 256 ^ (length bs - 1) \<le> le_val bs"
proof (induction bs)
  case (Cons b bs)
  show ?case
  proof (cases "bs = []")
    case True
    then show ?thesis
      using Cons.prems by (simp add: Suc_le_eq unat_gt_0)
  next
    case False
    then have "256 * 256 ^ (length bs - 1) \<le> 256 * le_val bs"
      using Cons by simp
    then show ?thesis
      using False by (cases bs) auto
  qed
qed simp

lemma le_minimal_unique:
  assumes "le_val xs = le_val ys" and "xs = [] \<or> last xs \<noteq> 0" and "ys = [] \<or> last ys \<noteq> 0"
  shows "xs = ys"
proof -
  have le: "length as \<le> length bs" if "le_val as = le_val bs" "as = [] \<or> last as \<noteq> 0" for as bs :: bytes
  proof (cases "as = []")
    case False
    then have "256 ^ (length as - 1) \<le> le_val bs"
      using le_minimal_length[of as] that by simp
    also note le_val_less[of bs]
    finally have "length as - 1 < length bs"
      by (rule power_less_imp_less_exp[rotated]) simp
    then show ?thesis
      by simp
  qed simp
  have "length xs = length ys"
    using le[of xs ys] le[of ys xs] assms by simp
  then show ?thesis
    using assms(1) nat_le_le_val[of xs] nat_le_le_val[of ys] by metis
qed

lemma b58_decode_base58: "b58_decode s = (case base58_decode s of Inr raw \<Rightarrow> Some raw | Inl _ \<Rightarrow> None)"
proof (cases "set s \<subseteq> set kBase58Alphabet")
  case True
  define out where "out = fold (\<lambda>c b. b58_carry b (the (index_of c kBase58Alphabet))) s []"
  obtain bs where bs: "base58_decode s = Inr (replicate (length (takeWhile (\<lambda>c. c = CHR ''1'') s)) 0 @ bs)"
    "be_val bs = base58_value s" "bs = [] \<or> hd bs \<noteq> 0"
    using base58_decode_ok[OF True] by blast
  have "le_val out = base58_value s" "out = [] \<or> last out \<noteq> 0"
    using b58_fold[of "[]" s] by (simp_all add: out_def base58_value_def)
  then have "out = rev bs"
    using bs(2,3) by (intro le_minimal_unique) (auto simp: be_val_def last_rev)
  then show ?thesis
    using True bs(1) by (simp add: b58_decode_def b58_digits_value out_def[symmetric])
next
  case False
  then show ?thesis
    by (simp add: b58_decode_def b58_digits_value base58_decode_bad)
qed

lemma be_u16: "push_bit 8 (ucast a) OR ucast b = (of_nat (256 * unat a + unat b) :: u16)" for a b :: u8
proof -
  have "push_bit 8 (ucast a) OR ucast b = (le_or 0 [b, a] :: u16)"
    by (simp add: or.commute)
  also have "\<dots> = of_nat (le_val [b, a])"
    by (rule le_or_val)
  finally show ?thesis
    by (simp add: add.commute)
qed

section \<open>Properties\<close>

text \<open>C37: Swapping the miner's output of any v5 coinbase with transparent parts pays the miner and nobody
  loses: the result is again a serialized transaction, equal to the node's except that the last largest
  output is replaced by one to the miner, or by one to the miner and a non-zero donation, of the same
  total value; every read of \<open>swap_miner_output\<close> and \<open>zip244_txid\<close> is inside the buffer, and the txid of the
  result is the ZIP-244 digest tree of the new transaction.\<close>

theorem zcash_swap_pays_miner:
  assumes "ztx_ok t" and "zt_outputs t \<noteq> []" and "miner \<noteq> []"
    and "length (ztx_bytes t) + length miner + length don < 2 ^ 31"
    and "\<forall>x \<in> set (zt_outputs t). unat (fst x) \<le> 2100000000000000" and "percent \<le> 100"
  shows "\<exists>mi < length (zt_outputs t). \<exists>own t'.
    t' = t\<lparr>zt_outputs := take mi (zt_outputs t) @ own @ drop (Suc mi) (zt_outputs t)\<rparr> \<and>
    swap_miner_output (ztx_bytes t) miner don percent = Inr (ztx_bytes t') \<and>
    zip244_txid blake (ztx_bytes t') = Inr (ztx_id blake t') \<and>
    (\<forall>x \<in> set (zt_outputs t). fst x \<le> fst (zt_outputs t ! mi)) \<and>
    sum_list (map (unat \<circ> fst) own) = unat (fst (zt_outputs t ! mi)) \<and>
    (\<exists>rest. map snd own = miner # rest \<and> rest \<in> {[], [don]}) \<and> (\<forall>x \<in> set (tl own). fst x \<noteq> 0)"
proof -
  let ?os = "zt_outputs t"
  obtain mi v where best: "last_max (map fst ?os) 0 0 0 = (mi, v)"
    by force
  have mi: "mi < length ?os" and v: "fst (?os ! mi) = v" and mx: "\<forall>x \<in> set ?os. fst x \<le> v"
    using last_max_0[OF best] assms(2) by auto
  have "unat v \<le> 2100000000000000"
    using assms(5) mi v by (metis nth_mem)
  then obtain d where d: "(if don \<noteq> [] \<and> percent > 0 then zc_donation v percent else Inr 0) = Inr d"
    using zc_donation_defined[OF _ assms(6)] by (cases "don \<noteq> [] \<and> percent > 0") auto
  define own where "own = (if d \<noteq> 0 \<and> d < v then [(v - d, miner), (d, don)] else [(v, miner)])"
  define t' where "t' = t\<lparr>zt_outputs := take mi ?os @ own @ drop (Suc mi) ?os\<rparr>"
  have swap: "swap_miner_output (ztx_bytes t) miner don percent = Inr (ztx_bytes t')"
    unfolding t'_def by (rule swap_ztx[OF assms(1-4) best d own_def])
  have "ztx_ok t'"
    unfolding t'_def using length_varint_le[of "length miner"] length_varint_le[of "length don"]
    by (intro swap_ok[OF assms(1) mi assms(4)]) (simp_all add: own_def length_zout)
  then have "zip244_txid blake (ztx_bytes t') = Inr (ztx_id blake t')"
    by (rule zip244_txid_ztx)
  moreover have "sum_list (map (unat \<circ> fst) own) = unat v"
    by (auto simp: own_def unat_sub word_less_nat_alt word_le_nat_alt)
  ultimately show ?thesis
    using mi v mx swap t'_def by (intro exI[of _ mi] conjI exI[of _ own] exI[of _ t']) (auto simp: own_def)
qed

definition sample_ztx :: ztx where
  "sample_ztx =
     \<lparr>zt_header = replicate 20 7, zt_inputs = [(replicate 36 0, [3, 1, 2], replicate 4 0xff)],
      zt_outputs = [(1000, [0x51]), (9000, [0x52, 0x53]), (500, [])], zt_tail = [0, 0, 0]\<rparr>"

lemma zcash_swap_pays_miner_witness:
  "\<exists>mi < 3. \<exists>own. swap_miner_output (ztx_bytes sample_ztx) [0x76, 0xa9] [0x6a] 1 =
     Inr (ztx_bytes (sample_ztx\<lparr>zt_outputs := take mi (zt_outputs sample_ztx) @ own @ drop (Suc mi) (zt_outputs sample_ztx)\<rparr>)) \<and>
   sum_list (map (unat \<circ> fst) own) = unat (fst (zt_outputs sample_ztx ! mi)) \<and> fst (zt_outputs sample_ztx ! mi) \<ge> 9000"
proof -
  have ok: "ztx_ok sample_ztx" and ne: "zt_outputs sample_ztx \<noteq> []"
    and len: "length (ztx_bytes sample_ztx) + length [0x76 :: u8, 0xa9] + length [0x6a :: u8] < 2 ^ 31"
    and money: "\<forall>x \<in> set (zt_outputs sample_ztx). unat (fst x) \<le> 2100000000000000"
    and n3: "length (zt_outputs sample_ztx) = 3" and big: "(9000, [0x52, 0x53]) \<in> set (zt_outputs sample_ztx)"
    by (simp_all add: sample_ztx_def ztx_ok_def ztx_bytes_def zin_bytes_def zout_bytes_def varint_bytes_def)
  have "[0x76 :: u8, 0xa9] \<noteq> []" "(1 :: rat) \<le> 100"
    by simp_all
  from zcash_swap_pays_miner[OF ok ne this(1) len money this(2), where blake = "\<lambda>_ d. d"]
  obtain mi own where mi: "mi < length (zt_outputs sample_ztx)"
    and swap: "swap_miner_output (ztx_bytes sample_ztx) [0x76, 0xa9] [0x6a] 1 =
      Inr (ztx_bytes (sample_ztx\<lparr>zt_outputs := take mi (zt_outputs sample_ztx) @ own @ drop (Suc mi) (zt_outputs sample_ztx)\<rparr>))"
    and mx: "\<forall>x \<in> set (zt_outputs sample_ztx). fst x \<le> fst (zt_outputs sample_ztx ! mi)"
    and total: "sum_list (map (unat \<circ> fst) own) = unat (fst (zt_outputs sample_ztx ! mi))"
    by blast
  have "fst (zt_outputs sample_ztx ! mi) \<ge> 9000"
    using bspec[OF mx big] by simp
  with mi swap total n3 show ?thesis
    by auto
qed

text \<open>The Zcash coin's own address reader agrees with the pool's address decoder: \<open>b58_decode\<close>, with its
  growing little-endian digits, computes the same bytes as \<open>address.cpp\<close>'s fixed-width \<open>base58_decode\<close>, and
  \<open>taddr_to_script\<close> returns a script exactly for the strings of 26 bytes that \<open>decode_base58\<close> accepts,
  namely the script of the decoded address.\<close>

theorem taddr_script_agrees_with_decoder:
  "b58_decode s = (case base58_decode s of Inr raw \<Rightarrow> Some raw | Inl _ \<Rightarrow> None) \<and>
   taddr_to_script sha256 s =
     (case base58_decode s of
        Inl _ \<Rightarrow> []
      | Inr raw \<Rightarrow>
          if length raw = 26 then (case decode_base58 sha256 s of Inr d \<Rightarrow> script_bytes d | Inl _ \<Rightarrow> []) else [])"
proof (cases "base58_decode s")
  case (Inl e)
  then show ?thesis
    by (simp add: b58_decode_base58 taddr_to_script_def)
next
  case (Inr raw)
  show ?thesis
  proof (cases "length raw = 26")
    case True
    let ?n = "256 * unat (raw ! 0) + unat (raw ! 1)"
    have n: "(of_nat ?n :: u16) = of_nat m \<longleftrightarrow> ?n = m" if "m < 2 ^ 16" for m
    proof -
      have "?n < 2 ^ 16"
        using le_val_less[of "[raw ! 1, raw ! 0]"] by (simp add: add.commute)
      moreover have "unat (of_nat k :: u16) = k" if "k < 2 ^ 16" for k
        using that by (simp only: unat_of_nat) simp
      ultimately show ?thesis
        using that by (simp only: word_unat_eq_iff)
    qed
    have eqs: "(of_nat ?n :: u16) = 0x1cb8 \<longleftrightarrow> ?n = 0x1cb8" "(of_nat ?n :: u16) = 0x1d25 \<longleftrightarrow> ?n = 0x1d25"
      "(of_nat ?n :: u16) = 0x1cbd \<longleftrightarrow> ?n = 0x1cbd" "(of_nat ?n :: u16) = 0x1cba \<longleftrightarrow> ?n = 0x1cba"
      using n[of "0x1cb8"] n[of "0x1d25"] n[of "0x1cbd"] n[of "0x1cba"] by simp_all
    have "length (take 20 (drop 2 raw)) = 20"
      using True by simp
    then show ?thesis
      using True Inr eqs
      by (auto simp: b58_decode_base58 taddr_to_script_def decode_base58_def base58check_verify_def sha256d_def be_u16 Let_def
          zcash_version_def script_bytes_def split: option.split)
  next
    case False
    with Inr show ?thesis
      by (simp add: b58_decode_base58 taddr_to_script_def)
  qed
qed

end
