(* ===== verification/Scoring.thy ===== *)
theory Scoring
  imports Coinbase Upstream_Types
begin

text \<open>
  How a share is scored, the code that \<open>src/client_session.cpp\<close> (V1 and SV2) and
  \<open>src/proxy_session.cpp\<close> repeat: the byte comparison of a 32-byte hash with a target, the share
  difficulty computed in \<open>long double\<close>, and the real-time target of eCash in \<open>src/utils.hpp\<close>. The
  facts relate the byte comparison to the numbers and bound the rounding of the difficulty.
\<close>

section \<open>Comparing bytes\<close>

text \<open>\<open>std::memcmp\<close> and the sessions' \<open>le_byte_cmp\<close>: the difference at the first position that differs.\<close>

fun mem_cmp :: "bytes \<Rightarrow> bytes \<Rightarrow> int" where
  "mem_cmp (a # as) (b # bs) = (if a \<noteq> b then uint a - uint b else mem_cmp as bs)"
| "mem_cmp _ _ = 0"

lemma be_val_Cons: "be_val (b # bs) = unat b * 256 ^ length bs + be_val bs"
  using be_val_append[of "[b]" bs] by simp

lemma mem_cmp_less: "length a = length b \<Longrightarrow> mem_cmp a b < 0 \<longleftrightarrow> be_val a < be_val b"
proof (induction a b rule: mem_cmp.induct)
  case (1 a as b bs)
  have less: "be_val (x # xs) < be_val (y # ys)" if "unat x < unat y" "length xs = length ys" for x y :: u8 and xs ys
  proof -
    have "Suc (unat x) * 256 ^ length ys \<le> unat y * 256 ^ length ys"
      using that(1) by (intro mult_le_mono1) simp
    with be_val_less[of xs] that(2) show ?thesis
      by (simp add: be_val_Cons)
  qed
  consider "a = b" | "unat a < unat b" | "unat b < unat a"
    using word_unat_eq_iff[of a b] by linarith
  then show ?case
  proof cases
    case 1
    then show ?thesis using "1.IH" "1.prems" by (simp add: be_val_Cons)
  next
    case 2
    then show ?thesis using less[of a b as bs] "1.prems" by (auto simp: word_less_def[symmetric] word_less_nat_alt)
  next
    case 3
    then show ?thesis using less[of b a bs as] "1.prems" by (auto simp: word_less_def[symmetric] word_less_nat_alt)
  qed
qed auto

lemma mem_cmp_eq: "length a = length b \<Longrightarrow> mem_cmp a b = 0 \<longleftrightarrow> a = b"
  by (induction a b rule: mem_cmp.induct) (auto simp: word_uint_eq_iff)

lemma be_val_inject: "length a = length b \<Longrightarrow> be_val a = be_val b \<longleftrightarrow> a = b"
  using le_val_less nat_le_le_val by (metis be_val_def length_rev rev_rev_ident)

lemma mem_cmp_le: "length a = length b \<Longrightarrow> mem_cmp a b \<le> 0 \<longleftrightarrow> be_val a \<le> be_val b"
  using mem_cmp_less[of a b] mem_cmp_eq[of a b] be_val_inject[of a b]
  by (metis order_le_less)

section \<open>Share difficulty\<close>

text \<open>The hash as a \<open>long double\<close>, accumulated from its least significant byte.\<close>

fun ld_sum :: "bytes \<Rightarrow> rat \<Rightarrow> rat \<Rightarrow> rat" where
  "ld_sum [] base acc = acc"
| "ld_sum (b # bs) base acc = ld_sum bs (ldbl (base * 256)) (ldbl (acc + ldbl (of_nat (unat b) * base)))"

definition hash_as_ld :: "bytes \<Rightarrow> rat" where
  "hash_as_ld hash_be = ld_sum (rev hash_be) 1 0"

text \<open>The target of difficulty 1 (\<open>max_target_d\<close>).\<close>

definition max_target :: "chain_kind \<Rightarrow> rat" where
  "max_target k =
     (if k = Zcash then 524287 * 2 ^ 224
      else if k = Litecoin \<or> k = Dogecoin then 0xFFFF * 2 ^ 224
      else 0xFFFF * 2 ^ 208)"

definition share_difficulty :: "chain_kind \<Rightarrow> bytes \<Rightarrow> rat" where
  "share_difficulty k hash_be =
     (let h = hash_as_ld hash_be in if h > 0 then dbl (ldbl (max_target k / h)) else 0)"

definition meets_target :: "bytes \<Rightarrow> bytes \<Rightarrow> bool" where
  "meets_target hash_be target_be \<longleftrightarrow> mem_cmp hash_be target_be \<le> 0"

definition bits_to_difficulty :: "hex \<Rightarrow> rat res" where
  "bits_to_difficulty bits_hex =
     bindE (hex_to_bytes bits_hex) (\<lambda>b.
       if length b \<noteq> 4 then Inr 0
       else let mant = unat (b ! 1) * 65536 + unat (b ! 2) * 256 + unat (b ! 3); n = unat (b ! 0)
            in if mant = 0 then Inr 0
               else let diff = dbl (0xffff / of_nat mant)
                    in Inr (if n \<le> 29 then ((\<lambda>d. dbl (d * 256)) ^^ (29 - n)) diff
                            else ((\<lambda>d. dbl (d / 256)) ^^ (n - 29)) diff))"

section \<open>Rounding of the difficulty\<close>

abbreviation ulp64 :: rat where "ulp64 \<equiv> 1 / 2 ^ 64"

lemma relative_error: "\<bar>y - x\<bar> \<le> x * e \<Longrightarrow> x * (1 - e) \<le> y \<and> y \<le> x * (1 + e)" for e :: rat
  by (simp add: abs_le_iff algebra_simps)

lemma ldbl_rel:
  assumes "0 \<le> x"
  shows "x * (1 - ulp64) \<le> ldbl x" and "ldbl x \<le> x * (1 + ulp64)"
proof -
  have "\<bar>ldbl x - x\<bar> \<le> x * (1 / 2 ^ 64)"
    using rnd_error[of x 64] assms by (cases "x = 0") (simp_all del: power_numeral)
  then show "x * (1 - ulp64) \<le> ldbl x" and "ldbl x \<le> x * (1 + ulp64)"
    using relative_error by blast+
qed

lemma powi_256: "(2 :: rat) powi (8 * int k) = 256 ^ k"
  by (simp only: power_int_mult power_int_of_nat) simp

lemma ldbl_base: "ldbl (256 ^ k * 256) = 256 ^ Suc k"
proof -
  have "ldbl (of_int 1 * 2 powi (8 * int (Suc k))) = of_int 1 * 2 powi (8 * int (Suc k))"
    by (rule rnd_exact) simp_all
  then show ?thesis
    by (simp only: powi_256 of_int_1 mult_1 power_Suc2)
qed

lemma ldbl_digit: "ldbl (of_nat (unat b) * 256 ^ k) = of_nat (unat b) * 256 ^ k" for b :: u8
proof -
  have "ldbl (of_int (int (unat b)) * 2 powi (8 * int k)) = of_int (int (unat b)) * 2 powi (8 * int k)"
  proof (rule rnd_exact)
    have "int (unat b) < 256"
      using unat_u8_less[of b] by linarith
    then show "\<bar>int (unat b)\<bar> < 2 ^ 64" by (simp del: uint_nat)
  qed simp
  then show ?thesis
    by (simp only: powi_256 of_int_of_nat_eq)
qed

lemma pow_le_one: "0 \<le> x \<Longrightarrow> x \<le> 1 \<Longrightarrow> x ^ n \<le> (1 :: rat)"
  by (rule power_le_one)

lemma ld_sum_bounds:
  assumes "a * (1 - ulp64) ^ j \<le> acc" and "acc \<le> a * (1 + ulp64) ^ j" and "0 \<le> a"
  shows "(a + of_nat (256 ^ k * le_val bs)) * (1 - ulp64) ^ (j + length bs) \<le> ld_sum bs (256 ^ k) acc \<and>
         ld_sum bs (256 ^ k) acc \<le> (a + of_nat (256 ^ k * le_val bs)) * (1 + ulp64) ^ (j + length bs)"
  using assms
proof (induction bs arbitrary: a acc j k)
  case Nil
  then show ?case by simp
next
  case (Cons b bs)
  define d :: rat where "d = of_nat (unat b) * 256 ^ k"
  have d: "0 \<le> d"
    unfolding d_def by (rule mult_nonneg_nonneg[OF of_nat_0_le_iff]) simp
  have lo1: "(1 - ulp64) ^ j \<le> 1" and hi1: "1 \<le> (1 + ulp64) ^ j" and lo0: "0 \<le> (1 - ulp64) ^ j"
    by (simp_all add: power_le_one)
  have "(a + d) * (1 - ulp64) ^ j \<le> acc + d"
    using Cons.prems(1) mult_left_mono[OF lo1 d] by (simp add: distrib_right)
  moreover have "acc + d \<le> (a + d) * (1 + ulp64) ^ j"
    using Cons.prems(2) mult_left_mono[OF hi1 d] by (simp add: distrib_right)
  moreover have pos: "0 \<le> acc + d"
    using Cons.prems(1,3) d lo0 by (meson add_nonneg_nonneg mult_nonneg_nonneg order_trans)
  ultimately have b: "(a + d) * (1 - ulp64) ^ Suc j \<le> ldbl (acc + d)" "ldbl (acc + d) \<le> (a + d) * (1 + ulp64) ^ Suc j"
  proof -
    assume lo: "(a + d) * (1 - ulp64) ^ j \<le> acc + d" and hi: "acc + d \<le> (a + d) * (1 + ulp64) ^ j"
    have "(a + d) * (1 - ulp64) ^ j * (1 - ulp64) \<le> (acc + d) * (1 - ulp64)"
      by (rule mult_right_mono[OF lo]) simp
    then show "(a + d) * (1 - ulp64) ^ Suc j \<le> ldbl (acc + d)"
      using ldbl_rel(1)[OF pos] by (simp only: power_Suc2 mult.assoc)
    have "(acc + d) * (1 + ulp64) \<le> (a + d) * (1 + ulp64) ^ j * (1 + ulp64)"
      by (rule mult_right_mono[OF hi]) simp
    then show "ldbl (acc + d) \<le> (a + d) * (1 + ulp64) ^ Suc j"
      using ldbl_rel(2)[OF pos] by (simp only: power_Suc2 mult.assoc)
  qed
  have s: "ld_sum (b # bs) (256 ^ k) acc = ld_sum bs (256 ^ Suc k) (ldbl (acc + d))"
    by (simp only: ld_sum.simps ldbl_base ldbl_digit d_def)
  have v: "a + of_nat (256 ^ k * le_val (b # bs)) = a + d + of_nat (256 ^ Suc k * le_val bs)"
    by (simp add: d_def algebra_simps)
  show ?case
    using Cons.IH[OF b, of "Suc k"] Cons.prems(3) d unfolding s v by simp
qed

lemma hash_as_ld_bounds:
  assumes "length hash_be = 32"
  shows "of_nat (be_val hash_be) * (1 - ulp64) ^ 32 \<le> hash_as_ld hash_be"
    and "hash_as_ld hash_be \<le> of_nat (be_val hash_be) * (1 + ulp64) ^ 32"
  using ld_sum_bounds[of 0 0 0 0 "rev hash_be"] assms
  by (simp_all add: hash_as_ld_def be_val_def)

lemma max_target_pos: "0 < max_target k"
  by (simp add: max_target_def)

lemma dbl_rel:
  assumes "0 \<le> x"
  shows "x * (1 - 1 / 2 ^ 53) \<le> dbl x" and "dbl x \<le> x * (1 + 1 / 2 ^ 53)"
proof -
  have "\<bar>dbl x - x\<bar> \<le> x * (1 / 2 ^ 53)"
    using rnd_error[of x 53] assms by (cases "x = 0") (simp_all del: power_numeral)
  then show "x * (1 - 1 / 2 ^ 53) \<le> dbl x" and "dbl x \<le> x * (1 + 1 / 2 ^ 53)"
    using relative_error by blast+
qed

lemma dbl_positive: "0 < x \<Longrightarrow> 0 < dbl x"
proof -
  assume x: "0 < x"
  have "(0 :: rat) < 1 - 1 / 2 ^ 53"
    by simp
  then show "0 < dbl x"
    using mult_pos_pos[OF x] dbl_rel(1)[of x] x by (meson less_le_trans order_less_imp_le)
qed

lemma share_difficulty_bounds:
  assumes "length hash_be = 32" and "0 < be_val hash_be"
  shows "max_target k / of_nat (be_val hash_be) * (1 - 1 / 2 ^ 52) \<le> share_difficulty k hash_be"
    and "share_difficulty k hash_be \<le> max_target k / of_nat (be_val hash_be) * (1 + 1 / 2 ^ 52)"
proof -
  define v :: rat where "v = of_nat (be_val hash_be)"
  define h where "h = hash_as_ld hash_be"
  define q where "q = max_target k / v"
  have v: "0 < v"
    using assms(2) by (simp add: v_def)
  have h: "v * (1 - ulp64) ^ 32 \<le> h" "h \<le> v * (1 + ulp64) ^ 32"
    using hash_as_ld_bounds[OF assms(1)] by (simp_all add: v_def h_def)
  have c0: "0 < (1 - ulp64) ^ 32" and c1: "0 < (1 + ulp64) ^ 32"
    by simp_all
  have hpos: "0 < h"
    using h(1) v c0 by (meson less_le_trans mult_pos_pos)
  have q: "0 < q"
    using v max_target_pos by (simp add: q_def)
  have "max_target k / (v * (1 + ulp64) ^ 32) \<le> max_target k / h"
    using h hpos v max_target_pos[of k] by (intro divide_left_mono) (simp_all add: order_less_imp_le)
  then have lo: "q / (1 + ulp64) ^ 32 \<le> max_target k / h"
    by (simp add: q_def)
  have "max_target k / h \<le> max_target k / (v * (1 - ulp64) ^ 32)"
    using h hpos v c0 max_target_pos[of k] by (intro divide_left_mono) (simp_all add: order_less_imp_le)
  then have hi: "max_target k / h \<le> q / (1 - ulp64) ^ 32"
    by (simp add: q_def)
  have m: "0 \<le> max_target k / h"
    using hpos max_target_pos[of k] by (simp add: order_less_imp_le)
  have l: "0 \<le> ldbl (max_target k / h)"
    using m by (rule rnd_nonneg) simp
  have sd: "share_difficulty k hash_be = dbl (ldbl (max_target k / h))"
    using hpos by (simp add: share_difficulty_def Let_def h_def)
  have "q * (1 - 1 / 2 ^ 52) \<le> q / (1 + ulp64) ^ 32 * (1 - ulp64) * (1 - 1 / 2 ^ 53)"
  proof -
    have "(1 - 1 / 2 ^ 52 :: rat) \<le> 1 / (1 + ulp64) ^ 32 * (1 - ulp64) * (1 - 1 / 2 ^ 53)"
      by (simp add: power_divide)
    then have "q * (1 - 1 / 2 ^ 52) \<le> q * (1 / (1 + ulp64) ^ 32 * (1 - ulp64) * (1 - 1 / 2 ^ 53))"
      using q by (intro mult_left_mono) simp_all
    then show ?thesis by simp
  qed
  also have "\<dots> \<le> max_target k / h * (1 - ulp64) * (1 - 1 / 2 ^ 53)"
    by (intro mult_right_mono lo) simp_all
  also have "\<dots> \<le> ldbl (max_target k / h) * (1 - 1 / 2 ^ 53)"
    by (intro mult_right_mono ldbl_rel(1)[OF m]) simp
  also have "\<dots> \<le> share_difficulty k hash_be"
    unfolding sd by (rule dbl_rel(1)[OF l])
  finally show "max_target k / of_nat (be_val hash_be) * (1 - 1 / 2 ^ 52) \<le> share_difficulty k hash_be"
    by (simp only: q_def v_def)
  have "share_difficulty k hash_be \<le> ldbl (max_target k / h) * (1 + 1 / 2 ^ 53)"
    unfolding sd by (rule dbl_rel(2)[OF l])
  also have "\<dots> \<le> max_target k / h * (1 + ulp64) * (1 + 1 / 2 ^ 53)"
    by (intro mult_right_mono ldbl_rel(2)[OF m]) simp
  also have "\<dots> \<le> q / (1 - ulp64) ^ 32 * (1 + ulp64) * (1 + 1 / 2 ^ 53)"
    by (intro mult_right_mono hi) simp_all
  also have "\<dots> \<le> q * (1 + 1 / 2 ^ 52)"
  proof -
    have "1 / (1 - ulp64) ^ 32 * (1 + ulp64) * (1 + 1 / 2 ^ 53) \<le> (1 + 1 / 2 ^ 52 :: rat)"
      by (simp add: power_divide)
    then have "q * (1 / (1 - ulp64) ^ 32 * (1 + ulp64) * (1 + 1 / 2 ^ 53)) \<le> q * (1 + 1 / 2 ^ 52)"
      using q by (intro mult_left_mono) simp_all
    then show ?thesis by simp
  qed
  finally show "share_difficulty k hash_be \<le> max_target k / of_nat (be_val hash_be) * (1 + 1 / 2 ^ 52)"
    by (simp only: q_def v_def)
qed

section \<open>The real-time target of eCash\<close>

text \<open>
  \<open>ecash_rtt_ok\<close>: the target a block must meet so soon after its parents. The five constants computed
  with \<open>std::tgamma\<close> and the library's \<open>std::pow\<close> on \<open>long double\<close> are parameters. The bit length is
  taken by \<open>std::frexp\<close> from the value rounded to \<open>double\<close>.
\<close>

definition target_double_to_compact :: "rat \<Rightarrow> u32" where
  "target_double_to_compact t =
     (if \<not> 1 \<le> t then 0
      else
        let nbits = ilog2 (dbl t) + 1;
            size = (nbits + 7) div 8;
            shifted = t * 2 powi (8 * (3 - size));
            compact = of_int \<lfloor>shifted\<rfloor> :: u32;
            (compact, size) =
              (if compact AND 0x00800000 \<noteq> 0 then (drop_bit 8 compact, size + 1) else (compact, size))
        in compact OR push_bit 24 (of_int size))"

text \<open>The smallest of the windows' targets; \<open>None\<close> when a window has no time.\<close>

fun rtt_min_target :: "(rat \<Rightarrow> rat \<Rightarrow> rat) \<Rightarrow> rat \<Rightarrow> int \<Rightarrow> (u32 \<times> rat) list \<Rightarrow> rat option \<Rightarrow> rat option option" where
  "rtt_min_target powl prev_target now [] best = Some best"
| "rtt_min_target powl prev_target now ((t, g) # ws) best =
     (if t = 0 then None
      else
        let dt = max 1 (ldbl (of_int (now - int (unat t))));
            tgt = ldbl (ldbl (prev_target * g) * powl dt 5)
        in rtt_min_target powl prev_target now ws
             (case best of None \<Rightarrow> Some tgt | Some m \<Rightarrow> Some (if tgt < m then tgt else m)))"

definition ecash_rtt_ok ::
  "(rat \<Rightarrow> rat \<Rightarrow> rat) \<Rightarrow> rat list \<Rightarrow> u32 list \<Rightarrow> u32 \<Rightarrow> int \<Rightarrow> bytes \<Rightarrow> bool res" where
  "ecash_rtt_ok powl facts prevheadertime prevbits now hash_be =
     (let e = unat (drop_bit 24 prevbits); mant = prevbits AND 0x007fffff
      in if mant = 0 \<or> e < 3 \<or> e > 32 then Inr True
         else
           let prev_target = of_nat (unat mant) * 2 powi (8 * (int e - 3))
           in case rtt_min_target powl prev_target now (zip prevheadertime facts) None of
                None \<Rightarrow> Inr True
              | Some None \<Rightarrow> Inr True
              | Some (Some m) \<Rightarrow>
                  if m \<ge> 2 ^ 256 then Inr True
                  else
                    let compact = target_double_to_compact m
                    in if unat (drop_bit 24 compact) > 32 then Inr True
                       else bindE (target_from_bits_hex (int_to_hex compact 8)) (\<lambda>tgt_be.
                              Inr (mem_cmp hash_be tgt_be \<le> 0)))"

section \<open>Property\<close>

text \<open>C38: Scoring a share. For a 32-byte hash and target the byte comparison decides
  \<open>hash \<le> target\<close> of the two numbers, and the difficulty computed with rounded \<open>long double\<close> sums is
  the exact quotient of the difficulty-1 target and the hash up to one part in \<open>2 ^ 52\<close>; so a hash that
  meets the target of difficulty \<open>d\<close> passes the sessions' \<open>d * 0.99\<close> threshold, and one that passes it
  meets the target of \<open>0.98 * d\<close>.\<close>

theorem share_scored_by_value:
  assumes "length hash_be = 32" and "length target_be = 32" and "0 < be_val hash_be" and "0 < d"
  shows "(meets_target hash_be target_be \<longleftrightarrow> be_val hash_be \<le> be_val target_be) \<and>
    \<bar>share_difficulty k hash_be - max_target k / of_nat (be_val hash_be)\<bar>
      \<le> max_target k / of_nat (be_val hash_be) / 2 ^ 52 \<and>
    (of_nat (be_val hash_be) * d \<le> max_target k \<longrightarrow> d * (99 / 100) \<le> share_difficulty k hash_be) \<and>
    (d * (99 / 100) \<le> share_difficulty k hash_be \<longrightarrow> of_nat (be_val hash_be) * (d * (98 / 100)) \<le> max_target k)"
proof -
  define v :: rat where "v = of_nat (be_val hash_be)"
  have v: "0 < v"
    using assms(3) by (simp add: v_def)
  define q where "q = max_target k / v"
  have lo: "q * (1 - 1 / 2 ^ 52) \<le> share_difficulty k hash_be" and hi: "share_difficulty k hash_be \<le> q * (1 + 1 / 2 ^ 52)"
    using share_difficulty_bounds[OF assms(1,3)] by (simp_all only: q_def v_def)
  have "\<bar>share_difficulty k hash_be - q\<bar> \<le> q / 2 ^ 52"
    unfolding abs_diff_le_iff using lo hi by (simp add: right_diff_distrib distrib_left)
  moreover have "d * (99 / 100) \<le> share_difficulty k hash_be" if "v * d \<le> max_target k"
  proof -
    have "d \<le> q"
      using that v by (simp add: q_def pos_le_divide_eq mult.commute)
    then show ?thesis
      using lo assms(4) by simp
  qed
  moreover have "v * (d * (98 / 100)) \<le> max_target k" if "d * (99 / 100) \<le> share_difficulty k hash_be"
  proof -
    have "d * (98 / 100) \<le> q"
      using that hi assms(4) by simp
    then show ?thesis
      using v by (simp add: q_def pos_le_divide_eq mult.commute)
  qed
  moreover have "meets_target hash_be target_be \<longleftrightarrow> be_val hash_be \<le> be_val target_be"
    unfolding meets_target_def by (rule mem_cmp_le) (simp only: assms(1,2))
  ultimately show ?thesis
    unfolding v_def q_def by blast
qed

definition sample_hash :: bytes where
  "sample_hash = replicate 4 0 @ 1 # replicate 27 0"

lemma sample_hash_facts: "length sample_hash = 32" "be_val sample_hash = 256 ^ 27"
  by (simp_all add: sample_hash_def be_val_append be_val_Cons)

lemma share_scored_by_value_witness:
  "\<not> meets_target sample_hash (replicate 32 0) \<and>
   \<bar>share_difficulty Bitcoin sample_hash - max_target Bitcoin / 256 ^ 27\<bar> \<le> max_target Bitcoin / 256 ^ 27 / 2 ^ 52"
  using share_scored_by_value[of sample_hash "replicate 32 0" 1 Bitcoin] by (simp only: sample_hash_facts be_val_zeros) simp

end
