(* ===== verification/Session_Common.thy ===== *)
theory Session_Common
  imports Stratum_Protocol Scoring
begin

text \<open>
  What the V1 sessions share: the text of the JSON-RPC lines that \<open>src/client_session.cpp\<close> and
  \<open>src/proxy_session.cpp\<close> write with \<open>fmt::format\<close>, the id that a reply echoes, the BIP310 answer, and
  the header a submitted share stands for. The text \<open>fmt\<close> gives a floating-point id is the parameter
  \<open>fmt_double\<close>.
\<close>

section \<open>Texts\<close>

text \<open>A raw string literal, its double quotes written as backquotes.\<close>

definition jq :: "string \<Rightarrow> string" where
  "jq t = map (\<lambda>c. if c = CHR 0x60 then CHR 0x22 else c) t"

definition dec_int :: "int \<Rightarrow> string" where
  "dec_int i = (if i < 0 then CHR ''-'' # dec_string (nat (- i)) else dec_string (nat i))"

text \<open>\<open>{:.0f}\<close> of an integral \<open>double\<close>.\<close>

definition fmt_integral :: "rat \<Rightarrow> string" where
  "fmt_integral d = dec_int (round_even d)"

definition json_escape_id :: "string \<Rightarrow> string" where
  "json_escape_id s =
     concat (map (\<lambda>c. if c = CHR 0x22 \<or> c = CHR 0x5C then [CHR 0x5C, c]
                       else if (of_char c :: nat) < 32 then ''?'' else [c]) s)"

definition safe_id_json :: "(rat \<Rightarrow> string) \<Rightarrow> json \<Rightarrow> string" where
  "safe_id_json fmt_double msg =
     (case jfield msg ''id'' of
        Some (JInt i) \<Rightarrow> dec_int (sint (of_int i :: i64))
      | Some (JFloat x) \<Rightarrow> fmt_double x
      | Some (JStr s) \<Rightarrow> quoted (json_escape_id s)
      | _ \<Rightarrow> ''null'')"

definition ok_line :: "string \<Rightarrow> string" where
  "ok_line id_json = jq ''{`id`:'' @ id_json @ jq '',`result`:true,`error`:null}'' @ [CHR 10]"

definition error_line :: "string \<Rightarrow> nat \<Rightarrow> string \<Rightarrow> string" where
  "error_line id_json code reason =
     jq ''{`id`:'' @ id_json @ jq '',`result`:null,`error`:['' @ dec_string code @ '','' @ quoted reason @ '',null]}'' @ [CHR 10]"

definition set_difficulty_line :: "rat \<Rightarrow> string" where
  "set_difficulty_line rounded =
     jq ''{`id`:null,`method`:`mining.set_difficulty`,`params`:['' @ fmt_integral rounded @ '']}'' @ [CHR 10]"

definition set_version_mask_line :: "u32 \<Rightarrow> string" where
  "set_version_mask_line m =
     jq ''{`id`:null,`method`:`mining.set_version_mask`,`params`:['' @ quoted (int_to_hex m 8) @ '']}'' @ [CHR 10]"

definition subscribe_line :: "string \<Rightarrow> string \<Rightarrow> hex \<Rightarrow> nat \<Rightarrow> string" where
  "subscribe_line id_json session_id en1 en2_size =
     jq ''{`id`:'' @ id_json @ jq '',`result`:[[[`mining.set_difficulty`,'' @ quoted session_id @ jq ''],[`mining.notify`,''
     @ quoted session_id @ '']],'' @ quoted en1 @ '','' @ dec_string en2_size @ jq ''],`error`:null}'' @ [CHR 10]"

text \<open>The BIP310 answer; \<open>with_min\<close> is whether the session answers \<open>minimum-difficulty\<close>.\<close>

definition configure_line :: "string \<Rightarrow> bool \<Rightarrow> configure_result \<Rightarrow> string" where
  "configure_line id_json with_min neg =
     (let items =
        (if cr_version_rolling_requested neg then
           [if cr_version_rolling neg
            then jq ''`version-rolling`:true,`version-rolling.mask`:'' @ quoted (int_to_hex (cr_version_mask neg) 8)
            else jq ''`version-rolling`:false''] else [])
        @ (if with_min \<and> cr_minimum_difficulty neg then [jq ''`minimum-difficulty`:true''] else [])
        @ (if cr_subscribe_extranonce neg then [jq ''`subscribe-extranonce`:true''] else [])
      in jq ''{`id`:'' @ id_json @ jq '',`result`:{'' @ comma_join items @ jq ''},`error`:null}'' @ [CHR 10])"

text \<open>The replacement of the \<open>clean_jobs\<close> flag at the end of a notify line.\<close>

definition force_clean_line :: "bool \<Rightarrow> string \<Rightarrow> string" where
  "force_clean_line force out =
     (if force \<and> length out \<ge> 9 \<and> drop (length out - 9) out = '',false]}'' @ [CHR 10]
      then take (length out - 9) out @ '',true]}'' @ [CHR 10] else out)"

section \<open>Messages\<close>

definition params_of :: "json \<Rightarrow> json list option" where
  "params_of msg = (case jfield msg ''params'' of Some (JArr ps) \<Rightarrow> Some ps | _ \<Rightarrow> None)"

definition first_string :: "json \<Rightarrow> string option" where
  "first_string msg =
     (case params_of msg of Some (JStr s # _) \<Rightarrow> Some s | _ \<Rightarrow> None)"

text \<open>The method of a line that is a JSON object with a string \<open>method\<close>.\<close>

definition method_of :: "json \<Rightarrow> string option" where
  "method_of msg = (case msg of JObj _ \<Rightarrow> (case jfield msg ''method'' of Some (JStr m) \<Rightarrow> Some m | _ \<Rightarrow> None) | _ \<Rightarrow> None)"

text \<open>The parameters of a Bitcoin-family \<open>mining.submit\<close>; \<open>None\<close> is a value of the wrong type.\<close>

record submit_params =
  sp_worker :: string
  sp_job_id :: string
  sp_en2 :: hex
  sp_ntime :: hex
  sp_nonce :: hex
  sp_version_bits :: "u32 option"

definition version_bits_param :: "json list \<Rightarrow> u32 option" where
  "version_bits_param p =
     (if length p \<ge> 6 then (case p ! 5 of JStr s \<Rightarrow> parse_hex8_u32 s | _ \<Rightarrow> None) else None)"

text \<open>The template version with the rolled bits.\<close>

definition rolled_version :: "u32 \<Rightarrow> u32 \<Rightarrow> u32 option \<Rightarrow> u32" where
  "rolled_version templ m bits =
     (case bits of None \<Rightarrow> templ | Some v \<Rightarrow> (templ AND NOT m) OR (v AND m))"

lemma rolled_version_outside: "rolled_version templ m bits AND NOT m = templ AND NOT m"
  by (cases bits) (auto simp: rolled_version_def bit_eq_iff bit_simps)

section \<open>Headers\<close>

text \<open>The digest of a header by chain: scrypt for Litecoin and Dogecoin, double SHA-256 otherwise; both are
  parameters. The hash is reversed to big-endian order.\<close>

definition pow_hash_be :: "(bytes \<Rightarrow> bytes) \<Rightarrow> (bytes \<Rightarrow> bytes) \<Rightarrow> chain_kind \<Rightarrow> bytes \<Rightarrow> bytes" where
  "pow_hash_be sha256 scrypt k header =
     rev (if k = Litecoin \<or> k = Dogecoin then scrypt header else sha256d sha256 header)"

text \<open>The 80-byte header of a coinbase and its merkle branch; the previous hash in header order.\<close>

definition share_header ::
  "(bytes \<Rightarrow> bytes) \<Rightarrow> u32 \<Rightarrow> hex \<Rightarrow> hex \<Rightarrow> hex list \<Rightarrow> hex \<Rightarrow> hex \<Rightarrow> hex \<Rightarrow> hex res" where
  "share_header sha256 version prevhash_le cb_hex branch ntime bits nonce =
     bindE (compute_coinbase_txid_le sha256 cb_hex) (\<lambda>txid.
     bindE (compute_root_le_hex (sha256d sha256) txid branch) (\<lambda>root.
       Inr (build_block_header (le_hex_u32 version) prevhash_le root
              (byte_reverse_hex ntime) (byte_reverse_hex bits) (byte_reverse_hex nonce))))"

end
