(* ===== verification/Line_Transport.thy ===== *)
theory Line_Transport
  imports Write_Queue
begin

text \<open>
  The line readers of the stream sessions: \<open>RelaySession::on_read\<close> (\<open>src/relay_session.cpp\<close>),
  \<open>UpstreamConn::on_read\<close> (\<open>src/upstream_client.cpp\<close>) and \<open>ClientSession::on_read\<close>
  (\<open>src/client_session.cpp\<close>). A read appends to the session's buffer, a buffer above the cap closes the
  session, and every complete line is handed to the handler without its end. The handler and the
  state it works on are the parameters of the locale; the three readers differ in the cap, in whether
  a blank line reaches the handler and in whether they stop at a closed session (\<open>stop\<close>).
\<close>

section \<open>Readers\<close>

definition newline :: char where
  "newline = CHR 10"

text \<open>\<open>buffer_.find('\n')\<close>: the line before the first newline and what follows it.\<close>

fun split_line :: "string \<Rightarrow> (string \<times> string) option" where
  "split_line [] = None"
| "split_line (c # s) =
     (if c = newline then Some ([], s)
      else map_option (\<lambda>(l, r). (c # l, r)) (split_line s))"

definition strip_cr :: "string \<Rightarrow> string" where
  "strip_cr l = (if l \<noteq> [] \<and> last l = CHR 13 then butlast l else l)"

lemma split_line_SomeD: "split_line s = Some (l, r) \<Longrightarrow> s = l @ newline # r \<and> newline \<notin> set l"
  by (induction s arbitrary: l) (auto split: if_splits)

lemma split_line_None_iff: "split_line s = None \<longleftrightarrow> newline \<notin> set s"
  by (induction s) (auto split: if_splits)

lemma split_line_append: "split_line s = Some (l, r) \<Longrightarrow> split_line (s @ t) = Some (l, r @ t)"
  by (induction s arbitrary: l) (auto split: if_splits)

text \<open>The loop over the complete lines of the buffer.\<close>

function drain_lines :: "(string \<Rightarrow> 's \<Rightarrow> 's) \<Rightarrow> ('s \<Rightarrow> bool) \<Rightarrow> string \<Rightarrow> 's \<Rightarrow> string \<times> 's" where
  "drain_lines on_line stop buf s =
     (case split_line buf of
        None \<Rightarrow> (buf, s)
      | Some (line, rest) \<Rightarrow>
          let s = on_line (strip_cr line) s
          in if stop s then (rest, s) else drain_lines on_line stop rest s)"
  by pat_completeness auto

termination
  by (relation "measure (\<lambda>(_, _, buf, _). length buf)") (auto dest!: split_line_SomeD)

declare drain_lines.simps [simp del]

text \<open>A completed read of \<open>chunk\<close>; \<open>None\<close> is a transport error.\<close>

definition read_some ::
  "nat \<Rightarrow> (string \<Rightarrow> 's \<Rightarrow> 's) \<Rightarrow> ('s \<Rightarrow> bool) \<Rightarrow> ('s \<Rightarrow> 's) \<Rightarrow> string option \<Rightarrow> string \<times> 's \<Rightarrow> string \<times> 's" where
  "read_some cap on_line stop close r st =
     (let (buf, s) = st
      in case r of
           None \<Rightarrow> (buf, close s)
         | Some chunk \<Rightarrow>
             let buf = buf @ chunk
             in if length buf > cap then (buf, close s) else drain_lines on_line stop buf s)"

text \<open>The three instances.\<close>

definition relay_cap :: nat where "relay_cap = 2 ^ 20"
definition upstream_cap :: nat where "upstream_cap = 4 * 2 ^ 20"
definition read_chunk :: nat where "read_chunk = 4096"

definition skip_blank :: "(string \<Rightarrow> 's \<Rightarrow> 's) \<Rightarrow> string \<Rightarrow> 's \<Rightarrow> 's" where
  "skip_blank on_line line s = (if line = [] then s else on_line line s)"

definition relay_on_read ::
  "(string \<Rightarrow> 's \<Rightarrow> 's) \<Rightarrow> ('s \<Rightarrow> bool) \<Rightarrow> ('s \<Rightarrow> 's) \<Rightarrow> string option \<Rightarrow> string \<times> 's \<Rightarrow> string \<times> 's" where
  "relay_on_read on_line closed close = read_some relay_cap (skip_blank on_line) closed close"

definition upstream_on_read ::
  "(string \<Rightarrow> 's \<Rightarrow> 's) \<Rightarrow> ('s \<Rightarrow> bool) \<Rightarrow> ('s \<Rightarrow> 's) \<Rightarrow> string option \<Rightarrow> string \<times> 's \<Rightarrow> string \<times> 's" where
  "upstream_on_read on_line closed close = read_some upstream_cap (skip_blank on_line) closed close"

text \<open>\<open>ClientSession\<close> goes through all buffered lines, also after a handler has closed the session.\<close>

definition client_on_read ::
  "(string \<Rightarrow> 's \<Rightarrow> 's) \<Rightarrow> ('s \<Rightarrow> 's) \<Rightarrow> string option \<Rightarrow> string \<times> 's \<Rightarrow> string \<times> 's" where
  "client_on_read process_line close = read_some relay_cap process_line (\<lambda>_. False) close"

text \<open>The session goes on reading until it is closed.\<close>

definition read_all ::
  "(string option \<Rightarrow> string \<times> 's \<Rightarrow> string \<times> 's) \<Rightarrow> ('s \<Rightarrow> bool) \<Rightarrow> string list \<Rightarrow> string \<times> 's \<Rightarrow> string \<times> 's" where
  "read_all on_read closed chunks st =
     fold (\<lambda>c st. if closed (snd st) then st else on_read (Some c) st) chunks st"

section \<open>Lines do not depend on the reads\<close>

text \<open>The lines of the stream, without their ends, and the unfinished rest.\<close>

fun stream_lines :: "string \<Rightarrow> string list" where
  "stream_lines [] = [[]]"
| "stream_lines (c # s) =
     (if c = newline then [] # stream_lines s
      else (case stream_lines s of l # ls \<Rightarrow> (c # l) # ls | [] \<Rightarrow> [[c]]))"

lemma stream_lines_ne [simp]: "stream_lines s \<noteq> []"
  by (cases s) (auto split: list.split)

lemma stream_lines_split:
  "split_line s = Some (l, r) \<Longrightarrow> stream_lines s = l # stream_lines r"
  "split_line s = None \<Longrightarrow> stream_lines s = [s]"
  by (induction s arbitrary: l) (auto split: if_splits list.split)

lemma drain_None: "newline \<notin> set buf \<Longrightarrow> drain_lines f stop buf s = (buf, s)"
  by (subst drain_lines.simps) (simp add: split_line_None_iff[symmetric])

lemma drain_append:
  "drain_lines f stop (x @ y) s =
     (let (b, t) = drain_lines f stop x s
      in if stop t \<and> newline \<in> set x then (b @ y, t) else drain_lines f stop (b @ y) t)"
proof (induction f stop x s rule: drain_lines.induct)
  case (1 f stop x s)
  show ?case
  proof (cases "split_line x")
    case None
    then show ?thesis
      using drain_None[of x f stop s] by (simp add: split_line_None_iff)
  next
    case (Some lr)
    obtain l r where lr: "split_line x = Some (l, r)"
      using Some by (cases lr) auto
    let ?t = "f (strip_cr l) s"
    have nl: "newline \<in> set x"
      using split_line_SomeD[OF lr] by simp
    have x: "drain_lines f stop x s = (if stop ?t then (r, ?t) else drain_lines f stop r ?t)"
      by (subst drain_lines.simps) (simp add: lr Let_def)
    have xy: "drain_lines f stop (x @ y) s = (if stop ?t then (r @ y, ?t) else drain_lines f stop (r @ y) ?t)"
      by (subst drain_lines.simps) (simp add: split_line_append[OF lr] Let_def)
    show ?thesis
    proof (cases "stop ?t")
      case True
      then show ?thesis
        using nl by (simp add: x xy)
    next
      case False
      have IH: "drain_lines f stop (r @ y) ?t =
          (let (b, t) = drain_lines f stop r ?t
           in if stop t \<and> newline \<in> set r then (b @ y, t) else drain_lines f stop (b @ y) t)"
        using "1.IH"[OF lr refl refl] False by simp
      have "\<not> stop (snd (drain_lines f stop r ?t)) \<or> newline \<in> set r"
        using False drain_None[of r f stop ?t] by (cases "newline \<in> set r") simp_all
      with False nl show ?thesis
        unfolding x xy IH by (simp add: Let_def split: prod.split)
    qed
  qed
qed

lemma drain_rest: "drain_lines f stop x s = (b, t) \<Longrightarrow> \<not> stop t \<Longrightarrow> newline \<notin> set b"
proof (induction f stop x s rule: drain_lines.induct)
  case (1 f stop x s)
  then show ?case
    by (cases "split_line x")
      (auto simp: drain_lines.simps[of f stop x s] split_line_None_iff[symmetric] Let_def split: if_splits)
qed

lemma drain_suffix: "drain_lines f stop x s = (b, t) \<Longrightarrow> \<exists>p. x = p @ b \<and> (p = [] \<or> last p = newline)"
proof (induction f stop x s rule: drain_lines.induct)
  case (1 f stop x s)
  show ?case
  proof (cases "split_line x")
    case None
    then show ?thesis
      using "1.prems" by (simp add: drain_lines.simps[of f stop x s])
  next
    case (Some lr)
    then obtain l r where lr: "split_line x = Some (l, r)"
      by (cases lr) auto
    have x: "x = (l @ [newline]) @ r"
      using split_line_SomeD[OF lr] by simp
    show ?thesis
    proof (cases "stop (f (strip_cr l) s)")
      case True
      then have "b = r"
        using "1.prems" by (simp add: drain_lines.simps[of f stop x s] lr Let_def)
      with x show ?thesis
        by (intro exI[of _ "l @ [newline]"]) simp
    next
      case False
      then have "drain_lines f stop r (f (strip_cr l) s) = (b, t)"
        using "1.prems" by (simp add: drain_lines.simps[of f stop x s] lr Let_def)
      then obtain p where "r = p @ b" "p = [] \<or> last p = newline"
        using "1.IH"[OF lr refl refl] False by auto
      with x show ?thesis
        by (intro exI[of _ "l @ [newline] @ p"]) auto
    qed
  qed
qed

lemma stream_lines_newline: "stream_lines (x @ newline # y) = stream_lines x @ stream_lines y"
proof (induction x)
  case (Cons c x)
  obtain l ls where "stream_lines x = l # ls"
    using stream_lines_ne[of x] by (cases "stream_lines x") auto
  then show ?case
    using Cons by simp
qed simp

lemma stream_lines_suffix:
  assumes "p = [] \<or> last p = newline"
  shows "set (stream_lines b) \<subseteq> set (stream_lines (p @ b))"
proof (cases "p = []")
  case False
  then obtain q where "p = q @ [newline]"
    using assms by (cases p rule: rev_cases) auto
  then show ?thesis
    by (simp add: stream_lines_newline)
qed simp

lemma stream_lines_prefix: "newline \<notin> set b \<Longrightarrow> \<exists>l \<in> set (stream_lines (b @ x)). length b \<le> length l"
proof -
  assume "newline \<notin> set b"
  then have "\<exists>l ls. stream_lines (b @ x) = l # ls \<and> length b \<le> length l"
  proof (induction b)
    case Nil
    then show ?case using stream_lines_ne[of x] by (cases "stream_lines x") auto
  qed auto
  then show ?thesis by auto
qed

text \<open>Handling lines one after the other until the session stops.\<close>

fun run_lines :: "(string \<Rightarrow> 's \<Rightarrow> 's) \<Rightarrow> ('s \<Rightarrow> bool) \<Rightarrow> string list \<Rightarrow> 's \<Rightarrow> 's" where
  "run_lines f stop [] s = s"
| "run_lines f stop (l # ls) s = (let s = f l s in if stop s then s else run_lines f stop ls s)"

lemma drain_run_lines:
  "snd (drain_lines f stop x s) = run_lines f stop (map strip_cr (butlast (stream_lines x))) s"
  "\<not> stop (snd (drain_lines f stop x s)) \<Longrightarrow> fst (drain_lines f stop x s) = last (stream_lines x)"
proof (induction f stop x s rule: drain_lines.induct)
  case (1 f stop x s)
  {
    case 1
    show ?case
      using "1.IH"(1) by (subst drain_lines.simps)
        (auto simp: Let_def stream_lines_split split: option.split)
  next
    case 2
    then show ?case
      using "1.IH"(2) by (subst (asm) drain_lines.simps, subst drain_lines.simps)
        (auto simp: Let_def stream_lines_split split: option.split option.split_asm if_splits)
  }
qed

text \<open>A stream whose lines stay a full read below the cap is handled line by line, however it is cut.\<close>

lemma read_all_drains:
  assumes "\<forall>c \<in> set chunks. length c \<le> read_chunk"
    and "\<forall>l \<in> set (stream_lines (b @ concat chunks)). length l + read_chunk \<le> cap"
    and "newline \<notin> set b" and "\<not> stop s"
  shows "snd (read_all (read_some cap f stop close) stop chunks (b, s)) = snd (drain_lines f stop (b @ concat chunks) s) \<and>
    (\<not> stop (snd (drain_lines f stop (b @ concat chunks) s)) \<longrightarrow>
      read_all (read_some cap f stop close) stop chunks (b, s) = drain_lines f stop (b @ concat chunks) s)"
  using assms
proof (induction chunks arbitrary: b s)
  case Nil
  then show ?case
    by (simp add: read_all_def drain_None)
next
  case (Cons c chunks)
  obtain b1 t1 where d: "drain_lines f stop (b @ c) s = (b1, t1)"
    by force
  obtain l where "l \<in> set (stream_lines (b @ concat (c # chunks)))" "length b \<le> length l"
    using stream_lines_prefix[OF Cons.prems(3)] by blast
  with Cons.prems(1,2) have "length (b @ c) \<le> cap"
    by fastforce
  then have r: "read_all (read_some cap f stop close) stop (c # chunks) (b, s) =
      read_all (read_some cap f stop close) stop chunks (b1, t1)"
    using Cons.prems(4) by (simp add: read_all_def read_some_def Let_def d)
  show ?case
  proof (cases "stop t1")
    case True
    then have "newline \<in> set (b @ c)"
      using d drain_None[of "b @ c" f stop s] Cons.prems(4) by auto
    then have "drain_lines f stop ((b @ c) @ concat chunks) s = (b1 @ concat chunks, t1)"
      using True by (subst drain_append) (simp add: d)
    moreover have "read_all (read_some cap f stop close) stop chunks (b1, t1) = (b1, t1)"
      using True by (induction chunks) (simp_all add: read_all_def)
    ultimately show ?thesis
      using True by (simp add: r)
  next
    case False
    have e: "drain_lines f stop ((b @ c) @ concat chunks) s = drain_lines f stop (b1 @ concat chunks) t1"
      using False by (subst drain_append) (simp add: d)
    obtain p where p: "b @ c = p @ b1" "p = [] \<or> last p = newline"
      using drain_suffix[OF d] by blast
    have "set (stream_lines (b1 @ concat chunks)) \<subseteq> set (stream_lines (b @ concat (c # chunks)))"
      using stream_lines_suffix[OF p(2), of "b1 @ concat chunks"] p(1) by (metis append.assoc concat.simps(2))
    then show ?thesis
      using Cons.IH[of b1 t1] Cons.prems(1,2) drain_rest[OF d False] False e r by (simp add: subset_iff)
  qed
qed

text \<open>
  The contract of a session above a line reader: closing it is final, a closed session handles no
  line. What the reader guarantees in return is proved once here.
\<close>

locale line_handler =
  fixes on_line :: "string \<Rightarrow> 's \<Rightarrow> 's" and closed :: "'s \<Rightarrow> bool" and close :: "'s \<Rightarrow> 's"
  assumes close_closes: "closed (close s)"
begin

lemma error_closes: "closed (snd (read_some cap on_line closed close None st))"
  by (simp add: read_some_def close_closes split: prod.split)

lemma oversize_closes: "length (fst st @ c) > cap \<Longrightarrow> closed (snd (read_some cap on_line closed close (Some c) st))"
  by (cases st) (simp add: read_some_def Let_def close_closes)

lemma buffer_bounded:
  assumes "length b \<le> cap" and "read_some cap on_line closed close r (b, s) = (b', t)" and "\<not> closed t"
  shows "length b' \<le> cap"
proof (cases r)
  case None
  with assms show ?thesis
    by (simp add: read_some_def)
next
  case (Some c)
  show ?thesis
  proof (cases "length (b @ c) > cap")
    case True
    then show ?thesis
      using assms(2,3) Some close_closes by (auto simp: read_some_def Let_def)
  next
    case False
    then have "drain_lines on_line closed (b @ c) s = (b', t)"
      using assms(2) Some by (simp add: read_some_def Let_def)
    with False show ?thesis
      using drain_suffix[of on_line closed "b @ c" s b' t] by (auto dest!: arg_cong[of _ _ length])
  qed
qed

lemma lines_independent_of_reads:
  assumes "\<forall>c \<in> set chunks. length c \<le> read_chunk"
    and "\<forall>l \<in> set (stream_lines (concat chunks)). length l + read_chunk \<le> cap" and "\<not> closed s"
  shows "snd (read_all (read_some cap on_line closed close) closed chunks ([], s)) =
    run_lines on_line closed (map strip_cr (butlast (stream_lines (concat chunks)))) s"
  using read_all_drains[of chunks "[]" cap closed s on_line close] assms
  by (simp add: drain_run_lines(1))

end

end
