(* ===== verification/Upstream_V1.thy ===== *)
theory Upstream_V1
  imports Stratifier Json Upstream_Types "HOL-Library.Multiset"
begin

text \<open>
  \<open>src/upstream_client.cpp\<close>: the proxy's Stratum V1 client of several pools ("links"). Each link
  negotiates, receives jobs and difficulty, owns an extranonce of which every downstream session gets
  a slot, and carries shares up. Sessions are assigned to a link (sticky primary or weighted least
  load) and migrated when their link drops.

  The client's own work runs on one strand or under its mutex: an operation is a step on \<open>v1_up\<close> with
  its effects in order (lines, dials and closes of a link, messages to sinks, answers to submitters,
  timers). The transport of a link (\<open>UpstreamConn\<close>) delivers parsed lines, its opening and its
  closing as events tagged with the connection's generation. \<open>live\<close> says which sinks still exist,
  \<open>dump\<close> is the JSON printer of the library. Hash maps are association lists walked in insertion order.
\<close>

section \<open>State\<close>

record v1_link =
  ul_user :: string
  ul_pass :: string
  ul_weight :: u32
  ul_index :: int
  ul_conn :: "bool option" \<comment> \<open>\<open>Some closed\<close>\<close>
  ul_gen :: u64
  ul_backoff :: nat
  ul_last_rx :: nat
  ul_next_id :: u64
  ul_id_configure :: u64
  ul_id_subscribe :: u64
  ul_id_authorize :: u64
  ul_pending :: "(u64 \<times> nat option \<times> nat) list"
  ul_connected :: bool
  ul_authorized :: bool
  ul_subscribed :: bool
  ul_en1 :: hex
  ul_en2_size :: nat
  ul_version_mask :: u32
  ul_diff :: rat
  ul_cur_job :: "proxy_notify option"
  ul_job_seq :: u64
  ul_slot_span :: u32
  ul_nonce_bytes :: u8
  ul_next_slot :: u32
  ul_subscribers :: "(u32 \<times> nat \<times> hex) list"
  ul_stat_jobs :: u64
  ul_stat_forwarded :: u64
  ul_stat_accepted :: u64
  ul_stat_rejected :: u64
  ul_stat_reconnects :: u64

record v1_up =
  uc_running :: bool
  uc_active_active :: bool
  uc_nonce_bytes_cfg :: u8
  uc_reconnect_min :: nat
  uc_reconnect_max :: nat
  uc_idle_timeout :: nat
  uc_enable_rolling :: bool
  uc_rolling_mask :: u32
  uc_links :: "v1_link list"
  uc_primary :: int
  uc_waiters :: "nat list"

datatype v1_effect =
  Dial nat u64
| Send_Up nat string
| Close_Up nat
| Reconnect_After nat nat
| Sink_Job nat proxy_notify
| Sink_Diff nat rat
| Sink_Extranonce nat hex nat
| Sink_State nat bool
| Sink_Rebind nat proxy_slot "proxy_notify option" rat
| Answer_Submit nat bool string

type_synonym v1_step = "v1_up \<times> v1_effect list"

text \<open>An endpoint of the configuration: user, password, weight, priority.\<close>

record v1_endpoint =
  ue_user :: string
  ue_pass :: string
  ue_weight :: u32
  ue_priority :: int

definition v1_new_link :: "nat \<Rightarrow> v1_endpoint \<Rightarrow> v1_link" where
  "v1_new_link i e =
     \<lparr>ul_user = ue_user e, ul_pass = ue_pass e, ul_weight = ue_weight e, ul_index = int i, ul_conn = None, ul_gen = 0,
      ul_backoff = 0, ul_last_rx = 0, ul_next_id = 1, ul_id_configure = 0, ul_id_subscribe = 0, ul_id_authorize = 0,
      ul_pending = [], ul_connected = False, ul_authorized = False, ul_subscribed = False, ul_en1 = [], ul_en2_size = 0,
      ul_version_mask = 0, ul_diff = 1, ul_cur_job = None, ul_job_seq = 0, ul_slot_span = 0, ul_nonce_bytes = 0,
      ul_next_slot = 0, ul_subscribers = [], ul_stat_jobs = 0, ul_stat_forwarded = 0, ul_stat_accepted = 0,
      ul_stat_rejected = 0, ul_stat_reconnects = 0\<rparr>"

text \<open>The constructor: endpoints in priority order, ties in configuration order (\<open>stable_sort\<close>).\<close>

definition v1_new :: "string \<Rightarrow> u8 \<Rightarrow> nat \<Rightarrow> nat \<Rightarrow> nat \<Rightarrow> bool \<Rightarrow> u32 \<Rightarrow> v1_endpoint list \<Rightarrow> v1_up" where
  "v1_new mode nonceBytes rmin rmax idle rolling m endpoints =
     (let eps = sort_key ue_priority endpoints in
      \<lparr>uc_running = False, uc_active_active = (mode = ''activeactive'' \<or> mode = ''active-active''),
       uc_nonce_bytes_cfg = nonceBytes, uc_reconnect_min = rmin, uc_reconnect_max = rmax, uc_idle_timeout = idle,
       uc_enable_rolling = rolling, uc_rolling_mask = m,
       uc_links = map (\<lambda>i. v1_new_link i (eps ! i)) [0..<length eps], uc_primary = -1, uc_waiters = []\<rparr>)"

definition set_link :: "nat \<Rightarrow> v1_link \<Rightarrow> v1_up \<Rightarrow> v1_up" where
  "set_link i L s = s\<lparr>uc_links := (uc_links s)[i := L]\<rparr>"

abbreviation link :: "v1_up \<Rightarrow> nat \<Rightarrow> v1_link" where
  "link s i \<equiv> uc_links s ! i"

section \<open>Connections\<close>

definition v1_connect :: "nat \<Rightarrow> nat \<Rightarrow> v1_up \<Rightarrow> v1_step" where
  "v1_connect now i s =
     (if \<not> uc_running s then (s, [])
      else
        let L = link s i;
            L = L\<lparr>ul_connected := False, ul_authorized := False, ul_subscribed := False, ul_id_configure := 0,
                  ul_id_subscribe := 0, ul_id_authorize := 0, ul_pending := [], ul_last_rx := now,
                  ul_gen := ul_gen L + 1, ul_conn := Some False\<rparr>
        in (set_link i L s, [Dial i (ul_gen L)]))"

text \<open>\<open>start\<close>: every link dials.\<close>

fun v1_connect_all :: "nat \<Rightarrow> nat list \<Rightarrow> v1_up \<Rightarrow> v1_step" where
  "v1_connect_all now [] s = (s, [])"
| "v1_connect_all now (i # is) s =
     (let (s, e) = v1_connect now i s; (s, es) = v1_connect_all now is s in (s, e @ es))"

definition v1_start :: "nat \<Rightarrow> v1_up \<Rightarrow> v1_step" where
  "v1_start now s =
     (if uc_links s = [] then (s, [])
      else v1_connect_all now [0..<length (uc_links s)] (s\<lparr>uc_running := True\<rparr>))"

text \<open>\<open>L.conn->close(reason)\<close>: the first call closes the transport, whose close handler comes as an event.\<close>

definition v1_close_conn :: "nat \<Rightarrow> v1_up \<Rightarrow> v1_step" where
  "v1_close_conn i s =
     (if ul_conn (link s i) = Some False then (set_link i ((link s i)\<lparr>ul_conn := Some True\<rparr>) s, [Close_Up i]) else (s, []))"

definition v1_stop :: "v1_up \<Rightarrow> v1_step" where
  "v1_stop s =
     (s\<lparr>uc_running := False, uc_links := map (\<lambda>L. L\<lparr>ul_conn := None\<rparr>) (uc_links s)\<rparr>,
      map Close_Up (filter (\<lambda>i. ul_conn (link s i) = Some False) [0..<length (uc_links s)]))"

definition v1_schedule_reconnect :: "nat \<Rightarrow> v1_up \<Rightarrow> v1_step" where
  "v1_schedule_reconnect i s =
     (if \<not> uc_running s then (s, [])
      else
        let L = link s i;
            lo = (if uc_reconnect_min s > 0 then uc_reconnect_min s else 2);
            hi = (if uc_reconnect_max s > 0 then uc_reconnect_max s else 30);
            delay = min hi (lo * 2 ^ min (ul_backoff L) 5)
        in (set_link i (L\<lparr>ul_backoff := min (ul_backoff L + 1) 6\<rparr>) s, [Reconnect_After i (max delay lo)]))"

text \<open>One tick of the watchdog on one link: times are nanoseconds of the steady clock.\<close>

definition secs :: "nat \<Rightarrow> nat \<Rightarrow> nat" where "secs now t = (now - t) div 1000000000"

definition v1_watch_link :: "nat \<Rightarrow> nat \<Rightarrow> v1_up \<Rightarrow> v1_step" where
  "v1_watch_link now i s =
     (let idle_to = (if uc_idle_timeout s > 0 then uc_idle_timeout s else 90);
          L = link s i;
          (s, e) = (if ul_connected L \<and> ul_conn L \<noteq> None \<and> secs now (ul_last_rx L) > idle_to
                    then v1_close_conn i s else (s, []));
          L = link s i;
          late = (\<lambda>(_, _, ts). secs now ts > 30);
          answers = concat (map (\<lambda>(_, cb, _). case cb of Some c \<Rightarrow> [Answer_Submit c False ''timeout''] | None \<Rightarrow> [])
                      (filter late (ul_pending L)))
      in (set_link i (L\<lparr>ul_pending := filter (\<lambda>p. \<not> late p) (ul_pending L)\<rparr>) s, e @ answers))"

fun v1_watch :: "nat \<Rightarrow> nat list \<Rightarrow> v1_up \<Rightarrow> v1_step" where
  "v1_watch now [] s = (s, [])"
| "v1_watch now (i # is) s = (let (s, e) = v1_watch_link now i s; (s, es) = v1_watch now is s in (s, e @ es))"

definition v1_watchdog :: "nat \<Rightarrow> v1_up \<Rightarrow> v1_step" where
  "v1_watchdog now s = (if \<not> uc_running s then (s, []) else v1_watch now [0..<length (uc_links s)] s)"

section \<open>Requests\<close>

definition json_escape :: "string \<Rightarrow> string" where
  "json_escape s = concat (map (\<lambda>c. if c = CHR 0x22 \<or> c = CHR 0x5C then [CHR 0x5C, c] else [c]) s)"

definition rpc_line :: "u64 \<Rightarrow> string \<Rightarrow> string \<Rightarrow> string" where
  "rpc_line rid method params =
     ''{'' @ quoted ''id'' @ '':'' @ dec_string (unat rid) @ '','' @ quoted ''method'' @ '':'' @ quoted method
       @ '','' @ quoted ''params'' @ '':['' @ params @ '']}'' @ [CHR 10]"

definition send_up :: "nat \<Rightarrow> v1_link \<Rightarrow> string \<Rightarrow> v1_effect list" where
  "send_up i L line = (if ul_conn L = None then [] else [Send_Up i line])"

definition v1_send_configure :: "nat \<Rightarrow> v1_up \<Rightarrow> v1_step" where
  "v1_send_configure i s =
     (if \<not> uc_enable_rolling s then (s, [])
      else
        let L = link s i; rid = ul_next_id L; L = L\<lparr>ul_id_configure := rid, ul_next_id := rid + 1\<rparr>
        in (set_link i L s,
            send_up i L (rpc_line rid ''mining.configure''
              (''['' @ quoted ''version-rolling'' @ ''],{'' @ quoted ''version-rolling.mask'' @ '':''
               @ quoted (int_to_hex (uc_rolling_mask s) 8) @ ''}''))))"

definition v1_send_subscribe :: "nat \<Rightarrow> v1_up \<Rightarrow> v1_step" where
  "v1_send_subscribe i s =
     (let L = link s i; rid = ul_next_id L; L = L\<lparr>ul_id_subscribe := rid, ul_next_id := rid + 1\<rparr>
      in (set_link i L s, send_up i L (rpc_line rid ''mining.subscribe'' (quoted ''mkpool-proxy/1.0''))))"

definition v1_send_authorize :: "nat \<Rightarrow> v1_up \<Rightarrow> v1_step" where
  "v1_send_authorize i s =
     (let L = link s i; rid = ul_next_id L; L = L\<lparr>ul_id_authorize := rid, ul_next_id := rid + 1\<rparr>
      in (set_link i L s,
          send_up i L (rpc_line rid ''mining.authorize''
            (quoted (json_escape (ul_user L)) @ '','' @ quoted (json_escape (ul_pass L))))))"

definition v1_on_open :: "nat \<Rightarrow> nat \<Rightarrow> v1_up \<Rightarrow> v1_step" where
  "v1_on_open now i s =
     (let s = set_link i ((link s i)\<lparr>ul_connected := True, ul_last_rx := now\<rparr>) s;
          (s, e1) = v1_send_configure i s; (s, e2) = v1_send_subscribe i s; (s, e3) = v1_send_authorize i s
      in (s, e1 @ e2 @ e3))"

section \<open>Assignment of sessions to links\<close>

definition v1_link_ready :: "v1_link \<Rightarrow> bool" where
  "v1_link_ready L \<longleftrightarrow>
     ul_connected L \<and> ul_authorized L \<and> ul_subscribed L \<and> ul_en1 L \<noteq> [] \<and> ul_slot_span L > 0 \<and>
     ul_nonce_bytes L > 0 \<and> length (ul_subscribers L) < unat (ul_slot_span L)"

text \<open>The weighted least load, the first link among equals; the loads are doubles.\<close>

definition link_load :: "v1_link \<Rightarrow> rat" where
  "link_load L = dbl (of_nat (length (ul_subscribers L)) / of_nat (max 1 (unat (ul_weight L))))"

fun least_loaded :: "v1_link list \<Rightarrow> (v1_link \<Rightarrow> bool) \<Rightarrow> (rat \<times> int) option \<Rightarrow> (rat \<times> int) option" where
  "least_loaded [] ok best = best"
| "least_loaded (L # Ls) ok best =
     (if ok L \<and> (case best of None \<Rightarrow> True | Some (b, _) \<Rightarrow> link_load L < b)
      then least_loaded Ls ok (Some (link_load L, ul_index L))
      else least_loaded Ls ok best)"

definition best_index :: "(rat \<times> int) option \<Rightarrow> int" where
  "best_index b = (case b of None \<Rightarrow> -1 | Some (_, i) \<Rightarrow> i)"

definition first_ready :: "v1_link list \<Rightarrow> (v1_link \<Rightarrow> bool) \<Rightarrow> int" where
  "first_ready Ls ok = (case filter ok Ls of [] \<Rightarrow> -1 | L # _ \<Rightarrow> ul_index L)"

definition v1_pick_link :: "v1_up \<Rightarrow> int" where
  "v1_pick_link s =
     (if uc_active_active s then best_index (least_loaded (uc_links s) v1_link_ready None)
      else if uc_primary s \<ge> 0 \<and> uc_primary s < int (length (uc_links s)) \<and> v1_link_ready (link s (nat (uc_primary s)))
      then uc_primary s
      else first_ready (uc_links s) v1_link_ready)"

text \<open>The search of a free slot, at most \<open>slot_span\<close> candidates from \<open>next_slot\<close> on.\<close>

fun v1_find_slot :: "nat \<Rightarrow> v1_link \<Rightarrow> u32 option \<times> v1_link" where
  "v1_find_slot 0 L = (None, L)"
| "v1_find_slot (Suc tries) L =
     (let cand = ul_next_slot L; L = L\<lparr>ul_next_slot := (cand + 1) mod ul_slot_span L\<rparr>
      in if cand \<in> fst ` set (ul_subscribers L) then v1_find_slot tries L else (Some cand, L))"

definition v1_allocate :: "v1_link \<Rightarrow> nat \<Rightarrow> proxy_slot \<times> v1_link" where
  "v1_allocate L sink =
     (if \<not> v1_link_ready L then (no_slot, L)
      else case v1_find_slot (unat (ul_slot_span L)) L of
        (None, L) \<Rightarrow> (no_slot, L)
      | (Some cand, L) \<Rightarrow>
          let nb = unat (ul_nonce_bytes L);
              slot_hex = pad_hex (unat cand) (nb * 2)
          in (\<lparr>ps_ok = True, ps_link_id = ul_index L, ps_slot_id = cand, ps_slot_hex = slot_hex,
               ps_en1_hex = ul_en1 L @ slot_hex, ps_en2_size = (if ul_en2_size L > nb then ul_en2_size L - nb else 0)\<rparr>,
              L\<lparr>ul_subscribers := ul_subscribers L @ [(cand, sink, slot_hex)]\<rparr>))"

definition v1_attach :: "nat \<Rightarrow> v1_up \<Rightarrow> proxy_slot \<times> v1_up" where
  "v1_attach sink s =
     (let i = v1_pick_link s
      in if i < 0 then (no_slot, s)
         else
           let s = (if uc_active_active s then s else s\<lparr>uc_primary := i\<rparr>);
               (slot, L) = v1_allocate (link s (nat i)) sink
           in (slot, set_link (nat i) L s))"

definition v1_detach :: "int \<Rightarrow> u32 \<Rightarrow> v1_up \<Rightarrow> v1_up" where
  "v1_detach link_id slot_id s =
     (if link_id < 0 \<or> link_id \<ge> int (length (uc_links s)) then s
      else let L = link s (nat link_id)
           in set_link (nat link_id) (L\<lparr>ul_subscribers := filter (\<lambda>x. fst x \<noteq> slot_id) (ul_subscribers L)\<rparr>) s)"

definition v1_register_waiter :: "nat \<Rightarrow> v1_up \<Rightarrow> v1_up" where
  "v1_register_waiter sink s = s\<lparr>uc_waiters := uc_waiters s @ [sink]\<rparr>"

definition v1_notify_waiters :: "(nat \<Rightarrow> bool) \<Rightarrow> v1_up \<Rightarrow> v1_step" where
  "v1_notify_waiters live s = (s\<lparr>uc_waiters := []\<rparr>, map (\<lambda>w. Sink_State w True) (filter live (uc_waiters s)))"

definition v1_link_sinks :: "(nat \<Rightarrow> bool) \<Rightarrow> v1_link \<Rightarrow> nat list" where
  "v1_link_sinks live L = filter live (map (\<lambda>(_, k, _). k) (ul_subscribers L))"

section \<open>Migration\<close>

text \<open>One subscriber of the failed link \<open>i\<close>: dropped when dead, rebound to the target link when it has a free
  slot, otherwise left in place. The accumulator holds the rebinds, the stranded sinks and the slots to
  erase.\<close>

definition migration_target :: "nat \<Rightarrow> v1_up \<Rightarrow> int \<Rightarrow> int" where
  "migration_target i s failover =
     (if uc_active_active s
      then best_index (least_loaded (uc_links s) (\<lambda>L. ul_index L \<noteq> int i \<and> v1_link_ready L) None)
      else failover)"

type_synonym migration = "(nat \<times> proxy_slot \<times> proxy_notify option \<times> rat) list \<times> nat list \<times> u32 list"

definition migrate_one :: "(nat \<Rightarrow> bool) \<Rightarrow> nat \<Rightarrow> int \<Rightarrow> u32 \<times> nat \<times> hex \<Rightarrow> v1_up \<times> migration \<Rightarrow> v1_up \<times> migration" where
  "migrate_one live i failover = (\<lambda>(sid, sink, _) (s, reassigns, stranded, gone).
     if \<not> live sink then (s, reassigns, stranded, gone @ [sid])
     else
       let t = migration_target i s failover
       in if t < 0 then (s, reassigns, stranded @ [sink], gone)
          else
            let (ns, L) = v1_allocate (link s (nat t)) sink; s = set_link (nat t) L s
            in if \<not> ps_ok ns then (s, reassigns, stranded @ [sink], gone)
               else (s, reassigns @ [(sink, ns, ul_cur_job L, ul_diff L)], stranded, gone @ [sid]))"

definition v1_migrate :: "(nat \<Rightarrow> bool) \<Rightarrow> nat \<Rightarrow> v1_up \<Rightarrow> v1_step" where
  "v1_migrate live i s =
     (let s = (if uc_primary s = int i then s\<lparr>uc_primary := -1\<rparr> else s);
          failover = (if uc_active_active s then -1
                      else first_ready (uc_links s) (\<lambda>L. ul_index L \<noteq> int i \<and> v1_link_ready L));
          s = (if \<not> uc_active_active s \<and> failover \<ge> 0 then s\<lparr>uc_primary := failover\<rparr> else s);
          (s, reassigns, stranded, gone) = fold (migrate_one live i failover) (ul_subscribers (link s i)) (s, [], [], []);
          L = link s i;
          s = set_link i (L\<lparr>ul_subscribers := filter (\<lambda>x. fst x \<notin> set gone) (ul_subscribers L)\<rparr>) s
      in (s, map (\<lambda>(k, ns, job, d). Sink_Rebind k ns job d) reassigns @ map (\<lambda>k. Sink_State k False) stranded))"

definition v1_on_close :: "(nat \<Rightarrow> bool) \<Rightarrow> nat \<Rightarrow> v1_up \<Rightarrow> v1_step" where
  "v1_on_close live i s =
     (let L = link s i;
          s = set_link i (L\<lparr>ul_connected := False, ul_authorized := False, ul_subscribed := False,
                           ul_stat_reconnects := ul_stat_reconnects L + 1\<rparr>) s;
          (s, e1) = v1_migrate live i s; (s, e2) = v1_schedule_reconnect i s
      in (s, e1 @ e2))"

section \<open>Messages of the pool\<close>

definition v1_set_extranonce :: "(nat \<Rightarrow> bool) \<Rightarrow> nat \<Rightarrow> hex \<Rightarrow> nat \<Rightarrow> bool \<Rightarrow> v1_up \<Rightarrow> v1_step" where
  "v1_set_extranonce live i en1 en2_size reconnect s =
     (let want = (if uc_nonce_bytes_cfg s \<noteq> 0 then uc_nonce_bytes_cfg s else 2);
          eff = (if en2_size \<le> 1 then 0 else if unat want \<ge> en2_size then of_nat (en2_size - 1) else want) :: u8;
          L = (link s i)\<lparr>ul_en1 := en1, ul_en2_size := en2_size, ul_nonce_bytes := eff,
                ul_slot_span := (if eff = 0 then 1 else push_bit (8 * unat eff) 1)\<rparr>;
          down_en2 = (if en2_size > unat eff then en2_size - unat eff else 0)
      in (set_link i L s,
          if reconnect
          then map (\<lambda>(_, k, slot_hex). Sink_Extranonce k (en1 @ slot_hex) down_en2) (filter (\<lambda>(_, k, _). live k) (ul_subscribers L))
          else []))"

definition v1_set_diff :: "(nat \<Rightarrow> bool) \<Rightarrow> nat \<Rightarrow> rat \<Rightarrow> v1_up \<Rightarrow> v1_step" where
  "v1_set_diff live i diff s =
     (if diff \<le> 0 then (s, [])
      else (set_link i ((link s i)\<lparr>ul_diff := diff\<rparr>) s, map (\<lambda>k. Sink_Diff k diff) (v1_link_sinks live (link s i))))"

text \<open>The fields of a \<open>mining.notify\<close>; any failed conversion discards the message.\<close>

definition some_of :: "'a option \<Rightarrow> 'a res" where
  "some_of x = (case x of Some v \<Rightarrow> Inr v | None \<Rightarrow> Inl (Invalid_Argument ''stoul''))"

definition v1_parse_notify :: "json list \<Rightarrow> proxy_notify res" where
  "v1_parse_notify ps =
     bindE (get_string (ps ! 0)) (\<lambda>job_id. bindE (get_string (ps ! 1)) (\<lambda>prevhash.
     bindE (get_string (ps ! 2)) (\<lambda>cb1. bindE (get_string (ps ! 3)) (\<lambda>cb2.
     bindE (get_string (ps ! 6)) (\<lambda>bits. bindE (get_string (ps ! 7)) (\<lambda>ntime.
     bindE (get_string (ps ! 5)) (\<lambda>vs. bindE (some_of (parse_hex_any_u32 vs)) (\<lambda>version.
     bindE (some_of (parse_hex_any_u32 ntime)) (\<lambda>mintime. bindE (target_from_bits_hex bits) (\<lambda>target.
       Inr \<lparr>pn_notify_line = [], pn_job_id = job_id, pn_prevhash_stratum = prevhash, pn_coinbase1 = cb1,
            pn_coinbase2 = cb2, pn_merkle_branch = concat (map (\<lambda>b. case b of JStr h \<Rightarrow> [h] | _ \<Rightarrow> []) (jelems (ps ! 4))),
            pn_version = version, pn_bits = bits, pn_ntime = ntime, pn_mintime = mintime,
            pn_clean = (ps ! 8 = JBool True), pn_net_target_be = target, pn_seq = 0\<rparr>))))))))))"

definition v1_broadcast_notify ::
    "(json \<Rightarrow> string res) \<Rightarrow> (nat \<Rightarrow> bool) \<Rightarrow> nat \<Rightarrow> json list \<Rightarrow> v1_up \<Rightarrow> v1_step res" where
  "v1_broadcast_notify dump live i ps s =
     (if length ps < 9 then Inr (s, [])
      else case v1_parse_notify ps of
        Inl _ \<Rightarrow> Inr (s, [])
      | Inr job \<Rightarrow>
          bindE (dump (JObj [(''id'', JNull), (''method'', JStr ''mining.notify''), (''params'', JArr ps)])) (\<lambda>text.
            let L = link s i; seq = ul_job_seq L + 1;
                job = job\<lparr>pn_notify_line := text @ [CHR 10], pn_seq := seq\<rparr>;
                L = L\<lparr>ul_job_seq := seq, ul_cur_job := Some job, ul_stat_jobs := ul_stat_jobs L + 1\<rparr>
            in Inr (set_link i L s, map (\<lambda>k. Sink_Job k job) (v1_link_sinks live L))))"

text \<open>The answers to our requests. A request id of 0 is not outstanding. When the error of a refused share
  cannot be printed, the exception leaves the submit pending and only the counter is changed.\<close>

definition v1_on_configure_result :: "nat \<Rightarrow> json \<Rightarrow> v1_up \<Rightarrow> v1_up" where
  "v1_on_configure_result i msg s =
     (case jfield msg ''result'' of
        Some (JObj kvs) \<Rightarrow>
          let m = (case (map_of kvs ''version-rolling'', map_of kvs ''version-rolling.mask'') of
                     (Some (JBool True), Some (JStr h)) \<Rightarrow> (case parse_hex_any_u32 h of Some v \<Rightarrow> v | None \<Rightarrow> 0)
                   | _ \<Rightarrow> 0)
          in set_link i ((link s i)\<lparr>ul_version_mask := m\<rparr>) s
      | _ \<Rightarrow> s)"

definition v1_on_subscribe_result :: "(nat \<Rightarrow> bool) \<Rightarrow> nat \<Rightarrow> json \<Rightarrow> v1_up \<Rightarrow> v1_step" where
  "v1_on_subscribe_result live i msg s =
     (case jfield msg ''result'' of
        Some (JArr (_ # e1 # e2 # _)) \<Rightarrow>
          let en1 = (case e1 of JStr h \<Rightarrow> h | _ \<Rightarrow> []);
              en2 = (case e2 of JInt n \<Rightarrow> unat (of_int n :: u64) | _ \<Rightarrow> 0);
              (s, e) = v1_set_extranonce live i en1 en2 False s
          in (set_link i ((link s i)\<lparr>ul_subscribed := True\<rparr>) s, e)
      | _ \<Rightarrow> v1_close_conn i s)"

definition v1_on_authorize_result :: "(nat \<Rightarrow> bool) \<Rightarrow> nat \<Rightarrow> json \<Rightarrow> v1_up \<Rightarrow> v1_step" where
  "v1_on_authorize_result live i msg s =
     (if jfield msg ''result'' \<noteq> Some (JBool True) then v1_close_conn i s
      else v1_notify_waiters live (set_link i ((link s i)\<lparr>ul_authorized := True, ul_backoff := 0\<rparr>) s))"

definition v1_on_submit_result :: "(json \<Rightarrow> string res) \<Rightarrow> nat \<Rightarrow> u64 \<Rightarrow> json \<Rightarrow> v1_up \<Rightarrow> v1_step" where
  "v1_on_submit_result dump i rid msg s =
     (let L = link s i; err_null = (jfield msg ''error'' = None \<or> jfield msg ''error'' = Some JNull) in
      case map_of (ul_pending L) rid of
        None \<Rightarrow> (s, [])
      | Some (cb, _) \<Rightarrow>
          let accepted = (err_null \<and> jfield msg ''result'' = Some (JBool True));
              L = (if accepted then L\<lparr>ul_stat_accepted := ul_stat_accepted L + 1\<rparr>
                   else L\<lparr>ul_stat_rejected := ul_stat_rejected L + 1\<rparr>)
          in (case if accepted \<or> err_null then Inr [] else dump (the (jfield msg ''error'')) of
                Inl _ \<Rightarrow> (set_link i L s, [])
              | Inr err \<Rightarrow>
                  (set_link i (L\<lparr>ul_pending := filter (\<lambda>p. fst p \<noteq> rid) (ul_pending L)\<rparr>) s,
                   case cb of Some c \<Rightarrow> [Answer_Submit c accepted err] | None \<Rightarrow> [])))"

definition v1_handle_result :: "(json \<Rightarrow> string res) \<Rightarrow> (nat \<Rightarrow> bool) \<Rightarrow> nat \<Rightarrow> json \<Rightarrow> v1_up \<Rightarrow> v1_step" where
  "v1_handle_result dump live i msg s =
     (case jfield msg ''id'' of
        Some (JInt n) \<Rightarrow>
          let rid = of_int n :: u64; L = link s i
          in if rid = ul_id_configure L \<and> ul_id_configure L \<noteq> 0 then (v1_on_configure_result i msg s, [])
             else if rid = ul_id_subscribe L \<and> ul_id_subscribe L \<noteq> 0 then v1_on_subscribe_result live i msg s
             else if rid = ul_id_authorize L \<and> ul_id_authorize L \<noteq> 0 then v1_on_authorize_result live i msg s
             else v1_on_submit_result dump i rid msg s
      | _ \<Rightarrow> (s, []))"

definition v1_handle_method ::
    "(json \<Rightarrow> string res) \<Rightarrow> (nat \<Rightarrow> bool) \<Rightarrow> nat \<Rightarrow> string \<Rightarrow> json \<Rightarrow> v1_up \<Rightarrow> v1_step res" where
  "v1_handle_method dump live i method msg s =
     (let params = (case jfield msg ''params'' of Some (JArr ps) \<Rightarrow> Some ps | _ \<Rightarrow> None) in
      if method = ''mining.set_difficulty'' then
        (case params of
           Some (p # _) \<Rightarrow> if is_number p then bindE (get_double p) (\<lambda>d. Inr (v1_set_diff live i d s)) else Inr (s, [])
         | _ \<Rightarrow> Inr (s, []))
      else if method = ''mining.notify'' then
        (case params of Some ps \<Rightarrow> v1_broadcast_notify dump live i ps s | None \<Rightarrow> Inr (s, []))
      else if method = ''mining.set_extranonce'' then
        (case params of
           Some (JStr en1 # e2 # _) \<Rightarrow>
             let en2 = (case e2 of JInt n \<Rightarrow> unat (of_int n :: u64) | JFloat x \<Rightarrow> unat (of_int (trunc x) :: u64)
                        | _ \<Rightarrow> ul_en2_size (link s i))
             in Inr (v1_set_extranonce live i en1 en2 True s)
         | _ \<Rightarrow> Inr (s, []))
      else if method = ''mining.set_version_mask'' then
        (case params of
           Some (JStr h # _) \<Rightarrow>
             (case parse_hex_any_u32 h of
                Some m \<Rightarrow> Inr (set_link i ((link s i)\<lparr>ul_version_mask := m\<rparr>) s, [])
              | None \<Rightarrow> Inr (s, []))
         | _ \<Rightarrow> Inr (s, []))
      else if method = ''client.reconnect'' then Inr (v1_close_conn i s)
      else Inr (s, []))"

text \<open>\<open>on_line\<close>: \<open>None\<close> is a line that does not parse. An exception of a handler is logged and dropped.\<close>

definition v1_on_line :: "(json \<Rightarrow> string res) \<Rightarrow> (nat \<Rightarrow> bool) \<Rightarrow> nat \<Rightarrow> nat \<Rightarrow> json option \<Rightarrow> v1_up \<Rightarrow> v1_step" where
  "v1_on_line dump live now i line s =
     (let s = set_link i ((link s i)\<lparr>ul_last_rx := now\<rparr>) s in
      case line of
        Some (JObj kvs) \<Rightarrow>
          let r = (case map_of kvs ''method'' of
                     Some (JStr m) \<Rightarrow> v1_handle_method dump live i m (JObj kvs) s
                   | _ \<Rightarrow> if map_of kvs ''id'' \<noteq> None then Inr (v1_handle_result dump live i (JObj kvs) s) else Inr (s, []))
          in (case r of Inr t \<Rightarrow> t | Inl _ \<Rightarrow> (s, []))
      | _ \<Rightarrow> (s, []))"

section \<open>Submitting\<close>

definition v1_submit :: "nat \<Rightarrow> int \<Rightarrow> upstream_submit \<Rightarrow> nat option \<Rightarrow> v1_up \<Rightarrow> v1_step" where
  "v1_submit now link_id sub cb s =
     (let answer = (\<lambda>why. case cb of Some c \<Rightarrow> [Answer_Submit c False why] | None \<Rightarrow> []) in
      if link_id < 0 \<or> link_id \<ge> int (length (uc_links s)) then (s, answer ''bad link'')
      else
        let i = nat link_id; L = link s i; L = L\<lparr>ul_stat_forwarded := ul_stat_forwarded L + 1\<rparr>
        in if ul_conn L \<noteq> Some False
           then (set_link i (L\<lparr>ul_stat_rejected := ul_stat_rejected L + 1\<rparr>) s, answer ''upstream down'')
           else
             let rid = ul_next_id L;
                 vpart = (case us_version_bits sub of Some v \<Rightarrow> '','' @ quoted (int_to_hex v 8) | None \<Rightarrow> []);
                 line = rpc_line rid ''mining.submit''
                   (quoted (json_escape (ul_user L)) @ '','' @ quoted (us_job_id sub) @ '','' @ quoted (us_en2_full_hex sub)
                    @ '','' @ quoted (us_ntime_hex sub) @ '','' @ quoted (us_nonce_hex sub) @ vpart);
                 pend = (if rid \<in> fst ` set (ul_pending L) then ul_pending L else ul_pending L @ [(rid, cb, now)])
             in (set_link i (L\<lparr>ul_next_id := rid + 1, ul_pending := pend\<rparr>) s, [Send_Up i line]))"

definition v1_current_job :: "int \<Rightarrow> v1_up \<Rightarrow> proxy_notify option" where
  "v1_current_job link_id s =
     (if link_id < 0 \<or> link_id \<ge> int (length (uc_links s)) then None else ul_cur_job (link s (nat link_id)))"

definition v1_current_diff :: "int \<Rightarrow> v1_up \<Rightarrow> rat" where
  "v1_current_diff link_id s =
     (if link_id < 0 \<or> link_id \<ge> int (length (uc_links s)) then 1 else ul_diff (link s (nat link_id)))"

definition v1_any_ready :: "v1_up \<Rightarrow> bool" where
  "v1_any_ready s \<longleftrightarrow> list_ex v1_link_ready (uc_links s)"

section \<open>Events\<close>

datatype v1_event =
  V1_Start nat
| V1_Stop
| V1_Redial nat nat
| V1_Watchdog nat
| V1_Transport_Closed nat
| V1_Opened nat nat u64
| V1_Closed nat u64
| V1_Line nat nat u64 "json option"
| V1_Attach nat
| V1_Detach int u32
| V1_Wait nat
| V1_Submit nat int upstream_submit "nat option"

text \<open>Callbacks of a connection that is not the link's current one are dropped (\<open>conn_gen\<close>); indices are those
  of links.\<close>

definition v1_exec :: "(json \<Rightarrow> string res) \<Rightarrow> (nat \<Rightarrow> bool) \<Rightarrow> v1_event \<Rightarrow> v1_up \<Rightarrow> v1_step" where
  "v1_exec dump live e s =
     (let current = (\<lambda>i gen. i < length (uc_links s) \<and> ul_gen (link s i) = gen) in
      case e of
        V1_Start now \<Rightarrow> v1_start now s
      | V1_Stop \<Rightarrow> v1_stop s
      | V1_Redial now i \<Rightarrow> if i < length (uc_links s) then v1_connect now i s else (s, [])
      | V1_Watchdog now \<Rightarrow> v1_watchdog now s
      | V1_Transport_Closed i \<Rightarrow>
          if i < length (uc_links s) \<and> ul_conn (link s i) \<noteq> None
          then (set_link i ((link s i)\<lparr>ul_conn := Some True\<rparr>) s, []) else (s, [])
      | V1_Opened now i gen \<Rightarrow> if current i gen then v1_on_open now i s else (s, [])
      | V1_Closed i gen \<Rightarrow> if current i gen then v1_on_close live i s else (s, [])
      | V1_Line now i gen line \<Rightarrow> if current i gen then v1_on_line dump live now i line s else (s, [])
      | V1_Attach sink \<Rightarrow> (snd (v1_attach sink s), [])
      | V1_Detach link_id slot_id \<Rightarrow> (v1_detach link_id slot_id s, [])
      | V1_Wait sink \<Rightarrow> (v1_register_waiter sink s, [])
      | V1_Submit now link_id sub cb \<Rightarrow> v1_submit now link_id sub cb s)"

section \<open>Slots\<close>

text \<open>The part of a link the slot allocator owns, and when it is in order: the slots of the subscribers are
  distinct numbers of the link's width, printed in that width.\<close>

definition slots :: "v1_link \<Rightarrow> int \<times> u8 \<times> u32 \<times> u32 \<times> (u32 \<times> nat \<times> hex) list" where
  "slots L = (ul_index L, ul_nonce_bytes L, ul_slot_span L, ul_next_slot L, ul_subscribers L)"

abbreviation nb :: "v1_link \<Rightarrow> nat" where "nb L \<equiv> unat (ul_nonce_bytes L)"

definition link_ok :: "v1_link \<Rightarrow> bool" where
  "link_ok L \<longleftrightarrow>
     distinct (map fst (ul_subscribers L)) \<and>
     (\<forall>(c, k, h) \<in> set (ul_subscribers L). unat c < 256 ^ nb L \<and> h = hex_width (2 * nb L) (unat c)) \<and>
     (nb L = 0 \<longrightarrow> ul_subscribers L = [] \<and> ul_next_slot L = 0) \<and>
     (0 < nb L \<longrightarrow> nb L \<le> 3 \<and> unat (ul_slot_span L) = 256 ^ nb L \<and> unat (ul_next_slot L) < 256 ^ nb L)"

definition v1_inv :: "v1_up \<Rightarrow> bool" where
  "v1_inv s \<longleftrightarrow> unat (uc_nonce_bytes_cfg s) \<le> 3 \<and>
     (\<forall>i < length (uc_links s). link_ok (link s i) \<and> ul_index (link s i) = int i)"

definition same_slots :: "v1_up \<Rightarrow> v1_up \<Rightarrow> bool" where
  "same_slots s t \<longleftrightarrow> uc_nonce_bytes_cfg t = uc_nonce_bytes_cfg s \<and> map slots (uc_links t) = map slots (uc_links s)"

lemma same_slots_refl [simp]: "same_slots s s"
  by (simp add: same_slots_def)

lemma same_slots_trans: "same_slots s t \<Longrightarrow> same_slots t u \<Longrightarrow> same_slots s u"
  by (simp add: same_slots_def)

lemma same_slots_set_link: "slots L = slots (link s i) \<Longrightarrow> same_slots s (set_link i L s)"
  by (simp add: same_slots_def set_link_def map_update list_update_same_conv)
    (metis (no_types, lifting) length_map list_update_beyond list_update_id map_update not_less nth_map)

lemma same_slots_length: "same_slots s t \<Longrightarrow> length (uc_links t) = length (uc_links s)"
  unfolding same_slots_def by (metis length_map)

lemma same_slots_link: "same_slots s t \<Longrightarrow> i < length (uc_links s) \<Longrightarrow> slots (link t i) = slots (link s i)"
  using same_slots_length[of s t] unfolding same_slots_def by (metis nth_map)

lemma slots_ok: "slots L = slots M \<Longrightarrow> link_ok L = link_ok M \<and> ul_index L = ul_index M \<and> ul_nonce_bytes L = ul_nonce_bytes M
    \<and> ul_subscribers L = ul_subscribers M \<and> ul_next_slot L = ul_next_slot M \<and> ul_slot_span L = ul_slot_span M"
  by (simp add: slots_def link_ok_def)

lemma same_slots_sym: "same_slots s t \<Longrightarrow> same_slots t s"
  by (simp add: same_slots_def)

lemma same_slots_inv:
  assumes "same_slots s t" and "v1_inv s"
  shows "v1_inv t"
proof -
  have "link_ok (link t i) \<and> ul_index (link t i) = int i" if "i < length (uc_links t)" for i
    using assms that same_slots_length[OF assms(1)] slots_ok[OF same_slots_link[OF assms(1)], of i] by (simp add: v1_inv_def)
  then show ?thesis
    using assms by (simp add: v1_inv_def same_slots_def)
qed

lemma v1_inv_set_link:
  assumes "v1_inv s" and "i < length (uc_links s) \<Longrightarrow> link_ok L \<and> ul_index L = int i"
  shows "v1_inv (set_link i L s)"
proof -
  have "link_ok (link (set_link i L s) j) \<and> ul_index (link (set_link i L s) j) = int j" if "j < length (uc_links s)" for j
    using assms that by (cases "i = j") (simp_all add: v1_inv_def set_link_def)
  then show ?thesis
    using assms(1) by (simp add: v1_inv_def) (simp add: set_link_def)
qed

lemma length_set_link [simp]: "length (uc_links (set_link i L s)) = length (uc_links s)"
  by (simp add: set_link_def)

lemma active_set_link [simp]: "uc_active_active (set_link i L s) = uc_active_active s"
  by (simp add: set_link_def)

lemma link_set_link [simp]: "i < length (uc_links s) \<Longrightarrow> link (set_link i L s) i = L"
  by (simp add: set_link_def)

lemma link_set_link_other [simp]: "i \<noteq> j \<Longrightarrow> link (set_link i L s) j = link s j"
  by (simp add: set_link_def)

lemma v1_find_slot_finds:
  assumes "unat (ul_next_slot L) < unat (ul_slot_span L)"
    and "\<exists>j < t. of_nat ((unat (ul_next_slot L) + j) mod unat (ul_slot_span L)) \<notin> fst ` set (ul_subscribers L)"
  shows "\<exists>cand n. v1_find_slot t L = (Some cand, L\<lparr>ul_next_slot := n\<rparr>) \<and> cand \<notin> fst ` set (ul_subscribers L) \<and>
    unat cand < unat (ul_slot_span L) \<and> unat n < unat (ul_slot_span L)"
  using assms
proof (induction t arbitrary: L)
  case (Suc t)
  let ?c = "ul_next_slot L" and ?span = "ul_slot_span L"
  define M where "M = L\<lparr>ul_next_slot := (?c + 1) mod ?span\<rparr>"
  have "unat (?c + 1) = unat ?c + 1"
    using Suc.prems(1) unat_bounds(3)[of ?span] by (simp add: unat_word_ariths)
  then have nx: "unat ((?c + 1) mod ?span) = (unat ?c + 1) mod unat ?span"
    by (simp add: unat_mod_distrib)
  then have less: "unat ((?c + 1) mod ?span) < unat ?span"
    using Suc.prems(1) by simp
  show ?case
  proof (cases "?c \<in> fst ` set (ul_subscribers L)")
    case False
    with less Suc.prems(1) show ?thesis
      by (auto simp: Let_def)
  next
    case True
    obtain j where j: "j < Suc t" "of_nat ((unat ?c + j) mod unat ?span) \<notin> fst ` set (ul_subscribers L)"
      using Suc.prems(2) by blast
    have "j \<noteq> 0"
      using j(2) True Suc.prems(1) by (cases j) auto
    then obtain k where k: "j = Suc k" "k < t"
      using j(1) by (cases j) auto
    have "(unat ((?c + 1) mod ?span) + k) mod unat ?span = (unat ?c + j) mod unat ?span"
      unfolding nx k by (simp add: mod_simps)
    then have "\<exists>j < t. of_nat ((unat (ul_next_slot M) + j) mod unat (ul_slot_span M)) \<notin> fst ` set (ul_subscribers M)"
      using j(2) k(2) by (intro exI[of _ k]) (simp add: M_def)
    from Suc.IH[OF _ this] less show ?thesis
      using True by (auto simp: M_def Let_def)
  qed
qed simp

lemma free_slot_exists:
  assumes "length (ul_subscribers L) < unat (ul_slot_span L)" and "unat (ul_next_slot L) < unat (ul_slot_span L)"
  shows "\<exists>j < unat (ul_slot_span L). of_nat ((unat (ul_next_slot L) + j) mod unat (ul_slot_span L)) \<notin> fst ` set (ul_subscribers L)"
proof (rule ccontr)
  let ?n = "unat (ul_next_slot L)" and ?p = "unat (ul_slot_span L)" and ?used = "fst ` set (ul_subscribers L)"
  assume "\<not> ?thesis"
  then have all: "of_nat ((?n + j) mod ?p) \<in> ?used" if "j < ?p" for j
    using that by blast
  have "of_nat c \<in> ?used" if "c < ?p" for c
  proof (cases "?n \<le> c")
    case True
    then show ?thesis
      using all[of "c - ?n"] that by simp
  next
    case False
    then have "(?n + (c + ?p - ?n)) mod ?p = c" "c + ?p - ?n < ?p"
      using assms(2) that by simp_all
    then show ?thesis
      using all[of "c + ?p - ?n"] by simp
  qed
  then have "(of_nat :: nat \<Rightarrow> u32) ` {..<?p} \<subseteq> ?used"
    by auto
  moreover have "inj_on (of_nat :: nat \<Rightarrow> u32) {..<?p}"
    using unat_bounds(3)[of "ul_slot_span L"] by (intro inj_onI) (auto simp: word_unat_eq_iff unat_of_nat)
  ultimately have "?p \<le> card ?used"
    by (metis card_image card_lessThan card_mono finite_imageI finite_set)
  also have "\<dots> \<le> length (ul_subscribers L)"
    by (metis card_image_le card_length finite_set le_trans)
  finally show False
    using assms(1) by simp
qed

text \<open>A ready link in order always has a slot to give, and stays in order.\<close>

lemma v1_allocate_ready:
  assumes "link_ok L" and "v1_link_ready L"
  shows "\<exists>c n. v1_allocate L k =
      (\<lparr>ps_ok = True, ps_link_id = ul_index L, ps_slot_id = c, ps_slot_hex = hex_width (2 * nb L) (unat c),
        ps_en1_hex = ul_en1 L @ hex_width (2 * nb L) (unat c), ps_en2_size = ul_en2_size L - nb L\<rparr>,
       L\<lparr>ul_next_slot := n, ul_subscribers := ul_subscribers L @ [(c, k, hex_width (2 * nb L) (unat c))]\<rparr>) \<and>
    c \<notin> fst ` set (ul_subscribers L) \<and> unat c < 256 ^ nb L \<and> unat n < 256 ^ nb L"
proof -
  have nb: "0 < nb L" and len: "length (ul_subscribers L) < unat (ul_slot_span L)"
    using assms(2) by (simp_all add: v1_link_ready_def word_less_nat_alt)
  have span: "unat (ul_slot_span L) = 256 ^ nb L" and n: "unat (ul_next_slot L) < unat (ul_slot_span L)"
    using assms(1) nb by (simp_all add: link_ok_def)
  obtain c n where c: "v1_find_slot (unat (ul_slot_span L)) L = (Some c, L\<lparr>ul_next_slot := n\<rparr>)"
    "c \<notin> fst ` set (ul_subscribers L)" "unat c < 256 ^ nb L" "unat n < 256 ^ nb L"
    using v1_find_slot_finds[OF n free_slot_exists[OF len n]] unfolding span by blast
  have "(256 :: nat) ^ nb L = 16 ^ (2 * nb L)"
    by (simp add: power_mult)
  then have "pad_hex (unat c) (nb L * 2) = hex_width (2 * nb L) (unat c)"
    using c(3) nb by (simp add: pad_hex_width mult.commute)
  then show ?thesis
    using c assms(2) by (intro exI[of _ c] exI[of _ n]) (simp add: v1_allocate_def Let_def)
qed

lemma link_ok_allocate:
  assumes "link_ok L" and "v1_allocate L k = (slot, M)"
  shows "link_ok M \<and> ul_index M = ul_index L \<and> ul_nonce_bytes M = ul_nonce_bytes L \<and> ul_en1 M = ul_en1 L \<and>
    (ps_ok slot \<longleftrightarrow> v1_link_ready L) \<and> ul_cur_job M = ul_cur_job L \<and> ul_diff M = ul_diff L \<and>
    (if v1_link_ready L
     then ul_subscribers M = ul_subscribers L @ [(ps_slot_id slot, k, ps_slot_hex slot)] \<and> ps_link_id slot = ul_index L \<and>
       ps_en1_hex slot = ul_en1 L @ ps_slot_hex slot \<and> length (ps_slot_hex slot) = 2 * nb L \<and>
       ps_en2_size slot = ul_en2_size L - nb L \<and> 0 < nb L
     else M = L)"
proof (cases "v1_link_ready L")
  case True
  from v1_allocate_ready[OF assms(1) this, of k] obtain c n where c:
    "v1_allocate L k =
      (\<lparr>ps_ok = True, ps_link_id = ul_index L, ps_slot_id = c, ps_slot_hex = hex_width (2 * nb L) (unat c),
        ps_en1_hex = ul_en1 L @ hex_width (2 * nb L) (unat c), ps_en2_size = ul_en2_size L - nb L\<rparr>,
       L\<lparr>ul_next_slot := n, ul_subscribers := ul_subscribers L @ [(c, k, hex_width (2 * nb L) (unat c))]\<rparr>)"
    "c \<notin> fst ` set (ul_subscribers L)" "unat c < 256 ^ nb L" "unat n < 256 ^ nb L"
    by blast
  have "0 < nb L"
    using True by (simp add: v1_link_ready_def word_less_nat_alt)
  then have "link_ok M"
    using assms c by (auto simp: link_ok_def)
  then show ?thesis
    using True assms(2) c(1) \<open>0 < nb L\<close> by auto
next
  case False
  then show ?thesis
    using assms by (auto simp: v1_allocate_def no_slot_def)
qed

lemma link_ok_filter: "link_ok L \<Longrightarrow> link_ok (L\<lparr>ul_subscribers := filter P (ul_subscribers L)\<rparr>)"
  by (auto simp: link_ok_def distinct_map intro: inj_on_subset)

lemma link_ok_extranonce:
  assumes "link_ok L" and "ul_index M = ul_index L" and "nb M \<le> 3"
    and "ul_slot_span M = (if ul_nonce_bytes M = 0 then 1 else push_bit (8 * nb M) 1)"
    and "ul_next_slot M = ul_next_slot L" and "ul_subscribers M = ul_subscribers L"
    and "ul_nonce_bytes M = ul_nonce_bytes L \<or> ul_subscribers L = [] \<and> ul_next_slot L = 0"
  shows "link_ok M"
proof -
  have "unat (push_bit (8 * nb M) 1 :: u32) = 256 ^ nb M" if "0 < nb M"
  proof -
    have "nb M \<in> {1, 2, 3}"
      using that assms(3) by auto
    then show ?thesis
      by (auto simp: push_bit_eq_mult)
  qed
  then show ?thesis
    using assms by (auto simp: link_ok_def unat_eq_zero)
qed

section \<open>Which operations touch the slots\<close>

named_theorems slot_frames \<open>operations that leave the slot allocators alone\<close>

lemma same_slots_then: "same_slots s t \<Longrightarrow> slots L = slots (link t i) \<Longrightarrow> same_slots s (set_link i L t)"
  using same_slots_trans same_slots_set_link by blast

lemma frame_connect [slot_frames]: "same_slots s (fst (v1_connect now i s))"
  by (simp add: v1_connect_def Let_def same_slots_set_link slots_def)

lemma frame_connect_all: "same_slots s (fst (v1_connect_all now is s))"
proof (induction "is" arbitrary: s)
  case (Cons i "is")
  have "same_slots (fst (v1_connect now i s)) (fst (v1_connect_all now is (fst (v1_connect now i s))))"
    by (rule Cons.IH)
  with frame_connect[of s now i] show ?case
    by (auto simp: Let_def split: prod.split intro: same_slots_trans)
qed simp

lemma frame_running: "same_slots s (s\<lparr>uc_running := b\<rparr>)" "same_slots s (s\<lparr>uc_waiters := w\<rparr>)" "same_slots s (s\<lparr>uc_primary := p\<rparr>)"
  by (simp_all add: same_slots_def)

lemma frame_start [slot_frames]: "same_slots s (fst (v1_start now s))"
  using same_slots_trans[OF frame_running(1) frame_connect_all] by (simp add: v1_start_def)

lemma frame_stop [slot_frames]: "same_slots s (fst (v1_stop s))"
  by (simp add: v1_stop_def same_slots_def slots_def)

lemma frame_close_conn [slot_frames]: "same_slots s (fst (v1_close_conn i s))"
  by (simp add: v1_close_conn_def same_slots_set_link slots_def)

lemma frame_reconnect [slot_frames]: "same_slots s (fst (v1_schedule_reconnect i s))"
  by (simp add: v1_schedule_reconnect_def Let_def same_slots_set_link slots_def)

lemma frame_watch_link: "same_slots s (fst (v1_watch_link now i s))"
proof -
  have "same_slots s (fst (v1_watch_link now i s))" if "same_slots s t"
    "fst (v1_watch_link now i s) = set_link i ((link t i)\<lparr>ul_pending := p\<rparr>) t" for t p
    unfolding that(2) using that(1) by (rule same_slots_then) (simp add: slots_def)
  then show ?thesis
    using frame_close_conn[of s i] by (auto simp: v1_watch_link_def Let_def split: prod.split)
qed

lemma frame_watch: "same_slots s (fst (v1_watch now is s))"
proof (induction "is" arbitrary: s)
  case (Cons i "is")
  have "same_slots (fst (v1_watch_link now i s)) (fst (v1_watch now is (fst (v1_watch_link now i s))))"
    by (rule Cons.IH)
  with frame_watch_link[of s now i] show ?case
    by (auto simp: Let_def split: prod.split intro: same_slots_trans)
qed simp

lemma frame_watchdog [slot_frames]: "same_slots s (fst (v1_watchdog now s))"
  by (simp add: v1_watchdog_def frame_watch)

lemma frame_sends: "same_slots s (fst (v1_send_configure i s))" "same_slots s (fst (v1_send_subscribe i s))"
  "same_slots s (fst (v1_send_authorize i s))"
  by (simp_all add: v1_send_configure_def v1_send_subscribe_def v1_send_authorize_def Let_def same_slots_set_link slots_def)

lemma frame_on_open [slot_frames]: "same_slots s (fst (v1_on_open now i s))"
proof -
  define t where "t = set_link i ((link s i)\<lparr>ul_connected := True, ul_last_rx := now\<rparr>) s"
  have "same_slots s t"
    by (simp add: t_def same_slots_set_link slots_def)
  moreover have "fst (v1_on_open now i s) = fst (v1_send_authorize i (fst (v1_send_subscribe i (fst (v1_send_configure i t)))))"
    by (simp add: v1_on_open_def t_def Let_def split: prod.split)
  ultimately show ?thesis
    using frame_sends same_slots_trans by metis
qed

lemma frame_waiters [slot_frames]: "same_slots s (fst (v1_notify_waiters live s))" "same_slots s (v1_register_waiter k s)"
  by (simp_all add: v1_notify_waiters_def v1_register_waiter_def frame_running)

lemma frame_set_diff [slot_frames]: "same_slots s (fst (v1_set_diff live i d s))"
  by (simp add: v1_set_diff_def same_slots_set_link slots_def)

lemma frame_notify: "v1_broadcast_notify dump live i ps s = Inr (t, e) \<Longrightarrow> same_slots s t"
  by (auto simp: v1_broadcast_notify_def bindE_Inr_iff Let_def same_slots_set_link slots_def split: if_splits sum.splits)

lemma frame_configure_result [slot_frames]: "same_slots s (v1_on_configure_result i msg s)"
  by (auto simp: v1_on_configure_result_def Let_def same_slots_set_link slots_def split: option.split json.split)

lemma frame_authorize_result [slot_frames]: "same_slots s (fst (v1_on_authorize_result live i msg s))"
  using same_slots_trans[OF same_slots_set_link frame_waiters(1)] frame_close_conn
  by (simp add: v1_on_authorize_result_def slots_def)

lemma frame_submit_result [slot_frames]: "same_slots s (fst (v1_on_submit_result dump i rid msg s))"
  by (auto simp: v1_on_submit_result_def Let_def same_slots_set_link slots_def split: option.split sum.split)

lemma frame_submit [slot_frames]: "same_slots s (fst (v1_submit now l sub cb s))"
  by (simp add: v1_submit_def Let_def same_slots_set_link slots_def)

text \<open>A line either leaves the slots alone or sets the link's extranonce.\<close>

definition slots_or_extranonce :: "(nat \<Rightarrow> bool) \<Rightarrow> nat \<Rightarrow> v1_up \<Rightarrow> v1_up \<Rightarrow> bool" where
  "slots_or_extranonce live i s t \<longleftrightarrow>
     same_slots s t \<or> (\<exists>en1 en2 r. same_slots (fst (v1_set_extranonce live i en1 en2 r s)) t)"

lemma line_subscribe_result: "slots_or_extranonce live i s (fst (v1_on_subscribe_result live i msg s))"
proof (cases "\<exists>x e1 e2 r. jfield msg ''result'' = Some (JArr (x # e1 # e2 # r))")
  case True
  then obtain x e1 e2 r where m: "jfield msg ''result'' = Some (JArr (x # e1 # e2 # r))"
    by blast
  define en1 en2 where "en1 = (case e1 of JStr h \<Rightarrow> h | _ \<Rightarrow> [])"
    and "en2 = (case e2 of JInt n \<Rightarrow> unat (of_int n :: u64) | _ \<Rightarrow> 0)"
  have "fst (v1_on_subscribe_result live i msg s) =
      set_link i ((link (fst (v1_set_extranonce live i en1 en2 False s)) i)\<lparr>ul_subscribed := True\<rparr>)
        (fst (v1_set_extranonce live i en1 en2 False s))"
    by (simp add: v1_on_subscribe_result_def m Let_def case_prod_beta en1_def en2_def)
  then have "same_slots (fst (v1_set_extranonce live i en1 en2 False s)) (fst (v1_on_subscribe_result live i msg s))"
    by (simp add: same_slots_set_link slots_def)
  then show ?thesis
    unfolding slots_or_extranonce_def by blast
next
  case False
  then have "v1_on_subscribe_result live i msg s = v1_close_conn i s"
    by (auto simp: v1_on_subscribe_result_def split: option.split json.split list.split)
  then show ?thesis
    by (simp add: slots_or_extranonce_def frame_close_conn)
qed

lemma slots_or_extranonceI: "same_slots s t \<Longrightarrow> slots_or_extranonce live i s t"
  "slots_or_extranonce live i s (fst (v1_set_extranonce live i en1 en2 r s))"
  unfolding slots_or_extranonce_def using same_slots_refl by blast+

lemma line_handle_result: "slots_or_extranonce live i s (fst (v1_handle_result dump live i msg s))"
  using line_subscribe_result slot_frames
  by (auto simp: v1_handle_result_def Let_def slots_or_extranonceI split: option.split json.split)

lemma line_handle_method: "v1_handle_method dump live i m msg s = Inr (t, e) \<Longrightarrow> slots_or_extranonce live i s t"
proof -
  have fst: "slots_or_extranonce live i s t" if "x = (t, e)" "slots_or_extranonce live i s (fst x)" for x
    using that by simp
  have ver: "slots_or_extranonce live i s (set_link i ((link s i)\<lparr>ul_version_mask := v\<rparr>) s)" for v
    by (intro slots_or_extranonceI same_slots_set_link) (simp add: slots_def)
  assume "v1_handle_method dump live i m msg s = Inr (t, e)"
  then show ?thesis
    using frame_notify[of dump live i _ s t e, THEN slots_or_extranonceI(1)] ver
      fst[OF _ slots_or_extranonceI(2)] fst[OF _ slots_or_extranonceI(1)[OF frame_close_conn]]
      fst[OF _ slots_or_extranonceI(1)[OF frame_set_diff]] slots_or_extranonceI(1)[OF same_slots_refl]
    by (auto simp: v1_handle_method_def Let_def bindE_Inr_iff split: if_splits option.splits list.splits json.splits)
qed

lemma line_slots:
  "\<exists>s0. same_slots s s0 \<and> slots_or_extranonce live i s0 (fst (v1_on_line dump live now i line s))"
proof -
  define s0 where "s0 = set_link i ((link s i)\<lparr>ul_last_rx := now\<rparr>) s"
  have "same_slots s s0"
    by (simp add: s0_def same_slots_set_link slots_def)
  moreover have "slots_or_extranonce live i s0 (fst (v1_on_line dump live now i line s))"
    using line_handle_result[of live i s0 dump] line_handle_method[of dump live i _ _ s0]
    by (auto simp: v1_on_line_def s0_def[symmetric] Let_def slots_or_extranonceI(1)
        split: option.split json.split sum.split)
  ultimately show ?thesis
    by blast
qed

section \<open>The invariant in every run\<close>

text \<open>A link keeps the width of its slots, unless it never gave one.\<close>

definition widths_kept :: "v1_up \<Rightarrow> v1_up \<Rightarrow> bool" where
  "widths_kept s t \<longleftrightarrow>
     (\<forall>i < length (uc_links s). ul_nonce_bytes (link t i) = ul_nonce_bytes (link s i) \<or>
        ul_subscribers (link s i) = [] \<and> ul_next_slot (link s i) = 0)"

lemma inv_extranonce:
  assumes "v1_inv s" and "widths_kept s (fst (v1_set_extranonce live i en1 en2 r s))"
  shows "v1_inv (fst (v1_set_extranonce live i en1 en2 r s))"
proof -
  define want where "want = (if uc_nonce_bytes_cfg s \<noteq> 0 then uc_nonce_bytes_cfg s else 2)"
  define eff where "eff = (if en2 \<le> 1 then 0 else if unat want \<ge> en2 then of_nat (en2 - 1) else want)"
  define L where "L = (link s i)\<lparr>ul_en1 := en1, ul_en2_size := en2, ul_nonce_bytes := eff,
      ul_slot_span := (if eff = 0 then 1 else push_bit (8 * unat eff) 1)\<rparr>"
  have t: "fst (v1_set_extranonce live i en1 en2 r s) = set_link i L s"
    by (simp add: v1_set_extranonce_def L_def eff_def want_def Let_def)
  have "unat want \<le> 3"
    using assms(1) by (simp add: v1_inv_def want_def)
  moreover have "unat (of_nat (en2 - 1) :: u8) \<le> en2 - 1"
    by simp
  ultimately have eff3: "unat eff \<le> 3"
    by (auto simp: eff_def simp del: unat_of_nat_u8 of_nat_diff)
  show ?thesis
    unfolding t
  proof (rule v1_inv_set_link[OF assms(1)])
    assume i: "i < length (uc_links s)"
    then have "link_ok (link s i)" "ul_index (link s i) = int i"
      using assms(1) by (simp_all add: v1_inv_def)
    moreover have "ul_nonce_bytes L = ul_nonce_bytes (link s i) \<or> ul_subscribers (link s i) = [] \<and> ul_next_slot (link s i) = 0"
      using assms(2) i unfolding t widths_kept_def by (metis link_set_link)
    ultimately have "link_ok L"
      by (intro link_ok_extranonce[of "link s i" L]) (use eff3 in \<open>simp_all add: L_def\<close>)
    then show "link_ok L \<and> ul_index L = int i"
      using \<open>ul_index (link s i) = int i\<close> by (simp add: L_def)
  qed
qed

lemma widths_kept_same: "same_slots s0 s \<Longrightarrow> same_slots t u \<Longrightarrow> widths_kept s0 u \<Longrightarrow> length (uc_links t) = length (uc_links s) \<Longrightarrow> widths_kept s t"
  unfolding widths_kept_def
  using same_slots_length[of s0 s] slots_ok[OF same_slots_link[of s0 s]] slots_ok[OF same_slots_link[of t u]]
  by auto

lemma length_set_extranonce [simp]: "length (uc_links (fst (v1_set_extranonce live i en1 en2 r s))) = length (uc_links s)"
  by (simp add: v1_set_extranonce_def Let_def)

lemma inv_line:
  assumes "v1_inv s" and "widths_kept s (fst (v1_on_line dump live now i line s))"
  shows "v1_inv (fst (v1_on_line dump live now i line s))"
proof -
  obtain s0 where s0: "same_slots s s0" "slots_or_extranonce live i s0 (fst (v1_on_line dump live now i line s))"
    using line_slots by blast
  have inv0: "v1_inv s0"
    using same_slots_inv[OF s0(1) assms(1)] .
  from s0(2)[unfolded slots_or_extranonce_def] show ?thesis
  proof
    assume "same_slots s0 (fst (v1_on_line dump live now i line s))"
    then show ?thesis
      using same_slots_inv inv0 by blast
  next
    assume "\<exists>en1 en2 r. same_slots (fst (v1_set_extranonce live i en1 en2 r s0)) (fst (v1_on_line dump live now i line s))"
    then obtain en1 en2 r where t: "same_slots (fst (v1_set_extranonce live i en1 en2 r s0)) (fst (v1_on_line dump live now i line s))"
      by blast
    have "widths_kept s0 (fst (v1_set_extranonce live i en1 en2 r s0))"
      by (rule widths_kept_same[OF s0(1) t assms(2)]) simp
    then show ?thesis
      using same_slots_inv[OF t] inv_extranonce[OF inv0] by blast
  qed
qed

text \<open>The target of an assignment is a ready link, or -1 when there is none.\<close>

lemma first_ready_index:
  "(\<exists>L \<in> set Ls. ok L \<and> ul_index L = first_ready Ls ok) \<or> (\<forall>L \<in> set Ls. \<not> ok L) \<and> first_ready Ls ok = -1"
proof (cases "filter ok Ls")
  case Nil
  then show ?thesis
    by (simp add: first_ready_def filter_empty_conv)
next
  case (Cons L Ms)
  have "L \<in> set (filter ok Ls)"
    unfolding Cons by simp
  then have "L \<in> set Ls \<and> ok L"
    by simp
  then show ?thesis
    using Cons by (auto simp: first_ready_def)
qed

lemma least_loaded_index:
  "(\<exists>L \<in> set Ls. ok L \<and> (\<exists>l. least_loaded Ls ok b = Some (l, ul_index L))) \<or>
   least_loaded Ls ok b = b \<and> (b = None \<longrightarrow> (\<forall>L \<in> set Ls. \<not> ok L))"
proof (induction Ls arbitrary: b)
  case (Cons L Ls)
  show ?case
  proof (cases "ok L \<and> (case b of None \<Rightarrow> True | Some (b, _) \<Rightarrow> link_load L < b)")
    case True
    then show ?thesis
      using Cons[of "Some (link_load L, ul_index L)"] by auto
  next
    case False
    then have "b = None \<Longrightarrow> \<not> ok L"
      by auto
    then show ?thesis
      using Cons[of b] False by auto
  qed
qed simp

definition good_target :: "(v1_link \<Rightarrow> bool) \<Rightarrow> v1_up \<Rightarrow> int \<Rightarrow> bool" where
  "good_target ok s t \<longleftrightarrow>
     (if \<exists>L \<in> set (uc_links s). ok L then 0 \<le> t \<and> nat t < length (uc_links s) \<and> ok (link s (nat t)) else t = -1)"

lemma index_target:
  assumes "v1_inv s" and "L \<in> set (uc_links s)" and "ok L"
  shows "good_target ok s (ul_index L)"
proof -
  obtain i where "i < length (uc_links s)" "link s i = L"
    using assms(2) by (auto simp: in_set_conv_nth)
  moreover from this have "ul_index L = int i"
    using assms(1) by (auto simp: v1_inv_def)
  ultimately show ?thesis
    using assms(2,3) by (auto simp: good_target_def)
qed

lemma first_ready_target:
  assumes "v1_inv s"
  shows "good_target ok s (first_ready (uc_links s) ok)"
  using first_ready_index[of "uc_links s" ok]
proof
  assume "\<exists>L \<in> set (uc_links s). ok L \<and> ul_index L = first_ready (uc_links s) ok"
  then show ?thesis
    using index_target[OF assms] by metis
qed (simp add: good_target_def)

lemma least_loaded_target:
  assumes "v1_inv s"
  shows "good_target ok s (best_index (least_loaded (uc_links s) ok None))"
  using least_loaded_index[of "uc_links s" ok None]
proof
  assume "\<exists>L \<in> set (uc_links s). ok L \<and> (\<exists>l. least_loaded (uc_links s) ok None = Some (l, ul_index L))"
  then show ?thesis
    using index_target[OF assms, of _ ok] by (auto simp: best_index_def)
qed (simp add: good_target_def best_index_def)

lemma pick_link_target:
  assumes "v1_inv s"
  shows "good_target v1_link_ready s (v1_pick_link s)"
proof (cases "\<not> uc_active_active s \<and> uc_primary s \<ge> 0 \<and> uc_primary s < int (length (uc_links s)) \<and> v1_link_ready (link s (nat (uc_primary s)))")
  case True
  then have "link s (nat (uc_primary s)) \<in> set (uc_links s)"
    by (intro nth_mem) (simp add: nat_less_iff)
  with True show ?thesis
    by (auto simp: v1_pick_link_def good_target_def)
next
  case False
  then show ?thesis
    using first_ready_target[OF assms, of v1_link_ready] least_loaded_target[OF assms, of v1_link_ready]
    by (auto simp: v1_pick_link_def)
qed

lemma inv_attach:
  assumes "v1_inv s"
  shows "v1_inv (snd (v1_attach k s))"
proof (cases "v1_pick_link s < 0")
  case True
  then show ?thesis
    using assms by (simp add: v1_attach_def Let_def)
next
  case False
  define i where "i = nat (v1_pick_link s)"
  define t where "t = (if uc_active_active s then s else s\<lparr>uc_primary := v1_pick_link s\<rparr>)"
  have t: "v1_inv t" "uc_links t = uc_links s"
    using assms by (simp_all add: t_def v1_inv_def)
  obtain slot M where M: "v1_allocate (link t i) k = (slot, M)"
    by force
  have "i < length (uc_links t) \<Longrightarrow> link_ok M \<and> ul_index M = int i"
    using link_ok_allocate[OF _ M] t(1) by (simp add: v1_inv_def)
  then have "v1_inv (set_link i M t)"
    by (rule v1_inv_set_link[OF t(1)])
  then show ?thesis
    using False M by (simp add: v1_attach_def t_def[symmetric] i_def[symmetric] Let_def)
qed

lemma inv_detach: "v1_inv s \<Longrightarrow> v1_inv (v1_detach l c s)"
proof -
  assume inv: "v1_inv s"
  let ?L = "link s (nat l)"
  have "nat l < length (uc_links s) \<Longrightarrow> link_ok (?L\<lparr>ul_subscribers := filter (\<lambda>x. fst x \<noteq> c) (ul_subscribers ?L)\<rparr>)
      \<and> ul_index (?L\<lparr>ul_subscribers := filter (\<lambda>x. fst x \<noteq> c) (ul_subscribers ?L)\<rparr>) = int (nat l)"
    using inv link_ok_filter[of ?L] by (simp add: v1_inv_def)
  from v1_inv_set_link[OF inv this] inv show ?thesis
    by (simp add: v1_detach_def Let_def)
qed

section \<open>Migration keeps every session\<close>

text \<open>What one subscriber's migration does: a dead one is only erased; a live one is rebound to a fresh slot of
  another ready link exactly when the target is one.\<close>

lemma set_link_id [simp]: "set_link i (link s i) s = s"
  by (simp add: set_link_def)

lemma migrate_one_cases:
  assumes "v1_inv s" and "t = migration_target i s failover" and "0 \<le> t \<Longrightarrow> nat t < length (uc_links s)"
  shows "migrate_one live i failover (sid, k, h) (s, re, st, gone) =
    (if \<not> live k then (s, re, st, gone @ [sid])
     else if t < 0 \<or> \<not> v1_link_ready (link s (nat t)) then (s, re, st @ [k], gone)
     else (set_link (nat t) (snd (v1_allocate (link s (nat t)) k)) s,
           re @ [(k, fst (v1_allocate (link s (nat t)) k), ul_cur_job (link s (nat t)), ul_diff (link s (nat t)))],
           st, gone @ [sid]))"
proof (cases "t < 0")
  case False
  obtain slot M where M: "v1_allocate (link s (nat t)) k = (slot, M)"
    by force
  have "link_ok (link s (nat t))"
    using assms(1,3) False by (simp add: v1_inv_def)
  from link_ok_allocate[OF this M] show ?thesis
    using False M assms(2) by (auto simp: migrate_one_def Let_def)
qed (use assms(2) in \<open>simp add: migrate_one_def Let_def\<close>)

text \<open>The part of a link that serving a session does not change.\<close>

definition link_base :: "v1_link \<Rightarrow> bool \<times> bool \<times> bool \<times> hex \<times> nat \<times> u8 \<times> u32 \<times> proxy_notify option \<times> rat" where
  "link_base L =
     (ul_connected L, ul_authorized L, ul_subscribed L, ul_en1 L, ul_en2_size L, ul_nonce_bytes L, ul_slot_span L,
      ul_cur_job L, ul_diff L)"

lemma link_base_allocate: "link_base (snd (v1_allocate L k)) = link_base L"
proof -
  have "link_base (snd (v1_find_slot t M)) = link_base M" for t M
    by (induction t arbitrary: M) (simp_all add: Let_def link_base_def)
  then have "link_base M' = link_base M" if "v1_find_slot t M = (x, M')" for t M x M'
    using that by (metis snd_conv)
  then show ?thesis
    unfolding v1_allocate_def by (auto simp: Let_def link_base_def split: prod.split option.split)
qed

type_synonym rebind = "nat \<times> proxy_slot \<times> proxy_notify option \<times> rat"

definition rebound_to :: "nat \<Rightarrow> rebind list \<Rightarrow> (u32 \<times> nat \<times> hex) list" where
  "rebound_to j re = map (\<lambda>(k, ns, _). (ps_slot_id ns, k, ps_slot_hex ns)) (filter (\<lambda>(_, ns, _). ps_link_id ns = int j) re)"

definition rebind_ok :: "nat \<Rightarrow> v1_up \<Rightarrow> rebind \<Rightarrow> bool" where
  "rebind_ok i s = (\<lambda>(k, ns, job, d). ps_ok ns \<and>
     (\<exists>j < length (uc_links s). j \<noteq> i \<and> ps_link_id ns = int j \<and> ul_connected (link s j) \<and> ul_authorized (link s j) \<and>
        ps_en1_hex ns = ul_en1 (link s j) @ ps_slot_hex ns \<and> length (ps_slot_hex ns) = 2 * nb (link s j) \<and>
        job = ul_cur_job (link s j) \<and> d = ul_diff (link s j)))"

definition mig_ok :: "(nat \<Rightarrow> bool) \<Rightarrow> nat \<Rightarrow> v1_up \<Rightarrow> (u32 \<times> nat \<times> hex) list \<Rightarrow> v1_up \<Rightarrow> rebind list \<Rightarrow> nat list \<Rightarrow> u32 list \<Rightarrow> bool" where
  "mig_ok live i s xs t re st gone \<longleftrightarrow>
     v1_inv t \<and> length (uc_links t) = length (uc_links s) \<and> uc_active_active t = uc_active_active s \<and>
     (\<forall>j < length (uc_links s). link_base (link t j) = link_base (link s j) \<and>
        ul_subscribers (link t j) = ul_subscribers (link s j) @ rebound_to j re) \<and>
     mset (map fst re) + mset st = mset (filter live (map (\<lambda>(_, k, _). k) xs)) \<and>
     map (\<lambda>(_, k, _). k) (filter (\<lambda>x. fst x \<notin> set gone) xs) = st \<and> set gone \<subseteq> fst ` set xs \<and>
     (\<forall>r \<in> set re. rebind_ok i s r)"

definition target_ok :: "nat \<Rightarrow> v1_up \<Rightarrow> int \<Rightarrow> bool" where
  "target_ok i s t \<longleftrightarrow> t = -1 \<or> 0 \<le> t \<and> nat t < length (uc_links s) \<and> nat t \<noteq> i"

lemma good_target_other:
  assumes "v1_inv s" and "good_target (\<lambda>L. ul_index L \<noteq> int i \<and> v1_link_ready L) s t"
  shows "target_ok i s t"
  using assms by (auto simp: good_target_def target_ok_def v1_inv_def split: if_splits)

lemma migration_target_ok:
  assumes "v1_inv s" and "target_ok i s failover"
  shows "target_ok i s (migration_target i s failover)"
  using assms good_target_other[OF assms(1) least_loaded_target[OF assms(1)]] by (simp add: migration_target_def)

lemma rebound_to_snoc:
  "rebound_to j (re @ [(k, ns, job, d)]) = rebound_to j re @ (if ps_link_id ns = int j then [(ps_slot_id ns, k, ps_slot_hex ns)] else [])"
  by (simp add: rebound_to_def)

lemma filter_gone_snoc:
  "c \<notin> fst ` set xs \<Longrightarrow> filter (\<lambda>x. fst x \<noteq> c \<and> fst x \<notin> set gone) xs = filter (\<lambda>x. fst x \<notin> set gone) xs"
  by (rule filter_cong) auto

lemma mig_ok_step:
  assumes ok: "mig_ok live i s xs t re st gone" and x: "sid \<notin> fst ` set xs" and f: "target_ok i s failover"
    and r: "migrate_one live i failover (sid, k, h) (t, re, st, gone) = (t', re', st', gone')"
  shows "mig_ok live i s (xs @ [(sid, k, h)]) t' re' st' gone'"
proof -
  define m where "m = migration_target i t failover"
  have inv: "v1_inv t" and len: "length (uc_links t) = length (uc_links s)"
    using ok by (simp_all add: mig_ok_def)
  have tm: "target_ok i t m"
    unfolding m_def using inv f len by (intro migration_target_ok) (simp_all add: target_ok_def)
  have gone: "sid \<notin> set gone"
    using ok x by (auto simp: mig_ok_def)
  have eq: "migrate_one live i failover (sid, k, h) (t, re, st, gone) =
    (if \<not> live k then (t, re, st, gone @ [sid])
     else if m < 0 \<or> \<not> v1_link_ready (link t (nat m)) then (t, re, st @ [k], gone)
     else (set_link (nat m) (snd (v1_allocate (link t (nat m)) k)) t,
           re @ [(k, fst (v1_allocate (link t (nat m)) k), ul_cur_job (link t (nat m)), ul_diff (link t (nat m)))],
           st, gone @ [sid]))"
    using tm by (intro migrate_one_cases[OF inv m_def]) (auto simp: target_ok_def)
  consider (dead) "\<not> live k" | (stay) "live k" "m < 0 \<or> \<not> v1_link_ready (link t (nat m))"
    | (move) "live k" "0 \<le> m" "v1_link_ready (link t (nat m))"
    by linarith
  then show ?thesis
  proof cases
    case dead
    then show ?thesis
      using ok r eq x by (auto simp: mig_ok_def filter_gone_snoc)
  next
    case stay
    then show ?thesis
      using ok r eq gone by (auto simp: mig_ok_def)
  next
    case move
    define j where "j = nat m"
    obtain ns M where M: "v1_allocate (link t j) k = (ns, M)"
      by force
    have j: "j < length (uc_links t)" "j \<noteq> i" and lj: "link_ok (link t j)" "ul_index (link t j) = int j"
      using tm move(2) inv by (auto simp: target_ok_def j_def v1_inv_def)
    have ready: "v1_link_ready (link t j)"
      using move(3) by (simp add: j_def)
    note a = link_ok_allocate[OF lj(1) M, simplified ready if_True]
    have base: "link_base M = link_base (link t j)"
      using link_base_allocate[of "link t j" k] M by simp
    have res: "t' = set_link j M t" "re' = re @ [(k, ns, ul_cur_job (link t j), ul_diff (link t j))]" "st' = st" "gone' = gone @ [sid]"
      using r eq move M by (simp_all add: j_def)
    have "v1_inv t'"
      unfolding res using a lj by (intro v1_inv_set_link[OF inv]) simp
    moreover have "link_base (link t' j') = link_base (link s j') \<and> ul_subscribers (link t' j') = ul_subscribers (link s j') @ rebound_to j' re'"
      if "j' < length (uc_links s)" for j'
    proof (cases "j' = j")
      case True
      then show ?thesis
        using ok j a base lj that by (simp add: mig_ok_def res rebound_to_snoc)
    next
      case False
      then show ?thesis
        using ok a lj that by (simp add: mig_ok_def res rebound_to_snoc)
    qed
    moreover have "rebind_ok i s (k, ns, ul_cur_job (link t j), ul_diff (link t j))"
    proof -
      have "link_base (link t j) = link_base (link s j)"
        using ok j len by (simp add: mig_ok_def)
      then show ?thesis
        using a lj j len ready by (auto simp: rebind_ok_def link_base_def v1_link_ready_def intro!: exI[of _ j])
    qed
    ultimately show ?thesis
      using ok x move(1) len unfolding mig_ok_def
      by (auto simp: res filter_gone_snoc)
  qed
qed

lemma mig_ok_fold:
  assumes "v1_inv s" and "target_ok i s failover" and "distinct (map fst xs)"
    and "fold (migrate_one live i failover) xs (s, [], [], []) = (t, re, st, gone)"
  shows "mig_ok live i s xs t re st gone"
  using assms(3,4)
proof (induction xs arbitrary: t re st gone rule: rev_induct)
  case Nil
  then show ?case
    using assms(1) by (simp add: mig_ok_def rebound_to_def)
next
  case (snoc x xs)
  obtain t0 re0 st0 gone0 where f: "fold (migrate_one live i failover) xs (s, [], [], []) = (t0, re0, st0, gone0)"
    by (metis prod_cases4)
  have "mig_ok live i s xs t0 re0 st0 gone0"
    using snoc f by simp
  moreover obtain sid k h where "x = (sid, k, h)"
    by (cases x)
  ultimately show ?case
    using mig_ok_step[of live i s xs t0 re0 st0 gone0 sid failover k h t re st gone] snoc.prems f assms(2) by simp
qed

text \<open>In failover mode a standby with room takes everyone.\<close>

lemma failover_takes_all:
  assumes inv: "v1_inv s" and mode: "\<not> uc_active_active s" and f: "target_ok i s f" "0 \<le> f"
    and ready: "v1_link_ready (link s (nat f))"
    and room: "length (ul_subscribers (link s (nat f))) + length xs \<le> unat (ul_slot_span (link s (nat f)))"
    and "distinct (map fst xs)" and "fold (migrate_one live i f) xs (s, [], [], []) = (t, re, st, gone)"
  shows "st = []"
  using room assms(7,8)
proof (induction xs arbitrary: t re st gone rule: rev_induct)
  case (snoc x xs)
  obtain t0 re0 st0 gone0 where f0: "fold (migrate_one live i f) xs (s, [], [], []) = (t0, re0, st0, gone0)"
    by (metis prod_cases4)
  obtain sid k h where x: "x = (sid, k, h)"
    by (cases x)
  have st0: "st0 = []"
    using snoc f0 by simp
  have ok: "mig_ok live i s xs t0 re0 st0 gone0"
    using snoc.prems(2) by (intro mig_ok_fold[OF inv f(1) _ f0]) simp
  have fl: "nat f < length (uc_links s)"
    using f by (auto simp: target_ok_def)
  have "mset (map fst re0) + mset st0 = mset (filter live (map (\<lambda>(_, k, _). k) xs))"
    using ok unfolding mig_ok_def by blast
  from arg_cong[OF this, of size] have "length re0 \<le> length (filter live (map (\<lambda>(_, k, _). k) xs))"
    by (simp only: size_union size_mset length_map)
  also have "\<dots> \<le> length xs"
    using length_filter_le[of live "map (\<lambda>(_, k, _). k) xs"] by (simp only: length_map)
  finally have "length re0 \<le> length xs" .
  then have "length (rebound_to (nat f) re0) \<le> length xs"
    unfolding rebound_to_def by (simp add: le_trans[OF length_filter_le])
  then have "v1_link_ready (link t0 (nat f))"
    using ok ready fl snoc.prems(1) by (auto simp: mig_ok_def link_base_def v1_link_ready_def)
  moreover have "migration_target i t0 f = f" "v1_inv t0" "length (uc_links t0) = length (uc_links s)"
    using ok mode by (simp_all add: mig_ok_def migration_target_def)
  ultimately show ?case
    using snoc.prems(3) f0 x st0 f(2) fl migrate_one_cases[of t0 f i f live sid k h re0 st0 gone0] by (auto split: if_splits)
qed simp

lemma migrate_result:
  assumes inv: "v1_inv s" and i: "i < length (uc_links s)" and r: "v1_migrate live i s = (t, e)"
  shows "\<exists>re st. e = map (\<lambda>(k, ns, job, d). Sink_Rebind k ns job d) re @ map (\<lambda>k. Sink_State k False) st \<and>
    v1_inv t \<and> length (uc_links t) = length (uc_links s) \<and>
    mset (map fst re) + mset st = mset (v1_link_sinks live (link s i)) \<and>
    map (\<lambda>(_, k, _). k) (ul_subscribers (link t i)) = st \<and>
    (\<forall>j < length (uc_links s). j \<noteq> i \<longrightarrow> ul_subscribers (link t j) = ul_subscribers (link s j) @ rebound_to j re) \<and>
    (\<forall>r \<in> set re. rebind_ok i s r) \<and>
    (\<not> uc_active_active s \<and> (\<exists>j < length (uc_links s). j \<noteq> i \<and> v1_link_ready (link s j)) \<and>
     (\<forall>j < length (uc_links s). j \<noteq> i \<and> v1_link_ready (link s j) \<longrightarrow>
        length (ul_subscribers (link s j)) + length (ul_subscribers (link s i)) \<le> unat (ul_slot_span (link s j)))
     \<longrightarrow> st = [])"
proof -
  let ?ok = "\<lambda>L. ul_index L \<noteq> int i \<and> v1_link_ready L"
  define failover where "failover = (if uc_active_active s then -1 else first_ready (uc_links s) ?ok)"
  define p where "p = (if \<not> uc_active_active s \<and> failover \<ge> 0 then failover else if uc_primary s = int i then -1 else uc_primary s)"
  define s1 where "s1 = s\<lparr>uc_primary := p\<rparr>"
  have inv1: "v1_inv s1" and l1: "uc_links s1 = uc_links s" "uc_active_active s1 = uc_active_active s"
    using inv by (simp_all add: s1_def v1_inv_def)
  define xs where "xs = ul_subscribers (link s i)"
  obtain t0 re st gone where f: "fold (migrate_one live i failover) xs (s1, [], [], []) = (t0, re, st, gone)"
    by (metis prod_cases4)
  define L where "L = (link t0 i)\<lparr>ul_subscribers := filter (\<lambda>x. fst x \<notin> set gone) (ul_subscribers (link t0 i))\<rparr>"
  have te: "t = set_link i L t0" "e = map (\<lambda>(k, ns, job, d). Sink_Rebind k ns job d) re @ map (\<lambda>k. Sink_State k False) st"
    using r f by (auto simp: v1_migrate_def s1_def p_def failover_def xs_def L_def Let_def split: if_splits)
  have ft: "uc_active_active s \<or> good_target ?ok s1 failover"
    using first_ready_target[OF inv1, of ?ok] by (simp add: failover_def l1)
  then have tok: "target_ok i s1 failover"
    using good_target_other[OF inv1, of i failover] by (auto simp: failover_def target_ok_def[of i s1 "-1"])
  have d: "distinct (map fst xs)"
    using inv i by (simp add: xs_def v1_inv_def link_ok_def)
  have ok: "mig_ok live i s1 xs t0 re st gone"
    by (rule mig_ok_fold[OF inv1 tok d f])
  have "rebound_to i re = []"
    using ok by (fastforce simp: mig_ok_def rebound_to_def rebind_ok_def filter_empty_conv)
  then have subs: "ul_subscribers (link t0 i) = xs"
    using ok i by (simp add: mig_ok_def l1 xs_def)
  have inv0: "v1_inv t0" and len0: "length (uc_links t0) = length (uc_links s)"
    using ok by (simp_all add: mig_ok_def l1)
  then have "link_ok L \<and> ul_index L = int i"
    unfolding L_def using i link_ok_filter[of "link t0 i"] by (simp add: v1_inv_def)
  then have "v1_inv t"
    unfolding te using v1_inv_set_link[OF inv0] by blast
  moreover have "map (\<lambda>(_, k, _). k) (ul_subscribers (link t i)) = st"
    using ok i subs by (simp add: te mig_ok_def l1 L_def)
  moreover have "\<forall>r \<in> set re. rebind_ok i s r"
    using ok by (simp add: mig_ok_def rebind_ok_def l1)
  moreover have "st = []"
    if mode: "\<not> uc_active_active s" and ex: "\<exists>j < length (uc_links s). j \<noteq> i \<and> v1_link_ready (link s j)"
      and room: "\<forall>j < length (uc_links s). j \<noteq> i \<and> v1_link_ready (link s j) \<longrightarrow>
        length (ul_subscribers (link s j)) + length (ul_subscribers (link s i)) \<le> unat (ul_slot_span (link s j))"
  proof -
    have idx: "ul_index (link s j) = int j" if "j < length (uc_links s)" for j
      using inv that by (simp add: v1_inv_def)
    obtain j where "j < length (uc_links s)" "?ok (link s j)"
      using ex idx by auto
    then have "\<exists>L \<in> set (uc_links s). ?ok L"
      using nth_mem by blast
    then have g: "0 \<le> failover" "nat failover < length (uc_links s)" "?ok (link s (nat failover))"
      using ft mode by (auto simp: good_target_def l1)
    then have "nat failover \<noteq> i"
      using idx by auto
    then show ?thesis
      using failover_takes_all[OF inv1 _ tok g(1) _ _ d f] mode room g by (simp add: l1 xs_def)
  qed
  ultimately show ?thesis
    using ok te by (intro exI[of _ re] exI[of _ st]) (auto simp: mig_ok_def l1 xs_def v1_link_sinks_def)
qed

section \<open>Runs\<close>

text \<open>A step handles one event; \<open>live\<close> are the sinks alive at that moment, and the pool does not change the
  width of slots already given out.\<close>

definition v1_init :: "v1_up \<Rightarrow> bool" where
  "v1_init s \<longleftrightarrow> (\<exists>mode w rmin rmax idle rolling m eps. unat w \<le> 3 \<and> s = v1_new mode w rmin rmax idle rolling m eps)"

definition v1_next :: "(json \<Rightarrow> string res) \<Rightarrow> v1_up \<Rightarrow> (nat \<Rightarrow> bool) \<times> v1_event \<Rightarrow> v1_up \<Rightarrow> bool" where
  "v1_next dump s le t \<longleftrightarrow> t = fst (v1_exec dump (fst le) (snd le) s) \<and> widths_kept s t"

lemma inv_on_close:
  assumes "v1_inv s" and "i < length (uc_links s)"
  shows "v1_inv (fst (v1_on_close live i s))"
proof -
  define s1 where "s1 = set_link i ((link s i)\<lparr>ul_connected := False, ul_authorized := False, ul_subscribed := False,
    ul_stat_reconnects := ul_stat_reconnects (link s i) + 1\<rparr>) s"
  have "same_slots s s1"
    by (simp add: s1_def same_slots_set_link slots_def)
  then have inv: "v1_inv s1" and i: "i < length (uc_links s1)"
    using same_slots_inv assms by (auto simp: s1_def)
  obtain t e where m: "v1_migrate live i s1 = (t, e)"
    by force
  have "v1_inv t"
    using migrate_result[OF inv i m] by blast
  then have "v1_inv (fst (v1_schedule_reconnect i t))"
    by (rule same_slots_inv[OF frame_reconnect])
  then show ?thesis
    by (simp add: v1_on_close_def s1_def[symmetric] m Let_def case_prod_beta)
qed

lemma inv_exec:
  assumes "v1_inv s" and "widths_kept s (fst (v1_exec dump live e s))"
  shows "v1_inv (fst (v1_exec dump live e s))"
proof (cases e)
  case (V1_Line now i gen line)
  then show ?thesis
    using assms inv_line by (auto simp: v1_exec_def Let_def split: if_splits)
next
  case (V1_Transport_Closed i)
  then show ?thesis
    using assms same_slots_inv[OF same_slots_set_link] by (auto simp: v1_exec_def slots_def)
qed (use assms same_slots_inv[OF _ assms(1)] slot_frames inv_on_close inv_attach inv_detach in \<open>auto simp: v1_exec_def Let_def\<close>)

lemma inv_init: "v1_init s \<Longrightarrow> v1_inv s"
  by (auto simp: v1_init_def v1_inv_def v1_new_def v1_new_link_def link_ok_def Let_def)

interpretation v1: event_system v1_init "v1_next dump" v1_inv for dump
  by unfold_locales (auto simp: v1_next_def inv_init inv_exec)

lemma slot_determines:
  assumes "link_ok L" and a: "(c, k, h) \<in> set (ul_subscribers L)" "(c', k', h) \<in> set (ul_subscribers L)"
  shows "(c, k, h) = (c', k', h)"
proof -
  have "unat c < 256 ^ nb L \<and> h = hex_width (2 * nb L) (unat c)" "unat c' < 256 ^ nb L \<and> h = hex_width (2 * nb L) (unat c')"
    using assms unfolding link_ok_def by fast+
  moreover have "(256 :: nat) ^ nb L = 16 ^ (2 * nb L)"
    by (simp add: power_mult)
  ultimately have "c = c'"
    using hex_width_inject by (metis word_unat_eq_iff)
  then show ?thesis
    using assms by (auto simp: link_ok_def dest: eq_key_imp_eq_value)
qed

lemma slot_hexes:
  assumes "link_ok L"
  shows "distinct (map (\<lambda>(_, _, h). h) (ul_subscribers L)) \<and> (\<forall>(_, _, h) \<in> set (ul_subscribers L). length h = 2 * nb L)"
proof -
  have "inj_on (\<lambda>(_, _, h). h) (set (ul_subscribers L))"
    using slot_determines[OF assms] by (fastforce simp: inj_on_def)
  moreover have "distinct (ul_subscribers L)"
    using assms by (simp add: link_ok_def distinct_map)
  ultimately show ?thesis
    using assms by (auto simp: link_ok_def distinct_map)
qed

section \<open>Properties\<close>


text \<open>C17: Losing a pool link loses no miner. When the connection of link \<open>i\<close> closes, in any state of a run,
  every live session of \<open>i\<close> is told exactly one thing: either it is rebound, to a fresh slot of a different,
  connected and authorized link together with that link's current job and difficulty, or it is told that
  its link is down and stays bound to \<open>i\<close>; dead sessions are dropped; the other links keep their own
  sessions and only gain the rebound ones; and in failover mode, when another link is ready and those
  that are have room, nobody is left behind.\<close>

theorem v1_failover_keeps_sessions:
  assumes "reachable v1_init (v1_next dump) s" and "i < length (uc_links s)" and "v1_on_close live i s = (t, e)"
  shows "\<exists>re st w. e = map (\<lambda>(k, ns, job, d). Sink_Rebind k ns job d) re @ map (\<lambda>k. Sink_State k False) st @ w \<and>
    (\<forall>x \<in> set w. \<exists>d. x = Reconnect_After i d) \<and>
    mset (map fst re) + mset st = mset (v1_link_sinks live (link s i)) \<and>
    map (\<lambda>(_, k, _). k) (ul_subscribers (link t i)) = st \<and>
    (\<forall>j < length (uc_links s). j \<noteq> i \<longrightarrow> ul_subscribers (link t j) = ul_subscribers (link s j) @ rebound_to j re) \<and>
    (\<forall>r \<in> set re. rebind_ok i s r) \<and>
    (\<not> uc_active_active s \<and> (\<exists>j < length (uc_links s). j \<noteq> i \<and> v1_link_ready (link s j)) \<and>
     (\<forall>j < length (uc_links s). j \<noteq> i \<and> v1_link_ready (link s j) \<longrightarrow>
        length (ul_subscribers (link s j)) + length (ul_subscribers (link s i)) \<le> unat (ul_slot_span (link s j)))
     \<longrightarrow> st = [])"
proof -
  define s1 where "s1 = set_link i ((link s i)\<lparr>ul_connected := False, ul_authorized := False, ul_subscribed := False,
    ul_stat_reconnects := ul_stat_reconnects (link s i) + 1\<rparr>) s"
  have "same_slots s s1"
    by (simp add: s1_def same_slots_set_link slots_def)
  then have inv: "v1_inv s1" and i: "i < length (uc_links s1)"
    using same_slots_inv v1.reachable_inv[OF assms(1)] assms(2) by (auto simp: s1_def)
  have l: "length (uc_links s1) = length (uc_links s)" "uc_active_active s1 = uc_active_active s"
    "j \<noteq> i \<Longrightarrow> link s1 j = link s j" "ul_subscribers (link s1 i) = ul_subscribers (link s i)" for j
    using assms(2) by (simp_all add: s1_def)
  obtain u e1 where m: "v1_migrate live i s1 = (u, e1)"
    by force
  obtain e2 where r: "v1_schedule_reconnect i u = (t, e2)" and e: "e = e1 @ e2"
    using assms(3) m by (auto simp: v1_on_close_def s1_def[symmetric] Let_def split: prod.splits)
  have keep: "ul_subscribers (link t j) = ul_subscribers (link u j)" if "j < length (uc_links u)" for j
    using slots_ok[OF same_slots_link[OF frame_reconnect that, of i]] r by simp
  have w: "\<forall>x \<in> set e2. \<exists>d. x = Reconnect_After i d"
    using r by (auto simp: v1_schedule_reconnect_def Let_def split: if_splits)
  have rb: "rebind_ok i s1 x = rebind_ok i s x" for x
    using l by (auto simp: rebind_ok_def split: prod.splits)
  from migrate_result[OF inv i m] keep w e rb assms(2) show ?thesis
    by (elim exE conjE, intro exI[of _ e2] exI conjI) (auto simp: l v1_link_sinks_def)
qed

text \<open>Two pools are negotiated and two miners attach to the first.\<close>

definition sample_v1_events :: "v1_event list" where
  "sample_v1_events =
     (let sub = JObj [(''id'', JInt 1), (''result'', JArr [JNull, JStr ''aabb'', JInt 8])];
          auth = JObj [(''id'', JInt 2), (''result'', JBool True)]
      in [V1_Start 0, V1_Opened 0 0 1, V1_Opened 0 1 1, V1_Line 0 0 1 (Some sub), V1_Line 0 0 1 (Some auth),
          V1_Line 0 1 1 (Some sub), V1_Line 0 1 1 (Some auth), V1_Attach 7, V1_Attach 8])"

fun v1_runs :: "v1_event list \<Rightarrow> v1_up \<Rightarrow> v1_up option" where
  "v1_runs [] s = Some s"
| "v1_runs (e # es) s =
     (let t = fst (v1_exec (\<lambda>_. Inr []) (\<lambda>_. True) e s) in if widths_kept s t then v1_runs es t else None)"

lemma v1_runs_reachable:
  "v1_runs es s = Some t \<Longrightarrow> reachable v1_init (v1_next (\<lambda>_. Inr [])) s \<Longrightarrow> reachable v1_init (v1_next (\<lambda>_. Inr [])) t"
proof (induction es arbitrary: s)
  case (Cons e es)
  have "v1_next (\<lambda>_. Inr []) s (\<lambda>_. True, e) (fst (v1_exec (\<lambda>_. Inr []) (\<lambda>_. True) e s))"
    using Cons.prems(1) by (simp add: v1_next_def Let_def split: if_splits)
  then show ?case
    using Cons reachable_step by (force simp: Let_def split: if_splits)
qed simp

definition sample_v1_start :: v1_up where
  "sample_v1_start = v1_new ''failover'' 1 2 30 90 False 0 [\<lparr>ue_user = ''u'', ue_pass = ''x'', ue_weight = 1, ue_priority = 0\<rparr>,
     \<lparr>ue_user = ''v'', ue_pass = ''x'', ue_weight = 1, ue_priority = 1\<rparr>]"

definition sample_v1_link :: "string \<Rightarrow> int \<Rightarrow> u32 \<Rightarrow> (u32 \<times> nat \<times> hex) list \<Rightarrow> v1_link" where
  "sample_v1_link user i next_slot subs =
     \<lparr>ul_user = user, ul_pass = ''x'', ul_weight = 1, ul_index = i, ul_conn = Some False, ul_gen = 1,
      ul_backoff = 0, ul_last_rx = 0, ul_next_id = 3, ul_id_configure = 0, ul_id_subscribe = 1, ul_id_authorize = 2,
      ul_pending = [], ul_connected = True, ul_authorized = True, ul_subscribed = True, ul_en1 = ''aabb'',
      ul_en2_size = 8, ul_version_mask = 0, ul_diff = 1, ul_cur_job = None, ul_job_seq = 0, ul_slot_span = 256,
      ul_nonce_bytes = 1, ul_next_slot = next_slot, ul_subscribers = subs, ul_stat_jobs = 0, ul_stat_forwarded = 0,
      ul_stat_accepted = 0, ul_stat_rejected = 0, ul_stat_reconnects = 0\<rparr>"

definition sample_v1 :: v1_up where
  "sample_v1 =
     \<lparr>uc_running = True, uc_active_active = False, uc_nonce_bytes_cfg = 1, uc_reconnect_min = 2, uc_reconnect_max = 30,
      uc_idle_timeout = 90, uc_enable_rolling = False, uc_rolling_mask = 0,
      uc_links = [sample_v1_link ''u'' 0 2 [(0, 7, ''00''), (1, 8, ''01'')], sample_v1_link ''v'' 1 0 []],
      uc_primary = 0, uc_waiters = []\<rparr>"

lemma find_slot_first:
  "0 < n \<Longrightarrow> ul_next_slot L \<notin> fst ` set (ul_subscribers L) \<Longrightarrow>
   v1_find_slot n L = (Some (ul_next_slot L), L\<lparr>ul_next_slot := (ul_next_slot L + 1) mod ul_slot_span L\<rparr>)"
  by (cases n) (simp_all add: Let_def)

lemma sample_v1_negotiated:
  "v1_runs (take 7 sample_v1_events) sample_v1_start =
     Some (sample_v1\<lparr>uc_links := [sample_v1_link ''u'' 0 0 [], sample_v1_link ''v'' 1 0 []], uc_primary := -1\<rparr>)"
  by (simp add: sample_v1_start_def sample_v1_events_def sample_v1_def sample_v1_link_def v1_exec_def v1_start_def
      v1_connect_def v1_on_open_def v1_send_configure_def v1_send_subscribe_def v1_send_authorize_def v1_on_line_def
      v1_handle_result_def v1_on_subscribe_result_def v1_on_authorize_result_def v1_set_extranonce_def
      v1_notify_waiters_def v1_new_def v1_new_link_def set_link_def Let_def widths_kept_def All_less_Suc)

lemma sample_v1_attached:
  "v1_runs (drop 7 sample_v1_events)
     (sample_v1\<lparr>uc_links := [sample_v1_link ''u'' 0 0 [], sample_v1_link ''v'' 1 0 []], uc_primary := -1\<rparr>) = Some sample_v1"
  by (simp add: sample_v1_events_def sample_v1_def sample_v1_link_def v1_exec_def v1_attach_def v1_pick_link_def
      first_ready_def v1_link_ready_def v1_allocate_def find_slot_first set_link_def Let_def widths_kept_def All_less_Suc
      pad_hex_def hex_number.simps hex_digit_def)

lemma v1_runs_append: "v1_runs (xs @ ys) s = (case v1_runs xs s of None \<Rightarrow> None | Some t \<Rightarrow> v1_runs ys t)"
  by (induction xs arbitrary: s) (auto simp: Let_def)

lemma sample_v1_reachable: "reachable v1_init (v1_next (\<lambda>_. Inr [])) sample_v1"
proof (rule v1_runs_reachable)
  show "v1_runs sample_v1_events sample_v1_start = Some sample_v1"
    using v1_runs_append[of "take 7 sample_v1_events" "drop 7 sample_v1_events" sample_v1_start]
    by (simp only: append_take_drop_id sample_v1_negotiated sample_v1_attached option.case)
  have "v1_init sample_v1_start"
    unfolding v1_init_def sample_v1_start_def by (intro exI conjI[rotated], rule refl) simp
  then show "reachable v1_init (v1_next (\<lambda>_. Inr [])) sample_v1_start"
    by (rule reachable_init)
qed


lemma v1_failover_keeps_sessions_witness:
  "\<exists>t e re w. v1_on_close (\<lambda>_. True) 0 sample_v1 = (t, e) \<and>
     e = map (\<lambda>(k, ns, job, d). Sink_Rebind k ns job d) re @ w \<and> mset (map fst re) = {#7, 8#} \<and> ul_subscribers (link t 0) = []"
proof -
  obtain t e where c: "v1_on_close (\<lambda>_. True) 0 sample_v1 = (t, e)"
    by force
  have n: "0 < length (uc_links sample_v1)"
    by (simp add: sample_v1_def)
  have room: "\<not> uc_active_active sample_v1 \<and> (\<exists>j < length (uc_links sample_v1). j \<noteq> 0 \<and> v1_link_ready (link sample_v1 j)) \<and>
     (\<forall>j < length (uc_links sample_v1). j \<noteq> 0 \<and> v1_link_ready (link sample_v1 j) \<longrightarrow>
        length (ul_subscribers (link sample_v1 j)) + length (ul_subscribers (link sample_v1 0)) \<le> unat (ul_slot_span (link sample_v1 j)))"
    by (auto simp: sample_v1_def sample_v1_link_def v1_link_ready_def less_Suc_eq)
  from v1_failover_keeps_sessions[OF sample_v1_reachable n c] room
  obtain re st w where "e = map (\<lambda>(k, ns, job, d). Sink_Rebind k ns job d) re @ map (\<lambda>k. Sink_State k False) st @ w" "st = []"
    "mset (map fst re) + mset st = mset (v1_link_sinks (\<lambda>_. True) (link sample_v1 0))"
    "map (\<lambda>(_, k, _). k) (ul_subscribers (link t 0)) = st"
    by blast
  then show ?thesis
    using c by (intro exI[of _ t] exI[of _ e] exI[of _ re] exI[of _ w])
      (simp add: v1_link_sinks_def sample_v1_def sample_v1_link_def)
qed

end
