(* ===== verification/Proxy_Session.thy ===== *)
theory Proxy_Session
  imports Session_Common Line_Transport Rate_Limiter Upstream_V1 Sv2_Upstream
begin

text \<open>
  \<open>src/proxy_session.cpp\<close>: a miner of the proxy role. Its work comes from an upstream client behind the
  interface \<open>UpstreamSource\<close> (\<open>src/upstream_client.hpp\<close>), a record of operations on an arbitrary state,
  which the V1 and the SV2 upstream clients provide. A handler works on the session, the shared rate
  limiter and the upstream, and appends to \<open>px_out\<close> what it posts: lines to the miner and submits to the
  upstream. Digests, the clock and the text of a floating-point id come with the environment of the
  event.
\<close>

section \<open>The upstream interface\<close>

record 'u upstream_ops =
  op_any_ready :: "'u \<Rightarrow> bool"
  op_attach :: "nat \<Rightarrow> 'u \<Rightarrow> proxy_slot \<times> 'u"
  op_detach :: "int \<Rightarrow> u32 \<Rightarrow> 'u \<Rightarrow> 'u"
  op_register_waiter :: "nat \<Rightarrow> 'u \<Rightarrow> 'u"
  op_current_job :: "int \<Rightarrow> 'u \<Rightarrow> proxy_notify option"
  op_current_diff :: "int \<Rightarrow> 'u \<Rightarrow> rat"

definition v1_ops :: "v1_up upstream_ops" where
  "v1_ops =
     \<lparr>op_any_ready = v1_any_ready, op_attach = v1_attach, op_detach = v1_detach,
      op_register_waiter = v1_register_waiter, op_current_job = v1_current_job, op_current_diff = v1_current_diff\<rparr>"

definition sv2_ops :: "sv2_up upstream_ops" where
  "sv2_ops =
     \<lparr>op_any_ready = su_any_ready, op_attach = su_attach, op_detach = (\<lambda>_. su_detach),
      op_register_waiter = su_register_waiter, op_current_job = (\<lambda>_. su_current_job),
      op_current_diff = (\<lambda>_. su_current_diff)\<rparr>"

text \<open>
  The contract of an upstream: it keeps its own invariant, and a granted slot carries the extranonce1 of
  its link followed by the slot's bytes.
\<close>

locale upstream_source =
  fixes ops :: "'u upstream_ops" and upinv :: "'u \<Rightarrow> bool" and link_en1 :: "int \<Rightarrow> 'u \<Rightarrow> hex"
  assumes attach_inv: "upinv u \<Longrightarrow> upinv (snd (op_attach ops sink u))"
    and detach_inv: "upinv u \<Longrightarrow> upinv (op_detach ops i c u)"
    and register_inv: "upinv u \<Longrightarrow> upinv (op_register_waiter ops sink u)"
    and attach_en1: "upinv u \<Longrightarrow> op_attach ops sink u = (slot, u') \<Longrightarrow> ps_ok slot \<Longrightarrow>
      ps_en1_hex slot = link_en1 (ps_link_id slot) u @ ps_slot_hex slot"
    and attach_refused: "upinv u \<Longrightarrow> op_attach ops sink u = (slot, u') \<Longrightarrow> \<not> ps_ok slot \<Longrightarrow> slot = no_slot"

section \<open>State\<close>

datatype px_effect =
  Px_Line string
| Px_Forward int upstream_submit bool \<comment> \<open>whether it has a callback\<close>

record 'u px =
  px_slot :: proxy_slot
  px_attached :: bool
  px_session_id :: string
  px_user_agent :: string
  px_worker_name :: string
  px_subscribed :: bool
  px_authorized :: bool
  px_extranonce_subscribed :: bool
  px_version_rolling :: bool
  px_version_mask :: u32
  px_pending_subscribe :: bool
  px_pending_subscribe_id :: string
  px_upstream_diff :: rat
  px_target_diff :: rat
  px_recent_jobs :: "string \<rightharpoonup> proxy_notify"
  px_recent_order :: "string list"
  px_cur_job :: "proxy_notify option"
  px_accepted :: u64
  px_rejected :: u64
  px_forwarded :: u64
  px_closed :: bool
  px_rl :: "rate_limiter option"
  px_up :: 'u
  px_out :: "px_effect list"

text \<open>The constants of a session and the readings of an event.\<close>

record 'u px_env =
  pe_ops :: "'u upstream_ops"
  pe_sink :: nat
  pe_ip :: string
  pe_coin :: coin_config
  pe_sha256 :: "bytes \<Rightarrow> bytes"
  pe_scrypt :: "bytes \<Rightarrow> bytes"
  pe_fmt_double :: "rat \<Rightarrow> string"
  pe_now :: int
  pe_now_unix :: u32

definition px_new :: "string \<Rightarrow> rate_limiter option \<Rightarrow> 'u \<Rightarrow> 'u px" where
  "px_new sid rl up =
     \<lparr>px_slot = no_slot, px_attached = False, px_session_id = sid, px_user_agent = [], px_worker_name = [],
      px_subscribed = False, px_authorized = False, px_extranonce_subscribed = False, px_version_rolling = False,
      px_version_mask = 0, px_pending_subscribe = False, px_pending_subscribe_id = [], px_upstream_diff = 0,
      px_target_diff = 0, px_recent_jobs = Map.empty, px_recent_order = [], px_cur_job = None, px_accepted = 0,
      px_rejected = 0, px_forwarded = 0, px_closed = False, px_rl = rl, px_up = up, px_out = []\<rparr>"

definition px_send :: "string \<Rightarrow> 'u px \<Rightarrow> 'u px" where
  "px_send m s = s\<lparr>px_out := px_out s @ [Px_Line m]\<rparr>"

definition px_forward :: "int \<Rightarrow> upstream_submit \<Rightarrow> bool \<Rightarrow> 'u px \<Rightarrow> 'u px" where
  "px_forward link_id us cb s =
     s\<lparr>px_out := px_out s @ [Px_Forward link_id us cb], px_forwarded := px_forwarded s + 1\<rparr>"

definition px_on_closed :: "'u px_env \<Rightarrow> 'u px \<Rightarrow> 'u px" where
  "px_on_closed e s =
     (if px_attached s
      then s\<lparr>px_up := op_detach (pe_ops e) (ps_link_id (px_slot s)) (ps_slot_id (px_slot s)) (px_up s)\<rparr> else s)"

definition px_close :: "'u px_env \<Rightarrow> 'u px \<Rightarrow> 'u px" where
  "px_close e s =
     (if px_closed s then s
      else let s = px_on_closed e (s\<lparr>px_closed := True\<rparr>)
           in s\<lparr>px_rl := map_option (rl_on_disconnect (pe_ip e)) (px_rl s)\<rparr>)"

section \<open>Subscription\<close>

definition px_send_subscribe_reply :: "'u px \<Rightarrow> 'u px" where
  "px_send_subscribe_reply s =
     px_send (subscribe_line (px_pending_subscribe_id s) (px_session_id s) (ps_en1_hex (px_slot s)) (ps_en2_size (px_slot s))) s"

definition px_send_set_difficulty :: "rat \<Rightarrow> 'u px \<Rightarrow> 'u px" where
  "px_send_set_difficulty d s = px_send (set_difficulty_line (round_away (if d > 0 then d else 1))) s"

definition px_remember_job :: "proxy_notify option \<Rightarrow> 'u px \<Rightarrow> 'u px" where
  "px_remember_job job s =
     (case job of
        None \<Rightarrow> s
      | Some j \<Rightarrow>
          if px_recent_jobs s (pn_job_id j) \<noteq> None then s
          else
            let m = (px_recent_jobs s)(pn_job_id j \<mapsto> j);
                order = px_recent_order s @ [pn_job_id j];
                old = take (length order - 8) order
            in s\<lparr>px_recent_jobs := m |` (- set old), px_recent_order := drop (length order - 8) order\<rparr>)"

definition px_emit_current_job :: "bool \<Rightarrow> 'u px \<Rightarrow> 'u px" where
  "px_emit_current_job force_clean s =
     (case px_cur_job s of None \<Rightarrow> s | Some j \<Rightarrow> px_send (force_clean_line force_clean (pn_notify_line j)) s)"

definition px_hold_subscribe :: "'u px_env \<Rightarrow> 'u px \<Rightarrow> 'u px" where
  "px_hold_subscribe e s =
     s\<lparr>px_pending_subscribe := True, px_up := op_register_waiter (pe_ops e) (pe_sink e) (px_up s)\<rparr>"

definition px_try_attach_and_reply :: "'u px_env \<Rightarrow> 'u px \<Rightarrow> 'u px" where
  "px_try_attach_and_reply e s =
     (if px_subscribed s then px_send_subscribe_reply s
      else if \<not> op_any_ready (pe_ops e) (px_up s) then px_hold_subscribe e s
      else
        let (slot, up) = op_attach (pe_ops e) (pe_sink e) (px_up s);
            s = s\<lparr>px_slot := slot, px_up := up\<rparr>
        in if \<not> ps_ok slot then px_hold_subscribe e s
           else
             let d = op_current_diff (pe_ops e) (ps_link_id slot) up;
                 s = s\<lparr>px_attached := True, px_pending_subscribe := False, px_upstream_diff := d, px_target_diff := d\<rparr>;
                 s = (px_send_subscribe_reply s)\<lparr>px_subscribed := True\<rparr>;
                 s = px_send_set_difficulty (px_target_diff s) s;
                 s = (if px_version_rolling s \<and> px_version_mask s \<noteq> 0
                      then px_send (set_version_mask_line (px_version_mask s)) s else s);
                 s = s\<lparr>px_cur_job := op_current_job (pe_ops e) (ps_link_id slot) up\<rparr>
             in px_remember_job (px_cur_job s) s)"

section \<open>Requests\<close>

definition px_id :: "'u px_env \<Rightarrow> json \<Rightarrow> string" where
  "px_id e msg = safe_id_json (pe_fmt_double e) msg"

definition px_handle_configure :: "'u px_env \<Rightarrow> json \<Rightarrow> 'u px \<Rightarrow> 'u px" where
  "px_handle_configure e msg s =
     (let params = (case params_of msg of Some ps \<Rightarrow> JArr ps | None \<Rightarrow> JArr []);
          neg = negotiate_configure params (if enableVersionRolling (pe_coin e) then versionRollingMask (pe_coin e) else 0);
          s = s\<lparr>px_version_rolling := cr_version_rolling neg \<and> cr_version_mask neg \<noteq> 0,
                px_version_mask := cr_version_mask neg\<rparr>;
          s = (if cr_subscribe_extranonce neg then s\<lparr>px_extranonce_subscribed := True\<rparr> else s)
      in px_send (configure_line (px_id e msg) False neg) s)"

definition px_handle_subscribe :: "'u px_env \<Rightarrow> json \<Rightarrow> 'u px \<Rightarrow> 'u px" where
  "px_handle_subscribe e msg s =
     (let s = (case first_string msg of Some ua \<Rightarrow> s\<lparr>px_user_agent := take 256 ua\<rparr> | None \<Rightarrow> s)
      in px_try_attach_and_reply e (s\<lparr>px_pending_subscribe_id := px_id e msg\<rparr>))"

definition px_handle_authorize :: "'u px_env \<Rightarrow> json \<Rightarrow> 'u px \<Rightarrow> 'u px" where
  "px_handle_authorize e msg s =
     (let s = (case first_string msg of Some w \<Rightarrow> s\<lparr>px_worker_name := take 192 w\<rparr> | None \<Rightarrow> s);
          s = (px_send (ok_line (px_id e msg)) s)\<lparr>px_authorized := True\<rparr>
      in if px_subscribed s \<and> px_cur_job s \<noteq> None then px_emit_current_job True s else s)"

definition px_reject :: "'u px_env \<Rightarrow> json \<Rightarrow> string \<Rightarrow> nat \<Rightarrow> 'u px \<Rightarrow> 'u px" where
  "px_reject e msg reason code s =
     (let s = px_send (error_line (px_id e msg) code reason) s;
          s = s\<lparr>px_rejected := px_rejected s + 1\<rparr>
      in case px_rl s of
           None \<Rightarrow> s
         | Some rl \<Rightarrow>
             let (ban, rl) = record_invalid_share (pe_ip e) (pe_now e) rl; s = s\<lparr>px_rl := Some rl\<rparr>
             in if ban then px_close e s else s)"

text \<open>The parameters read from the request; the worker name is not used.\<close>

definition px_submit_params :: "json list \<Rightarrow> submit_params option" where
  "px_submit_params p =
     (case p of
        _ # JStr jid # JStr en2 # JStr ntime # JStr nonce # _ \<Rightarrow>
          Some \<lparr>sp_worker = [], sp_job_id = jid, sp_en2 = en2, sp_ntime = ntime, sp_nonce = nonce,
                sp_version_bits = version_bits_param p\<rparr>
      | _ \<Rightarrow> None)"

definition px_scored_header :: "'u px_env \<Rightarrow> proxy_notify \<Rightarrow> u32 \<Rightarrow> hex \<Rightarrow> submit_params \<Rightarrow> hex res" where
  "px_scored_header e job version full_extra p =
     share_header (pe_sha256 e) version (swap_words_hex (pn_prevhash_stratum job))
       (rebuild_coinbase (pn_coinbase1 job) (pn_coinbase2 job) full_extra) (pn_merkle_branch job)
       (sp_ntime p) (pn_bits job) (sp_nonce p)"

text \<open>The proxy scores every chain but Litecoin and Dogecoin against the Bitcoin target of difficulty 1.\<close>

definition px_share_difficulty :: "chain_kind \<Rightarrow> bytes \<Rightarrow> rat" where
  "px_share_difficulty k hash_be = share_difficulty (if k = Litecoin \<or> k = Dogecoin then k else Bitcoin) hash_be"

definition px_tol :: rat where "px_tol = dbl (99 / 100)"

text \<open>A share whose header has been hashed.\<close>

definition px_verdict :: "'u px_env \<Rightarrow> json \<Rightarrow> proxy_notify \<Rightarrow> submit_params \<Rightarrow> bytes \<Rightarrow> 'u px \<Rightarrow> 'u px" where
  "px_verdict e msg job p hash_be s =
     (let meets_network = meets_target hash_be (pn_net_target_be job);
          share_diff = px_share_difficulty (chain (pe_coin e)) hash_be;
          threshold = (if px_target_diff s > 0 then px_target_diff s else 1);
          us = \<lparr>us_job_id = sp_job_id p, us_en2_full_hex = ps_slot_hex (px_slot s) @ sp_en2 p,
                us_ntime_hex = sp_ntime p, us_nonce_hex = sp_nonce p, us_version_bits = sp_version_bits p\<rparr>
      in if share_diff < dbl (threshold * px_tol) then
           px_reject e msg ''low difficulty share'' 23
             (if meets_network then px_forward (ps_link_id (px_slot s)) us False s else s)
         else
           let s = px_forward (ps_link_id (px_slot s)) us True s;
               s = px_send (ok_line (px_id e msg)) s
           in s\<lparr>px_accepted := px_accepted s + 1, px_rl := map_option (clear_invalid (pe_ip e)) (px_rl s)\<rparr>)"

text \<open>The checks before the share is hashed: \<open>Inl\<close> is the reason and code of a rejection.\<close>

definition px_submit_checks :: "'u px_env \<Rightarrow> json \<Rightarrow> 'u px \<Rightarrow> string \<times> nat + submit_params \<times> proxy_notify \<times> u32" where
  "px_submit_checks e msg s =
     (if \<not> px_authorized s then Inl (''not authorized'', 24)
      else if \<not> px_subscribed s \<or> \<not> px_attached s then Inl (''not subscribed'', 25)
      else case params_of msg of
        None \<Rightarrow> Inl (''bad params'', 20)
      | Some ps \<Rightarrow>
          if length ps < 5 then Inl (''bad params'', 20)
          else case px_submit_params ps of
            None \<Rightarrow> Inl (''bad params types'', 20)
          | Some p \<Rightarrow>
              if \<not> valid_hex (sp_en2 p) \<or> \<not> valid_hex (sp_ntime p) \<or> \<not> valid_hex (sp_nonce p)
                 \<or> length (sp_ntime p) \<noteq> 8 \<or> length (sp_nonce p) \<noteq> 8 then Inl (''invalid hex'', 20)
              else if length (sp_en2 p) \<noteq> ps_en2_size (px_slot s) * 2 then Inl (''bad extranonce2 size'', 20)
              else case px_recent_jobs s (sp_job_id p) of
                None \<Rightarrow> Inl (''job not found'', 21)
              | Some job \<Rightarrow>
                  (case parse_hex8_u32 (sp_ntime p) of
                     None \<Rightarrow> Inl (''bad ntime'', 20)
                   | Some ntime \<Rightarrow>
                       if \<not> valid_ntime ntime (pn_mintime job) (pe_now_unix e) 7200 then Inl (''ntime out of range'', 20)
                       else if sp_version_bits p \<noteq> None \<and> (\<not> px_version_rolling s \<or> px_version_mask s = 0)
                       then Inl (''version-rolling not negotiated'', 20)
                       else Inr (p, job, rolled_version (pn_version job) (px_version_mask s) (sp_version_bits p))))"

definition px_handle_submit :: "'u px_env \<Rightarrow> json \<Rightarrow> 'u px \<Rightarrow> 'u px res" where
  "px_handle_submit e msg s =
     (case px_submit_checks e msg s of
        Inl (reason, code) \<Rightarrow> Inr (px_reject e msg reason code s)
      | Inr (p, job, version) \<Rightarrow>
          bindE (px_scored_header e job version (ps_en1_hex (px_slot s) @ sp_en2 p) p) (\<lambda>header_hex.
          bindE (hex_to_bytes header_hex) (\<lambda>header.
            Inr (px_verdict e msg job p
                   (pow_hash_be (pe_sha256 e) (pe_scrypt e) (chain (pe_coin e)) header) s))))"

section \<open>Lines\<close>

text \<open>A parsed line (\<open>None\<close>: the JSON parser threw).\<close>

definition px_on_line :: "'u px_env \<Rightarrow> json option \<Rightarrow> 'u px \<Rightarrow> 'u px" where
  "px_on_line e line s =
     (case line of
        None \<Rightarrow> px_send (error_line ''null'' 20 ''JSON parse error'') s
      | Some msg \<Rightarrow>
          (case method_of msg of
             None \<Rightarrow> px_send (error_line ''null'' 20 ''missing method'') s
           | Some method \<Rightarrow>
               if method = ''mining.configure'' then px_handle_configure e msg s
               else if method = ''mining.subscribe'' then px_handle_subscribe e msg s
               else if method = ''mining.authorize'' then px_handle_authorize e msg s
               else if method = ''mining.submit'' then
                 (case px_handle_submit e msg s of
                    Inr s' \<Rightarrow> s'
                  | Inl _ \<Rightarrow> px_send (error_line (px_id e msg) 20 ''malformed request'') s)
               else if method = ''mining.extranonce.subscribe'' then
                 px_send (ok_line (px_id e msg)) (s\<lparr>px_extranonce_subscribed := True\<rparr>)
               else if method = ''mining.suggest_difficulty'' \<or> method = ''mining.suggest_target'' then s
               else px_send (error_line (px_id e msg) 20 ''unsupported in proxy mode'') s))"

section \<open>Upstream events\<close>

definition set_extranonce_line :: "hex \<Rightarrow> nat \<Rightarrow> string" where
  "set_extranonce_line en1 en2_size =
     jq ''{`id`:null,`method`:`mining.set_extranonce`,`params`:['' @ quoted en1 @ '','' @ dec_string en2_size @ '']}'' @ [CHR 10]"

definition px_upstream_job :: "proxy_notify \<Rightarrow> 'u px \<Rightarrow> 'u px" where
  "px_upstream_job job s =
     (if px_closed s then s
      else let s = px_remember_job (Some job) (s\<lparr>px_cur_job := Some job\<rparr>)
           in if px_subscribed s \<and> px_authorized s then px_emit_current_job False s else s)"

definition px_upstream_diff_event :: "rat \<Rightarrow> 'u px \<Rightarrow> 'u px" where
  "px_upstream_diff_event d s =
     (if px_closed s then s
      else let s = s\<lparr>px_upstream_diff := d, px_target_diff := d\<rparr>
           in if px_subscribed s then px_send_set_difficulty d s else s)"

definition px_upstream_extranonce :: "hex \<Rightarrow> nat \<Rightarrow> 'u px \<Rightarrow> 'u px" where
  "px_upstream_extranonce en1 en2_size s =
     (if px_closed s then s
      else let s = s\<lparr>px_slot := (px_slot s)\<lparr>ps_en1_hex := en1, ps_en2_size := en2_size\<rparr>\<rparr>
           in if px_subscribed s then px_emit_current_job True (px_send (set_extranonce_line en1 en2_size) s) else s)"

definition px_upstream_state :: "'u px_env \<Rightarrow> bool \<Rightarrow> 'u px \<Rightarrow> 'u px" where
  "px_upstream_state e up s =
     (if px_closed s then s else if up \<and> px_pending_subscribe s then px_try_attach_and_reply e s else s)"

definition px_rebind :: "'u px_env \<Rightarrow> proxy_slot \<Rightarrow> proxy_notify option \<Rightarrow> rat \<Rightarrow> 'u px \<Rightarrow> 'u px" where
  "px_rebind e slot job d s =
     (if px_closed s \<or> \<not> ps_ok slot then s
      else
        let s = s\<lparr>px_slot := slot, px_attached := True, px_upstream_diff := (if d > 0 then d else px_upstream_diff s)\<rparr>;
            s = s\<lparr>px_target_diff := px_upstream_diff s\<rparr>
        in if \<not> px_extranonce_subscribed s then px_close e s
           else
             let s = px_send (set_extranonce_line (ps_en1_hex slot) (ps_en2_size slot)) s;
                 s = px_send_set_difficulty (px_target_diff s) s
             in case job of
                  None \<Rightarrow> s
                | Some j \<Rightarrow> px_emit_current_job True (px_remember_job (Some j) (s\<lparr>px_cur_job := Some j\<rparr>)))"

section \<open>Facts: submits\<close>

definition px_emitted :: "'u px \<Rightarrow> 'u px \<Rightarrow> px_effect list" where
  "px_emitted s t = drop (length (px_out s)) (px_out t)"

text \<open>The part of a session that a submit does not touch.\<close>

definition px_view ::
  "'u px \<Rightarrow> proxy_slot \<times> bool \<times> bool \<times> bool \<times> u32 \<times> rat \<times> (string \<rightharpoonup> proxy_notify) \<times> string list \<times> proxy_notify option" where
  "px_view s = (px_slot s, px_attached s, px_subscribed s, px_authorized s, px_version_mask s, px_target_diff s,
     px_recent_jobs s, px_recent_order s, px_cur_job s)"

lemma px_view_update [simp]:
  "px_view (s\<lparr>px_out := a\<rparr>) = px_view s" "px_view (s\<lparr>px_rejected := n\<rparr>) = px_view s" "px_view (s\<lparr>px_accepted := n\<rparr>) = px_view s"
  "px_view (s\<lparr>px_forwarded := n\<rparr>) = px_view s" "px_view (s\<lparr>px_rl := r\<rparr>) = px_view s"
  by (simp_all add: px_view_def)

lemma px_close_keeps [simp]:
  "px_out (px_close e s) = px_out s" "px_accepted (px_close e s) = px_accepted s"
  "px_rejected (px_close e s) = px_rejected s" "px_view (px_close e s) = px_view s"
  by (simp_all add: px_close_def px_on_closed_def px_view_def Let_def)

lemma px_reject_effect:
  "px_out (px_reject e msg reason code s) = px_out s @ [Px_Line (error_line (px_id e msg) code reason)]"
  "px_accepted (px_reject e msg reason code s) = px_accepted s"
  "px_rejected (px_reject e msg reason code s) = px_rejected s + 1"
  "px_view (px_reject e msg reason code s) = px_view s"
  by (simp_all add: px_reject_def px_send_def Let_def split: option.split prod.split)

lemma px_verdict_cases:
  obtains (accept) us where "\<not> px_share_difficulty (chain (pe_coin e)) h < dbl ((if px_target_diff s > 0 then px_target_diff s else 1) * px_tol)"
      and "px_out (px_verdict e msg job p h s) =
        px_out s @ [Px_Forward (ps_link_id (px_slot s)) us True, Px_Line (ok_line (px_id e msg))]"
      and "us = \<lparr>us_job_id = sp_job_id p, us_en2_full_hex = ps_slot_hex (px_slot s) @ sp_en2 p,
                us_ntime_hex = sp_ntime p, us_nonce_hex = sp_nonce p, us_version_bits = sp_version_bits p\<rparr>"
      and "px_accepted (px_verdict e msg job p h s) = px_accepted s + 1"
      and "px_rejected (px_verdict e msg job p h s) = px_rejected s"
    | (reject) us where "px_share_difficulty (chain (pe_coin e)) h < dbl ((if px_target_diff s > 0 then px_target_diff s else 1) * px_tol)"
      and "px_out (px_verdict e msg job p h s) =
        px_out s @ (if meets_target h (pn_net_target_be job) then [Px_Forward (ps_link_id (px_slot s)) us False] else []) @
        [Px_Line (error_line (px_id e msg) 23 ''low difficulty share'')]"
      and "us = \<lparr>us_job_id = sp_job_id p, us_en2_full_hex = ps_slot_hex (px_slot s) @ sp_en2 p,
                us_ntime_hex = sp_ntime p, us_nonce_hex = sp_nonce p, us_version_bits = sp_version_bits p\<rparr>"
      and "px_accepted (px_verdict e msg job p h s) = px_accepted s"
      and "px_rejected (px_verdict e msg job p h s) = px_rejected s + 1"
proof (cases "px_share_difficulty (chain (pe_coin e)) h < dbl ((if px_target_diff s > 0 then px_target_diff s else 1) * px_tol)")
  case True
  show thesis
    by (rule reject[OF True _ refl]) (use True in \<open>simp_all add: px_verdict_def Let_def px_reject_effect px_forward_def\<close>)
next
  case False
  show thesis
    by (rule accept[OF False _ refl]) (use False in \<open>simp_all add: px_verdict_def Let_def px_send_def px_forward_def\<close>)
qed

lemma px_verdict_view: "px_view (px_verdict e msg job p h s) = px_view s"
  by (simp add: px_verdict_def Let_def px_reject_effect px_send_def px_forward_def)

lemma px_checks_InrD:
  assumes "px_submit_checks e msg s = Inr (p, job, version)"
  shows "px_recent_jobs s (sp_job_id p) = Some job \<and> length (sp_en2 p) = 2 * ps_en2_size (px_slot s) \<and>
    version = rolled_version (pn_version job) (px_version_mask s) (sp_version_bits p) \<and>
    px_authorized s \<and> px_subscribed s \<and> px_attached s \<and>
    (\<exists>t. parse_hex8_u32 (sp_ntime p) = Some t \<and> valid_ntime t (pn_mintime job) (pe_now_unix e) 7200)"
  using assms
  by (auto simp: px_submit_checks_def split: if_splits option.splits)

section \<open>Facts: the session's invariant\<close>

text \<open>The job table holds the last eight distinct ids under their own names, and the slot's extranonce1 ends
  with the slot's bytes.\<close>

definition jobs_ok :: "'u px \<Rightarrow> bool" where
  "jobs_ok s \<longleftrightarrow>
     dom (px_recent_jobs s) = set (px_recent_order s) \<and> distinct (px_recent_order s) \<and> length (px_recent_order s) \<le> 8 \<and>
     (\<forall>k j. px_recent_jobs s k = Some j \<longrightarrow> pn_job_id j = k)"

definition slot_ok :: "proxy_slot \<Rightarrow> bool" where
  "slot_ok slot \<longleftrightarrow> (\<exists>pool_en1. ps_en1_hex slot = pool_en1 @ ps_slot_hex slot)"

definition px_ok :: "'u px \<Rightarrow> bool" where
  "px_ok s \<longleftrightarrow> jobs_ok s \<and> slot_ok (px_slot s) \<and> (px_subscribed s \<longrightarrow> px_attached s)"

lemma slot_ok_no_slot [simp]: "slot_ok no_slot"
  by (simp add: slot_ok_def no_slot_def)

lemma px_ok_view: "px_view s = px_view t \<Longrightarrow> px_ok s = px_ok t"
  by (simp add: px_ok_def jobs_ok_def px_view_def)

lemma px_ok_update [simp]:
  "px_ok (s\<lparr>px_out := a\<rparr>) = px_ok s" "px_ok (s\<lparr>px_rl := r\<rparr>) = px_ok s" "px_ok (s\<lparr>px_up := u\<rparr>) = px_ok s"
  "px_ok (s\<lparr>px_cur_job := c\<rparr>) = px_ok s" "px_ok (s\<lparr>px_authorized := b\<rparr>) = px_ok s" "px_ok (s\<lparr>px_worker_name := w\<rparr>) = px_ok s"
  "px_ok (s\<lparr>px_user_agent := w\<rparr>) = px_ok s" "px_ok (s\<lparr>px_version_rolling := b\<rparr>) = px_ok s" "px_ok (s\<lparr>px_version_mask := m\<rparr>) = px_ok s"
  "px_ok (s\<lparr>px_extranonce_subscribed := b\<rparr>) = px_ok s" "px_ok (s\<lparr>px_pending_subscribe := b\<rparr>) = px_ok s"
  "px_ok (s\<lparr>px_pending_subscribe_id := w\<rparr>) = px_ok s" "px_ok (s\<lparr>px_upstream_diff := d\<rparr>) = px_ok s"
  "px_ok (s\<lparr>px_target_diff := d\<rparr>) = px_ok s" "px_ok (s\<lparr>px_closed := b\<rparr>) = px_ok s"
  "px_ok (s\<lparr>px_rejected := n\<rparr>) = px_ok s" "px_ok (s\<lparr>px_accepted := n\<rparr>) = px_ok s" "px_ok (s\<lparr>px_forwarded := n\<rparr>) = px_ok s"
  by (simp_all add: px_ok_def jobs_ok_def)

lemma px_ok_slot:
  "px_ok s \<Longrightarrow> slot_ok slot \<Longrightarrow> px_ok (s\<lparr>px_slot := slot\<rparr>)" "px_ok s \<Longrightarrow> px_ok (s\<lparr>px_attached := True\<rparr>)"
  "px_ok s \<Longrightarrow> px_attached s \<Longrightarrow> px_ok (s\<lparr>px_subscribed := True\<rparr>)"
  by (simp_all add: px_ok_def jobs_ok_def)

lemma px_sends_ok [simp]:
  "px_ok (px_send m s) = px_ok s" "px_ok (px_send_subscribe_reply s) = px_ok s" "px_ok (px_send_set_difficulty d s) = px_ok s"
  "px_ok (px_emit_current_job f s) = px_ok s" "px_ok (px_close e s) = px_ok s"
  by (simp_all add: px_send_def px_send_subscribe_reply_def px_send_set_difficulty_def px_emit_current_job_def px_close_def
      px_on_closed_def Let_def split: option.split)

lemma set_drop_distinct: "distinct xs \<Longrightarrow> set (drop n xs) = set xs - set (take n xs)"
  using distinct_append[of "take n xs" "drop n xs"] set_append[of "take n xs" "drop n xs"] by auto

lemma jobs_ok_remember: "jobs_ok s \<Longrightarrow> jobs_ok (px_remember_job job s)"
proof -
  assume ok: "jobs_ok s"
  show ?thesis
  proof (cases "\<exists>j. job = Some j \<and> px_recent_jobs s (pn_job_id j) = None")
    case False
    then show ?thesis
      using ok by (auto simp: px_remember_job_def split: option.split)
  next
    case True
    then obtain j where j: "job = Some j" "px_recent_jobs s (pn_job_id j) = None"
      by blast
    let ?o = "px_recent_order s @ [pn_job_id j]"
    let ?m = "(px_recent_jobs s)(pn_job_id j \<mapsto> j)"
    define n where "n = length ?o - 8"
    have r: "px_recent_jobs (px_remember_job job s) = ?m |` (- set (take n ?o))" "px_recent_order (px_remember_job job s) = drop n ?o"
      using j by (simp_all add: px_remember_job_def n_def Let_def)
    have d: "distinct ?o" "dom ?m = set ?o"
      using ok j(2) by (auto simp: jobs_ok_def domIff)
    have "dom (?m |` (- set (take n ?o))) = set ?o - set (take n ?o)"
      unfolding dom_restrict d(2) by auto
    then have "dom (?m |` (- set (take n ?o))) = set (drop n ?o)"
      using set_drop_distinct[OF d(1)] by simp
    moreover have "pn_job_id v = k" if "(?m |` (- set (take n ?o))) k = Some v" for k v
      using that ok by (auto simp: jobs_ok_def restrict_map_def split: if_splits)
    moreover have "distinct (drop n ?o)" "length (drop n ?o) \<le> 8"
      using d(1) by (simp_all only: distinct_drop length_drop) (simp add: n_def)
    ultimately show ?thesis
      unfolding jobs_ok_def r by blast
  qed
qed

lemma px_ok_remember [simp]: "px_ok s \<Longrightarrow> px_ok (px_remember_job job s)"
proof -
  have "px_slot (px_remember_job job s) = px_slot s" "px_subscribed (px_remember_job job s) = px_subscribed s"
    "px_attached (px_remember_job job s) = px_attached s" "px_up (px_remember_job job s) = px_up s"
    by (simp_all add: px_remember_job_def Let_def split: option.split)
  then show "px_ok s \<Longrightarrow> px_ok (px_remember_job job s)"
    using jobs_ok_remember[of s job] by (simp add: px_ok_def)
qed

lemma px_reject_ok [simp]: "px_ok (px_reject e msg reason code s) = px_ok s"
  by (rule px_ok_view) (simp add: px_reject_effect)

lemma px_submit_ok: "px_handle_submit e msg s = Inr t \<Longrightarrow> px_view t = px_view s"
  by (auto simp: px_handle_submit_def bindE_Inr_iff px_reject_effect px_verdict_view split: sum.splits)

section \<open>Events\<close>

datatype 'u px_event =
  Px_Request "json option"
| Px_Job proxy_notify
| Px_Diff rat
| Px_Extranonce hex nat
| Px_State bool
| Px_Rebind proxy_slot "proxy_notify option" rat
| Px_Shutdown
| Px_Upstream 'u \<comment> \<open>the upstream moves on its own\<close>

definition px_exec :: "'u px_env \<Rightarrow> 'u px_event \<Rightarrow> 'u px \<Rightarrow> 'u px" where
  "px_exec e ev s =
     (case ev of
        Px_Request line \<Rightarrow> if px_closed s then s else px_on_line e line s
      | Px_Job job \<Rightarrow> px_upstream_job job s
      | Px_Diff d \<Rightarrow> px_upstream_diff_event d s
      | Px_Extranonce en1 n \<Rightarrow> px_upstream_extranonce en1 n s
      | Px_State up \<Rightarrow> px_upstream_state e up s
      | Px_Rebind slot job d \<Rightarrow> px_rebind e slot job d s
      | Px_Shutdown \<Rightarrow> px_close e s
      | Px_Upstream u \<Rightarrow> s\<lparr>px_up := u\<rparr>)"

text \<open>What the upstream clients send: an extranonce1 that ends with the session's slot bytes, a granted slot.\<close>

definition px_event_ok :: "('u \<Rightarrow> bool) \<Rightarrow> 'u px_event \<Rightarrow> 'u px \<Rightarrow> bool" where
  "px_event_ok upinv ev s \<longleftrightarrow>
     (case ev of
        Px_Extranonce en1 _ \<Rightarrow> \<exists>x. en1 = x @ ps_slot_hex (px_slot s)
      | Px_Rebind slot _ _ \<Rightarrow> slot_ok slot
      | Px_Upstream u \<Rightarrow> upinv u
      | _ \<Rightarrow> True)"

definition px_init :: "('u \<Rightarrow> bool) \<Rightarrow> 'u px \<Rightarrow> bool" where
  "px_init upinv s \<longleftrightarrow> (\<exists>sid rl u. upinv u \<and> s = px_new sid rl u)"

definition px_next :: "'u upstream_ops \<Rightarrow> ('u \<Rightarrow> bool) \<Rightarrow> 'u px \<Rightarrow> 'u px_env \<times> 'u px_event \<Rightarrow> 'u px \<Rightarrow> bool" where
  "px_next ops upinv s ev t \<longleftrightarrow> pe_ops (fst ev) = ops \<and> px_event_ok upinv (snd ev) s \<and> t = px_exec (fst ev) (snd ev) s"

definition px_inv :: "('u \<Rightarrow> bool) \<Rightarrow> 'u px \<Rightarrow> bool" where
  "px_inv upinv s \<longleftrightarrow> px_ok s \<and> upinv (px_up s)"

lemma px_up_keeps [simp]:
  "px_up (px_send m s) = px_up s" "px_up (px_send_subscribe_reply s) = px_up s" "px_up (px_send_set_difficulty d s) = px_up s"
  "px_up (px_emit_current_job f s) = px_up s" "px_up (px_remember_job job s) = px_up s" "px_up (px_forward l us cb s) = px_up s"
  by (simp_all add: px_send_def px_send_subscribe_reply_def px_send_set_difficulty_def px_emit_current_job_def
      px_remember_job_def px_forward_def Let_def split: option.split)

context upstream_source begin

lemma close_up: "pe_ops e = ops \<Longrightarrow> upinv (px_up s) \<Longrightarrow> upinv (px_up (px_close e s))"
  by (simp add: px_close_def px_on_closed_def Let_def detach_inv)

lemma close_inv: "pe_ops e = ops \<Longrightarrow> px_inv upinv s \<Longrightarrow> px_inv upinv (px_close e s)"
  by (simp add: px_inv_def close_up)

lemma reject_up: "pe_ops e = ops \<Longrightarrow> upinv (px_up s) \<Longrightarrow> upinv (px_up (px_reject e msg reason code s))"
  by (simp add: px_reject_def Let_def close_up split: option.split prod.split)

lemma submit_inv:
  assumes "pe_ops e = ops" and "px_inv upinv s" and "px_handle_submit e msg s = Inr t"
  shows "px_inv upinv t"
proof -
  have "upinv (px_up (px_verdict e msg job p h s))" for job p h
    using assms(1,2) by (simp add: px_verdict_def Let_def px_inv_def reject_up)
  then have "upinv (px_up t)"
    using assms by (auto simp: px_handle_submit_def bindE_Inr_iff px_inv_def reject_up split: sum.splits)
  moreover have "px_ok t"
    using px_ok_view[OF px_submit_ok[OF assms(3)]] assms(2) by (simp add: px_inv_def)
  ultimately show ?thesis
    by (simp add: px_inv_def)
qed

lemma hold_inv: "pe_ops e = ops \<Longrightarrow> px_inv upinv s \<Longrightarrow> px_inv upinv (px_hold_subscribe e s)"
  by (simp add: px_inv_def px_hold_subscribe_def register_inv)

lemma try_attach_inv:
  assumes "pe_ops e = ops" and "px_inv upinv s"
  shows "px_inv upinv (px_try_attach_and_reply e s)"
proof (cases "px_subscribed s \<or> \<not> op_any_ready ops (px_up s)")
  case True
  then show ?thesis
    using assms hold_inv[OF assms] by (auto simp: px_try_attach_and_reply_def px_inv_def)
next
  case False
  obtain slot up where a: "op_attach ops (pe_sink e) (px_up s) = (slot, up)"
    by force
  have up: "upinv up"
    using attach_inv[of "px_up s" "pe_sink e"] assms(2) a by (simp add: px_inv_def)
  show ?thesis
  proof (cases "ps_ok slot")
    case True
    then have "slot_ok slot"
      using attach_en1[OF _ a] assms(2) by (auto simp: slot_ok_def px_inv_def)
    then have "px_ok (s\<lparr>px_slot := slot\<rparr>)"
      using assms(2) px_ok_slot(1) by (auto simp: px_inv_def)
    then show ?thesis
      using False True up assms(1)
      by (auto simp: px_try_attach_and_reply_def a Let_def px_inv_def px_send_def px_send_subscribe_reply_def
          px_send_set_difficulty_def intro!: px_ok_remember px_ok_slot(2,3))
  next
    case ns: False
    then have "slot = no_slot"
      using attach_refused[OF _ a] assms(2) by (simp add: px_inv_def)
    then have "px_ok (s\<lparr>px_slot := slot\<rparr>)"
      using assms(2) by (simp add: px_inv_def px_ok_slot(1))
    then have "px_inv upinv (s\<lparr>px_slot := slot, px_up := up\<rparr>)"
      using up by (simp add: px_inv_def)
    then show ?thesis
      using False ns assms(1) hold_inv[OF assms(1)] by (simp add: px_try_attach_and_reply_def a Let_def)
  qed
qed

lemma line_inv:
  assumes "pe_ops e = ops" and "px_inv upinv s"
  shows "px_inv upinv (px_on_line e line s)"
proof (cases line)
  case None
  then show ?thesis
    using assms(2) by (simp add: px_on_line_def px_inv_def)
next
  case (Some msg)
  have "px_inv upinv (px_handle_configure e msg s)"
    using assms(2) by (simp add: px_handle_configure_def Let_def px_inv_def)
  moreover have "px_inv upinv (px_handle_subscribe e msg s)"
    using assms by (auto simp: px_handle_subscribe_def Let_def px_inv_def split: option.split intro!: try_attach_inv[unfolded px_inv_def])
  moreover have "px_inv upinv (px_handle_authorize e msg s)"
    using assms(2) by (auto simp: px_handle_authorize_def Let_def px_inv_def split: option.split)
  ultimately show ?thesis
    using assms submit_inv[OF assms]
    by (auto simp: px_on_line_def Some px_inv_def split: option.split sum.split)
qed

lemma exec_inv:
  assumes "pe_ops e = ops" and "px_inv upinv s" and "px_event_ok upinv ev s"
  shows "px_inv upinv (px_exec e ev s)"
proof (cases ev)
  case (Px_Rebind slot job d)
  then have "px_inv upinv (s\<lparr>px_slot := slot, px_attached := True, px_upstream_diff := x, px_target_diff := y\<rparr>)" for x y
    using assms(2,3) by (simp add: px_event_ok_def px_inv_def px_ok_slot(1,2))
  then show ?thesis
    using assms(1,2) close_inv[OF assms(1)]
    by (auto simp: Px_Rebind px_exec_def px_rebind_def Let_def px_inv_def close_up split: option.split)
next
  case (Px_Extranonce en1 n)
  then have "slot_ok ((px_slot s)\<lparr>ps_en1_hex := en1, ps_en2_size := n\<rparr>)"
    using assms(3) by (auto simp: px_event_ok_def slot_ok_def)
  with assms(2) show ?thesis
    by (auto simp: Px_Extranonce px_exec_def px_upstream_extranonce_def Let_def px_inv_def px_ok_slot(1))
qed (use assms line_inv try_attach_inv close_inv in
      \<open>auto simp: px_exec_def px_inv_def px_event_ok_def px_upstream_job_def px_upstream_diff_event_def px_upstream_state_def Let_def\<close>)

lemma init_inv: "px_init upinv s \<Longrightarrow> px_inv upinv s"
  by (auto simp: px_init_def px_inv_def px_new_def px_ok_def jobs_ok_def)

lemma next_inv: "px_inv upinv s \<Longrightarrow> px_next ops upinv s ev t \<Longrightarrow> px_inv upinv t"
  by (auto simp: px_next_def intro: exec_inv)

lemma session_reachable_inv: "reachable (px_init upinv) (px_next ops upinv) s \<Longrightarrow> px_inv upinv s"
  by (induction rule: reachable.induct) (auto intro: init_inv next_inv)

end

section \<open>The upstream clients\<close>

lemma v1_attach_law:
  assumes "v1_inv u" and "v1_attach k u = (slot, u')"
  shows "if ps_ok slot then ps_en1_hex slot = ul_en1 (link u (nat (ps_link_id slot))) @ ps_slot_hex slot else slot = no_slot"
proof (cases "v1_pick_link u < 0")
  case True
  then show ?thesis
    using assms(2) by (auto simp: v1_attach_def Let_def no_slot_def)
next
  case False
  define i where "i = nat (v1_pick_link u)"
  define t where "t = (if uc_active_active u then u else u\<lparr>uc_primary := v1_pick_link u\<rparr>)"
  have t: "uc_links t = uc_links u"
    by (simp add: t_def)
  have "i < length (uc_links u)"
    using pick_link_target[OF assms(1)] False by (auto simp: good_target_def i_def split: if_splits)
  then have L: "link_ok (link u i)" "ul_index (link u i) = int i"
    using assms(1) by (simp_all add: v1_inv_def)
  obtain M where M: "v1_allocate (link u i) k = (slot, M)"
    using assms(2) False
    by (cases "v1_allocate (link u i) k") (simp add: v1_attach_def Let_def t_def[symmetric] i_def[symmetric] t)
  show ?thesis
    using link_ok_allocate[OF L(1) M] L(2) M by (auto simp: v1_allocate_def no_slot_def)
qed

lemma v1_register_inv: "v1_inv u \<Longrightarrow> v1_inv (v1_register_waiter k u)"
  by (simp add: v1_register_waiter_def v1_inv_def)

interpretation v1_source: upstream_source v1_ops v1_inv "\<lambda>i u. ul_en1 (link u (nat i))"
proof unfold_locales
  fix u sink slot u'
  assume "v1_inv u" "op_attach v1_ops sink u = (slot, u')" "ps_ok slot"
  then show "ps_en1_hex slot = ul_en1 (link u (nat (ps_link_id slot))) @ ps_slot_hex slot"
    using v1_attach_law[of u sink slot u'] by (simp add: v1_ops_def)
next
  fix sink u slot u'
  assume "v1_inv u" "op_attach v1_ops sink u = (slot, u')" "\<not> ps_ok slot"
  then show "slot = no_slot"
    using v1_attach_law[of u sink slot u'] by (simp add: v1_ops_def)
qed (simp_all add: v1_ops_def inv_attach inv_detach v1_register_inv)

interpretation sv2_source: upstream_source sv2_ops "\<lambda>_. True" "\<lambda>_ u. bytes_to_hex (su_prefix u)"
  by unfold_locales (auto simp: sv2_ops_def su_attach_def no_slot_def Let_def split: if_splits)

interpretation px_lines: line_handler "skip_blank (\<lambda>l. px_on_line e (parse l))" px_closed "px_close e" for e parse
  by unfold_locales (simp add: px_close_def px_on_closed_def Let_def)

section \<open>Properties\<close>



text \<open>C7: A proxy session does not depend on how TCP cuts its input: when every line stays one read below
  the 1 MiB cap, reading a stream in any chunks of at most 4096 bytes leaves the session as handling its
  complete lines one by one does, up to the line that closes it.\<close>

theorem proxy_lines_independent_of_reads:
  assumes "\<forall>c \<in> set chunks. length c \<le> read_chunk"
    and "\<forall>l \<in> set (stream_lines (concat chunks)). length l + read_chunk \<le> relay_cap" and "\<not> px_closed s"
  shows "snd (read_all (relay_on_read (\<lambda>l. px_on_line e (parse l)) px_closed (px_close e)) px_closed chunks ([], s)) =
    run_lines (skip_blank (\<lambda>l. px_on_line e (parse l))) px_closed (map strip_cr (butlast (stream_lines (concat chunks)))) s"
  unfolding relay_on_read_def by (rule px_lines.lines_independent_of_reads[OF assms])

text \<open>A miner of the sample V1 upstream; every digest is zero, so its share solves a block below difficulty.\<close>

definition sample_env :: "v1_up px_env" where
  "sample_env =
     \<lparr>pe_ops = v1_ops, pe_sink = 9, pe_ip = ''ip'',
      pe_coin = \<lparr>chain = Bitcoin, donationAddress = [], donationPercent = 0, coinbaseSignature = [], enableVersionRolling = False,
        versionRollingMask = 0\<rparr>,
      pe_sha256 = (\<lambda>_. replicate 32 0), pe_scrypt = (\<lambda>_. replicate 32 0), pe_fmt_double = (\<lambda>_. []), pe_now = 0, pe_now_unix = 0\<rparr>"

definition zeros_hex :: "nat \<Rightarrow> hex" where
  "zeros_hex n = bytes_to_hex (replicate n 0)"

definition sample_notify :: proxy_notify where
  "sample_notify =
     \<lparr>pn_notify_line = [], pn_job_id = ''j'', pn_prevhash_stratum = [], pn_coinbase1 = [], pn_coinbase2 = [],
      pn_merkle_branch = [], pn_version = 1, pn_bits = zeros_hex 4, pn_ntime = zeros_hex 4, pn_mintime = 0, pn_clean = False,
      pn_net_target_be = replicate 32 0, pn_seq = 0\<rparr>"

definition sample_request :: "string \<Rightarrow> json list \<Rightarrow> json" where
  "sample_request m ps = JObj [(''id'', JInt 5), (''method'', JStr m), (''params'', JArr ps)]"

definition sample_submit :: json where
  "sample_submit = sample_request ''mining.submit'' [JStr ''w'', JStr ''j'', JStr (zeros_hex 7), JStr (zeros_hex 4), JStr (zeros_hex 4)]"

definition sample_px :: "v1_up px" where
  "sample_px =
     fold (px_exec sample_env)
       [Px_Request (Some (sample_request ''mining.subscribe'' [])), Px_Job sample_notify,
        Px_Request (Some (sample_request ''mining.authorize'' []))]
       (px_new ''sid'' None sample_v1)"

lemma sample_request_fields:
  "method_of (sample_request m ps) = Some m" "params_of (sample_request m ps) = Some ps"
  "safe_id_json f (sample_request m ps) = dec_int 5"
  by (simp_all add: sample_request_def method_of_def params_of_def safe_id_json_def)

lemma sample_px_reachable: "reachable (px_init v1_inv) (px_next v1_ops v1_inv) sample_px"
proof -
  have i: "reachable (px_init v1_inv) (px_next v1_ops v1_inv) (px_new ''sid'' None sample_v1)"
    using v1.reachable_inv[OF sample_v1_reachable] by (intro reachable_init) (auto simp: px_init_def)
  have s: "reachable (px_init v1_inv) (px_next v1_ops v1_inv) (px_exec sample_env ev s)"
    if "reachable (px_init v1_inv) (px_next v1_ops v1_inv) s" "px_event_ok v1_inv ev s" for ev s
    using that(2) by (intro reachable_step[OF that(1), where e = "(sample_env, ev)"]) (simp add: px_next_def sample_env_def)
  show ?thesis
    unfolding sample_px_def fold.simps comp_def id_def
    by (intro s i) (simp_all add: px_event_ok_def)
qed

lemma sample_attach:
  "v1_any_ready sample_v1" "fst (v1_attach 9 sample_v1) =
     \<lparr>ps_ok = True, ps_link_id = 0, ps_slot_id = 2, ps_slot_hex = ''02'', ps_en1_hex = ''aabb02'', ps_en2_size = 7\<rparr>"
  "v1_current_job 0 (snd (v1_attach 9 sample_v1)) = None"
  by (simp_all add: sample_v1_def sample_v1_link_def v1_any_ready_def v1_attach_def v1_pick_link_def
      first_ready_def v1_link_ready_def v1_allocate_def find_slot_first set_link_def Let_def
      pad_hex_def hex_number.simps hex_digit_def v1_current_job_def)

lemma sample_px_facts:
  "px_authorized sample_px" "px_subscribed sample_px" "px_attached sample_px" "\<not> px_closed sample_px"
  "px_slot sample_px = fst (v1_attach 9 sample_v1)" "px_recent_jobs sample_px ''j'' = Some sample_notify"
proof -
  obtain u where u: "v1_attach 9 sample_v1 = (fst (v1_attach 9 sample_v1), u)"
    by (cases "v1_attach 9 sample_v1") simp
  define s1 where "s1 = px_exec sample_env (Px_Request (Some (sample_request ''mining.subscribe'' []))) (px_new ''sid'' None sample_v1)"
  have s1: "px_subscribed s1 \<and> px_attached s1 \<and> \<not> px_closed s1 \<and> px_slot s1 = fst (v1_attach 9 sample_v1) \<and>
      px_recent_jobs s1 ''j'' = None \<and> px_recent_order s1 = []"
    using sample_attach(3) u
    by (auto simp: s1_def px_exec_def px_on_line_def sample_request_fields px_handle_subscribe_def px_try_attach_and_reply_def
        px_new_def Let_def px_send_def px_send_subscribe_reply_def px_send_set_difficulty_def px_remember_job_def sample_env_def
        v1_ops_def sample_attach(1,2) split: option.split prod.split)
  define s2 where "s2 = px_exec sample_env (Px_Job sample_notify) s1"
  have s2: "px_subscribed s2 \<and> px_attached s2 \<and> \<not> px_closed s2 \<and> px_slot s2 = fst (v1_attach 9 sample_v1) \<and>
      px_recent_jobs s2 ''j'' = Some sample_notify \<and> px_cur_job s2 = Some sample_notify"
    using s1 by (simp add: s2_def px_exec_def px_upstream_job_def px_remember_job_def px_emit_current_job_def px_send_def Let_def sample_notify_def)
  have p: "sample_px = px_exec sample_env (Px_Request (Some (sample_request ''mining.authorize'' []))) s2"
    by (simp add: sample_px_def s1_def s2_def)
  show "px_authorized sample_px" "px_subscribed sample_px" "px_attached sample_px" "\<not> px_closed sample_px"
    "px_slot sample_px = fst (v1_attach 9 sample_v1)" "px_recent_jobs sample_px ''j'' = Some sample_notify"
    using s2 unfolding p by (simp_all add: px_exec_def px_on_line_def sample_request_fields px_handle_authorize_def
        px_emit_current_job_def px_send_def Let_def first_string_def)
qed

lemma sample_hex:
  "''aabb02'' = bytes_to_hex [0xaa, 0xbb, 2]" "''02'' = bytes_to_hex [2]"
  by (simp_all add: hex_digit_def)

lemma parse_hex8_zeros: "parse_hex8_u32 (zeros_hex 4) = Some 0"
  using stoul16_bytes_to_hex[of "replicate 4 0"] by (simp add: parse_hex8_u32_def parse_hex_any_u32_def zeros_hex_def be_val_zeros)

lemma zeros_hex_simps [simp]: "length (zeros_hex n) = 2 * n" "valid_hex (zeros_hex n) \<longleftrightarrow> n \<noteq> 0" "hex_to_bytes (zeros_hex n) = Inr (replicate n 0)"
  by (simp_all add: zeros_hex_def valid_hex_bytes_to_hex)

definition sample_params :: submit_params where
  "sample_params = \<lparr>sp_worker = [], sp_job_id = ''j'', sp_en2 = zeros_hex 7, sp_ntime = zeros_hex 4, sp_nonce = zeros_hex 4,
     sp_version_bits = None\<rparr>"

lemma sample_submit_checks: "px_submit_checks sample_env sample_submit sample_px = Inr (sample_params, sample_notify, 1)"
proof -
  have ps: "params_of sample_submit = Some [JStr ''w'', JStr ''j'', JStr (zeros_hex 7), JStr (zeros_hex 4), JStr (zeros_hex 4)]"
    by (simp add: sample_submit_def sample_request_fields)
  have p: "px_submit_params [JStr ''w'', JStr ''j'', JStr (zeros_hex 7), JStr (zeros_hex 4), JStr (zeros_hex 4)] = Some sample_params"
    by (simp add: px_submit_params_def version_bits_param_def sample_params_def)
  have v: "valid_ntime 0 (pn_mintime sample_notify) (pe_now_unix sample_env) 7200" "pn_version sample_notify = 1"
    by (simp_all add: valid_ntime_def sample_env_def sample_notify_def)
  show ?thesis
    unfolding px_submit_checks_def ps option.case p
    using sample_px_facts by (simp add: sample_params_def sample_attach(2) parse_hex8_zeros v rolled_version_def)
qed

lemma sample_header:
  "\<exists>b. share_header (\<lambda>_. replicate 32 0) 1 (swap_words_hex []) (rebuild_coinbase [] [] (''aabb02'' @ zeros_hex 7)) []
     (zeros_hex 4) (zeros_hex 4) (zeros_hex 4) = Inr (bytes_to_hex b)"
proof -
  have cb: "compute_coinbase_txid_le (\<lambda>_. replicate 32 0) (bytes_to_hex c) = Inr (bytes_to_hex (replicate 32 0))" for c
    by (simp add: compute_coinbase_txid_le_def sha256d_def)
  have root: "compute_root_le_hex H (bytes_to_hex (replicate 32 0)) [] = Inr (bytes_to_hex (replicate 32 0))" for H
    by (simp add: compute_root_le_hex_def)
  show ?thesis
    unfolding sample_hex(1) zeros_hex_def share_header_def rebuild_coinbase_def append_Nil append_Nil2
      bytes_to_hex_append[symmetric] cb root bindE.simps
    by (simp add: build_block_header_def swap_words_hex_def le_hex_u32_bytes byte_reverse_hex_bytes
        bytes_to_hex_append[symmetric] del: bytes_to_hex_append)
qed

lemma zero_hash_scores:
  "px_share_difficulty k (replicate 32 0) = 0" "meets_target (replicate 32 0) (replicate 32 0)"
proof -
  show "px_share_difficulty k (replicate 32 0) = 0"
    using hash_as_ld_bounds(2)[of "replicate 32 0"] by (simp add: px_share_difficulty_def share_difficulty_def be_val_zeros Let_def)
  show "meets_target (replicate 32 0) (replicate 32 0)"
    using mem_cmp_eq[of "replicate 32 0" "replicate 32 0"] by (simp add: meets_target_def)
qed

lemma sample_submit_forwarded:
  "\<exists>t us. px_handle_submit sample_env sample_submit sample_px = Inr t \<and> Px_Forward 0 us False \<in> set (px_emitted sample_px t)"
proof -
  have slot: "ps_en1_hex (px_slot sample_px) = ''aabb02''" "ps_link_id (px_slot sample_px) = 0"
    by (simp_all add: sample_px_facts(5) sample_attach(2))
  obtain b where b: "px_scored_header sample_env sample_notify 1 (ps_en1_hex (px_slot sample_px) @ sp_en2 sample_params) sample_params
      = Inr (bytes_to_hex b)"
    using sample_header unfolding px_scored_header_def slot
    by (auto simp: sample_params_def sample_notify_def sample_env_def)
  have "0 < dbl ((if px_target_diff sample_px > 0 then px_target_diff sample_px else 1) * px_tol)"
    by (intro dbl_positive mult_pos_pos) (auto simp: px_tol_def intro!: dbl_positive)
  moreover have "px_handle_submit sample_env sample_submit sample_px = Inr (px_verdict sample_env sample_submit sample_notify sample_params
      (replicate 32 0) sample_px)"
    unfolding px_handle_submit_def sample_submit_checks sum.case prod.case b bindE.simps hex_to_bytes_bytes_to_hex
    by (simp add: pow_hash_be_def sample_env_def sha256d_def)
  ultimately show ?thesis
    by (auto simp: px_verdict_def Let_def zero_hash_scores sample_env_def sample_notify_def px_forward_def px_emitted_def
        px_reject_effect slot)
qed



theorem proxy_lines_independent_of_reads_witness:
  "snd (read_all (relay_on_read (\<lambda>l. px_on_line sample_env ((\<lambda>_. None) l)) px_closed (px_close sample_env)) px_closed
      [''{'', [CHR 13], [newline, CHR ''a'']] ([], sample_px)) =
   px_send (error_line ''null'' 20 ''JSON parse error'') sample_px"
proof -
  have w: "concat [''{'', [CHR 13], [newline, CHR ''a'']] = [CHR ''{'', CHR 13, newline, CHR ''a'']"
    and l: "stream_lines [CHR ''{'', CHR 13, newline, CHR ''a''] = [[CHR ''{'', CHR 13], [CHR ''a'']]"
    by (simp_all add: newline_def)
  show ?thesis
    using proxy_lines_independent_of_reads[where chunks = "[''{'', [CHR 13], [newline, CHR ''a'']]" and s = sample_px
        and e = sample_env and parse = "\<lambda>_. None", unfolded w l] sample_px_facts(4)
    by (simp add: read_chunk_def relay_cap_def strip_cr_def skip_blank_def px_on_line_def px_send_def)
qed

end
