(* ===== verification/Equihash.thy ===== *)
theory Equihash
  imports Scoring
begin

text \<open>
  \<open>src/equihash.hpp\<close>: the verification of an Equihash (200,9) solution. \<open>ExpandArray\<close> unpacks big-endian
  bit groups, a \<open>StepRow\<close> is a buffer of 2054 bytes that holds a hash prefix and the indices below it,
  and the rounds of Wagner's algorithm merge neighbouring rows. libsodium's personalised BLAKE2b is
  the parameter \<open>blake2b personal data\<close>. The specification is the recursive tree of the Equihash paper.
\<close>

section \<open>Unpacking\<close>

text \<open>\<open>acc_bits\<close> and the 32-bit \<open>acc_value\<close> of the loop; the output is in writing order.\<close>

definition expand_group :: "nat \<Rightarrow> nat \<Rightarrow> u32 \<Rightarrow> nat \<Rightarrow> bytes" where
  "expand_group bit_len byte_pad acc_value acc_bits =
     (let out_width = (bit_len + 7) div 8 + byte_pad; bit_len_mask = push_bit bit_len 1 - 1 :: u32
      in replicate byte_pad 0 @
         map (\<lambda>x. ucast (drop_bit (acc_bits + 8 * (out_width - x - 1)) acc_value AND
                          (drop_bit (8 * (out_width - x - 1)) bit_len_mask AND 0xFF)))
             [byte_pad..<out_width])"

fun expand_loop :: "nat \<Rightarrow> nat \<Rightarrow> bytes \<Rightarrow> nat \<Rightarrow> u32 \<Rightarrow> bytes" where
  "expand_loop bit_len byte_pad [] acc_bits acc_value = []"
| "expand_loop bit_len byte_pad (b # inp) acc_bits acc_value =
     (let acc_value = push_bit 8 acc_value OR ucast b; acc_bits = acc_bits + 8
      in if acc_bits \<ge> bit_len
         then expand_group bit_len byte_pad acc_value (acc_bits - bit_len)
              @ expand_loop bit_len byte_pad inp (acc_bits - bit_len) acc_value
         else expand_loop bit_len byte_pad inp acc_bits acc_value)"

definition expand_array :: "bytes \<Rightarrow> nat \<Rightarrow> nat \<Rightarrow> bytes" where
  "expand_array inp bit_len byte_pad = expand_loop bit_len byte_pad inp 0 0"

fun read_be32s :: "bytes \<Rightarrow> u32 list" where
  "read_be32s (a # b # c # d # bs) = le_or 0 [d, c, b, a] # read_be32s bs"
| "read_be32s bs = []"

definition get_indices_from_minimal :: "bytes \<Rightarrow> nat \<Rightarrow> u32 list" where
  "get_indices_from_minimal soln c_bit_len =
     (let len_indices = 8 * 4 * length soln div (c_bit_len + 1);
          byte_pad = 4 - ((c_bit_len + 1) + 7) div 8
      in read_be32s (take len_indices
           (expand_array soln (c_bit_len + 1) byte_pad @ replicate len_indices 0)))"

section \<open>Rows\<close>

definition be32 :: "u32 \<Rightarrow> bytes" where
  "be32 w = rev (nat_le 4 (unat w))"

definition le32 :: "u32 \<Rightarrow> bytes" where
  "le32 w = nat_le 4 (unat w)"

definition slice :: "bytes \<Rightarrow> nat \<Rightarrow> nat \<Rightarrow> bytes" where
  "slice buf i n = take n (drop i buf)"

definition blit :: "bytes \<Rightarrow> nat \<Rightarrow> bytes \<Rightarrow> bytes" where
  "blit buf i xs = take i buf @ xs @ drop (i + length xs) buf"

definition step_row :: bytes where
  "step_row = replicate 2054 0"

definition row_init :: "bytes \<Rightarrow> nat \<Rightarrow> nat \<Rightarrow> u32 \<Rightarrow> bytes" where
  "row_init hash_in h_len c_bit_len index =
     blit (blit step_row 0 (expand_array hash_in c_bit_len 0)) h_len (be32 index)"

definition xor_bytes :: "bytes \<Rightarrow> bytes \<Rightarrow> bytes" where
  "xor_bytes a b = map2 (XOR) a b"

definition row_collide :: "bytes \<Rightarrow> bytes \<Rightarrow> nat \<Rightarrow> nat \<Rightarrow> nat \<Rightarrow> bytes" where
  "row_collide a b len len_indices trim =
     (let hash = blit step_row 0 (xor_bytes (slice a trim (len - trim)) (slice b trim (len - trim)));
          ia = slice a len len_indices; ib = slice b len len_indices
      in if mem_cmp ia ib < 0
         then blit (blit hash (len - trim) ia) (len - trim + len_indices) ib
         else blit (blit hash (len - trim) ib) (len - trim + len_indices) ia)"

definition row_is_zero :: "bytes \<Rightarrow> nat \<Rightarrow> bool" where
  "row_is_zero hash len \<longleftrightarrow> list_all (\<lambda>b. b = 0) (take len hash)"

definition distinct_indices :: "bytes \<Rightarrow> bytes \<Rightarrow> nat \<Rightarrow> nat \<Rightarrow> bool" where
  "distinct_indices a b len len_indices \<longleftrightarrow>
     list_all (\<lambda>i. list_all (\<lambda>j. mem_cmp (slice a (len + 4 * i) 4) (slice b (len + 4 * j) 4) \<noteq> 0)
       [0..<len_indices div 4]) [0..<len_indices div 4]"

section \<open>Verification\<close>

text \<open>One round merges the neighbours; \<open>None\<close> is \<open>return false\<close>. The number of rows is a power of two.\<close>

fun solve_round :: "nat \<Rightarrow> nat \<Rightarrow> bytes list \<Rightarrow> bytes list option" where
  "solve_round hash_len len_indices (x # y # xs) =
     (if mem_cmp (take 3 x) (take 3 y) \<noteq> 0 then None
      else if mem_cmp (slice y hash_len len_indices) (slice x hash_len len_indices) < 0 then None
      else if \<not> distinct_indices x y hash_len len_indices then None
      else map_option (\<lambda>r. row_collide x y hash_len len_indices 3 # r) (solve_round hash_len len_indices xs))"
| "solve_round hash_len len_indices xs = Some []"

lemma solve_round_length: "solve_round h l xs = Some ys \<Longrightarrow> length ys = length xs div 2"
  by (induction h l xs arbitrary: ys rule: solve_round.induct) (auto split: if_splits)

function solve_rounds :: "nat \<Rightarrow> nat \<Rightarrow> bytes list \<Rightarrow> bool" where
  "solve_rounds hash_len len_indices xs =
     (if length xs > 1 then
        (case solve_round hash_len len_indices xs of
           None \<Rightarrow> False
         | Some ys \<Rightarrow> solve_rounds (hash_len - 3) (len_indices * 2) ys)
      else row_is_zero (hd xs) hash_len)"
  by pat_completeness auto

termination
  by (relation "measure (\<lambda>(h, l, xs). length xs)") (auto dest: solve_round_length)

declare solve_rounds.simps [simp del]

definition personalization :: bytes where
  "personalization = ascii ''ZcashPoW'' @ le32 200 @ le32 9"

text \<open>The 25 bytes of the hash output that an index selects.\<close>

definition leaf_hash :: "(bytes \<Rightarrow> bytes \<Rightarrow> bytes) \<Rightarrow> bytes \<Rightarrow> u32 \<Rightarrow> bytes" where
  "leaf_hash blake2b header idx =
     slice (blake2b personalization (header @ le32 (idx div 2))) (unat (idx mod 2) * 25) 25"

definition verify_200_9 :: "(bytes \<Rightarrow> bytes \<Rightarrow> bytes) \<Rightarrow> bytes \<Rightarrow> bytes \<Rightarrow> bool" where
  "verify_200_9 blake2b header soln =
     (if length soln \<noteq> 1344 then False
      else
        let indices = get_indices_from_minimal soln 20
        in if length indices \<noteq> 2 ^ 9 then False
           else solve_rounds 30 4 (map (\<lambda>idx. row_init (leaf_hash blake2b header idx) 30 20 idx) indices))"

section \<open>Specification\<close>

text \<open>The bit group \<open>x\<close> of \<open>bl\<close> bits, padded to whole bytes.\<close>

definition group_bytes :: "nat \<Rightarrow> nat \<Rightarrow> nat \<Rightarrow> bytes" where
  "group_bytes bl pad x = replicate pad 0 @ rev (nat_le ((bl + 7) div 8) (x mod 2 ^ bl))"

fun tree_xor :: "(u32 \<Rightarrow> bytes) \<Rightarrow> nat \<Rightarrow> u32 list \<Rightarrow> bytes" where
  "tree_xor H 0 is = H (hd is)"
| "tree_xor H (Suc k) is = xor_bytes (tree_xor H k (take (2 ^ k) is)) (tree_xor H k (drop (2 ^ k) is))"

text \<open>Level \<open>k\<close> of the tree: both halves are trees, in the order of their first index, and the hashes
  below collide on the first \<open>k\<close> groups of three bytes.\<close>

fun equihash_tree :: "(u32 \<Rightarrow> bytes) \<Rightarrow> nat \<Rightarrow> u32 list \<Rightarrow> bool" where
  "equihash_tree H 0 is \<longleftrightarrow> True"
| "equihash_tree H (Suc k) is \<longleftrightarrow>
     equihash_tree H k (take (2 ^ k) is) \<and> equihash_tree H k (drop (2 ^ k) is) \<and>
     hd (take (2 ^ k) is) < hd (drop (2 ^ k) is) \<and>
     take (3 * Suc k) (tree_xor H (Suc k) is) = replicate (3 * Suc k) 0"

definition equihash_solution :: "(u32 \<Rightarrow> bytes) \<Rightarrow> u32 list \<Rightarrow> bool" where
  "equihash_solution H is \<longleftrightarrow>
     length is = 2 ^ 9 \<and> distinct is \<and> equihash_tree H 9 is \<and> tree_xor H 9 is = replicate 30 0"

section \<open>Facts: unpacking\<close>

lemma group_byte:
  assumes "r + bl \<le> 32"
  shows "(ucast (drop_bit (r + 8 * j) (of_nat v :: u32) AND (drop_bit (8 * j) (push_bit bl 1 - 1) AND 0xFF)) :: u8) =
    of_nat (v div 2 ^ r mod 2 ^ bl div 256 ^ j)"
proof -
  have p: "(256 :: nat) ^ j = 2 ^ (8 * j)"
    by (simp add: power_mult)
  have m: "push_bit bl 1 - 1 = (mask bl :: u32)"
    by (simp add: mask_eq_exp_minus_1 push_bit_eq_mult)
  have f: "(0xFF :: u32) = mask 8"
    by (simp add: mask_eq_exp_minus_1)
  have n: "v div 2 ^ r mod 2 ^ bl div 256 ^ j = drop_bit (8 * j) (take_bit bl (drop_bit r v))"
    by (simp add: p take_bit_eq_mod drop_bit_eq_div)
  show ?thesis
    unfolding n m f using assms by (intro bit_word_eqI) (auto simp: bit_simps ac_simps)
qed

lemma expand_group_bytes:
  assumes "r + bl \<le> 32"
  shows "expand_group bl pad (of_nat v) r = group_bytes bl pad (v div 2 ^ r)"
proof -
  let ?w = "(bl + 7) div 8"
  let ?f = "\<lambda>j. of_nat (v div 2 ^ r mod 2 ^ bl div 256 ^ j) :: u8"
  have e: "expand_group bl pad (of_nat v) r = replicate pad 0 @ map (\<lambda>x. ?f (?w + pad - x - 1)) [pad..<?w + pad]"
    by (simp only: expand_group_def Let_def group_byte[OF assms])
  have "map (\<lambda>x. ?f (?w + pad - x - 1)) [pad..<?w + pad] = map (\<lambda>x. ?f (?w - x - 1)) [0..<?w]"
    by (rule nth_equalityI) simp_all
  also have "\<dots> = rev (map ?f [0..<?w])"
    by (rule nth_equalityI) (simp_all add: rev_nth)
  finally show ?thesis
    unfolding e by (simp add: group_bytes_def nat_le_map)
qed

lemma expand_loop_groups:
  assumes "acc < bl" and "8 \<le> bl" and "bl \<le> 25"
  shows "expand_loop bl pad inp acc (of_nat v) =
    concat (map (\<lambda>i. group_bytes bl pad ((v * 256 ^ length inp + be_val inp) div 2 ^ (acc + 8 * length inp - bl * Suc i)))
      [0..<(acc + 8 * length inp) div bl])"
  using assms(1)
proof (induction inp arbitrary: acc v)
  case Nil
  then show ?case by simp
next
  case (Cons b inp)
  let ?v = "v * 256 + unat b"
  let ?n = "length inp"
  have w: "push_bit 8 (of_nat v) OR ucast b = (of_nat ?v :: u32)"
    using or_push_bit_byte[of b "of_nat v :: u32"] by (simp add: or.commute push_bit_eq_mult ac_simps)
  have t: "v * 256 ^ length (b # inp) + be_val (b # inp) = ?v * 256 ^ ?n + be_val inp"
    by (simp add: be_val_Cons algebra_simps)
  show ?case
  proof (cases "bl \<le> acc + 8")
    case False
    then have x: "expand_loop bl pad (b # inp) acc (of_nat v) = expand_loop bl pad inp (acc + 8) (of_nat ?v)"
      by (simp only: expand_loop.simps Let_def w if_False)
    show ?thesis
      using Cons.IH[of "acc + 8" ?v] False unfolding t x by (simp add: ac_simps)
  next
    case True
    define r where "r = acc + 8 - bl"
    have r: "r < bl" "r + bl \<le> 32" "acc + 8 * length (b # inp) = bl + (r + 8 * ?n)"
      using True Cons.prems assms(2,3) by (simp_all add: r_def)
    have "(?v * 256 ^ ?n + be_val inp) div 2 ^ (8 * ?n + r) = ?v div 2 ^ r"
      using be_val_less[of inp] by (simp add: power_add div_mult2_eq power_mult)
    then have g: "group_bytes bl pad (?v div 2 ^ r) =
        group_bytes bl pad ((?v * 256 ^ ?n + be_val inp) div 2 ^ (acc + 8 * length (b # inp) - bl * Suc 0))"
      by (simp only: r(3)) (simp add: add.commute)
    have n: "(acc + 8 * length (b # inp)) div bl = Suc ((r + 8 * ?n) div bl)"
      using assms(2) by (simp only: r(3)) simp
    have x: "expand_loop bl pad (b # inp) acc (of_nat v) =
        group_bytes bl pad (?v div 2 ^ r) @ expand_loop bl pad inp r (of_nat ?v)"
      using True by (simp only: expand_loop.simps Let_def w if_True expand_group_bytes[OF r(2)] r_def[symmetric])
    have sh: "acc + 8 * length (b # inp) - bl * Suc (Suc i) = r + 8 * ?n - bl * Suc i" for i
      by (simp only: r(3)) simp
    show ?thesis
      unfolding x Cons.IH[OF r(1)] t n map_upt_Suc concat.simps g sh ..
  qed
qed

lemma length_group_bytes: "length (group_bytes bl pad x) = (bl + 7) div 8 + pad"
  by (simp add: group_bytes_def)

lemma length_expand_array:
  "8 \<le> bl \<Longrightarrow> bl \<le> 25 \<Longrightarrow> length (expand_array inp bl pad) = (8 * length inp) div bl * ((bl + 7) div 8 + pad)"
  using expand_loop_groups[of 0 bl pad inp 0]
  by (simp add: expand_array_def length_concat length_group_bytes sum_list_triv o_def)

lemma read_be32s_groups:
  "read_be32s (concat (map (\<lambda>i. group_bytes 21 1 (f i)) xs) @ ys) = map (\<lambda>i. of_nat (f i mod 2 ^ 21)) xs @ read_be32s ys"
proof (induction xs)
  case Nil
  then show ?case by simp
next
  case (Cons i xs)
  define y where "y = f i mod 2 ^ 21"
  have "y < 256 ^ 3"
    unfolding y_def by (rule less_le_trans[of _ "2 ^ 21"]) simp_all
  then have v: "le_val (nat_le 3 y @ [0]) = y"
    by (simp add: le_val_append le_val_nat_le)
  have "\<exists>b c d. bs = [b, c, d]" if "length bs = Suc (Suc (Suc 0))" for bs :: bytes
    using that by (auto simp: length_Suc_conv)
  from this[of "nat_le 3 y"] obtain b c d where n: "nat_le 3 y = [b, c, d]"
    by auto
  have w: "(21 + 7) div 8 = (3 :: nat)"
    by simp
  have g: "group_bytes 21 1 (f i) = [0, d, c, b]"
    by (simp only: group_bytes_def w y_def[symmetric] n) simp
  have "le_or 0 [b, c, d, 0] = (of_nat y :: u32)"
    using v unfolding n by (simp only: le_or_val append.simps)
  then show ?case
    by (simp only: list.map concat.simps g append.simps read_be32s.simps Cons y_def)
qed

lemma indices_are_groups:
  assumes "length soln = 1344"
  shows "get_indices_from_minimal soln 20 = map (\<lambda>i. of_nat (be_val soln div 2 ^ (21 * (511 - i)) mod 2 ^ 21)) [0..<512]"
proof -
  let ?f = "\<lambda>i. be_val soln div 2 ^ (10752 - 21 * Suc i)"
  have e: "expand_array soln 21 1 = concat (map (\<lambda>i. group_bytes 21 1 (?f i)) [0..<512])"
    using expand_loop_groups[of 0 21 1 soln 0] assms by (simp only: expand_array_def of_nat_0) simp
  have l: "length (expand_array soln 21 1) = 2048"
    using length_expand_array[of 21 soln 1] assms by simp
  have "get_indices_from_minimal soln 20 = read_be32s (expand_array soln 21 1 @ [])"
    using assms l by (simp add: get_indices_from_minimal_def)
  also have "\<dots> = map (\<lambda>i. of_nat (?f i mod 2 ^ 21)) [0..<512]"
    by (simp only: e read_be32s_groups) simp
  also have "\<dots> = map (\<lambda>i. of_nat (be_val soln div 2 ^ (21 * (511 - i)) mod 2 ^ 21)) [0..<512]"
  proof (rule map_cong[OF refl])
    fix i assume "i \<in> set [0..<512 :: nat]"
    then have "10752 - 21 * Suc i = 21 * (511 - i)"
      by simp
    then show "(of_nat (?f i mod 2 ^ 21) :: u32) = of_nat (be_val soln div 2 ^ (21 * (511 - i)) mod 2 ^ 21)"
      by (simp only:)
  qed
  finally show ?thesis .
qed

section \<open>Facts: rows\<close>

lemma length_be32 [simp, length_facts]: "length (be32 w) = 4"
  by (simp add: be32_def)

lemma be_val_be32 [simp]: "be_val (be32 w) = unat w"
  using unat_bounds(3)[of w] by (simp add: be32_def be_val_def le_val_nat_le)

lemma be32_inject [simp]: "be32 v = be32 w \<longleftrightarrow> v = w"
  by (metis be_val_be32 word_unat_eq_iff)

lemma mem_cmp_append:
  "length a = length b \<Longrightarrow> mem_cmp (a @ x) (b @ y) = (if a = b then mem_cmp x y else mem_cmp a b)"
  by (induction a b rule: list_induct2) auto

lemma mem_cmp_be32: "v \<noteq> w \<Longrightarrow> mem_cmp (be32 v @ x) (be32 w @ y) < 0 \<longleftrightarrow> v < w"
  by (simp add: mem_cmp_append mem_cmp_less word_less_nat_alt)

definition index_bytes :: "u32 list \<Rightarrow> bytes" where
  "index_bytes is = concat (map be32 is)"

lemma index_bytes_simps [simp]:
  "index_bytes [] = []" "index_bytes (i # is) = be32 i @ index_bytes is"
  "index_bytes (is @ js) = index_bytes is @ index_bytes js"
  by (simp_all add: index_bytes_def)

lemma length_index_bytes [simp, length_facts]: "length (index_bytes is) = 4 * length is"
  by (induction "is") simp_all

lemma index_bytes_nth: "i < length is \<Longrightarrow> take 4 (drop (4 * i) (index_bytes is @ r)) = be32 (is ! i)"
proof (induction "is" arbitrary: i)
  case Nil
  then show ?case by simp
next
  case (Cons v "is")
  then show ?case by (cases i) simp_all
qed

lemma index_order:
  assumes "is \<noteq> []" "js \<noteq> []" "hd is \<noteq> hd js"
  shows "mem_cmp (index_bytes is) (index_bytes js) < 0 \<longleftrightarrow> hd is < hd js"
  using assms by (cases "is"; cases js) (simp_all add: mem_cmp_be32)

text \<open>The buffer of a row at level \<open>k\<close> above the indices \<open>is\<close>.\<close>

definition tree_row :: "(u32 \<Rightarrow> bytes) \<Rightarrow> nat \<Rightarrow> u32 list \<Rightarrow> bytes" where
  "tree_row H k is = drop (3 * k) (tree_xor H k is) @ index_bytes is @ replicate (2024 + 3 * k - 4 * length is) 0"

lemma length_xor_bytes [simp, length_facts]: "length (xor_bytes a b) = min (length a) (length b)"
  by (simp add: xor_bytes_def)

lemma xor_bytes_slices:
  "take n (xor_bytes a b) = xor_bytes (take n a) (take n b)"
  "drop n (xor_bytes a b) = xor_bytes (drop n a) (drop n b)"
  by (simp_all add: xor_bytes_def take_map take_zip drop_map drop_zip)

lemma xor_bytes_zero:
  "length a = length b \<Longrightarrow> xor_bytes a b = replicate (length a) 0 \<longleftrightarrow> a = b"
proof (induction a b rule: list_induct2)
  case (Cons x xs y ys)
  have "x XOR y = 0 \<longleftrightarrow> x = y"
    by (auto simp: bit_eq_iff bit_simps)
  with Cons show ?case
    by (simp add: xor_bytes_def)
qed (simp add: xor_bytes_def)

definition hash30 :: "(u32 \<Rightarrow> bytes) \<Rightarrow> bool" where
  "hash30 H \<longleftrightarrow> (\<forall>i. length (H i) = 30)"

lemma length_tree_xor: "hash30 H \<Longrightarrow> length (tree_xor H k is) = 30"
  by (induction k arbitrary: "is") (simp_all add: hash30_def)

lemma blit_zeros:
  "blit (xs @ replicate n 0) (length xs) ys = xs @ ys @ replicate (n - length ys) 0"
  by (simp add: blit_def)

lemma replicate_take_drop: "n \<le> m \<Longrightarrow> xs = replicate m 0 \<longleftrightarrow> take n xs = replicate n 0 \<and> drop n xs = replicate (m - n) 0"
  by (metis append_take_drop_id le_add_diff_inverse replicate_add take_replicate drop_replicate min.absorb1)

lemma tree_row_parts:
  assumes H: "hash30 H" and "k \<le> 9" "length is = 2 ^ k"
  shows "take (30 - 3 * k) (tree_row H k is) = drop (3 * k) (tree_xor H k is)"
    and "slice (tree_row H k is) (30 - 3 * k) (4 * 2 ^ k) = index_bytes is"
    and "i < 2 ^ k \<Longrightarrow> slice (tree_row H k is) (30 - 3 * k + 4 * i) 4 = be32 (is ! i)"
  using assms length_tree_xor[of H k "is", OF H] index_bytes_nth[of i "is"]
  by (simp_all add: tree_row_def slice_def)

lemma row_init_tree:
  assumes "length (expand_array h 20 0) = 30" and "H i = expand_array h 20 0"
  shows "row_init h 30 20 i = tree_row H 0 [i]"
  using assms blit_zeros[of "[]" 2054 "H i"] blit_zeros[of "H i" 2024 "be32 i"]
  by (simp add: row_init_def step_row_def tree_row_def)

lemma row_distinct:
  assumes H: "hash30 H" and k: "k \<le> 9" and l: "length is = 2 ^ k" "length js = 2 ^ k"
  shows "distinct_indices (tree_row H k is) (tree_row H k js) (30 - 3 * k) (4 * 2 ^ k) \<longleftrightarrow> set is \<inter> set js = {}"
proof -
  have "mem_cmp (be32 v) (be32 w) = 0 \<longleftrightarrow> v = w" for v w
    by (simp add: mem_cmp_eq)
  then have "distinct_indices (tree_row H k is) (tree_row H k js) (30 - 3 * k) (4 * 2 ^ k) \<longleftrightarrow>
      (\<forall>i < 2 ^ k. \<forall>j < 2 ^ k. is ! i \<noteq> js ! j)"
    using tree_row_parts(3)[OF H k l(1)] tree_row_parts(3)[OF H k l(2)]
    by (auto simp: distinct_indices_def list_all_iff)
  also have "\<dots> \<longleftrightarrow> set is \<inter> set js = {}"
    using l by (auto simp: set_conv_nth disjoint_iff)
  finally show ?thesis .
qed

lemma row_collide_tree:
  assumes H: "hash30 H" and k: "k < 9" and l: "length is = 2 ^ k" "length js = 2 ^ k"
    and "hd is < hd js"
  shows "row_collide (tree_row H k is) (tree_row H k js) (30 - 3 * k) (4 * 2 ^ k) 3 = tree_row H (Suc k) (is @ js)"
proof -
  let ?x = "xor_bytes (drop (3 * k + 3) (tree_xor H k is)) (drop (3 * k + 3) (tree_xor H k js))"
  have n: "is \<noteq> []" "js \<noteq> []" and k': "k \<le> 9"
    using l k by auto
  have s: "slice (tree_row H k v) 3 (30 - 3 * k - 3) = drop (3 * k + 3) (tree_xor H k v)" if "length v = 2 ^ k" for v
    using k length_tree_xor[of H k v, OF H] by (simp add: slice_def tree_row_def add.commute)
  have x: "length ?x = 30 - 3 * k - 3" "?x = drop (3 * Suc k) (tree_xor H (Suc k) (is @ js))"
    using length_tree_xor[of H k, OF H] l by (simp_all add: xor_bytes_slices add.commute)
  have o: "mem_cmp (index_bytes is) (index_bytes js) < 0"
    using index_order[of "is" js] n assms(5) by simp
  have "(2 :: nat) ^ k \<le> 2 ^ 8"
    using k by (intro power_increasing) simp_all
  then have z: "2054 - (30 - 3 * k - 3) - 4 * 2 ^ k - 4 * 2 ^ k = 2024 + 3 * Suc k - 4 * length (is @ js)"
    using k l by simp
  have b1: "blit step_row 0 ?x = ?x @ replicate (2054 - (30 - 3 * k - 3)) 0"
    using blit_zeros[of "[]" 2054 ?x] x(1) by (simp add: step_row_def)
  have b2: "blit (?x @ replicate (2054 - (30 - 3 * k - 3)) 0) (30 - 3 * k - 3) (index_bytes is) =
      (?x @ index_bytes is) @ replicate (2054 - (30 - 3 * k - 3) - 4 * 2 ^ k) 0"
    using blit_zeros[of ?x "2054 - (30 - 3 * k - 3)" "index_bytes is"] x(1) l by simp
  have b3: "blit ((?x @ index_bytes is) @ replicate (2054 - (30 - 3 * k - 3) - 4 * 2 ^ k) 0) (30 - 3 * k - 3 + 4 * 2 ^ k) (index_bytes js) =
      (?x @ index_bytes is) @ index_bytes js @ replicate (2054 - (30 - 3 * k - 3) - 4 * 2 ^ k - 4 * 2 ^ k) 0"
    using blit_zeros[of "?x @ index_bytes is" "2054 - (30 - 3 * k - 3) - 4 * 2 ^ k" "index_bytes js"] x(1) l by simp
  show ?thesis
    unfolding row_collide_def Let_def s[OF l(1)] s[OF l(2)] tree_row_parts(2)[OF H k' l(1)] tree_row_parts(2)[OF H k' l(2)]
      if_P[OF o] b1 b2 b3 z
    by (simp only: tree_row_def x(2) index_bytes_simps append_assoc)
qed

section \<open>Facts: rounds\<close>

definition good_tree :: "(u32 \<Rightarrow> bytes) \<Rightarrow> nat \<Rightarrow> u32 list \<Rightarrow> bool" where
  "good_tree H k is \<longleftrightarrow> length is = 2 ^ k \<and> distinct is \<and> equihash_tree H k is"

fun pair_up :: "'a list list \<Rightarrow> 'a list list" where
  "pair_up (a # b # xs) = (a @ b) # pair_up xs"
| "pair_up xs = []"

lemma equihash_tree_zeros:
  "hash30 H \<Longrightarrow> equihash_tree H k is \<Longrightarrow> k \<le> 9 \<Longrightarrow> take (3 * k) (tree_xor H k is) = replicate (3 * k) 0"
  by (cases k) simp_all

lemma collision_step:
  assumes H: "hash30 H" and k: "k < 9" and g: "equihash_tree H k is" "equihash_tree H k js"
    and l: "length is = 2 ^ k" "length js = 2 ^ k"
  shows "mem_cmp (take 3 (tree_row H k is)) (take 3 (tree_row H k js)) = 0 \<longleftrightarrow>
    take (3 * Suc k) (tree_xor H (Suc k) (is @ js)) = replicate (3 * Suc k) 0"
proof -
  let ?a = "tree_xor H k is" and ?b = "tree_xor H k js"
  have z: "take (3 * k) ?a = replicate (3 * k) 0" "take (3 * k) ?b = replicate (3 * k) 0"
    using equihash_tree_zeros[OF H] g k by simp_all
  have ln: "length ?a = 30" "length ?b = 30"
    using length_tree_xor[OF H] by simp_all
  have t: "take 3 (tree_row H k v) = take 3 (drop (3 * k) (tree_xor H k v))" for v
    using k length_tree_xor[of H k v, OF H] by (simp add: tree_row_def)
  have split: "take (3 * Suc k) v = take (3 * k) v @ take 3 (drop (3 * k) v)" for v :: bytes
    by (simp add: take_add[symmetric] add.commute)
  have m: "mem_cmp (take 3 (tree_row H k is)) (take 3 (tree_row H k js)) = 0 \<longleftrightarrow>
      take 3 (drop (3 * k) ?a) = take 3 (drop (3 * k) ?b)"
    unfolding t using ln by (intro mem_cmp_eq) simp
  also have "\<dots> \<longleftrightarrow> take (3 * Suc k) ?a = take (3 * Suc k) ?b"
    unfolding split z by simp
  also have "\<dots> \<longleftrightarrow> xor_bytes (take (3 * Suc k) ?a) (take (3 * Suc k) ?b) = replicate (3 * Suc k) 0"
    using xor_bytes_zero[of "take (3 * Suc k) ?a" "take (3 * Suc k) ?b"] ln k by simp
  also have "\<dots> \<longleftrightarrow> take (3 * Suc k) (tree_xor H (Suc k) (is @ js)) = replicate (3 * Suc k) 0"
    using l by (simp only: tree_xor.simps xor_bytes_slices(1)) simp
  finally show ?thesis .
qed

lemma good_tree_pair:
  assumes H: "hash30 H" and k: "k < 9" and g: "good_tree H k is" "good_tree H k js"
  defines "x \<equiv> tree_row H k is" and "y \<equiv> tree_row H k js"
  shows "good_tree H (Suc k) (is @ js) \<longleftrightarrow>
    mem_cmp (take 3 x) (take 3 y) = 0 \<and>
    \<not> mem_cmp (slice y (30 - 3 * k) (4 * 2 ^ k)) (slice x (30 - 3 * k) (4 * 2 ^ k)) < 0 \<and>
    distinct_indices x y (30 - 3 * k) (4 * 2 ^ k)"
    and "good_tree H (Suc k) (is @ js) \<Longrightarrow> hd is < hd js"
proof -
  have l: "length is = 2 ^ k" "length js = 2 ^ k" and t: "equihash_tree H k is" "equihash_tree H k js"
    using g by (simp_all add: good_tree_def)
  have n: "is \<noteq> []" "js \<noteq> []" and k': "k \<le> 9"
    using l k by auto
  have o: "\<not> mem_cmp (index_bytes js) (index_bytes is) < 0 \<longleftrightarrow> hd is < hd js" if "set is \<inter> set js = {}"
  proof -
    have d: "hd is \<noteq> hd js"
      using hd_in_set[OF n(1)] hd_in_set[OF n(2)] that by auto
    then have "mem_cmp (index_bytes js) (index_bytes is) < 0 \<longleftrightarrow> hd js < hd is"
      using n by (intro index_order) simp_all
    with d show ?thesis
      by (simp only: linorder_not_less order_le_less simp_thms)
  qed
  have e: "good_tree H (Suc k) (is @ js) \<longleftrightarrow> set is \<inter> set js = {} \<and> hd is < hd js \<and>
      take (3 * Suc k) (tree_xor H (Suc k) (is @ js)) = replicate (3 * Suc k) 0"
    using g l by (simp add: good_tree_def del: tree_xor.simps mult_Suc_right)
  show "good_tree H (Suc k) (is @ js) \<longleftrightarrow>
    mem_cmp (take 3 x) (take 3 y) = 0 \<and>
    \<not> mem_cmp (slice y (30 - 3 * k) (4 * 2 ^ k)) (slice x (30 - 3 * k) (4 * 2 ^ k)) < 0 \<and>
    distinct_indices x y (30 - 3 * k) (4 * 2 ^ k)"
    unfolding x_def y_def tree_row_parts(2)[OF H k' l(1)] tree_row_parts(2)[OF H k' l(2)] row_distinct[OF H k' l]
      collision_step[OF H k t l] e
    using o by blast
  show "hd is < hd js" if "good_tree H (Suc k) (is @ js)"
    using that l by (simp add: good_tree_def)
qed

lemma solve_round_trees:
  assumes H: "hash30 H" and k: "k < 9" and "even (length Bs)" and "\<forall>b \<in> set Bs. good_tree H k b"
  shows "solve_round (30 - 3 * k) (4 * 2 ^ k) (map (tree_row H k) Bs) =
    (if \<forall>b \<in> set (pair_up Bs). good_tree H (Suc k) b then Some (map (tree_row H (Suc k)) (pair_up Bs)) else None)"
  using assms(3,4)
proof (induction Bs rule: pair_up.induct)
  case (1 a b xs)
  have g: "good_tree H k a" "good_tree H k b"
    using "1.prems" by simp_all
  have l: "length a = 2 ^ k" "length b = 2 ^ k"
    using g by (simp_all add: good_tree_def)
  have IH: "solve_round (30 - 3 * k) (4 * 2 ^ k) (map (tree_row H k) xs) =
    (if \<forall>b \<in> set (pair_up xs). good_tree H (Suc k) b then Some (map (tree_row H (Suc k)) (pair_up xs)) else None)"
    using "1.IH" "1.prems" by simp
  note p = good_tree_pair[OF H k g]
  show ?case
  proof (cases "good_tree H (Suc k) (a @ b)")
    case True
    then show ?thesis
      using p(1) row_collide_tree[OF H k l p(2)] IH by (simp del: solve_round.simps(2) add: solve_round.simps(1))
  next
    case False
    then show ?thesis
      using p(1) by (auto simp: solve_round.simps(1))
  qed
qed simp_all

lemma pair_up_facts:
  "length (pair_up Bs) = length Bs div 2"
  "even (length Bs) \<Longrightarrow> concat (pair_up Bs) = concat Bs"
  by (induction Bs rule: pair_up.induct) simp_all

lemma length_concat_blocks: "\<forall>b \<in> set Bs. length b = n \<Longrightarrow> length (concat Bs) = length Bs * n"
  by (induction Bs) simp_all

lemma good_tree_blocks:
  "length Bs = 2 ^ m \<Longrightarrow> \<forall>b \<in> set Bs. length b = 2 ^ k \<Longrightarrow> good_tree H (k + m) (concat Bs) \<Longrightarrow> b \<in> set Bs \<Longrightarrow> good_tree H k b"
proof (induction m arbitrary: Bs)
  case 0
  then show ?case by (auto simp: length_Suc_conv)
next
  case (Suc m)
  define l where "l = take (2 ^ m) Bs"
  define r where "r = drop (2 ^ m) Bs"
  have B: "Bs = l @ r" and n: "length l = 2 ^ m" "length r = 2 ^ m"
    using Suc.prems(1) by (simp_all add: l_def r_def)
  have c: "length (concat l) = 2 ^ (k + m)" "length (concat r) = 2 ^ (k + m)"
    using length_concat_blocks[of l "2 ^ k"] length_concat_blocks[of r "2 ^ k"] Suc.prems(2) n by (simp_all add: B power_add)
  have "good_tree H (k + m) (concat l) \<and> good_tree H (k + m) (concat r)"
    using Suc.prems(3) c unfolding B by (simp add: good_tree_def)
  then show ?case
    using Suc.IH[OF n(1)] Suc.IH[OF n(2)] Suc.prems(2,4) unfolding B by auto
qed

lemma solve_rounds_trees:
  assumes H: "hash30 H"
  shows "length Bs = 2 ^ m \<Longrightarrow> k + m = 9 \<Longrightarrow> \<forall>b \<in> set Bs. good_tree H k b \<Longrightarrow>
    solve_rounds (30 - 3 * k) (4 * 2 ^ k) (map (tree_row H k) Bs) \<longleftrightarrow>
    good_tree H 9 (concat Bs) \<and> tree_xor H 9 (concat Bs) = replicate 30 0"
proof (induction m arbitrary: k Bs)
  case 0
  then obtain b where B: "Bs = [b]" and g: "good_tree H 9 b" and k: "k = 9"
    by (auto simp: length_Suc_conv)
  have "take 27 (tree_xor H 9 b) = replicate 27 0"
    using equihash_tree_zeros[OF H, of 9 b] g by (simp add: good_tree_def)
  then have "tree_xor H 9 b = replicate 30 0 \<longleftrightarrow> drop 27 (tree_xor H 9 b) = replicate 3 0"
    using replicate_take_drop[of 27 30 "tree_xor H 9 b"] by simp
  also have "\<dots> \<longleftrightarrow> list_all (\<lambda>b. b = 0) (drop 27 (tree_xor H 9 b))"
    using length_tree_xor[of H 9 b, OF H] by (auto simp: list_all_iff replicate_eqI intro: replicate_eqI)
  also have "\<dots> \<longleftrightarrow> row_is_zero (tree_row H 9 b) 3"
    using length_tree_xor[of H 9 b, OF H] by (simp add: row_is_zero_def tree_row_def)
  finally show ?case
    using g by (simp add: B k solve_rounds.simps)
next
  case (Suc m)
  have k: "k < 9" and ev: "even (length Bs)"
    using Suc.prems(1,2) by simp_all
  have len: "length (map (tree_row H k) Bs) > 1"
    using Suc.prems(1) one_less_power[of "2 :: nat" "Suc m"] by simp
  have arith: "30 - 3 * k - 3 = 30 - 3 * Suc k" "4 * 2 ^ k * 2 = 4 * (2 :: nat) ^ Suc k"
    by simp_all
  have lp: "length (pair_up Bs) = 2 ^ m" and cp: "concat (pair_up Bs) = concat Bs" and km: "Suc k + m = 9"
    using pair_up_facts[of Bs] Suc.prems(1,2) by simp_all
  note unf = solve_rounds.simps[of "30 - 3 * k" "4 * 2 ^ k" "map (tree_row H k) Bs"]
    if_P[OF len] solve_round_trees[OF H k ev Suc.prems(3)] arith
  show ?case
  proof (cases "\<forall>b \<in> set (pair_up Bs). good_tree H (Suc k) b")
    case True
    then show ?thesis
      unfolding unf using Suc.IH[OF lp km] cp by simp
  next
    case False
    have "\<forall>b \<in> set (pair_up Bs). length b = 2 ^ Suc k"
      using Suc.prems(3) by (induction Bs rule: pair_up.induct) (simp_all add: good_tree_def)
    then have "\<not> good_tree H 9 (concat Bs)"
      using good_tree_blocks[OF lp, of "Suc k" H] False cp km by auto
    then show ?thesis
      unfolding unf if_not_P[OF False] by simp
  qed
qed

lemma length_leaf_hash:
  assumes "\<And>p d. length (blake2b p d) = 50"
  shows "length (leaf_hash blake2b header i) = 25"
proof -
  have "unat (i mod 2) \<le> 1"
    by (simp add: unat_mod_distrib)
  then show ?thesis
    using assms by (simp add: leaf_hash_def slice_def)
qed

section \<open>Properties\<close>

text \<open>C8: The verifier accepts exactly the Equihash solutions. With a 50-byte BLAKE2b, the breadth-first rounds
  over 2054-byte row buffers return true precisely when the solution is 1344 bytes and the 512 indices
  it encodes are distinct and form the Equihash tree: every subtree orders its halves by first index,
  its hashes collide on one more 20-bit group per level, and all ten groups of the root are zero.\<close>

theorem equihash_verifies_tree:
  assumes "\<And>p d. length (blake2b p d) = 50"
  shows "verify_200_9 blake2b header soln \<longleftrightarrow>
    length soln = 1344 \<and>
    equihash_solution (\<lambda>i. expand_array (leaf_hash blake2b header i) 20 0) (get_indices_from_minimal soln 20)"
proof (cases "length soln = 1344")
  case False
  then show ?thesis by (simp add: verify_200_9_def)
next
  case True
  define H where "H i = expand_array (leaf_hash blake2b header i) 20 0" for i
  define ix where "ix = get_indices_from_minimal soln 20"
  have H: "hash30 H"
    using length_leaf_hash[OF assms] by (simp add: hash30_def H_def length_expand_array)
  have l: "length ix = 2 ^ 9"
    using indices_are_groups[OF True] by (simp add: ix_def)
  have "row_init (leaf_hash blake2b header i) 30 20 i = tree_row H 0 [i]" for i
    using H by (intro row_init_tree) (simp_all add: H_def hash30_def)
  then have "verify_200_9 blake2b header soln \<longleftrightarrow>
      solve_rounds (30 - 3 * 0) (4 * 2 ^ 0) (map (tree_row H 0) (map (\<lambda>i. [i]) ix))"
    using True l by (simp add: verify_200_9_def ix_def[symmetric] comp_def)
  also have "\<dots> \<longleftrightarrow> good_tree H 9 ix \<and> tree_xor H 9 ix = replicate 30 0"
    by (subst solve_rounds_trees[OF H, where m = 9]) (simp_all add: l good_tree_def)
  finally show ?thesis
    using True by (simp add: equihash_solution_def good_tree_def ix_def H_def[abs_def] conj_assoc)
qed

text \<open>A solution over a hash that is all zero: the ordered indices 0, 1, ..., 511.\<close>

abbreviation zero_blake2b :: "bytes \<Rightarrow> bytes \<Rightarrow> bytes" where
  "zero_blake2b \<equiv> \<lambda>p d. replicate 50 0"

lemma zero_tree:
  assumes "\<And>i. H i = replicate 30 0"
  shows "tree_xor H k is = replicate 30 0"
    and "sorted_wrt (<) is \<Longrightarrow> length is = 2 ^ k \<Longrightarrow> k \<le> 9 \<Longrightarrow> equihash_tree H k is"
proof -
  have z: "xor_bytes (replicate 30 0) (replicate 30 0) = replicate 30 0"
    using xor_bytes_zero[of "replicate 30 0" "replicate 30 0"] by simp
  show x: "tree_xor H k is = replicate 30 0" for k "is"
    by (induction k arbitrary: "is") (simp_all add: assms z)
  show "sorted_wrt (<) is \<Longrightarrow> length is = 2 ^ k \<Longrightarrow> k \<le> 9 \<Longrightarrow> equihash_tree H k is"
  proof (induction k arbitrary: "is")
    case (Suc k)
    have n: "take (2 ^ k) is \<noteq> []" "drop (2 ^ k) is \<noteq> []"
      using Suc.prems(2) by auto
    have s: "sorted_wrt (<) (take (2 ^ k) is @ drop (2 ^ k) is)"
      using Suc.prems(1) by simp
    have "hd (take (2 ^ k) is) < hd (drop (2 ^ k) is)"
      using s[unfolded sorted_wrt_append] hd_in_set[OF n(1)] hd_in_set[OF n(2)] by blast
    moreover have "equihash_tree H k (take (2 ^ k) is)" "equihash_tree H k (drop (2 ^ k) is)"
      using s[unfolded sorted_wrt_append] Suc.IH[of "take (2 ^ k) is"] Suc.IH[of "drop (2 ^ k) is"] Suc.prems(2,3) by simp_all
    ultimately show ?case
      using Suc.prems(3) unfolding equihash_tree.simps x by simp
  qed simp
qed

section \<open>The minimal encoding\<close>

text \<open>The number whose digits to base \<open>2 ^ 21\<close> are the indices, as 1344 big-endian bytes.\<close>

definition pack_digits :: "nat \<Rightarrow> nat list \<Rightarrow> nat" where
  "pack_digits b xs = foldl (\<lambda>n x. n * b + x) 0 xs"

definition minimal_from_indices :: "u32 list \<Rightarrow> bytes" where
  "minimal_from_indices is = rev (nat_le 1344 (pack_digits (2 ^ 21) (map unat is)))"

lemma pack_digits_snoc: "pack_digits b (xs @ [x]) = pack_digits b xs * b + x"
  by (simp add: pack_digits_def)

lemma pack_digits_less: "0 < b \<Longrightarrow> \<forall>x \<in> set xs. x < b \<Longrightarrow> pack_digits b xs < b ^ length xs"
proof (induction xs rule: rev_induct)
  case (snoc x xs)
  then have "Suc (pack_digits b xs) * b \<le> b ^ length xs * b"
    by (intro mult_le_mono1) simp
  with snoc.prems show ?case
    by (simp add: pack_digits_snoc mult.commute)
qed (simp add: pack_digits_def)

lemma pack_digits_nth:
  "0 < b \<Longrightarrow> \<forall>x \<in> set xs. x < b \<Longrightarrow> i < length xs \<Longrightarrow> pack_digits b xs div b ^ (length xs - 1 - i) mod b = xs ! i"
proof (induction xs rule: rev_induct)
  case (snoc x xs)
  show ?case
  proof (cases "i = length xs")
    case True
    with snoc.prems show ?thesis by (simp add: pack_digits_snoc)
  next
    case False
    then have e: "length (xs @ [x]) - 1 - i = Suc (length xs - 1 - i)" and i: "i < length xs"
      using snoc.prems by simp_all
    have "(pack_digits b xs * b + x) div b = pack_digits b xs"
      using snoc.prems by simp
    then show ?thesis
      using snoc.IH snoc.prems i unfolding e pack_digits_snoc power_Suc div_mult2_eq by (simp add: nth_append)
  qed
qed simp

lemma pack_digits_of: "0 < b \<Longrightarrow> pack_digits b (map (\<lambda>i. v div b ^ (n - 1 - i) mod b) [0..<n]) = v mod b ^ n"
proof (induction n arbitrary: v)
  case 0
  then show ?case by (simp add: pack_digits_def)
next
  case (Suc n)
  have m: "map (\<lambda>i. v div b ^ (Suc n - 1 - i) mod b) [0..<n] = map (\<lambda>i. v div b div b ^ (n - 1 - i) mod b) [0..<n]"
  proof (rule map_cong[OF refl])
    fix i assume "i \<in> set [0..<n]"
    then have e: "Suc n - 1 - i = Suc (n - 1 - i)"
      by simp
    show "v div b ^ (Suc n - 1 - i) mod b = v div b div b ^ (n - 1 - i) mod b"
      unfolding e power_Suc div_mult2_eq ..
  qed
  show ?case
    unfolding upt_Suc_append[OF le0] map_append list.map pack_digits_snoc m Suc.IH[OF Suc.prems] power_Suc mod_mult2_eq
    by (simp add: mult.commute)
qed

lemma bits_1344: "(2 ^ 21) ^ 512 = (256 :: nat) ^ 1344"
proof -
  have "(2 ^ 21) ^ 512 = (2 :: nat) ^ (8 * 1344)"
    by (simp only: power_mult[symmetric]) simp
  then show ?thesis
    by (simp only: power_mult) simp
qed

lemma minimal_value:
  assumes "length is = 512" and "\<forall>i \<in> set is. i < 2 ^ 21"
  shows "be_val (minimal_from_indices is) = pack_digits (2 ^ 21) (map unat is)"
proof -
  have "\<forall>x \<in> set (map unat is). x < 2 ^ 21"
    using assms(2) by (auto simp: word_less_nat_alt)
  then have "pack_digits (2 ^ 21) (map unat is) < 256 ^ 1344"
    using pack_digits_less[of "2 ^ 21" "map unat is"] assms(1) by (simp only: bits_1344[symmetric] length_map) simp
  then show ?thesis
    by (simp only: minimal_from_indices_def be_val_def rev_rev_ident le_val_nat_le mod_less)
qed

lemma indices_of_minimal:
  assumes "length is = 512" and "\<forall>i \<in> set is. i < 2 ^ 21"
  shows "get_indices_from_minimal (minimal_from_indices is) 20 = is"
proof -
  let ?b = "2 ^ 21 :: nat"
  have l: "length (minimal_from_indices is) = 1344"
    by (simp add: minimal_from_indices_def)
  have lt: "\<forall>x \<in> set (map unat is). x < ?b"
    using assms(2) by (auto simp: word_less_nat_alt)
  have "pack_digits ?b (map unat is) div 2 ^ (21 * (511 - i)) mod ?b = unat (is ! i)" if "i < 512" for i
    using pack_digits_nth[OF _ lt, of i] assms(1) that by (simp add: power_mult)
  then show ?thesis
    unfolding indices_are_groups[OF l] minimal_value[OF assms] using assms(1) by (intro nth_equalityI) simp_all
qed

definition ordered_indices :: "u32 list" where
  "ordered_indices = map of_nat [0..<512]"

lemma ordered_indices_facts:
  "length ordered_indices = 512" "\<forall>i \<in> set ordered_indices. i < 2 ^ 21" "sorted_wrt (<) ordered_indices"
proof -
  show "length ordered_indices = 512"
    by (simp add: ordered_indices_def)
  have u: "unat (of_nat n :: u32) = n" if "n < 512" for n
    using that by (simp add: unat_of_nat)
  show "\<forall>i \<in> set ordered_indices. i < 2 ^ 21" "sorted_wrt (<) ordered_indices"
    by (auto simp: ordered_indices_def word_less_nat_alt u sorted_wrt_iff_nth_less)
qed

lemma zero_leaves: "expand_array (leaf_hash zero_blake2b header i) 20 0 = replicate 30 0"
proof -
  have "leaf_hash zero_blake2b header i = replicate 25 0"
    using length_leaf_hash[of zero_blake2b header i]
    by (auto simp: leaf_hash_def slice_def intro!: replicate_eqI)
  moreover have "expand_array (replicate 25 0) 20 0 = replicate 30 0"
    by code_simp
  ultimately show ?thesis
    by simp
qed

lemma equihash_verifies_tree_witness:
  "verify_200_9 zero_blake2b [] (minimal_from_indices ordered_indices)"
proof -
  have "equihash_solution (\<lambda>i. expand_array (leaf_hash zero_blake2b [] i) 20 0) ordered_indices"
    using ordered_indices_facts zero_tree[OF zero_leaves] strict_sorted_iff[of ordered_indices]
    by (simp add: equihash_solution_def)
  then show ?thesis
    using equihash_verifies_tree[of zero_blake2b "[]" "minimal_from_indices ordered_indices"]
      indices_of_minimal[OF ordered_indices_facts(1,2)]
    by (simp add: minimal_from_indices_def)
qed

text \<open>The minimal encoding is a bijection: packing 512 indices below \<open>2 ^ 21\<close> into big-endian groups of 21 bits
  and unpacking them with \<open>GetIndicesFromMinimal\<close> gives them back, and every solution of 1344 bytes is
  the packing of the indices read from it, so no two solutions stand for the same index list.\<close>

theorem equihash_indices_roundtrip:
  "(length is = 512 \<and> (\<forall>i \<in> set is. i < 2 ^ 21) \<longrightarrow> get_indices_from_minimal (minimal_from_indices is) 20 = is) \<and>
   (length soln = 1344 \<longrightarrow> minimal_from_indices (get_indices_from_minimal soln 20) = soln)"
proof (intro conjI impI)
  assume "length is = 512 \<and> (\<forall>i \<in> set is. i < 2 ^ 21)"
  then show "get_indices_from_minimal (minimal_from_indices is) 20 = is"
    by (intro indices_of_minimal) simp_all
next
  assume l: "length soln = 1344"
  let ?d = "map (\<lambda>i. be_val soln div (2 ^ 21) ^ (512 - 1 - i) mod 2 ^ 21) [0..<512]"
  have u: "unat (of_nat (x mod 2 ^ 21) :: u32) = x mod 2 ^ 21" for x
  proof -
    have "x mod 2 ^ 21 < 2 ^ 32"
      by (rule less_le_trans[of _ "2 ^ 21"]) simp_all
    then show ?thesis
      by (simp only: unat_of_nat) simp
  qed
  have "map unat (get_indices_from_minimal soln 20) = ?d"
    unfolding indices_are_groups[OF l] map_map comp_def u by (simp add: power_mult)
  moreover have "pack_digits (2 ^ 21) ?d = be_val soln mod 256 ^ 1344"
    using pack_digits_of[of "2 ^ 21" "be_val soln" 512] by (simp only: bits_1344[symmetric]) simp
  ultimately have "minimal_from_indices (get_indices_from_minimal soln 20) = rev (nat_le 1344 (be_val soln mod 256 ^ 1344))"
    by (simp only: minimal_from_indices_def)
  also have "\<dots> = soln"
    unfolding nat_le_mod be_val_def using nat_le_le_val[of "rev soln"] l by simp
  finally show "minimal_from_indices (get_indices_from_minimal soln 20) = soln" .
qed

lemma equihash_indices_roundtrip_witness:
  "get_indices_from_minimal (minimal_from_indices ordered_indices) 20 = ordered_indices \<and>
   minimal_from_indices (get_indices_from_minimal (replicate 1344 1) 20) = replicate 1344 1"
  using equihash_indices_roundtrip[of ordered_indices "replicate 1344 1"] ordered_indices_facts(1,2)
  by (simp only: length_replicate simp_thms)

end
