(* ===== verification/Client_State.thy ===== *)
theory Client_State
  imports Session_Common Line_Transport Rate_Limiter Vardiff Coinbase Zcash Equihash Blacklist
begin

text \<open>
  The state of a miner's session with the pool (\<open>ClientSession\<close>, \<open>src/client_session.hpp\<close>) and what the
  V1 and the V2 handlers share: sending, closing, difficulty bookkeeping, the submission of a block and
  of a merged-mined block. A handler maps a session to a session; what it posts to the node, the
  database worker and the socket is appended to \<open>cs_out\<close>. An exception leaves the state as it was when it
  was thrown and stays in \<open>cs_fault\<close> until a handler catches it; nothing runs after it (\<open>cs_then\<close>).
  The stratifier and the rate limiter are shared by all sessions and travel with the session. Digests,
  the clocks, \<open>std::exp\<close>, \<open>std::pow\<close>, the node's answers and the miner table come with the environment of
  the event; a handler reads the clocks once.
\<close>

section \<open>State\<close>

text \<open>\<open>CoinConfig::StratumTier\<close>.\<close>

record stratum_tier =
  tier_label :: string
  startingDifficulty :: rat
  vardiffEnabled :: bool
  vardiffMin :: rat
  vardiffMax :: rat
  allowNiceHash :: bool
  tier_sv2 :: bool

record custom_job =
  cuj_job_id :: u32
  cuj_version :: u32
  cuj_prev_hash :: bytes
  cuj_coinbase_prefix :: bytes
  cuj_coinbase_outputs :: bytes
  cuj_coinbase_tx_version :: u32
  cuj_coinbase_tx_input_nSequence :: u32
  cuj_coinbase_tx_locktime :: u32
  cuj_nbits :: u32

text \<open>An authorization on its way through the node.\<close>

record auth_request =
  ar_id :: string
  ar_addr :: string
  ar_worker :: string
  ar_decoded :: decoded
  ar_custom_diff :: "rat option"
  ar_doge :: string

record share_record =
  shr_miner_id :: int
  shr_job_id :: string
  shr_nonce :: hex
  shr_extranonce1 :: hex
  shr_extranonce2 :: hex
  shr_hash :: hex
  shr_difficulty :: rat
  shr_is_block :: bool

record block_record =
  blr_height :: int
  blr_hash :: hex
  blr_miner_id :: int
  blr_difficulty :: rat
  blr_reward :: int

datatype cs_effect =
  Cs_Line string
| Cs_Frame bytes
| Cs_Validate auth_request \<comment> \<open>\<open>asyncValidateAddress\<close> of the miner's address\<close>
| Cs_Validate_Doge auth_request
| Cs_Validate_Payout string
| Cs_Presence string string bool
| Cs_Share share_record
| Cs_Best_Share int rat hex
| Cs_Block hex block_record bool \<comment> \<open>\<open>asyncSubmitBlock\<close>, the record of an accepted block, whether it is marked precious\<close>
| Cs_Doge_Block hex block_record
| Cs_Disconnected

record 'n cs =
  cs_extranonce1 :: hex
  cs_session_id :: string
  cs_worker_address :: string
  cs_worker_name :: string
  cs_worker_script_hex :: hex
  cs_aux_doge_address :: string
  cs_doge_script_hex :: hex
  cs_session_aux_jobs :: "string \<rightharpoonup> session_aux"
  cs_doge_submitted :: "hex set"
  cs_zcash_jobs :: "string \<rightharpoonup> hex \<times> hex"
  cs_user_agent :: string
  cs_miner_id :: int
  cs_subscribed :: bool
  cs_authorized :: bool
  cs_extranonce_subscribed :: bool
  cs_extranonce2_size :: nat
  cs_version_rolling :: bool
  cs_version_mask :: u32
  cs_vardiff :: vardiff
  cs_last_difficulty :: rat
  cs_last_difficulty_change_ts :: int
  cs_has_custom_difficulty :: bool
  cs_custom_difficulty :: rat
  cs_shares_accepted :: u64
  cs_shares_rejected :: u64
  cs_stat_diff :: rat
  cs_stat_hr1 :: rat
  cs_stat_hr5 :: rat
  cs_last_share_unix :: u32
  cs_closed :: bool
  cs_is_v2 :: bool
  cs_is_v2_encrypted :: bool
  cs_is_extended_channel :: bool
  cs_noise :: 'n
  cs_channel_id :: u32
  cs_custom_job_id_counter :: u32
  cs_custom_jobs :: "u32 \<rightharpoonup> custom_job"
  cs_strat :: stratifier
  cs_rl :: "rate_limiter option"
  cs_fault :: "fault option"
  cs_out :: "cs_effect list"

record 'n cs_env =
  ce_coin :: coin_config
  ce_tier :: stratum_tier
  ce_aux :: aux_config
  ce_aux_payout :: string
  ce_aux_client :: bool
  ce_empty_blocks :: bool
  ce_shares_per_minute :: rat
  ce_ip :: string
  ce_now :: int
  ce_now_unix :: u32
  ce_rand :: nat
  ce_sha256 :: "bytes \<Rightarrow> bytes"
  ce_scrypt :: "bytes \<Rightarrow> bytes"
  ce_blake2b :: "bytes \<Rightarrow> bytes \<Rightarrow> bytes"
  ce_exp :: "rat \<Rightarrow> rat"
  ce_powl :: "rat \<Rightarrow> rat \<Rightarrow> rat"
  ce_rtt_facts :: "rat list"
  ce_fmt_double :: "rat \<Rightarrow> string"
  ce_blacklist :: blacklist
  ce_ensure_miner :: "string \<Rightarrow> string \<Rightarrow> string \<Rightarrow> int"
  ce_encrypt :: "'n \<Rightarrow> bytes \<Rightarrow> (bytes \<times> 'n) option"
  ce_decrypt :: "'n \<Rightarrow> bytes \<Rightarrow> (bytes \<times> 'n) option"

section \<open>Running\<close>

definition cs_then :: "('n cs \<Rightarrow> 'n cs) \<Rightarrow> 'n cs \<Rightarrow> 'n cs" where
  "cs_then f s = (if cs_fault s = None then f s else s)"

text \<open>A call that may throw, and what follows it.\<close>

definition cs_try :: "'a faulty \<Rightarrow> ('a \<Rightarrow> 'n cs \<Rightarrow> 'n cs) \<Rightarrow> 'n cs \<Rightarrow> 'n cs" where
  "cs_try m k s = (case m of Inr x \<Rightarrow> k x s | Inl f \<Rightarrow> s\<lparr>cs_fault := Some f\<rparr>)"

definition throwing :: "'a res \<Rightarrow> 'a faulty" where
  "throwing m = (case m of Inr x \<Rightarrow> Inr x | Inl e \<Rightarrow> Inl (Throws e))"

definition cs_emit :: "cs_effect \<Rightarrow> 'n cs \<Rightarrow> 'n cs" where
  "cs_emit ef s = s\<lparr>cs_out := cs_out s @ [ef]\<rparr>"

definition cs_send_line :: "string \<Rightarrow> 'n cs \<Rightarrow> 'n cs" where
  "cs_send_line m = cs_emit (Cs_Line m)"

text \<open>\<open>on_disconnect_local\<close>.\<close>

definition cs_disconnect :: "'n cs_env \<Rightarrow> 'n cs \<Rightarrow> 'n cs" where
  "cs_disconnect e s =
     (if cs_closed s then s
      else
        let s = s\<lparr>cs_closed := True\<rparr>;
            s = (if cs_worker_address s \<noteq> [] then cs_emit (Cs_Presence (cs_worker_address s) (cs_worker_name s) False) s else s);
            s = s\<lparr>cs_rl := map_option (rl_on_disconnect (ce_ip e)) (cs_rl s)\<rparr>
        in cs_emit Cs_Disconnected s)"

text \<open>The constructor; \<open>en1\<close> and \<open>sid\<close> are the random identifiers.\<close>

definition cs_new :: "'n cs_env \<Rightarrow> hex \<Rightarrow> string \<Rightarrow> stratifier \<Rightarrow> rate_limiter option \<Rightarrow> 'n \<Rightarrow> 'n cs" where
  "cs_new e en1 sid strat rl noise =
     (let t = ce_tier e
      in \<lparr>cs_extranonce1 = en1, cs_session_id = sid, cs_worker_address = [], cs_worker_name = [], cs_worker_script_hex = [],
          cs_aux_doge_address = [], cs_doge_script_hex = [], cs_session_aux_jobs = Map.empty, cs_doge_submitted = {},
          cs_zcash_jobs = Map.empty, cs_user_agent = [], cs_miner_id = -1, cs_subscribed = False, cs_authorized = False,
          cs_extranonce_subscribed = False, cs_extranonce2_size = (if chain (ce_coin e) = Zcash then 4 else 8),
          cs_version_rolling = False, cs_version_mask = 0,
          cs_vardiff = vd_new \<lparr>min_difficulty = min (vardiffMin t) (startingDifficulty t),
                               max_difficulty = max (vardiffMax t) (startingDifficulty t)\<rparr> (startingDifficulty t),
          cs_last_difficulty = startingDifficulty t, cs_last_difficulty_change_ts = ce_now e,
          cs_has_custom_difficulty = False, cs_custom_difficulty = 1024, cs_shares_accepted = 0, cs_shares_rejected = 0,
          cs_stat_diff = 0, cs_stat_hr1 = 0, cs_stat_hr5 = 0, cs_last_share_unix = 0, cs_closed = False, cs_is_v2 = False,
          cs_is_v2_encrypted = False, cs_is_extended_channel = False, cs_noise = noise, cs_channel_id = 0, cs_custom_job_id_counter = 0, cs_custom_jobs = Map.empty,
          cs_strat = strat, cs_rl = rl, cs_fault = None, cs_out = []\<rparr>)"

section \<open>Shares\<close>

definition hashrate_multiplier :: "chain_kind \<Rightarrow> rat" where
  "hashrate_multiplier k =
     (if k = Litecoin \<or> k = Dogecoin then 65536 else if k = Zcash then 8192 else 4294967296)"

definition note_accepted_share :: "'n cs_env \<Rightarrow> rat \<Rightarrow> 'n cs \<Rightarrow> 'n cs" where
  "note_accepted_share e share_diff s =
     (let mult = hashrate_multiplier (chain (ce_coin e))
      in s\<lparr>cs_last_share_unix := ce_now_unix e, cs_stat_hr1 := dbl (vd_dsps1 (cs_vardiff s) * mult),
           cs_stat_hr5 := dbl (vd_dsps5 (cs_vardiff s) * mult), cs_strat := note_share_diff share_diff (cs_strat s)\<rparr>)"

definition cs_register_share :: "hex \<Rightarrow> 'n cs \<Rightarrow> bool \<times> 'n cs" where
  "cs_register_share fingerprint s =
     (let (first, st) = register_share fingerprint (cs_strat s) in (first, s\<lparr>cs_strat := st\<rparr>))"

text \<open>\<open>std::chrono::duration<double>(now - last_difficulty_change_ts_).count()\<close>.\<close>

definition grace_age :: "'n cs_env \<Rightarrow> 'n cs \<Rightarrow> rat" where
  "grace_age e s = dbl (dbl (of_int (ce_now e - cs_last_difficulty_change_ts s)) / 10 ^ 9)"

section \<open>Block submission\<close>

text \<open>The eCash real-time target: whether the block is held back.\<close>

definition rtt_withheld :: "'n cs_env \<Rightarrow> mining_job \<Rightarrow> bytes \<Rightarrow> bool res" where
  "rtt_withheld e job hash_be =
     (case mj_rtt job of
        Some (pht, prevbits) \<Rightarrow>
          if chain (ce_coin e) = ECash
          then bindE (ecash_rtt_ok (ce_powl e) (ce_rtt_facts e) pht prevbits (int (unat (ce_now_unix e))) hash_be) (\<lambda>ok. Inr (\<not> ok))
          else Inr False
      | None \<Rightarrow> Inr False)"

text \<open>The block of a header and a coinbase over a job's transactions.\<close>

definition block_of :: "chain_kind \<Rightarrow> mining_job \<Rightarrow> hex \<Rightarrow> hex \<Rightarrow> hex \<Rightarrow> hex" where
  "block_of k job header_hex cb_hex solution =
     (let cb = (if mj_segwit_active job then segwitify_coinbase cb_hex else cb_hex);
          header = header_hex @ (if k = Zcash then ''fd4005'' @ solution else [])
      in assemble_full_block header cb (mj_tx_hexes job) @ (if mj_mweb job \<noteq> [] then ''01'' @ mj_mweb job else []))"

definition submit_block_candidate ::
  "'n cs_env \<Rightarrow> mining_job \<Rightarrow> hex \<Rightarrow> hex \<Rightarrow> hex \<Rightarrow> bytes \<Rightarrow> rat \<Rightarrow> 'n cs \<Rightarrow> 'n cs" where
  "submit_block_candidate e job header_hex cb_hex solution hash_be share_diff =
     cs_try (throwing (rtt_withheld e job hash_be)) (\<lambda>withheld s.
       if withheld then s
       else cs_emit (Cs_Block (block_of (chain (ce_coin e)) job header_hex cb_hex solution)
              \<lparr>blr_height = mj_height job, blr_hash = bytes_to_hex hash_be, blr_miner_id = cs_miner_id s,
               blr_difficulty = share_diff, blr_reward = mj_coinbase_value job\<rparr>
              (chain (ce_coin e) \<noteq> Zcash)) s)"

text \<open>A parent share that may win the merged-mined block: \<open>meets_aux\<close> is the byte comparison of
  \<open>maybe_submit_aux_block\<close>.\<close>

definition aux_target_bytes :: "hex \<Rightarrow> bytes res" where
  "aux_target_bytes h =
     bindE (hex_to_bytes h) (\<lambda>b. Inr (if length b = 32 then b else replicate 32 0))"

definition auxpow_of :: "mining_job \<Rightarrow> hex \<Rightarrow> hex \<Rightarrow> hex \<Rightarrow> hex" where
  "auxpow_of job cb_hex parent_hash header_hex =
     cb_hex @ parent_hash
     @ (let n = length (mj_merkle_branch_le job) in pad_hex 2 n @ concat (mj_merkle_branch_le job))
     @ ''00000000'' @ ''00'' @ ''00000000'' @ header_hex"

definition maybe_submit_aux_block ::
  "'n cs_env \<Rightarrow> mining_job \<Rightarrow> string \<Rightarrow> hex \<Rightarrow> hex \<Rightarrow> bytes \<Rightarrow> rat \<Rightarrow> 'n cs \<Rightarrow> 'n cs" where
  "maybe_submit_aux_block e job job_id header_hex cb_hex hash_be share_diff s =
     (case (if mj_aux_enabled job \<and> cs_aux_doge_address s \<noteq> [] then cs_session_aux_jobs s job_id else None) of
        None \<Rightarrow> s
      | Some saj \<Rightarrow>
          if length (sa_aux_target saj) \<noteq> 64 \<or> \<not> ce_aux_client e then s
          else cs_try (throwing (aux_target_bytes (sa_aux_target saj))) (\<lambda>tgt s.
            if \<not> meets_target hash_be tgt then s
            else if sa_doge_block_hash saj \<in> cs_doge_submitted s then s
            else
              let seen = (if card (cs_doge_submitted s) > 512 then {} else cs_doge_submitted s);
                  s = s\<lparr>cs_doge_submitted := insert (sa_doge_block_hash saj) seen\<rparr>
              in cs_try (throwing (compute_coinbase_txid_le (ce_sha256 e) header_hex)) (\<lambda>parent_hash s.
                   cs_emit (Cs_Doge_Block
                     (sa_doge_header saj @ auxpow_of job cb_hex parent_hash header_hex @ ''01'' @ sa_doge_coinbase saj)
                     \<lparr>blr_height = sa_aux_height saj, blr_hash = sa_doge_block_hash saj, blr_miner_id = cs_miner_id s,
                      blr_difficulty = share_diff, blr_reward = sa_aux_value saj\<rparr>) s) s) s)"

text \<open>The node's answer to a submitted block and what follows it: the callbacks of the two
  \<open>asyncSubmitBlock\<close> calls. A soft result (a string such as \<open>duplicate\<close>) still counts for the parent chain.\<close>

datatype block_answer = Rpc_Failed | Rpc_Refused | Rpc_Answered "string option"

datatype block_effect = Mark_Precious hex | Record_Block string block_record

definition block_answered :: "bool \<Rightarrow> block_record \<Rightarrow> block_answer \<Rightarrow> block_effect list" where
  "block_answered use_precious r a =
     (case a of
        Rpc_Answered _ \<Rightarrow> (if use_precious then [Mark_Precious (blr_hash r)] else []) @ [Record_Block [] r]
      | _ \<Rightarrow> [])"

definition doge_answered :: "block_record \<Rightarrow> block_answer \<Rightarrow> block_effect list" where
  "doge_answered r a = (if a = Rpc_Answered None then [Record_Block ''DOGE'' r] else [])"

section \<open>Facts\<close>

lemma cs_then_ok [simp]: "cs_fault s = None \<Longrightarrow> cs_then f s = f s"
  by (simp add: cs_then_def)

lemma cs_try_simps [simp]:
  "cs_try (Inr x) k s = k x s" "cs_try (Inl f) k s = s\<lparr>cs_fault := Some f\<rparr>"
  by (simp_all add: cs_try_def)

lemma throwing_simps [simp]: "throwing (Inr x) = Inr x" "throwing (Inl e) = Inl (Throws e)"
  by (simp_all add: throwing_def)

lemma cs_emit_sel [simp]:
  "cs_extranonce1 (cs_emit ef s) = cs_extranonce1 s" "cs_session_id (cs_emit ef s) = cs_session_id s"
  "cs_worker_address (cs_emit ef s) = cs_worker_address s" "cs_worker_name (cs_emit ef s) = cs_worker_name s"
  "cs_worker_script_hex (cs_emit ef s) = cs_worker_script_hex s" "cs_aux_doge_address (cs_emit ef s) = cs_aux_doge_address s"
  "cs_doge_script_hex (cs_emit ef s) = cs_doge_script_hex s" "cs_session_aux_jobs (cs_emit ef s) = cs_session_aux_jobs s"
  "cs_doge_submitted (cs_emit ef s) = cs_doge_submitted s" "cs_zcash_jobs (cs_emit ef s) = cs_zcash_jobs s"
  "cs_user_agent (cs_emit ef s) = cs_user_agent s" "cs_miner_id (cs_emit ef s) = cs_miner_id s"
  "cs_subscribed (cs_emit ef s) = cs_subscribed s" "cs_authorized (cs_emit ef s) = cs_authorized s"
  "cs_extranonce_subscribed (cs_emit ef s) = cs_extranonce_subscribed s"
  "cs_extranonce2_size (cs_emit ef s) = cs_extranonce2_size s" "cs_version_rolling (cs_emit ef s) = cs_version_rolling s"
  "cs_version_mask (cs_emit ef s) = cs_version_mask s" "cs_vardiff (cs_emit ef s) = cs_vardiff s"
  "cs_last_difficulty (cs_emit ef s) = cs_last_difficulty s"
  "cs_last_difficulty_change_ts (cs_emit ef s) = cs_last_difficulty_change_ts s"
  "cs_has_custom_difficulty (cs_emit ef s) = cs_has_custom_difficulty s"
  "cs_custom_difficulty (cs_emit ef s) = cs_custom_difficulty s" "cs_shares_accepted (cs_emit ef s) = cs_shares_accepted s"
  "cs_shares_rejected (cs_emit ef s) = cs_shares_rejected s" "cs_stat_diff (cs_emit ef s) = cs_stat_diff s"
  "cs_stat_hr1 (cs_emit ef s) = cs_stat_hr1 s" "cs_stat_hr5 (cs_emit ef s) = cs_stat_hr5 s"
  "cs_last_share_unix (cs_emit ef s) = cs_last_share_unix s" "cs_closed (cs_emit ef s) = cs_closed s"
  "cs_is_v2 (cs_emit ef s) = cs_is_v2 s" "cs_is_v2_encrypted (cs_emit ef s) = cs_is_v2_encrypted s"
  "cs_is_extended_channel (cs_emit ef s) = cs_is_extended_channel s" "cs_noise (cs_emit ef s) = cs_noise s"
  "cs_channel_id (cs_emit ef s) = cs_channel_id s" "cs_custom_job_id_counter (cs_emit ef s) = cs_custom_job_id_counter s"
  "cs_custom_jobs (cs_emit ef s) = cs_custom_jobs s" "cs_strat (cs_emit ef s) = cs_strat s" "cs_rl (cs_emit ef s) = cs_rl s"
  by (simp_all add: cs_emit_def)

end
