(* ===== verification/Client_Jobs.thy ===== *)
theory Client_Jobs
  imports Client_State
begin

text \<open>
  The jobs and difficulties a V1 session is sent: \<open>send_set_difficulty\<close> with Zcash's \<open>set_target\<close>,
  \<open>emit_job\<close>, the merged-mining variant \<open>emit_job_custom\<close>, the Zcash coinbase of the miner.
\<close>

section \<open>Difficulty\<close>

text \<open>The base-256 digits of a target, least significant first; \<open>fmod\<close>, the truncation to a byte and the
  division by 256 are exact.\<close>

fun target_digits :: "nat \<Rightarrow> rat \<Rightarrow> bytes" where
  "target_digits 0 cur = []"
| "target_digits (Suc n) cur = of_int (\<lfloor>cur - 256 * of_int \<lfloor>cur / 256\<rfloor>\<rfloor>) # target_digits n (of_int \<lfloor>cur / 256\<rfloor>)"

declare target_digits.simps [simp del]

definition zcash_target_hex :: "rat \<Rightarrow> hex" where
  "zcash_target_hex rounded =
     bytes_to_hex (rev (target_digits 32 (if rounded > 0 then ldbl (max_target Zcash / rounded) else max_target Zcash)))"

definition set_target_line :: "hex \<Rightarrow> string" where
  "set_target_line t = jq ''{`id`:null,`method`:`mining.set_target`,`params`:['' @ quoted t @ '']}'' @ [CHR 10]"

section \<open>Jobs\<close>

text \<open>The node's coinbase redirected to the miner and the merkle root over it; \<open>None\<close> when there is nothing
  to redirect.\<close>

definition zcash_work :: "'n cs_env \<Rightarrow> mining_job \<Rightarrow> hex \<Rightarrow> (hex \<times> hex) option faulty" where
  "zcash_work e job script_hex =
     (let don_script = (if mj_donation_percent job > 0 \<and> mj_donation_address job \<noteq> []
                        then taddr_to_script (ce_sha256 e) (mj_donation_address job) else [])
      in bindE (throwing (hex_to_bytes (mj_zcash_full_coinbase_hex job))) (\<lambda>raw.
         bindE (throwing (hex_to_bytes script_hex)) (\<lambda>script.
         bindE (swap_miner_output raw script don_script (mj_donation_percent job)) (\<lambda>swapped.
           if swapped = [] then Inr None
           else bindE (zip244_txid (ce_blake2b e) swapped) (\<lambda>txid.
                bindE (throwing (compute_root_le_hex (sha256d (ce_sha256 e)) (bytes_to_hex txid) (mj_merkle_branch_le job))) (\<lambda>mr.
                  Inr (Some (bytes_to_hex swapped, mr))))))))"

definition zcash_notify_line :: "mining_job \<Rightarrow> hex \<Rightarrow> string" where
  "zcash_notify_line job mr =
     notify_head @ comma_join
       [quoted (mj_job_id job), quoted (le_hex_u32 (mj_version job)), quoted (byte_reverse_hex (mj_previousblockhash job)),
        quoted mr, quoted (if mj_reserved job = [] then zeros64 else byte_reverse_hex (mj_reserved job)),
        quoted (le_hex_u32 (mj_curtime job)), quoted (byte_reverse_hex (mj_bits job)), []]
     @ notify_tail (mj_clean_jobs job)"

definition bounded_put :: "nat \<Rightarrow> 'k \<Rightarrow> 'v \<Rightarrow> ('k \<rightharpoonup> 'v) \<Rightarrow> ('k \<rightharpoonup> 'v)" where
  "bounded_put limit k v m = (if card (dom m) > limit then Map.empty else m)(k \<mapsto> v)"

definition cs_coinbase2 :: "'n cs_env \<Rightarrow> mining_job \<Rightarrow> 'n cs \<Rightarrow> hex" where
  "cs_coinbase2 e job s = build_session_coinbase2 (ce_sha256 e) (chain (ce_coin e)) job (cs_worker_script_hex s)"

definition emit_job :: "'n cs_env \<Rightarrow> mining_job \<Rightarrow> bool \<Rightarrow> 'n cs \<Rightarrow> 'n cs" where
  "emit_job e job force s =
     (if chain (ce_coin e) = Zcash then
        if cs_worker_script_hex s \<noteq> [] \<and> mj_zcash_full_coinbase_hex job \<noteq> [] then
          cs_try (zcash_work e job (cs_worker_script_hex s)) (\<lambda>w s.
            case w of
              None \<Rightarrow> cs_send_line (force_clean_line force (mj_notify_prefix job)) s
            | Some (cb, mr) \<Rightarrow>
                cs_send_line (force_clean_line force (zcash_notify_line job mr))
                  (s\<lparr>cs_zcash_jobs := bounded_put 256 (mj_job_id job) (cb, mr) (cs_zcash_jobs s)\<rparr>)) s
        else cs_send_line (force_clean_line force (mj_notify_prefix job)) s
      else
        cs_send_line (force_clean_line force (mj_notify_prefix job @ cs_coinbase2 e job s @ mj_notify_suffix job)) s)"

definition emit_job_custom :: "'n cs_env \<Rightarrow> mining_job \<Rightarrow> string \<Rightarrow> bool \<Rightarrow> 'n cs \<Rightarrow> 'n cs" where
  "emit_job_custom e job custom_prefix force s =
     cs_send_line (force_clean_line force (custom_prefix @ cs_coinbase2 e job s @ mj_notify_suffix job)) s"

text \<open>The head of a notify line over a \<open>coinbase1\<close> that carries the session's commitment.\<close>

definition aux_notify_prefix :: "mining_job \<Rightarrow> hex \<Rightarrow> string" where
  "aux_notify_prefix job coinbase1 =
     notify_head @ quoted (mj_job_id job) @ '','' @ quoted (swap_prevhash_words (mj_previousblockhash job)) @ '',''
     @ quoted coinbase1 @ '','' @ [char_of (34 :: nat)]"

text \<open>The merged-mining part of \<open>notifyNewJob\<close>: the session's work and the notify line over it.\<close>

definition emit_aux_job :: "'n cs_env \<Rightarrow> mining_job \<Rightarrow> session_aux \<Rightarrow> 'n cs \<Rightarrow> 'n cs" where
  "emit_aux_job e job aux s =
     emit_job_custom e job (aux_notify_prefix job (splice_aux_commit (mj_coinbase1 job) (sa_aux_commit aux))) False
       (s\<lparr>cs_session_aux_jobs := bounded_put 256 (mj_job_id job) aux (cs_session_aux_jobs s)\<rparr>)"

text \<open>The work a session mines for Dogecoin, if it does.\<close>

definition session_aux_of :: "'n cs_env \<Rightarrow> mining_job \<Rightarrow> 'n cs \<Rightarrow> session_aux option res" where
  "session_aux_of e job s =
     (if mj_aux_enabled job \<and> cs_aux_doge_address s \<noteq> [] \<and> ce_aux_client e
      then build_session_aux (ce_sha256 e) (ce_aux e) (coinbaseSignature (ce_coin e)) (cs_doge_script_hex s) job
      else Inr None)"

section \<open>Retargets\<close>

definition emit_latest :: "'n cs_env \<Rightarrow> bool \<Rightarrow> 'n cs \<Rightarrow> 'n cs" where
  "emit_latest e force s = (case latest_job (cs_strat s) of Some j \<Rightarrow> emit_job e j force s | None \<Rightarrow> s)"

definition send_set_difficulty :: "'n cs_env \<Rightarrow> rat \<Rightarrow> rat option \<Rightarrow> 'n cs \<Rightarrow> 'n cs" where
  "send_set_difficulty e d old_diff s =
     (let rounded = round_away d;
          s = s\<lparr>cs_last_difficulty := (case old_diff of Some o' \<Rightarrow> o' | None \<Rightarrow> d),
                cs_last_difficulty_change_ts := ce_now e, cs_stat_diff := rounded\<rparr>;
          s = cs_send_line (set_difficulty_line rounded) s;
          s = (if chain (ce_coin e) = Zcash then cs_send_line (set_target_line (zcash_target_hex rounded)) s else s)
      in if cs_authorized s then emit_latest e True s else s)"

section \<open>Facts\<close>

text \<open>The part of a session that sending difficulties and jobs leaves alone.\<close>

definition cs_identity :: "'n cs \<Rightarrow>
    (hex \<times> string \<times> string \<times> hex \<times> string \<times> hex) \<times> (string \<rightharpoonup> session_aux) \<times> hex set \<times> int \<times> bool \<times> bool \<times> nat \<times> u32 \<times>
    vardiff \<times> u64 \<times> u64 \<times> bool \<times> stratifier \<times> rate_limiter option" where
  "cs_identity s =
     ((cs_extranonce1 s, cs_worker_address s, cs_worker_name s, cs_worker_script_hex s, cs_aux_doge_address s, cs_doge_script_hex s),
      cs_session_aux_jobs s, cs_doge_submitted s, cs_miner_id s, cs_subscribed s, cs_authorized s, cs_extranonce2_size s,
      cs_version_mask s, cs_vardiff s, cs_shares_accepted s, cs_shares_rejected s, cs_closed s, cs_strat s, cs_rl s)"

lemma cs_emit_fields [simp]:
  "cs_identity (cs_emit ef s) = cs_identity s" "cs_fault (cs_emit ef s) = cs_fault s" "cs_out (cs_emit ef s) = cs_out s @ [ef]"
  "cs_zcash_jobs (cs_emit ef s) = cs_zcash_jobs s"
  by (simp_all add: cs_emit_def cs_identity_def)

lemma cs_identity_update [simp]:
  "cs_identity (s\<lparr>cs_fault := f\<rparr>) = cs_identity s" "cs_identity (s\<lparr>cs_zcash_jobs := z\<rparr>) = cs_identity s"
  "cs_identity (s\<lparr>cs_last_difficulty := d\<rparr>) = cs_identity s" "cs_identity (s\<lparr>cs_last_difficulty_change_ts := n\<rparr>) = cs_identity s"
  "cs_identity (s\<lparr>cs_stat_diff := d\<rparr>) = cs_identity s" "cs_identity (s\<lparr>cs_out := out\<rparr>) = cs_identity s"
  by (simp_all add: cs_identity_def)

lemma emit_job_identity [simp]: "cs_identity (emit_job e job force s) = cs_identity s"
  by (simp add: emit_job_def cs_try_def cs_send_line_def split: sum.split option.split prod.split)

lemma set_difficulty_identity [simp]: "cs_identity (send_set_difficulty e d o' s) = cs_identity s"
  by (simp add: send_set_difficulty_def emit_latest_def cs_send_line_def Let_def split: option.split)

lemma floor_div_256: "\<lfloor>x / 256\<rfloor> = \<lfloor>x\<rfloor> div 256" for x :: rat
proof (rule floor_unique)
  let ?i = "\<lfloor>x\<rfloor>"
  have i: "of_int ?i \<le> x" "x < of_int ?i + 1"
    by linarith+
  have "256 * (?i div 256) \<le> ?i" "?i + 1 \<le> 256 * (?i div 256) + 256"
    by presburger+
  then have "of_int (256 * (?i div 256)) \<le> (of_int ?i :: rat)" "of_int (?i + 1) \<le> (of_int (256 * (?i div 256) + 256) :: rat)"
    by (simp_all only: of_int_le_iff)
  then have "256 * of_int (?i div 256) \<le> (of_int ?i :: rat)" "of_int ?i + 1 \<le> 256 * of_int (?i div 256) + (256 :: rat)"
    by simp_all
  with i show "of_int (?i div 256) \<le> x / 256" "x / 256 < of_int (?i div 256) + 1"
    by linarith+
qed

lemma target_digits_value:
  "0 \<le> x \<Longrightarrow> x < 256 ^ n \<Longrightarrow> le_val (target_digits n x) = nat \<lfloor>x\<rfloor>"
proof (induction n arbitrary: x)
  case 0
  then show ?case
    by (simp add: target_digits.simps)
next
  case (Suc n)
  let ?i = "\<lfloor>x\<rfloor>"
  have i: "0 \<le> ?i"
    using Suc.prems(1) by simp
  have "\<lfloor>x - 256 * of_int \<lfloor>x / 256\<rfloor>\<rfloor> = ?i - 256 * (?i div 256)"
    using floor_diff_of_int[of x "256 * (?i div 256)"] by (simp add: floor_div_256)
  then have d: "\<lfloor>x - 256 * of_int \<lfloor>x / 256\<rfloor>\<rfloor> = ?i mod 256"
    by (simp add: minus_mult_div_eq_mod)
  have b: "unat (of_int (?i mod 256) :: u8) = nat (?i mod 256)"
    using unat_of_nat_u8[of "nat (?i mod 256)"] by (simp add: nat_less_iff)
  have "x / 256 < 256 ^ n"
    using Suc.prems(2) by simp
  then have "of_int \<lfloor>x / 256\<rfloor> < (256 :: rat) ^ n"
    by (meson of_int_floor_le order_le_less_trans)
  then have IH: "le_val (target_digits n (of_int \<lfloor>x / 256\<rfloor>)) = nat (?i div 256)"
    using Suc.IH[of "of_int \<lfloor>x / 256\<rfloor>"] i by (simp add: floor_div_256 pos_imp_zdiv_nonneg_iff)
  have "nat (?i mod 256) + 256 * nat (?i div 256) = nat ?i"
    using i by (simp flip: nat_mult_distrib nat_add_distrib add: nat_mod_distrib nat_div_distrib)
  then show ?case
    by (simp add: target_digits.simps d IH b)
qed

lemma length_target_digits [simp, length_facts]: "length (target_digits n x) = n"
  by (induction n arbitrary: x) (simp_all add: target_digits.simps)

end
