(* ===== verification/Client_V1.thy ===== *)
theory Client_V1
  imports Client_Jobs
begin

text \<open>
  The Stratum V1 requests of \<open>src/client_session.cpp\<close>: configure, subscribe, authorize with the
  validation by the node, suggest_difficulty, extranonce.subscribe, submit.
\<close>

section \<open>Configure and subscribe\<close>

definition cs_id :: "'n cs_env \<Rightarrow> json \<Rightarrow> string" where
  "cs_id e msg = safe_id_json (ce_fmt_double e) msg"

definition pool_mask :: "'n cs_env \<Rightarrow> 'n cs \<Rightarrow> u32" where
  "pool_mask e s = (if enableVersionRolling (ce_coin e) then st_version_mask (cs_strat s) else 0)"

definition handle_configure :: "'n cs_env \<Rightarrow> json \<Rightarrow> 'n cs \<Rightarrow> 'n cs" where
  "handle_configure e msg s =
     (let params = (case params_of msg of Some ps \<Rightarrow> JArr ps | None \<Rightarrow> JArr []);
          neg = negotiate_configure params (pool_mask e s);
          s = s\<lparr>cs_version_rolling := cr_version_rolling neg \<and> cr_version_mask neg \<noteq> 0,
                cs_version_mask := cr_version_mask neg\<rparr>
      in cs_send_line (configure_line (cs_id e msg) True neg) s)"

definition looks_like_aggregator :: "string \<Rightarrow> bool" where
  "looks_like_aggregator ua \<longleftrightarrow> ua \<noteq> [] \<and> str_contains (map to_lower ua) ''nicehash''"

definition handle_subscribe :: "'n cs_env \<Rightarrow> json \<Rightarrow> 'n cs \<Rightarrow> 'n cs" where
  "handle_subscribe e msg s =
     (let s = (case first_string msg of Some ua \<Rightarrow> s\<lparr>cs_user_agent := take 256 ua\<rparr> | None \<Rightarrow> s)
      in if \<not> allowNiceHash (ce_tier e) \<and> looks_like_aggregator (cs_user_agent s) then
           cs_disconnect e
             (cs_send_line (error_line (cs_id e msg) 20 ''aggregator services must connect to a high-diff tier port'') s)
         else
           let s = s\<lparr>cs_extranonce2_size := (if chain (ce_coin e) = Zcash then 4 else 8)\<rparr>;
               s = cs_send_line (subscribe_line (cs_id e msg) (cs_session_id s) (cs_extranonce1 s) (cs_extranonce2_size s)) s;
               s = send_set_difficulty e (vd_current_diff (cs_vardiff s)) None (s\<lparr>cs_subscribed := True\<rparr>)
           in cs_then (\<lambda>s. if cs_version_rolling s \<and> cs_version_mask s \<noteq> 0
                           then cs_send_line (set_version_mask_line (cs_version_mask s)) s else s) s)"

section \<open>Authorize\<close>

definition auth_error_line :: "string \<Rightarrow> string \<Rightarrow> string" where
  "auth_error_line id_json text =
     jq ''{`id`:'' @ id_json @ jq '',`result`:false,`error`:'' @ quoted text @ ''}'' @ [CHR 10]"

fun addr_error_text :: "addr_error \<Rightarrow> string" where
  "addr_error_text Empty = ''empty''"
| "addr_error_text UnknownPrefix = ''unknown prefix''"
| "addr_error_text BadLength = ''bad length''"
| "addr_error_text BadChecksum = ''bad checksum''"
| "addr_error_text BadCharacter = ''bad character''"
| "addr_error_text UnsupportedVersion = ''unsupported version''"
| "addr_error_text UnsupportedNetwork = ''unsupported network''"
| "addr_error_text Internal = ''internal decoder error''"

text \<open>\<open>address.worker\<close>, cut at the first dot.\<close>

definition split_worker :: "string \<Rightarrow> string \<Rightarrow> string \<times> string" where
  "split_worker no_name full =
     (if CHR ''.'' \<in> set full
      then (takeWhile (\<lambda>c. c \<noteq> CHR ''.'') full, tl (dropWhile (\<lambda>c. c \<noteq> CHR ''.'') full))
      else (full, no_name))"

text \<open>\<open>std::string::find\<close>: the text from the first occurrence of \<open>w\<close>.\<close>

fun find_sub :: "string \<Rightarrow> string \<Rightarrow> nat option" where
  "find_sub w [] = (if w = [] then Some 0 else None)"
| "find_sub w (c # s) = (if prefix w (c # s) then Some 0 else map_option Suc (find_sub w s))"

definition is_dec :: "char \<Rightarrow> bool" where
  "is_dec c \<longleftrightarrow> 48 \<le> (of_char c :: nat) \<and> (of_char c :: nat) \<le> 57"

definition dec_val :: "string \<Rightarrow> nat" where
  "dec_val ds = fold (\<lambda>c n. 10 * n + (of_char c - 48)) ds 0"

text \<open>\<open>std::stod\<close> on digits, dots and unit letters; \<open>None\<close> is an exception: no number, or one outside the
  range of the normal doubles.\<close>

definition stod_dec :: "string \<Rightarrow> rat option" where
  "stod_dec s =
     (let ip = takeWhile is_dec s; rest = dropWhile is_dec s;
          fp = (case rest of c # r \<Rightarrow> if c = CHR ''.'' then takeWhile is_dec r else [] | [] \<Rightarrow> []);
          v = of_nat (dec_val (ip @ fp)) / 10 ^ length fp
      in if ip = [] \<and> fp = [] then None
         else if dbl v \<ge> 2 ^ 1024 \<or> 0 < v \<and> v < 1 / 2 ^ 1022 then None
         else Some (dbl v))"

definition unit_of :: "string \<Rightarrow> rat \<times> string" where
  "unit_of num =
     (if last num = CHR ''k'' then (1000, butlast num)
      else if last num = CHR ''m'' then (1000000, butlast num)
      else if last num = CHR ''g'' then (1000000000, butlast num)
      else if last num = CHR ''t'' then (1000000000000, butlast num)
      else (1, num))"

definition clamp_custom :: "chain_kind \<Rightarrow> rat \<Rightarrow> rat" where
  "clamp_custom k val =
     (if k = Zcash then dbl (clamp val 8192 524288 / 8192)
      else if k = Litecoin \<or> k = Dogecoin then clamp val 1024 10000000
      else clamp val 1024 1000000)"

text \<open>The difficulty a password asks for with \<open>diff=\<close> or \<open>d=\<close>.\<close>

definition custom_diff_of :: "chain_kind \<Rightarrow> string \<Rightarrow> rat option" where
  "custom_diff_of k password =
     (let pwd = map to_lower password;
          from = (case find_sub ''diff='' pwd of
                    Some i \<Rightarrow> Some (drop (i + 5) pwd)
                  | None \<Rightarrow> map_option (\<lambda>i. drop (i + 2) pwd) (find_sub ''d='' pwd))
      in case from of
           None \<Rightarrow> None
         | Some t \<Rightarrow>
             let num = takeWhile (\<lambda>c. is_dec c \<or> c \<in> set ''.kmgt'') t
             in if num = [] then None
                else let (mult, num) = unit_of num
                     in case stod_dec num of
                          None \<Rightarrow> None
                        | Some v \<Rightarrow>
                            let val = dbl (v * mult)
                            in if val < 2 ^ 1024 \<and> val > 0 then Some (clamp_custom k val) else None)"

definition doge_address_of :: "string \<Rightarrow> string" where
  "doge_address_of password =
     (case find_sub ''doge='' (map to_lower password) of
        None \<Rightarrow> []
      | Some i \<Rightarrow>
          takeWhile (\<lambda>c. c \<notin> {CHR '','', CHR '';'', CHR 9, CHR '' ''})
            (dropWhile (\<lambda>c. c = CHR '' '' \<or> c = CHR 9) (drop (i + 5) password)))"

definition second_string :: "json \<Rightarrow> string option" where
  "second_string msg =
     (case params_of msg of Some (_ # JStr s # _) \<Rightarrow> Some s | _ \<Rightarrow> None)"

text \<open>Whether the blacklist refuses the name, and how.\<close>

definition auth_blocked :: "blacklist \<Rightarrow> string \<Rightarrow> string \<Rightarrow> string option" where
  "auth_blocked bl addr worker =
     (if bl_address_blocked addr bl then Some ''address not allowed''
      else if bl_worker_is_free worker then
        (if \<not> bl_free_granted addr bl then Some ''worker name is reserved'' else None)
      else if bl_worker_blocked worker bl then Some ''worker name not allowed''
      else None)"

text \<open>The request checked locally: a refusal, or what the node is asked about.\<close>

definition auth_checks :: "'n cs_env \<Rightarrow> json \<Rightarrow> string + auth_request" where
  "auth_checks e msg =
     (case first_string msg of
        None \<Rightarrow> Inl ''missing worker name''
      | Some full \<Rightarrow>
          let (addr, worker) = split_worker ''0'' full
          in if length addr > 128 \<or> length worker > 64 then Inl ''name too long''
             else case decode (ce_sha256 e) addr of
               Inl err \<Rightarrow> Inl (''invalid address: '' @ json_escape_id (addr_error_text err))
             | Inr d \<Rightarrow>
                 (case auth_blocked (ce_blacklist e) addr worker of
                    Some t \<Rightarrow> Inl t
                  | None \<Rightarrow>
                      let pw = second_string msg
                      in Inr \<lparr>ar_id = cs_id e msg, ar_addr = addr, ar_worker = worker, ar_decoded = d,
                              ar_custom_diff = (if vardiffEnabled (ce_tier e)
                                                then Option.bind pw (custom_diff_of (chain (ce_coin e))) else None),
                              ar_doge = (case pw of Some p \<Rightarrow> doge_address_of p | None \<Rightarrow> [])\<rparr>))"

definition handle_authorize :: "'n cs_env \<Rightarrow> json \<Rightarrow> 'n cs \<Rightarrow> 'n cs" where
  "handle_authorize e msg s =
     (case auth_checks e msg of
        Inl text \<Rightarrow> cs_send_line (auth_error_line (cs_id e msg) text) s
      | Inr req \<Rightarrow> cs_emit (Cs_Validate req) s)"

definition payout_script :: "'n cs_env \<Rightarrow> auth_request \<Rightarrow> hex" where
  "payout_script e req =
     (if chain (ce_coin e) = Zcash then bytes_to_hex (taddr_to_script (ce_sha256 e) (ar_addr req))
      else script_pubkey_hex (ar_decoded req))"

definition proceed_auth :: "'n cs_env \<Rightarrow> auth_request \<Rightarrow> 'n cs \<Rightarrow> 'n cs" where
  "proceed_auth e req s =
     (let s = s\<lparr>cs_worker_address := ar_addr req, cs_worker_name := ar_worker req,
                cs_worker_script_hex := payout_script e req\<rparr>;
          s = (case ar_custom_diff req of
                 None \<Rightarrow> s
               | Some d \<Rightarrow>
                   send_set_difficulty e d None
                     (s\<lparr>cs_custom_difficulty := d, cs_has_custom_difficulty := True, cs_vardiff := vd_set_current d (cs_vardiff s)\<rparr>))
      in cs_then (\<lambda>s.
           let s = cs_send_line (ok_line (ar_id req)) s;
               s = s\<lparr>cs_miner_id := ce_ensure_miner e (cs_worker_address s) (cs_worker_name s) (ce_ip e)\<rparr>;
               s = cs_emit (Cs_Presence (cs_worker_address s) (cs_worker_name s) True) s
           in emit_latest e False (s\<lparr>cs_authorized := True\<rparr>)) s)"

text \<open>The node's answer about the miner's address: an error message or whether it is valid.\<close>

definition address_validated :: "'n cs_env \<Rightarrow> auth_request \<Rightarrow> string + bool \<Rightarrow> 'n cs \<Rightarrow> 'n cs" where
  "address_validated e req answer s =
     (if cs_closed s then s
      else if answer \<noteq> Inr True then
        let text = (case answer of Inl m \<Rightarrow> m | Inr _ \<Rightarrow> ''node rejected address as invalid or unsupported'')
        in cs_send_line (auth_error_line (ar_id req) (''invalid address: '' @ json_escape_id text)) s
      else if ar_doge req \<noteq> [] \<and> ce_aux_client e then cs_emit (Cs_Validate_Doge req) s
      else
        let s = (if ce_aux_client e \<and> ce_aux_payout e \<noteq> [] then
                   (case decode (ce_sha256 e) (ce_aux_payout e) of
                      Inr d \<Rightarrow> s\<lparr>cs_aux_doge_address := ce_aux_payout e, cs_doge_script_hex := script_pubkey_hex d\<rparr>
                    | Inl _ \<Rightarrow> s)
                 else s)
        in proceed_auth e req s)"

definition doge_validated :: "'n cs_env \<Rightarrow> auth_request \<Rightarrow> string + bool \<Rightarrow> 'n cs \<Rightarrow> 'n cs" where
  "doge_validated e req answer s =
     (if cs_closed s then s
      else if answer \<noteq> Inr True then cs_send_line (auth_error_line (ar_id req) ''invalid Dogecoin address'') s
      else
        let s = s\<lparr>cs_aux_doge_address := ar_doge req\<rparr>;
            s = (case decode (ce_sha256 e) (ar_doge req) of Inr d \<Rightarrow> s\<lparr>cs_doge_script_hex := script_pubkey_hex d\<rparr> | Inl _ \<Rightarrow> s)
        in proceed_auth e req s)"

section \<open>suggest_difficulty\<close>

definition handle_suggest_difficulty :: "'n cs_env \<Rightarrow> json \<Rightarrow> 'n cs \<Rightarrow> 'n cs" where
  "handle_suggest_difficulty e msg s =
     (let s = (case params_of msg of
                 Some (v # _) \<Rightarrow>
                   if vardiffEnabled (ce_tier e) \<and> is_number v then
                     cs_try (throwing (get_double v)) (\<lambda>d.
                       send_set_difficulty e (clamp d (vardiffMin (ce_tier e)) (vardiffMax (ce_tier e))) None) s
                   else s
               | _ \<Rightarrow> s)
      in cs_then (cs_send_line (ok_line (cs_id e msg))) s)"

section \<open>Submit\<close>

record share_request =
  sr_worker :: string
  sr_job_id :: string
  sr_nonce2 :: hex
  sr_ntime :: hex
  sr_nonce :: hex
  sr_solution :: hex
  sr_version_bits :: "u32 option"

definition cs_reject :: "'n cs_env \<Rightarrow> json \<Rightarrow> string \<Rightarrow> nat \<Rightarrow> 'n cs \<Rightarrow> 'n cs" where
  "cs_reject e msg reason code s =
     (let s = cs_send_line (error_line (cs_id e msg) code reason) s;
          s = s\<lparr>cs_shares_rejected := cs_shares_rejected s + 1\<rparr>
      in case cs_rl s of
           None \<Rightarrow> s
         | Some rl \<Rightarrow>
             let (ban, rl) = record_invalid_share (ce_ip e) (ce_now e) rl; s = s\<lparr>cs_rl := Some rl\<rparr>
             in if ban then cs_disconnect e s else s)"

text \<open>A Zcash submit: the nonce is completed to 32 bytes, the solution freed of its length prefix.\<close>

definition read_zcash_submit :: "hex \<Rightarrow> json list \<Rightarrow> string + share_request" where
  "read_zcash_submit en1 ps =
     (case ps of
        JStr worker # JStr job_id # JStr ntime # JStr nonce2 # JStr solution # _ \<Rightarrow>
          let nonce = en1 @ nonce2; nonce = nonce @ replicate (64 - length nonce) (CHR ''0'');
              sol = (if length solution = 2694 then drop 6 solution else solution)
          in if \<not> valid_hex ntime \<or> length ntime \<noteq> 8 then Inl ''invalid time hex''
             else if \<not> valid_hex nonce2 then Inl ''invalid nonce hex''
             else if length nonce \<noteq> 64 then Inl ''bad Zcash nonce size''
             else if \<not> valid_hex solution then Inl ''bad Zcash solution hex''
             else if length sol \<noteq> 2688 then Inl ''bad Zcash solution size''
             else Inr \<lparr>sr_worker = worker, sr_job_id = job_id, sr_nonce2 = [], sr_ntime = ntime, sr_nonce = nonce,
                       sr_solution = sol, sr_version_bits = None\<rparr>
      | _ \<Rightarrow> Inl ''bad params types'')"

definition read_submit :: "nat \<Rightarrow> json list \<Rightarrow> string + share_request" where
  "read_submit en2_size ps =
     (case ps of
        JStr worker # JStr job_id # JStr nonce2 # JStr ntime # JStr nonce # _ \<Rightarrow>
          if \<not> valid_hex nonce2 \<or> \<not> valid_hex ntime \<or> \<not> valid_hex nonce \<or> length ntime \<noteq> 8 then Inl ''invalid hex''
          else if length nonce \<noteq> 8 then Inl ''bad nonce size''
          else if length nonce2 \<noteq> en2_size * 2 then Inl ''bad extranonce2 size''
          else Inr \<lparr>sr_worker = worker, sr_job_id = job_id, sr_nonce2 = nonce2, sr_ntime = ntime, sr_nonce = nonce,
                    sr_solution = [], sr_version_bits = version_bits_param ps\<rparr>
      | _ \<Rightarrow> Inl ''bad params types'')"

record checked_share =
  ck_req :: share_request
  ck_job :: mining_job
  ck_version :: u32
  ck_stale :: bool

text \<open>The checks before the header is hashed; a refusal is its reason and code.\<close>

definition submit_checks :: "'n cs_env \<Rightarrow> json \<Rightarrow> 'n cs \<Rightarrow> string \<times> nat + checked_share" where
  "submit_checks e msg s =
     (if \<not> cs_authorized s then Inl (''not authorized'', 24)
      else case params_of msg of
        None \<Rightarrow> Inl (''bad params'', 20)
      | Some ps \<Rightarrow>
        if length ps < 5 then Inl (''bad params'', 20)
        else case (if chain (ce_coin e) = Zcash then read_zcash_submit (cs_extranonce1 s) ps
                   else read_submit (cs_extranonce2_size s) ps) of
          Inl t \<Rightarrow> Inl (t, 20)
        | Inr r \<Rightarrow>
          if split_worker ''0'' (sr_worker r) \<noteq> (cs_worker_address s, cs_worker_name s) then Inl (''address/worker mismatch'', 20)
          else case find_job (sr_job_id r) (cs_strat s) of
            None \<Rightarrow> Inl (''job not found'', 21)
          | Some job \<Rightarrow>
            let prev = current_prevhash (cs_strat s);
                stale = (prev \<noteq> [] \<and> mj_previousblockhash job \<noteq> prev);
                r = (if chain (ce_coin e) = Zcash then r\<lparr>sr_ntime := byte_reverse_hex (sr_ntime r)\<rparr> else r)
            in case parse_hex8_u32 (sr_ntime r) of
                 None \<Rightarrow> Inl (''bad ntime'', 20)
               | Some ntime \<Rightarrow>
                 if \<not> valid_ntime ntime (mj_mintime job) (ce_now_unix e) 7200 then Inl (''ntime out of range'', 20)
                 else
                   let m = (if cs_version_mask s = 0 \<and> enableVersionRolling (ce_coin e)
                            then st_version_mask (cs_strat s) else cs_version_mask s)
                   in if sr_version_bits r \<noteq> None \<and> m = 0 then Inl (''version-rolling not negotiated'', 20)
                      else Inr \<lparr>ck_req = r, ck_job = job, ck_version = rolled_version (mj_version job) m (sr_version_bits r),
                                ck_stale = stale\<rparr>)"

text \<open>The coinbase the session rebuilds for a Bitcoin-family share: the one of the notify line, with the
  session's commitment where it announced one.\<close>

definition active_coinbase1 :: "mining_job \<Rightarrow> string \<Rightarrow> 'n cs \<Rightarrow> hex" where
  "active_coinbase1 job job_id s =
     (case (if cs_aux_doge_address s \<noteq> [] then cs_session_aux_jobs s job_id else None) of
        Some aux \<Rightarrow> splice_aux_commit (mj_coinbase1 job) (sa_aux_commit aux)
      | None \<Rightarrow> mj_coinbase1 job)"

definition session_coinbase :: "'n cs_env \<Rightarrow> checked_share \<Rightarrow> 'n cs \<Rightarrow> hex" where
  "session_coinbase e c s =
     rebuild_coinbase (active_coinbase1 (ck_job c) (sr_job_id (ck_req c)) s) (cs_coinbase2 e (ck_job c) s)
       (cs_extranonce1 s @ sr_nonce2 (ck_req c))"

definition zcash_share_header :: "checked_share \<Rightarrow> hex \<Rightarrow> hex" where
  "zcash_share_header c mr =
     (let job = ck_job c; reserved = (if mj_reserved job = [] then zeros64 else mj_reserved job)
      in le_hex_u32 (ck_version c) @ byte_reverse_hex (mj_previousblockhash job) @ mr @ byte_reverse_hex reserved
         @ byte_reverse_hex (sr_ntime (ck_req c)) @ byte_reverse_hex (mj_bits job) @ sr_nonce (ck_req c))"

text \<open>The coinbase and the header of the share.\<close>

definition share_work :: "'n cs_env \<Rightarrow> checked_share \<Rightarrow> 'n cs \<Rightarrow> (hex \<times> hex) res" where
  "share_work e c s =
     (let job = ck_job c; r = ck_req c
      in if chain (ce_coin e) = Zcash then
           let (cb, mr) = (case cs_zcash_jobs s (sr_job_id r) of
                             Some w \<Rightarrow> w
                           | None \<Rightarrow> (mj_zcash_full_coinbase_hex job, mj_zcash_merkle_root_le job))
           in Inr (cb, zcash_share_header c mr)
         else
           let cb = session_coinbase e c s
           in bindE (share_header (ce_sha256 e) (ck_version c) (byte_reverse_hex (mj_previousblockhash job)) cb
                       (mj_merkle_branch_le job) (sr_ntime r) (mj_bits job) (sr_nonce r)) (\<lambda>h. Inr (cb, h)))"

text \<open>The hash of the header, big-endian; \<open>None\<close> is an invalid Equihash solution.\<close>

definition share_hash :: "'n cs_env \<Rightarrow> checked_share \<Rightarrow> bytes \<Rightarrow> bytes option res" where
  "share_hash e c header =
     (if chain (ce_coin e) = Zcash then
        bindE (hex_to_bytes (sr_solution (ck_req c))) (\<lambda>sol.
          Inr (if verify_200_9 (ce_blake2b e) header sol
               then Some (rev (sha256d (ce_sha256 e) (header @ [0xfd, 0x40, 0x05] @ sol))) else None))
      else Inr (Some (pow_hash_be (ce_sha256 e) (ce_scrypt e) (chain (ce_coin e)) header)))"

definition tolerance :: "chain_kind \<Rightarrow> rat" where
  "tolerance k = (if k = Zcash then dbl (90 / 100) else dbl (99 / 100))"

text \<open>The difficulty a share is held to: the session's, or the previous one within 40 seconds of a change.\<close>

definition share_target :: "'n cs_env \<Rightarrow> rat \<Rightarrow> 'n cs \<Rightarrow> rat" where
  "share_target e share_diff s =
     (let target = vd_current_diff (cs_vardiff s)
      in if share_diff < target \<and> grace_age e s < 40
            \<and> share_diff \<ge> dbl (cs_last_difficulty s * tolerance (chain (ce_coin e)))
         then cs_last_difficulty s else target)"

text \<open>A share of a superseded block: a solve is submitted, the share refused.\<close>

definition stale_share ::
  "'n cs_env \<Rightarrow> json \<Rightarrow> checked_share \<Rightarrow> hex \<Rightarrow> hex \<Rightarrow> bytes \<Rightarrow> bool \<Rightarrow> rat \<Rightarrow> 'n cs \<Rightarrow> 'n cs" where
  "stale_share e msg c cb header_hex hash_be meets_network share_diff s =
     (let r = ck_req c;
          (first, s) = cs_register_share (bytes_to_hex hash_be) s;
          s = (if first then
                 cs_then (maybe_submit_aux_block e (ck_job c) (sr_job_id r) header_hex cb hash_be share_diff)
                   (if meets_network
                    then submit_block_candidate e (ck_job c) header_hex cb (sr_solution r) hash_be share_diff s else s)
               else s)
      in cs_then (\<lambda>s.
           let s = cs_send_line (error_line (cs_id e msg) 21 ''stale share - job for previous block'') s
           in s\<lparr>cs_shares_rejected := cs_shares_rejected s + 1\<rparr>) s)"

definition vardiff_tick :: "'n cs_env \<Rightarrow> rat \<Rightarrow> bytes \<Rightarrow> 'n cs \<Rightarrow> 'n cs" where
  "vardiff_tick e target_diff net_target s =
     (if vardiffEnabled (ce_tier e) \<and> \<not> cs_has_custom_difficulty s then
        let old_diff = vd_current_diff (cs_vardiff s);
            (nd, vd) = vd_on_share (ce_exp e) (ce_now e) target_diff (share_difficulty (chain (ce_coin e)) net_target) (cs_vardiff s);
            s = s\<lparr>cs_vardiff := vd\<rparr>
        in case nd of Some d \<Rightarrow> send_set_difficulty e d (Some old_diff) s | None \<Rightarrow> s
      else s)"

definition persist_share ::
  "checked_share \<Rightarrow> hex \<Rightarrow> rat \<Rightarrow> rat \<Rightarrow> bool \<Rightarrow> 'n cs \<Rightarrow> 'n cs" where
  "persist_share c hash_hex share_diff target_diff meets_network s =
     (if cs_miner_id s > 0 then
        cs_emit (Cs_Best_Share (cs_miner_id s) share_diff hash_hex)
          (cs_emit (Cs_Share
            \<lparr>shr_miner_id = cs_miner_id s, shr_job_id = sr_job_id (ck_req c), shr_nonce = sr_nonce (ck_req c),
             shr_extranonce1 = cs_extranonce1 s, shr_extranonce2 = sr_nonce2 (ck_req c), shr_hash = hash_hex,
             shr_difficulty = target_diff, shr_is_block = meets_network\<rparr>) s)
      else s)"

text \<open>A share that is neither stale, too easy nor a duplicate.\<close>

definition accept_share ::
  "'n cs_env \<Rightarrow> json \<Rightarrow> checked_share \<Rightarrow> hex \<Rightarrow> hex \<Rightarrow> bytes \<Rightarrow> bytes \<Rightarrow> bool \<Rightarrow> rat \<Rightarrow> rat \<Rightarrow> 'n cs \<Rightarrow> 'n cs" where
  "accept_share e msg c cb header_hex hash_be net_target meets_network share_diff target_diff s =
     (let r = ck_req c;
          s = cs_send_line (ok_line (cs_id e msg)) s;
          s = note_accepted_share e share_diff (s\<lparr>cs_shares_accepted := cs_shares_accepted s + 1\<rparr>);
          s = vardiff_tick e target_diff net_target (s\<lparr>cs_rl := map_option (clear_invalid (ce_ip e)) (cs_rl s)\<rparr>)
      in cs_then (\<lambda>s. if meets_network
                      then submit_block_candidate e (ck_job c) header_hex cb (sr_solution r) hash_be share_diff s else s)
           (cs_then (maybe_submit_aux_block e (ck_job c) (sr_job_id r) header_hex cb hash_be share_diff)
             (cs_then (persist_share c (bytes_to_hex hash_be) share_diff target_diff meets_network) s)))"

text \<open>A hashed share.\<close>

definition share_verdict ::
  "'n cs_env \<Rightarrow> json \<Rightarrow> checked_share \<Rightarrow> hex \<Rightarrow> hex \<Rightarrow> bytes \<Rightarrow> bytes \<Rightarrow> 'n cs \<Rightarrow> 'n cs" where
  "share_verdict e msg c cb header_hex hash_be net_target s =
     (let meets_network = meets_target hash_be net_target;
          share_diff = share_difficulty (chain (ce_coin e)) hash_be
      in if ck_stale c then stale_share e msg c cb header_hex hash_be meets_network share_diff s
         else
           let target_diff = share_target e share_diff s
           in if share_diff < dbl (target_diff * tolerance (chain (ce_coin e))) then
                cs_then (cs_reject e msg ''low difficulty share'' 23)
                  (if meets_network
                   then submit_block_candidate e (ck_job c) header_hex cb (sr_solution (ck_req c)) hash_be share_diff s else s)
              else
                let (first, s) = cs_register_share (bytes_to_hex hash_be) s
                in if \<not> first then
                     (cs_send_line (error_line (cs_id e msg) 22 ''duplicate share'') s)
                       \<lparr>cs_shares_rejected := cs_shares_rejected s + 1\<rparr>
                   else accept_share e msg c cb header_hex hash_be net_target meets_network share_diff target_diff s)"

definition handle_submit :: "'n cs_env \<Rightarrow> json \<Rightarrow> 'n cs \<Rightarrow> 'n cs" where
  "handle_submit e msg s =
     (case submit_checks e msg s of
        Inl (reason, code) \<Rightarrow> cs_reject e msg reason code s
      | Inr c \<Rightarrow>
          cs_try (throwing (share_work e c s)) (\<lambda>(cb, header_hex).
          cs_try (throwing (hex_to_bytes header_hex)) (\<lambda>header.
          cs_try (throwing (share_hash e c header)) (\<lambda>h.
            case h of
              None \<Rightarrow> cs_reject e msg ''invalid equihash solution'' 20
            | Some hash_be \<Rightarrow>
                cs_try (throwing (target_from_bits_hex (mj_bits (ck_job c)))) (\<lambda>net_target.
                  share_verdict e msg c cb header_hex hash_be net_target)))) s)"

section \<open>Lines\<close>

definition safe_method :: "string \<Rightarrow> string" where
  "safe_method m =
     map (\<lambda>c. if c = CHR 0x22 \<or> c = CHR 0x5C \<or> (of_char c :: nat) < 32 then CHR ''?'' else c) m"

definition dispatch :: "'n cs_env \<Rightarrow> string \<Rightarrow> json \<Rightarrow> 'n cs \<Rightarrow> 'n cs" where
  "dispatch e method msg s =
     (if method = ''mining.configure'' then handle_configure e msg s
      else if method = ''mining.subscribe'' then handle_subscribe e msg s
      else if method = ''mining.authorize'' then handle_authorize e msg s
      else if method = ''mining.submit'' then handle_submit e msg s
      else if method = ''mining.suggest_difficulty'' then handle_suggest_difficulty e msg s
      else if method = ''mining.extranonce.subscribe'' then
        emit_latest e True (cs_send_line (ok_line (cs_id e msg)) (s\<lparr>cs_extranonce_subscribed := True\<rparr>))
      else cs_send_line (error_line (cs_id e msg) 20 (''Unknown method: '' @ safe_method method)) s)"

text \<open>The handler's exceptions are answered; undefined behaviour is not caught.\<close>

definition process_line :: "'n cs_env \<Rightarrow> json option \<Rightarrow> 'n cs \<Rightarrow> 'n cs" where
  "process_line e line s =
     (case line of
        None \<Rightarrow> cs_send_line (error_line ''null'' 20 ''JSON parse error'') s
      | Some msg \<Rightarrow>
          (case method_of msg of
             None \<Rightarrow> cs_send_line (error_line ''null'' 20 ''missing method'') s
           | Some method \<Rightarrow>
               let t = dispatch e method msg s
               in case cs_fault t of
                    Some (Throws _) \<Rightarrow>
                      cs_send_line (error_line (cs_id e msg) 20 ''malformed request'') (t\<lparr>cs_fault := None\<rparr>)
                  | _ \<Rightarrow> t))"

end
