(* ===== verification/Client_V2.thy ===== *)
theory Client_V2
  imports Client_Jobs Sv2_Upstream
begin

text \<open>
  The Stratum V2 side of \<open>src/client_session.cpp\<close>: frames in and out, channels, jobs, standard and
  extended submits, custom jobs. The receive buffer and the header awaiting its payload are a
  \<open>v2_rx\<close> beside the session. The Noise transport is the pair of operations \<open>ce_encrypt\<close>, \<open>ce_decrypt\<close> on
  the session's \<open>cs_noise\<close>.
\<close>

section \<open>Sending\<close>

definition send_v2_message :: "'n cs_env \<Rightarrow> u8 \<Rightarrow> writer \<Rightarrow> 'n cs \<Rightarrow> 'n cs" where
  "send_v2_message e msg_type w s =
     (if cs_closed s then s
      else
        let frame = wrap_message EXT_COMMON msg_type w
        in if \<not> cs_is_v2_encrypted s then cs_emit (Cs_Frame frame) s
           else case ce_encrypt e (cs_noise s) (take 6 frame) of
             None \<Rightarrow> cs_disconnect e s
           | Some (c, n) \<Rightarrow>
               let s = s\<lparr>cs_noise := n\<rparr>
               in if length frame > 6 then
                    (case ce_encrypt e n (drop 6 frame) of
                       None \<Rightarrow> cs_disconnect e s
                     | Some (d, n) \<Rightarrow> cs_emit (Cs_Frame (c @ d)) (s\<lparr>cs_noise := n\<rparr>))
                  else cs_emit (Cs_Frame (c @ replicate 16 0)) s)"

definition send_v2_error :: "'n cs_env \<Rightarrow> string \<Rightarrow> 'n cs \<Rightarrow> 'n cs" where
  "send_v2_error e err =
     send_v2_message e MSG_SETUP_CONNECTION_ERROR
       (SetupConnectionError_serialize \<lparr>sce_error_code = ascii err, sce_flags = 0\<rparr> [])"

definition send_v2_open_channel_error :: "'n cs_env \<Rightarrow> u32 \<Rightarrow> string \<Rightarrow> 'n cs \<Rightarrow> 'n cs" where
  "send_v2_open_channel_error e request_id err =
     send_v2_message e MSG_OPEN_MINING_CHANNEL_ERROR
       (OpenMiningChannelError_serialize \<lparr>oce_request_id = request_id, oce_error_code = ascii err\<rparr> [])"

section \<open>Targets\<close>

definition diff_to_target_bytes :: "rat \<Rightarrow> bytes" where
  "diff_to_target_bytes diff =
     target_digits 32 (if diff > 0 then dbl (max_target Bitcoin / diff) else max_target Bitcoin)"

definition send_set_target :: "'n cs_env \<Rightarrow> rat \<Rightarrow> rat option \<Rightarrow> 'n cs \<Rightarrow> 'n cs" where
  "send_set_target e d old_diff s =
     (let s = s\<lparr>cs_last_difficulty := (case old_diff of Some o' \<Rightarrow> o' | None \<Rightarrow> d),
                cs_last_difficulty_change_ts := ce_now e, cs_stat_diff := round_away d\<rparr>
      in send_v2_message e MSG_SET_TARGET
           (SetTarget_serialize \<lparr>st_channel_id = cs_channel_id s, st_maximum_target = diff_to_target_bytes d\<rparr> []) s)"

section \<open>Jobs\<close>

definition v2_job_id :: "mining_job \<Rightarrow> u32" where
  "v2_job_id job =
     (if length (mj_job_id job) \<ge> 8
      then (case parse_hex_any_u32 (take 8 (mj_job_id job)) of Some v \<Rightarrow> v | None \<Rightarrow> 0) else 0)"

definition empty_block_job :: "mining_job \<Rightarrow> mining_job" where
  "empty_block_job job =
     job\<lparr>mj_coinbase_value := mj_coinbase_value job - mj_total_fees job, mj_segwit_active := False, mj_witness_commitment := []\<rparr>"

text \<open>The coinbase and the merkle root of a standard channel's job.\<close>

definition standard_work :: "'n cs_env \<Rightarrow> mining_job \<Rightarrow> 'n cs \<Rightarrow> (hex \<times> hex) res" where
  "standard_work e job s =
     (let cb2 = cs_coinbase2 e (if ce_empty_blocks e then empty_block_job job else job) s;
          cb = rebuild_coinbase (mj_coinbase1 job) cb2 (cs_extranonce1 s @ ''0000000000000000'')
      in bindE (compute_coinbase_txid_le (ce_sha256 e) cb) (\<lambda>txid.
           if ce_empty_blocks e then Inr (cb, txid)
           else bindE (compute_root_le_hex (sha256d (ce_sha256 e)) txid (mj_merkle_branch_le job)) (\<lambda>mr. Inr (cb, mr))))"

text \<open>The coinbase and the merkle root of an extended channel's share.\<close>

definition extended_work :: "'n cs_env \<Rightarrow> mining_job \<Rightarrow> bytes \<Rightarrow> 'n cs \<Rightarrow> (hex \<times> hex) res" where
  "extended_work e job extranonce s =
     (let cb = rebuild_coinbase (mj_coinbase1 job) (cs_coinbase2 e job s) (cs_extranonce1 s @ bytes_to_hex extranonce)
      in bindE (compute_coinbase_txid_le (ce_sha256 e) cb) (\<lambda>txid.
         bindE (compute_root_le_hex (sha256d (ce_sha256 e)) txid (mj_merkle_branch_le job)) (\<lambda>mr. Inr (cb, mr))))"

definition fixed32 :: "bytes \<Rightarrow> bytes" where
  "fixed32 b = (if length b = 32 then b else replicate 32 0)"

definition job_nbits :: "mining_job \<Rightarrow> u32" where
  "job_nbits job =
     (case hex_to_bytes (mj_bits job) of
        Inr [a, b, c, d] \<Rightarrow> push_bit 24 (ucast a) OR push_bit 16 (ucast b) OR push_bit 8 (ucast c) OR ucast d
      | _ \<Rightarrow> 0)"

definition emit_prev_hash_v2 :: "'n cs_env \<Rightarrow> mining_job \<Rightarrow> 'n cs \<Rightarrow> 'n cs" where
  "emit_prev_hash_v2 e job =
     cs_try (throwing (hex_to_bytes (byte_reverse_hex (mj_previousblockhash job)))) (\<lambda>ph s.
       send_v2_message e MSG_SET_NEW_PREV_HASH
         (SetNewPrevHash_serialize \<lparr>ph_channel_id = cs_channel_id s, ph_job_id = v2_job_id job, ph_prev_hash = fixed32 ph,
            ph_min_ntime = mj_mintime job, ph_nbits = job_nbits job\<rparr> []) s)"

definition emit_extended_job :: "'n cs_env \<Rightarrow> mining_job \<Rightarrow> 'n cs \<Rightarrow> 'n cs" where
  "emit_extended_job e job s =
     cs_try (throwing (traverseE hex_to_bytes (mj_merkle_branch_le job))) (\<lambda>branch.
     cs_try (throwing (hex_to_bytes (mj_coinbase1 job))) (\<lambda>cb1.
     cs_try (throwing (hex_to_bytes (cs_coinbase2 e job s))) (\<lambda>cb2 s.
       send_v2_message e MSG_NEW_EXTENDED_MINING_JOB
         (NewExtendedMiningJob_serialize
            \<lparr>nej_channel_id = cs_channel_id s, nej_job_id = v2_job_id job, nej_min_ntime = None, nej_version = mj_version job,
             nej_version_rolling_allowed = True, nej_merkle_path = List.filter (\<lambda>h. length h = 32) branch,
             nej_coinbase_tx_prefix = cb1, nej_coinbase_tx_suffix = cb2\<rparr> []) s))) s"

definition emit_standard_job :: "'n cs_env \<Rightarrow> mining_job \<Rightarrow> 'n cs \<Rightarrow> 'n cs" where
  "emit_standard_job e job s =
     cs_try (throwing (standard_work e job s)) (\<lambda>(cb, root_hex).
     cs_try (throwing (hex_to_bytes root_hex)) (\<lambda>mr s.
       send_v2_message e MSG_NEW_MINING_JOB
         (NewMiningJob_serialize \<lparr>nmj_channel_id = cs_channel_id s, nmj_job_id = v2_job_id job, nmj_min_ntime = None,
            nmj_version = mj_version job, nmj_merkle_root = fixed32 mr\<rparr> []) s)) s"

definition emit_job_v2 :: "'n cs_env \<Rightarrow> mining_job \<Rightarrow> 'n cs \<Rightarrow> 'n cs" where
  "emit_job_v2 e job s =
     cs_then (emit_prev_hash_v2 e job)
       (if cs_is_extended_channel s then emit_extended_job e job s else emit_standard_job e job s)"

definition emit_latest_v2 :: "'n cs_env \<Rightarrow> 'n cs \<Rightarrow> 'n cs" where
  "emit_latest_v2 e s = (case latest_job (cs_strat s) of Some j \<Rightarrow> emit_job_v2 e j s | None \<Rightarrow> s)"

section \<open>Submits\<close>

definition submit_block_sv2 ::
  "'n cs_env \<Rightarrow> mining_job option \<Rightarrow> hex \<Rightarrow> hex \<Rightarrow> bytes \<Rightarrow> rat \<Rightarrow> bool \<Rightarrow> 'n cs \<Rightarrow> 'n cs" where
  "submit_block_sv2 e job header_hex cb_hex hash_be share_diff empty_block =
     cs_try (throwing (case job of Some j \<Rightarrow> rtt_withheld e j hash_be | None \<Rightarrow> Inr False)) (\<lambda>withheld s.
       if withheld then s
       else
         let cb = (case job of
                     Some j \<Rightarrow> if \<not> empty_block \<and> mj_segwit_active j then segwitify_coinbase cb_hex else cb_hex
                   | None \<Rightarrow> cb_hex);
             txs = (case job of Some j \<Rightarrow> if empty_block then [] else mj_tx_hexes j | None \<Rightarrow> []);
             block = assemble_full_block header_hex cb txs
               @ (case job of Some j \<Rightarrow> if mj_mweb j \<noteq> [] then ''01'' @ mj_mweb j else [] | None \<Rightarrow> [])
         in cs_emit (Cs_Block block
              \<lparr>blr_height = (case job of Some j \<Rightarrow> mj_height j | None \<Rightarrow> 0), blr_hash = bytes_to_hex hash_be,
               blr_miner_id = cs_miner_id s, blr_difficulty = share_diff, blr_reward = 0\<rparr>
              (chain (ce_coin e) \<noteq> Zcash)) s)"

definition reject_v2 :: "'n cs_env \<Rightarrow> u32 \<Rightarrow> string \<Rightarrow> 'n cs \<Rightarrow> 'n cs" where
  "reject_v2 e seq err s =
     (let s = send_v2_message e MSG_SUBMIT_SHARES_ERROR
            (SubmitSharesError_serialize
               \<lparr>ssx_channel_id = cs_channel_id s, ssx_sequence_number = seq, ssx_error_code = ascii err\<rparr> []) s
      in s\<lparr>cs_shares_rejected := cs_shares_rejected s + 1\<rparr>)"

text \<open>The job a 32-bit id means: the latest one, or one in the window.\<close>

definition v2_find_job :: "u32 \<Rightarrow> 'n cs \<Rightarrow> mining_job option" where
  "v2_find_job job_id s =
     (case latest_job (cs_strat s) of
        Some j \<Rightarrow> if v2_job_id j = job_id then Some j else find_job_u32 job_id (cs_strat s)
      | None \<Rightarrow> find_job_u32 job_id (cs_strat s))"

text \<open>The coinbase of a custom job.\<close>

definition custom_coinbase :: "custom_job \<Rightarrow> hex" where
  "custom_coinbase cj =
     le_hex_u32 (cuj_coinbase_tx_version cj) @ ''01'' @ zeros64 @ ''ffffffff''
     @ snprintf_02x (length (cuj_coinbase_prefix cj)) @ bytes_to_hex (cuj_coinbase_prefix cj)
     @ le_hex_u32 (cuj_coinbase_tx_input_nSequence cj) @ bytes_to_hex (cuj_coinbase_outputs cj)
     @ le_hex_u32 (cuj_coinbase_tx_locktime cj)"

definition v2_header :: "u32 \<Rightarrow> hex \<Rightarrow> hex \<Rightarrow> u32 \<Rightarrow> hex \<Rightarrow> u32 \<Rightarrow> hex" where
  "v2_header version ph mr ntime bits nonce =
     build_block_header (le_hex_u32 version) ph mr (le_hex_u32 ntime) bits (le_hex_u32 nonce)"

record v2_share =
  vs_job :: "mining_job option"
  vs_coinbase :: hex
  vs_header :: hex
  vs_bits :: hex

definition job_share :: "mining_job \<Rightarrow> hex \<times> hex \<Rightarrow> u32 \<Rightarrow> u32 \<Rightarrow> u32 \<Rightarrow> v2_share" where
  "job_share job work version ntime nonce =
     \<lparr>vs_job = Some job, vs_coinbase = fst work,
      vs_header = v2_header version (byte_reverse_hex (mj_previousblockhash job)) (snd work) ntime
        (byte_reverse_hex (mj_bits job)) nonce,
      vs_bits = mj_bits job\<rparr>"

text \<open>What a standard submit stands for; \<open>None\<close> is a job that is gone.\<close>

definition standard_share :: "'n cs_env \<Rightarrow> SubmitSharesStandard \<Rightarrow> 'n cs \<Rightarrow> v2_share option res" where
  "standard_share e msg s =
     (case cs_custom_jobs s (sss_job_id msg) of
        Some cj \<Rightarrow>
          let cb = custom_coinbase cj; bits = int_to_hex (cuj_nbits cj) 8
          in bindE (compute_coinbase_txid_le (ce_sha256 e) cb) (\<lambda>txid.
               Inr (Some \<lparr>vs_job = None, vs_coinbase = cb,
                 vs_header = v2_header (sss_version msg) (bytes_to_hex (cuj_prev_hash cj)) txid (sss_ntime msg) bits (sss_nonce msg),
                 vs_bits = bits\<rparr>))
      | None \<Rightarrow>
          (case v2_find_job (sss_job_id msg) s of
             None \<Rightarrow> Inr None
           | Some job \<Rightarrow>
               bindE (standard_work e job s) (\<lambda>w.
                 Inr (Some (job_share job w (sss_version msg) (sss_ntime msg) (sss_nonce msg))))))"

definition extended_share :: "'n cs_env \<Rightarrow> SubmitSharesExtended \<Rightarrow> 'n cs \<Rightarrow> v2_share option res" where
  "extended_share e msg s =
     (case v2_find_job (sse_job_id msg) s of
        None \<Rightarrow> Inr None
      | Some job \<Rightarrow>
          bindE (extended_work e job (sse_extranonce msg) s) (\<lambda>w.
            Inr (Some (job_share job w (sse_version msg) (sse_ntime msg) (sse_nonce msg)))))"

text \<open>The hash of the share's header and the network target.\<close>

definition v2_hash :: "'n cs_env \<Rightarrow> v2_share \<Rightarrow> (bytes \<times> bytes) res" where
  "v2_hash e v =
     bindE (hex_to_bytes (vs_header v)) (\<lambda>header.
     bindE (target_from_bits_hex (vs_bits v)) (\<lambda>target.
       Inr (pow_hash_be (ce_sha256 e) (ce_scrypt e) (chain (ce_coin e)) header, target)))"

text \<open>A solve is submitted on first sight, before any check of the share's difficulty.\<close>

definition v2_submit_solve :: "'n cs_env \<Rightarrow> v2_share \<Rightarrow> bytes \<Rightarrow> bytes \<Rightarrow> rat \<Rightarrow> bool \<Rightarrow> 'n cs \<Rightarrow> 'n cs" where
  "v2_submit_solve e v hash_be target share_diff empty_block s =
     (if meets_target hash_be target then
        let (first, s) = cs_register_share (bytes_to_hex hash_be) s
        in if first then submit_block_sv2 e (vs_job v) (vs_header v) (vs_coinbase v) hash_be share_diff empty_block s else s
      else s)"

definition v2_target :: "'n cs_env \<Rightarrow> rat \<Rightarrow> rat \<Rightarrow> rat \<Rightarrow> 'n cs \<Rightarrow> rat" where
  "v2_target e window least share_diff s =
     (let target = vd_current_diff (cs_vardiff s)
      in if share_diff < target \<and> grace_age e s < window \<and> share_diff \<ge> least
         then cs_last_difficulty s else target)"

definition v2_tick :: "'n cs_env \<Rightarrow> rat \<Rightarrow> rat \<Rightarrow> 'n cs \<Rightarrow> 'n cs" where
  "v2_tick e target_diff network_diff s =
     (let old_diff = vd_current_diff (cs_vardiff s);
          (nd, vd) = vd_on_share (ce_exp e) (ce_now e) target_diff network_diff (cs_vardiff s);
          s = s\<lparr>cs_vardiff := vd\<rparr>
      in case nd of Some d \<Rightarrow> send_set_target e d (Some old_diff) s | None \<Rightarrow> s)"

definition v2_accept :: "'n cs_env \<Rightarrow> u32 \<Rightarrow> rat \<Rightarrow> 'n cs \<Rightarrow> 'n cs" where
  "v2_accept e seq share_diff s =
     (let s = send_v2_message e MSG_SUBMIT_SHARES_SUCCESS
            (SubmitSharesSuccess_serialize
               \<lparr>sok_channel_id = cs_channel_id s, sok_last_sequence_number = seq, sok_new_submits_accepted_count = 1,
                sok_new_shares_sum = 1\<rparr> []) s
      in note_accepted_share e share_diff (s\<lparr>cs_shares_accepted := cs_shares_accepted s + 1\<rparr>))"

definition v2_persist :: "u32 \<Rightarrow> u32 \<Rightarrow> hex \<Rightarrow> hex \<Rightarrow> rat \<Rightarrow> rat \<Rightarrow> bool \<Rightarrow> 'n cs \<Rightarrow> 'n cs" where
  "v2_persist job_id nonce en2 hash_hex share_diff target_diff is_block s =
     (if cs_miner_id s > 0 then
        cs_emit (Cs_Best_Share (cs_miner_id s) share_diff hash_hex)
          (cs_emit (Cs_Share
            \<lparr>shr_miner_id = cs_miner_id s, shr_job_id = dec_string (unat job_id), shr_nonce = le_hex_u32 nonce,
             shr_extranonce1 = cs_extranonce1 s, shr_extranonce2 = en2, shr_hash = hash_hex,
             shr_difficulty = target_diff, shr_is_block = is_block\<rparr>) s)
      else s)"

definition standard_verdict :: "'n cs_env \<Rightarrow> SubmitSharesStandard \<Rightarrow> v2_share \<Rightarrow> bytes \<times> bytes \<Rightarrow> 'n cs \<Rightarrow> 'n cs" where
  "standard_verdict e msg v ht s =
     (let (hash_be, target) = ht;
          share_diff = share_difficulty (chain (ce_coin e)) hash_be
      in cs_then (\<lambda>s.
           let target_diff = v2_target e 40 (dbl (cs_last_difficulty s * dbl (99 / 100))) share_diff s
           in if share_diff < dbl (target_diff * dbl (99 / 100)) then reject_v2 e (sss_sequence_number msg) ''difficulty-too-low'' s
              else
                let s = v2_accept e (sss_sequence_number msg) share_diff s;
                    s = (if vardiffEnabled (ce_tier e) then v2_tick e target_diff 0 s else s)
                in v2_persist (sss_job_id msg) (sss_nonce msg) ''0000000000000000'' (bytes_to_hex hash_be) share_diff target_diff
                     (meets_target hash_be target) s)
           (v2_submit_solve e v hash_be target share_diff (ce_empty_blocks e) s))"

definition handle_submit_shares_v2 :: "'n cs_env \<Rightarrow> SubmitSharesStandard \<Rightarrow> 'n cs \<Rightarrow> 'n cs" where
  "handle_submit_shares_v2 e msg s =
     cs_try (throwing (standard_share e msg s)) (\<lambda>sh.
       case sh of
         None \<Rightarrow> reject_v2 e (sss_sequence_number msg) ''stale-share''
       | Some v \<Rightarrow> cs_try (throwing (v2_hash e v)) (standard_verdict e msg v)) s"

definition extended_verdict :: "'n cs_env \<Rightarrow> SubmitSharesExtended \<Rightarrow> v2_share \<Rightarrow> bytes \<times> bytes \<Rightarrow> 'n cs \<Rightarrow> 'n cs" where
  "extended_verdict e msg v ht s =
     (let (hash_be, target) = ht;
          share_diff = share_difficulty (chain (ce_coin e)) hash_be;
          mintime = (case vs_job v of Some j \<Rightarrow> mj_mintime j | None \<Rightarrow> 0)
      in cs_then (\<lambda>s.
           let target_diff = v2_target e 15 (cs_last_difficulty s) share_diff s
           in if share_diff < target_diff then reject_v2 e (sse_sequence_number msg) ''difficulty-too-low'' s
              else if \<not> valid_ntime (sse_ntime msg) mintime (ce_now_unix e) 7200
              then reject_v2 e (sse_sequence_number msg) ''time-too-old-or-new'' s
              else
                let s = v2_accept e (sse_sequence_number msg) share_diff s;
                    s = (if vardiffEnabled (ce_tier e) \<and> \<not> cs_has_custom_difficulty s
                         then v2_tick e target_diff (share_difficulty (chain (ce_coin e)) target) s else s)
                in v2_persist (sse_job_id msg) (sse_nonce msg) (bytes_to_hex (sse_extranonce msg)) (bytes_to_hex hash_be) share_diff
                     target_diff (meets_target hash_be target) s)
           (v2_submit_solve e v hash_be target share_diff False s))"

definition handle_submit_shares_extended_v2 :: "'n cs_env \<Rightarrow> SubmitSharesExtended \<Rightarrow> 'n cs \<Rightarrow> 'n cs" where
  "handle_submit_shares_extended_v2 e msg s =
     (if cs_closed s then s
      else cs_try (throwing (extended_share e msg s)) (\<lambda>sh.
        case sh of
          None \<Rightarrow> reject_v2 e (sse_sequence_number msg) ''stale-share''
        | Some v \<Rightarrow> cs_try (throwing (v2_hash e v)) (extended_verdict e msg v)) s)"

section \<open>Custom jobs\<close>

definition custom_job_error :: "'n cs_env \<Rightarrow> SetCustomMiningJob \<Rightarrow> string \<Rightarrow> 'n cs \<Rightarrow> 'n cs" where
  "custom_job_error e msg err s =
     send_v2_message e MSG_SET_CUSTOM_MINING_JOB_ERROR
       (SetCustomMiningJobError_serialize
          \<lparr>cje_channel_id = cs_channel_id s, cje_request_id = cj_request_id msg, cje_error_code = ascii err\<rparr> []) s"

definition pool_donation_script :: "'n cs_env \<Rightarrow> hex" where
  "pool_donation_script e =
     (if donationPercent (ce_coin e) > 0 \<and> donationAddress (ce_coin e) \<noteq> [] then
        (case decode (ce_sha256 e) (donationAddress (ce_coin e)) of Inr d \<Rightarrow> script_pubkey_hex d | Inl _ \<Rightarrow> [])
      else [])"

definition handle_set_custom_mining_job_v2 :: "'n cs_env \<Rightarrow> SetCustomMiningJob \<Rightarrow> 'n cs \<Rightarrow> 'n cs" where
  "handle_set_custom_mining_job_v2 e msg s =
     (if cj_merkle_path msg \<noteq> [] then custom_job_error e msg ''invalid-merkle-path-not-empty'' s
      else if pool_donation_script e \<noteq> [] \<and> \<not> str_contains (bytes_to_hex (cj_coinbase_tx_outputs msg)) (pool_donation_script e)
      then custom_job_error e msg ''invalid-coinbase-outputs-no-donation'' s
      else
        let job_id = cs_custom_job_id_counter s + 1;
            cj = \<lparr>cuj_job_id = job_id, cuj_version = cj_version msg, cuj_prev_hash = cj_prev_hash msg,
                  cuj_coinbase_prefix = cj_coinbase_prefix msg, cuj_coinbase_outputs = cj_coinbase_tx_outputs msg,
                  cuj_coinbase_tx_version = cj_coinbase_tx_version msg,
                  cuj_coinbase_tx_input_nSequence = cj_coinbase_tx_input_nSequence msg,
                  cuj_coinbase_tx_locktime = cj_coinbase_tx_locktime msg, cuj_nbits = cj_nbits msg\<rparr>;
            s = s\<lparr>cs_custom_job_id_counter := job_id, cs_custom_jobs := (cs_custom_jobs s)(job_id \<mapsto> cj)\<rparr>
        in send_v2_message e MSG_SET_CUSTOM_MINING_JOB_SUCCESS
             (SetCustomMiningJobSuccess_serialize
                \<lparr>cjs_channel_id = cs_channel_id s, cjs_request_id = cj_request_id msg, cjs_job_id = job_id\<rparr> []) s)"

end
