(* ===== verification/Client_Session.thy ===== *)
theory Client_Session
  imports Client_V1 Client_V2
begin

text \<open>
  A whole session of \<open>src/client_session.cpp\<close>: the first byte that decides the protocol, opening V2
  channels, the V2 message dispatch and frame reassembly, the broadcast hook \<open>notifyNewJob\<close>, and the events
  of a session as a step relation.
\<close>

section \<open>The first byte\<close>

datatype start_outcome = Read_Lines | Read_V2 | Read_Act1 | Refused

definition exclusive_v2 :: "stratum_tier \<Rightarrow> bool" where
  "exclusive_v2 t \<longleftrightarrow> tier_sv2 t \<or> tier_label t = ''stratumv2''"

definition looks_like_json :: "u8 \<Rightarrow> bool" where
  "looks_like_json b \<longleftrightarrow> b \<in> {0x7b, 0x20, 0x09, 0x0a, 0x0b, 0x0c, 0x0d}"

definition first_byte :: "stratum_tier \<Rightarrow> bool \<Rightarrow> u8 \<Rightarrow> start_outcome" where
  "first_byte t noise_required b =
     (if exclusive_v2 t \<and> noise_required then (if looks_like_json b then Refused else Read_Act1)
      else if looks_like_json b then (if exclusive_v2 t then Refused else Read_Lines)
      else (if exclusive_v2 t then Read_V2 else Refused))"

section \<open>Channels\<close>

text \<open>A user identity is an address and a worker name.\<close>

definition v2_identify :: "bytes \<Rightarrow> 'n cs \<Rightarrow> 'n cs" where
  "v2_identify user s =
     (let (addr, worker) = split_worker ''default'' (text_of user)
      in s\<lparr>cs_worker_address := addr, cs_worker_name := worker\<rparr>)"

definition v2_channel_id :: "'n cs_env \<Rightarrow> u32" where
  "v2_channel_id e = of_nat (1000 + ce_rand e mod 10000)"

definition v2_enter_miner :: "'n cs_env \<Rightarrow> 'n cs \<Rightarrow> 'n cs" where
  "v2_enter_miner e s =
     (let s = s\<lparr>cs_miner_id := ce_ensure_miner e (cs_worker_address s) (cs_worker_name s) (ce_ip e)\<rparr>
      in cs_emit (Cs_Presence (cs_worker_address s) (cs_worker_name s) True) s)"

definition validate_payout_async :: "'n cs \<Rightarrow> 'n cs" where
  "validate_payout_async s = cs_emit (Cs_Validate_Payout (cs_worker_address s)) s"

definition payout_validated :: "'n cs_env \<Rightarrow> string + bool \<Rightarrow> 'n cs \<Rightarrow> 'n cs" where
  "payout_validated e answer s =
     (if cs_closed s then s else if answer \<noteq> Inr True then cs_disconnect e s else s)"

definition open_standard_channel :: "'n cs_env \<Rightarrow> OpenStandardMiningChannel \<Rightarrow> 'n cs \<Rightarrow> 'n cs" where
  "open_standard_channel e msg s =
     (let s = v2_identify (osc_user_identity msg) s
      in case decode (ce_sha256 e) (cs_worker_address s) of
           Inl _ \<Rightarrow> send_v2_open_channel_error e (osc_request_id msg) ''invalid-username-or-address'' s
         | Inr d \<Rightarrow>
             let diff = startingDifficulty (ce_tier e);
                 s = s\<lparr>cs_worker_script_hex := script_pubkey_hex d, cs_channel_id := v2_channel_id e, cs_last_difficulty := diff\<rparr>;
                 s = send_v2_message e MSG_OPEN_STANDARD_MINING_CHANNEL_SUCCESS
                       (OpenStandardMiningChannelSuccess_serialize
                          \<lparr>oss_request_id = osc_request_id msg, oss_channel_id = cs_channel_id s,
                           oss_target = diff_to_target_bytes diff, oss_extranonce_prefix = [1, 2, 3, 4],
                           oss_group_channel_id = 0\<rparr> []) s;
                 s = emit_latest_v2 e (v2_enter_miner e s)
             in cs_then validate_payout_async s)"

text \<open>The value of a 32-bit float above zero; \<open>None\<close> otherwise.\<close>

datatype pos_float = Pos_Finite rat | Pos_Infinity

definition f32_positive :: "f32 \<Rightarrow> pos_float option" where
  "f32_positive w =
     (let ex = unat (drop_bit 23 w AND 0xff); m = unat (w AND 0x7fffff)
      in if bit w 31 \<or> (ex = 0 \<and> m = 0) \<or> (ex = 255 \<and> m \<noteq> 0) then None
         else if ex = 255 then Some Pos_Infinity
         else if ex = 0 then Some (Pos_Finite (of_nat m / 2 ^ 149))
         else Some (Pos_Finite (of_nat (2 ^ 23 + m) * 2 powi (int ex - 150))))"

text \<open>The difficulty an extended channel opens with, from the declared hash rate.\<close>

definition initial_difficulty :: "'n cs_env \<Rightarrow> f32 \<Rightarrow> rat" where
  "initial_difficulty e nominal =
     (let t = ce_tier e
      in if vardiffEnabled t \<and> ce_shares_per_minute e > 0 then
           (case f32_positive nominal of
              None \<Rightarrow> startingDifficulty t
            | Some Pos_Infinity \<Rightarrow> vardiffMax t
            | Some (Pos_Finite h) \<Rightarrow>
                clamp (dbl (h / dbl (4294967296 * dbl (ce_shares_per_minute e / 60)))) (vardiffMin t) (vardiffMax t))
         else startingDifficulty t)"

definition open_extended_channel :: "'n cs_env \<Rightarrow> OpenExtendedMiningChannel \<Rightarrow> 'n cs \<Rightarrow> 'n cs" where
  "open_extended_channel e msg s =
     (let s = v2_identify (oec_user_identity msg) s
      in case decode (ce_sha256 e) (cs_worker_address s) of
           Inl _ \<Rightarrow> send_v2_open_channel_error e (oec_request_id msg) ''invalid-username-or-address'' s
         | Inr d \<Rightarrow>
             let diff = initial_difficulty e (oec_nominal_hash_rate msg);
                 extranonce_size = max (oec_min_extranonce_size msg) 8;
                 s = s\<lparr>cs_worker_script_hex := script_pubkey_hex d, cs_channel_id := v2_channel_id e,
                       cs_is_extended_channel := True, cs_last_difficulty := diff,
                       cs_vardiff := vd_set_current diff (cs_vardiff s), cs_extranonce2_size := unat extranonce_size\<rparr>
             in cs_try (throwing (hex_to_bytes (cs_extranonce1 s))) (\<lambda>en1 s.
                  let s = send_v2_message e MSG_OPEN_EXTENDED_MINING_CHANNEL_SUCCESS
                        (OpenExtendedMiningChannelSuccess_serialize
                           \<lparr>oes_request_id = oec_request_id msg, oes_channel_id = cs_channel_id s,
                            oes_target = diff_to_target_bytes diff, oes_extranonce_size = extranonce_size,
                            oes_extranonce_prefix = en1, oes_group_channel_id = 0\<rparr> []) s;
                      s = v2_enter_miner e (s\<lparr>cs_subscribed := True, cs_authorized := True\<rparr>)
                  in cs_then validate_payout_async (emit_latest_v2 e s)) s)"

section \<open>Messages\<close>

definition setup_connection :: "'n cs_env \<Rightarrow> SetupConnection \<Rightarrow> 'n cs \<Rightarrow> 'n cs" where
  "setup_connection e msg s =
     (if sc_protocol msg \<noteq> 0 \<and> sc_protocol msg \<noteq> 2 then send_v2_error e ''unsupported-protocol'' s
      else
        (send_v2_message e MSG_SETUP_CONNECTION_SUCCESS
           (SetupConnectionSuccess_serialize \<lparr>scs_used_version = 2, scs_flags = 0\<rparr> []) s)
        \<lparr>cs_subscribed := True, cs_authorized := True\<rparr>)"

definition process_message_v2 :: "'n cs_env \<Rightarrow> u8 \<Rightarrow> bytes \<Rightarrow> 'n cs \<Rightarrow> 'n cs" where
  "process_message_v2 e t payload s =
     (if t = MSG_SETUP_CONNECTION then
        cs_try (throwing (run_parser SetupConnection_deserialize payload)) (setup_connection e) s
      else if t = MSG_OPEN_STANDARD_MINING_CHANNEL then
        cs_try (throwing (run_parser OpenStandardMiningChannel_deserialize payload)) (open_standard_channel e) s
      else if t = MSG_OPEN_EXTENDED_MINING_CHANNEL then
        cs_try (throwing (run_parser OpenExtendedMiningChannel_deserialize payload)) (open_extended_channel e) s
      else if t = MSG_UPDATE_CHANNEL then
        cs_try (throwing (run_parser UpdateChannel_deserialize payload)) (\<lambda>_ s. s) s
      else if t = MSG_SUBMIT_SHARES_STANDARD then
        cs_try (throwing (run_parser SubmitSharesStandard_deserialize payload)) (handle_submit_shares_v2 e) s
      else if t = MSG_SUBMIT_SHARES_EXTENDED then
        cs_try (throwing (run_parser SubmitSharesExtended_deserialize payload)) (handle_submit_shares_extended_v2 e) s
      else if t = MSG_SET_CUSTOM_MINING_JOB then
        cs_try (throwing (run_parser SetCustomMiningJob_deserialize payload)) (handle_set_custom_mining_job_v2 e) s
      else if t = MSG_CLOSE_CHANNEL then
        cs_try (throwing (run_parser CloseChannel_deserialize payload)) (\<lambda>_ s. s) s
      else s)"

text \<open>The \<open>catch\<close> of \<open>process_v2_buffer\<close>.\<close>

definition catch_logged :: "'n cs \<Rightarrow> 'n cs" where
  "catch_logged s = (case cs_fault s of Some (Throws _) \<Rightarrow> s\<lparr>cs_fault := None\<rparr> | _ \<Rightarrow> s)"

section \<open>Frames in\<close>

record v2_rx =
  vx_buf :: bytes
  vx_pending :: "Header option"

text \<open>How many bytes are read next; nothing once the session is closed.\<close>

definition do_read_v2 :: "nat \<Rightarrow> 'n cs \<Rightarrow> nat option" where
  "do_read_v2 n s = (if cs_closed s \<or> n = 0 then None else Some (min n 4096))"

function process_v2_buffer :: "'n cs_env \<Rightarrow> v2_rx \<Rightarrow> 'n cs \<Rightarrow> nat option \<times> v2_rx \<times> 'n cs" where
  "process_v2_buffer e x s =
     (if cs_closed s then (None, x, s)
      else if cs_is_v2_encrypted s then
        (case vx_pending x of
           None \<Rightarrow>
             if length (vx_buf x) < 22 then (do_read_v2 (22 - length (vx_buf x)) s, x, s)
             else (case ce_decrypt e (cs_noise s) (take 22 (vx_buf x)) of
                 None \<Rightarrow> (None, x, cs_disconnect e s)
               | Some (hd6, n) \<Rightarrow>
                   (case run_parser Header_deserialize hd6 of
                      Inl f \<Rightarrow> (None, x, s\<lparr>cs_noise := n, cs_fault := Some (Throws f)\<rparr>)
                    | Inr h \<Rightarrow>
                        if \<not> frame_length_ok (h_msg_length h) then (None, x, cs_disconnect e (s\<lparr>cs_noise := n\<rparr>))
                        else process_v2_buffer e \<lparr>vx_buf = drop 22 (vx_buf x), vx_pending = Some h\<rparr> (s\<lparr>cs_noise := n\<rparr>)))
         | Some h \<Rightarrow>
             let need = unat (h_msg_length h) + 16
             in if length (vx_buf x) < need then (do_read_v2 (need - length (vx_buf x)) s, x, s)
                else
                  (case (if h_msg_length h = 0 then Some ([], cs_noise s)
                         else ce_decrypt e (cs_noise s) (take need (vx_buf x))) of
                     None \<Rightarrow> (None, x, cs_disconnect e s)
                   | Some (payload, n) \<Rightarrow>
                       let s = catch_logged (process_message_v2 e (h_msg_type h) payload (s\<lparr>cs_noise := n\<rparr>));
                           buf = drop need (vx_buf x)
                       in if buf \<noteq> [] then process_v2_buffer e \<lparr>vx_buf = buf, vx_pending = None\<rparr> s
                          else (do_read_v2 22 s, \<lparr>vx_buf = [], vx_pending = None\<rparr>, s)))
      else if length (vx_buf x) < 6 then (do_read_v2 (6 - length (vx_buf x)) s, x, s)
      else
        (case run_parser Header_deserialize (vx_buf x) of
           Inl f \<Rightarrow> (None, x, s\<lparr>cs_fault := Some (Throws f)\<rparr>)
         | Inr h \<Rightarrow>
             if \<not> frame_length_ok (h_msg_length h) then (None, x, cs_disconnect e s)
             else
               let total = 6 + unat (h_msg_length h)
               in if length (vx_buf x) < total then (do_read_v2 (total - length (vx_buf x)) s, x, s)
                  else
                    let s = catch_logged (process_message_v2 e (h_msg_type h) (drop 6 (take total (vx_buf x))) s);
                        buf = drop total (vx_buf x)
                    in if buf \<noteq> [] then process_v2_buffer e (x\<lparr>vx_buf := buf\<rparr>) s
                       else (do_read_v2 6 s, x\<lparr>vx_buf := []\<rparr>, s)))"
  by pat_completeness auto

termination
  by (relation "measure (\<lambda>(e, x, s). length (vx_buf x))") auto

declare process_v2_buffer.simps [simp del]

text \<open>A completed read of the bytes asked for, or a failed one.\<close>

definition on_read_v2 :: "'n cs_env \<Rightarrow> bytes option \<Rightarrow> v2_rx \<Rightarrow> 'n cs \<Rightarrow> nat option \<times> v2_rx \<times> 'n cs" where
  "on_read_v2 e r x s =
     (case r of
        None \<Rightarrow> (None, x, cs_disconnect e s)
      | Some bs \<Rightarrow> process_v2_buffer e (x\<lparr>vx_buf := vx_buf x @ bs\<rparr>) s)"

section \<open>Events\<close>

definition notify_new_job :: "'n cs_env \<Rightarrow> mining_job \<Rightarrow> 'n cs \<Rightarrow> 'n cs" where
  "notify_new_job e job s =
     (if \<not> cs_subscribed s \<or> cs_closed s then s
      else cs_try (throwing (session_aux_of e job s)) (\<lambda>aux s.
        case aux of
          Some a \<Rightarrow> emit_aux_job e job a s
        | None \<Rightarrow> if cs_is_v2 s then emit_job_v2 e job s else emit_job e job False s) s)"

definition reset_share_counters :: "'n cs \<Rightarrow> 'n cs" where
  "reset_share_counters s = s\<lparr>cs_shares_accepted := 0, cs_shares_rejected := 0\<rparr>"

end
