(* ===== verification/Client_Shares.thy ===== *)
theory Client_Shares
  imports Client_V1
begin

text \<open>
  What a V1 submit does (\<open>ClientSession::handle_submit\<close>): for every share whose header can be hashed, the
  reply, the counters and the blocks handed to the node.
\<close>

section \<open>Lines and blocks\<close>

fun effect_line :: "cs_effect \<Rightarrow> string list" where
  "effect_line (Cs_Line m) = [m]"
| "effect_line _ = []"

fun effect_block :: "cs_effect \<Rightarrow> (hex \<times> block_record) list" where
  "effect_block (Cs_Block b r p) = [(b, r)]"
| "effect_block _ = []"

definition cs_lines :: "'n cs \<Rightarrow> string list" where
  "cs_lines s = concat (map effect_line (cs_out s))"

definition cs_blocks :: "'n cs \<Rightarrow> (hex \<times> block_record) list" where
  "cs_blocks s = concat (map effect_block (cs_out s))"

definition cs_counts :: "'n cs \<Rightarrow> u64 \<times> u64 \<times> int" where
  "cs_counts s = (cs_shares_accepted s, cs_shares_rejected s, cs_miner_id s)"

lemma cs_emit_logs [simp]:
  "cs_lines (cs_emit ef s) = cs_lines s @ effect_line ef" "cs_blocks (cs_emit ef s) = cs_blocks s @ effect_block ef"
  "cs_counts (cs_emit ef s) = cs_counts s"
  by (simp_all add: cs_lines_def cs_blocks_def cs_emit_def cs_counts_def)

lemma cs_logs_update [simp]:
  "cs_lines (s\<lparr>cs_fault := f\<rparr>) = cs_lines s" "cs_blocks (s\<lparr>cs_fault := f\<rparr>) = cs_blocks s" "cs_counts (s\<lparr>cs_fault := f\<rparr>) = cs_counts s"
  "cs_lines (s\<lparr>cs_strat := st\<rparr>) = cs_lines s" "cs_blocks (s\<lparr>cs_strat := st\<rparr>) = cs_blocks s" "cs_counts (s\<lparr>cs_strat := st\<rparr>) = cs_counts s"
  "cs_lines (s\<lparr>cs_rl := r\<rparr>) = cs_lines s" "cs_blocks (s\<lparr>cs_rl := r\<rparr>) = cs_blocks s" "cs_counts (s\<lparr>cs_rl := r\<rparr>) = cs_counts s"
  "cs_lines (s\<lparr>cs_closed := b\<rparr>) = cs_lines s" "cs_blocks (s\<lparr>cs_closed := b\<rparr>) = cs_blocks s" "cs_counts (s\<lparr>cs_closed := b\<rparr>) = cs_counts s"
  "cs_lines (s\<lparr>cs_vardiff := v\<rparr>) = cs_lines s" "cs_blocks (s\<lparr>cs_vardiff := v\<rparr>) = cs_blocks s" "cs_counts (s\<lparr>cs_vardiff := v\<rparr>) = cs_counts s"
  "cs_lines (s\<lparr>cs_shares_accepted := n\<rparr>) = cs_lines s" "cs_blocks (s\<lparr>cs_shares_accepted := n\<rparr>) = cs_blocks s"
  "cs_lines (s\<lparr>cs_shares_rejected := n\<rparr>) = cs_lines s" "cs_blocks (s\<lparr>cs_shares_rejected := n\<rparr>) = cs_blocks s"
  "cs_lines (s\<lparr>cs_doge_submitted := d\<rparr>) = cs_lines s" "cs_blocks (s\<lparr>cs_doge_submitted := d\<rparr>) = cs_blocks s"
  "cs_counts (s\<lparr>cs_doge_submitted := d\<rparr>) = cs_counts s"
  "cs_lines (s\<lparr>cs_zcash_jobs := z\<rparr>) = cs_lines s" "cs_blocks (s\<lparr>cs_zcash_jobs := z\<rparr>) = cs_blocks s"
  "cs_lines (s\<lparr>cs_last_difficulty := a\<rparr>) = cs_lines s" "cs_blocks (s\<lparr>cs_last_difficulty := a\<rparr>) = cs_blocks s"
  "cs_lines (s\<lparr>cs_last_difficulty_change_ts := i\<rparr>) = cs_lines s" "cs_blocks (s\<lparr>cs_last_difficulty_change_ts := i\<rparr>) = cs_blocks s"
  "cs_lines (s\<lparr>cs_stat_diff := a\<rparr>) = cs_lines s" "cs_blocks (s\<lparr>cs_stat_diff := a\<rparr>) = cs_blocks s"
  "cs_lines (s\<lparr>cs_stat_hr1 := a\<rparr>) = cs_lines s" "cs_blocks (s\<lparr>cs_stat_hr1 := a\<rparr>) = cs_blocks s"
  "cs_lines (s\<lparr>cs_stat_hr5 := a\<rparr>) = cs_lines s" "cs_blocks (s\<lparr>cs_stat_hr5 := a\<rparr>) = cs_blocks s"
  "cs_lines (s\<lparr>cs_last_share_unix := u\<rparr>) = cs_lines s" "cs_blocks (s\<lparr>cs_last_share_unix := u\<rparr>) = cs_blocks s"
  by (simp_all add: cs_lines_def cs_blocks_def cs_counts_def)

lemma counts_of_identity: "cs_identity s = cs_identity t \<Longrightarrow> cs_counts s = cs_counts t"
  by (simp add: cs_identity_def cs_counts_def)

lemma set_difficulty_counts [simp]: "cs_counts (send_set_difficulty e d o' s) = cs_counts s"
  by (rule counts_of_identity) simp

lemma cs_then_None: "cs_fault (cs_then f s) = None \<Longrightarrow> cs_fault s = None \<and> cs_fault (f s) = None \<and> cs_then f s = f s"
  by (cases "cs_fault s") (simp_all add: cs_then_def)

section \<open>Steps\<close>

lemma disconnect_logs [simp]:
  "cs_lines (cs_disconnect e s) = cs_lines s" "cs_blocks (cs_disconnect e s) = cs_blocks s"
  "cs_counts (cs_disconnect e s) = cs_counts s" "cs_strat (cs_disconnect e s) = cs_strat s"
  "cs_shares_accepted (cs_disconnect e s) = cs_shares_accepted s" "cs_shares_rejected (cs_disconnect e s) = cs_shares_rejected s"
  "cs_miner_id (cs_disconnect e s) = cs_miner_id s"
  by (simp_all add: cs_disconnect_def Let_def cs_emit_def cs_lines_def cs_blocks_def cs_counts_def)

lemma reject_logs [simp]:
  "cs_lines (cs_reject e msg reason code s) = cs_lines s @ [error_line (cs_id e msg) code reason]"
  "cs_blocks (cs_reject e msg reason code s) = cs_blocks s"
  "cs_counts (cs_reject e msg reason code s) = (cs_shares_accepted s, cs_shares_rejected s + 1, cs_miner_id s)"
  "cs_strat (cs_reject e msg reason code s) = cs_strat s"
  by (simp_all add: cs_reject_def cs_send_line_def Let_def cs_counts_def cs_emit_def split: option.split prod.split)
     (simp_all add: cs_lines_def cs_blocks_def)

lemma emit_job_blocks [simp]: "cs_blocks (emit_job e job force s) = cs_blocks s"
  by (simp add: emit_job_def cs_try_def cs_send_line_def split: sum.split option.split prod.split)

lemma emit_job_lines: "prefix (cs_lines s) (cs_lines (emit_job e job force s))"
  by (simp add: emit_job_def cs_try_def cs_send_line_def split: sum.split option.split prod.split)

lemma set_difficulty_blocks [simp]: "cs_blocks (send_set_difficulty e d o' s) = cs_blocks s"
  by (simp add: send_set_difficulty_def emit_latest_def cs_send_line_def Let_def split: option.split)

lemma set_difficulty_lines: "prefix (cs_lines s) (cs_lines (send_set_difficulty e d o' s))"
proof -
  have latest: "prefix (cs_lines t) (cs_lines (emit_latest e True t))" for t
    by (simp add: emit_latest_def emit_job_lines split: option.split)
  have sent: "prefix (cs_lines s) (cs_lines t) \<Longrightarrow> prefix (cs_lines s) (cs_lines (emit_latest e True t))" for t
    using latest[of t] prefix_order.trans by blast
  show ?thesis
    unfolding send_set_difficulty_def Let_def by (auto intro!: sent simp: cs_send_line_def)
qed

lemma tick_logs:
  "cs_blocks (vardiff_tick e d tgt s) = cs_blocks s" "cs_counts (vardiff_tick e d tgt s) = cs_counts s"
  "prefix (cs_lines s) (cs_lines (vardiff_tick e d tgt s))"
proof -
  obtain nd vd where v: "vd_on_share (ce_exp e) (ce_now e) d (share_difficulty (chain (ce_coin e)) tgt) (cs_vardiff s) = (nd, vd)"
    by force
  have "prefix (cs_lines s) (cs_lines (send_set_difficulty e x o' (s\<lparr>cs_vardiff := vd\<rparr>)))" for x o'
    using set_difficulty_lines[of "s\<lparr>cs_vardiff := vd\<rparr>"] by simp
  then show "prefix (cs_lines s) (cs_lines (vardiff_tick e d tgt s))"
    by (simp add: vardiff_tick_def Let_def v split: option.split)
  show "cs_blocks (vardiff_tick e d tgt s) = cs_blocks s" "cs_counts (vardiff_tick e d tgt s) = cs_counts s"
    by (simp_all add: vardiff_tick_def Let_def v split: option.split)
qed

lemma persist_logs [simp]:
  "cs_lines (persist_share c h sd td m s) = cs_lines s" "cs_blocks (persist_share c h sd td m s) = cs_blocks s"
  "cs_counts (persist_share c h sd td m s) = cs_counts s" "cs_fault (persist_share c h sd td m s) = cs_fault s"
  by (simp_all add: persist_share_def)

lemma aux_block_logs [simp]:
  "cs_lines (maybe_submit_aux_block e job jid hx cb h sd s) = cs_lines s"
  "cs_blocks (maybe_submit_aux_block e job jid hx cb h sd s) = cs_blocks s"
  "cs_counts (maybe_submit_aux_block e job jid hx cb h sd s) = cs_counts s"
  by (simp_all add: maybe_submit_aux_block_def cs_try_def Let_def split: option.split sum.split)

lemma candidate_logs:
  assumes "cs_fault (submit_block_candidate e job hx cb sol h sd s) = None" and "cs_fault s = None"
  shows "cs_lines (submit_block_candidate e job hx cb sol h sd s) = cs_lines s"
    and "cs_counts (submit_block_candidate e job hx cb sol h sd s) = cs_counts s"
    and "cs_blocks (submit_block_candidate e job hx cb sol h sd s) =
      cs_blocks s @ (if rtt_withheld e job h = Inr False
                     then [(block_of (chain (ce_coin e)) job hx cb sol,
                            \<lparr>blr_height = mj_height job, blr_hash = bytes_to_hex h, blr_miner_id = cs_miner_id s,
                             blr_difficulty = sd, blr_reward = mj_coinbase_value job\<rparr>)] else [])"
  using assms by (cases "rtt_withheld e job h"; simp add: submit_block_candidate_def)+

lemma register_logs:
  assumes "cs_register_share h s = (first, t)"
  shows "cs_lines t = cs_lines s" "cs_blocks t = cs_blocks s" "cs_counts t = cs_counts s" "cs_fault t = cs_fault s"
    "first = fst (register_share h (cs_strat s))" "cs_vardiff t = cs_vardiff s"
  using assms by (auto simp: cs_register_share_def split: prod.splits)

section \<open>The verdict\<close>

text \<open>The facts a verdict depends on.\<close>

definition share_easy :: "'n cs_env \<Rightarrow> rat \<Rightarrow> 'n cs \<Rightarrow> bool" where
  "share_easy e sd s \<longleftrightarrow> sd < dbl (share_target e sd s * tolerance (chain (ce_coin e)))"

definition share_fresh :: "bytes \<Rightarrow> 'n cs \<Rightarrow> bool" where
  "share_fresh h s = fst (register_share (bytes_to_hex h) (cs_strat s))"

definition block_entry :: "'n cs_env \<Rightarrow> checked_share \<Rightarrow> hex \<Rightarrow> hex \<Rightarrow> bytes \<Rightarrow> 'n cs \<Rightarrow> hex \<times> block_record" where
  "block_entry e c cb hx h s =
     (block_of (chain (ce_coin e)) (ck_job c) hx cb (sr_solution (ck_req c)),
      \<lparr>blr_height = mj_height (ck_job c), blr_hash = bytes_to_hex h, blr_miner_id = cs_miner_id s,
       blr_difficulty = share_difficulty (chain (ce_coin e)) h, blr_reward = mj_coinbase_value (ck_job c)\<rparr>)"

definition reply_of :: "'n cs_env \<Rightarrow> json \<Rightarrow> checked_share \<Rightarrow> bytes \<Rightarrow> 'n cs \<Rightarrow> string" where
  "reply_of e msg c h s =
     (if ck_stale c then error_line (cs_id e msg) 21 ''stale share - job for previous block''
      else if share_easy e (share_difficulty (chain (ce_coin e)) h) s then error_line (cs_id e msg) 23 ''low difficulty share''
      else if \<not> share_fresh h s then error_line (cs_id e msg) 22 ''duplicate share''
      else ok_line (cs_id e msg))"

definition share_good :: "'n cs_env \<Rightarrow> checked_share \<Rightarrow> bytes \<Rightarrow> 'n cs \<Rightarrow> bool" where
  "share_good e c h s \<longleftrightarrow>
     \<not> ck_stale c \<and> \<not> share_easy e (share_difficulty (chain (ce_coin e)) h) s \<and> share_fresh h s"

definition solve_due :: "'n cs_env \<Rightarrow> checked_share \<Rightarrow> bytes \<Rightarrow> bytes \<Rightarrow> 'n cs \<Rightarrow> bool" where
  "solve_due e c h tgt s \<longleftrightarrow>
     meets_target h tgt \<and> rtt_withheld e (ck_job c) h = Inr False \<and>
     (share_fresh h s \<or> \<not> ck_stale c \<and> share_easy e (share_difficulty (chain (ce_coin e)) h) s)"

definition verdict_ok :: "'n cs_env \<Rightarrow> json \<Rightarrow> checked_share \<Rightarrow> hex \<Rightarrow> hex \<Rightarrow> bytes \<Rightarrow> bytes \<Rightarrow> 'n cs \<Rightarrow> 'n cs \<Rightarrow> bool" where
  "verdict_ok e msg c cb hx h tgt s t \<longleftrightarrow>
     prefix (cs_lines s @ [reply_of e msg c h s]) (cs_lines t) \<and>
     (\<not> share_good e c h s \<longrightarrow> cs_lines t = cs_lines s @ [reply_of e msg c h s]) \<and>
     cs_blocks t = cs_blocks s @ (if solve_due e c h tgt s then [block_entry e c cb hx h s] else []) \<and>
     cs_shares_accepted t = cs_shares_accepted s + (if share_good e c h s then 1 else 0) \<and>
     cs_shares_rejected t = cs_shares_rejected s + (if share_good e c h s then 0 else 1)"

lemma stale_verdict:
  assumes "ck_stale c" and "cs_fault s = None"
    and "t = stale_share e msg c cb hx h (meets_target h tgt) (share_difficulty (chain (ce_coin e)) h) s"
    and "cs_fault t = None"
  shows "verdict_ok e msg c cb hx h tgt s t"
proof -
  obtain first s1 where r: "cs_register_share (bytes_to_hex h) s = (first, s1)"
    by force
  note reg = register_logs[OF r]
  let ?cand = "submit_block_candidate e (ck_job c) hx cb (sr_solution (ck_req c)) h (share_difficulty (chain (ce_coin e)) h) s1"
  let ?aux = "maybe_submit_aux_block e (ck_job c) (sr_job_id (ck_req c)) hx cb h (share_difficulty (chain (ce_coin e)) h)"
  define s2 where "s2 = (if meets_target h tgt then ?cand else s1)"
  define s3 where "s3 = (if first then cs_then ?aux s2 else s1)"
  have t: "t = cs_then (\<lambda>s. (cs_send_line (error_line (cs_id e msg) 21 ''stale share - job for previous block'') s)
      \<lparr>cs_shares_rejected := cs_shares_rejected (cs_send_line (error_line (cs_id e msg) 21 ''stale share - job for previous block'') s) + 1\<rparr>) s3"
    using assms(3) by (simp add: stale_share_def r s2_def s3_def Let_def)
  have f3: "cs_fault s3 = None"
    using assms(4) cs_then_None unfolding t by blast
  have s3: "cs_lines s3 = cs_lines s" "cs_counts s3 = cs_counts s"
    "cs_blocks s3 = cs_blocks s @ (if first \<and> meets_target h tgt \<and> rtt_withheld e (ck_job c) h = Inr False
       then [block_entry e c cb hx h s] else [])"
  proof -
    have f1: "cs_fault s1 = None"
      using reg(4) assms(2) by simp
    have "cs_lines s2 = cs_lines s \<and> cs_counts s2 = cs_counts s \<and>
        cs_blocks s2 = cs_blocks s @ (if meets_target h tgt \<and> rtt_withheld e (ck_job c) h = Inr False then [block_entry e c cb hx h s] else [])"
      if "cs_fault s2 = None"
    proof (cases "meets_target h tgt")
      case True
      then show ?thesis
        using candidate_logs[of e "ck_job c" hx cb "sr_solution (ck_req c)" h _ s1] that f1 reg
        by (auto simp: s2_def block_entry_def cs_counts_def)
    next
      case False
      then show ?thesis
        using reg by (simp add: s2_def)
    qed
    moreover have "first \<Longrightarrow> cs_fault s2 = None \<and> s3 = ?aux s2"
      using f3 cs_then_None[of ?aux s2] by (simp add: s3_def)
    ultimately show "cs_lines s3 = cs_lines s" "cs_counts s3 = cs_counts s"
      "cs_blocks s3 = cs_blocks s @ (if first \<and> meets_target h tgt \<and> rtt_withheld e (ck_job c) h = Inr False
         then [block_entry e c cb hx h s] else [])"
      using reg by (auto simp: s3_def)
  qed
  have "first = share_fresh h s"
    using reg(5) by (simp add: share_fresh_def)
  with s3 show ?thesis
    using assms(1) f3 by (simp add: t verdict_ok_def reply_of_def share_good_def solve_due_def cs_send_line_def cs_counts_def)
qed

lemma easy_verdict:
  assumes "\<not> ck_stale c" and "share_easy e (share_difficulty (chain (ce_coin e)) h) s" and "cs_fault s = None"
    and "t = cs_then (cs_reject e msg ''low difficulty share'' 23)
      (if meets_target h tgt
       then submit_block_candidate e (ck_job c) hx cb (sr_solution (ck_req c)) h (share_difficulty (chain (ce_coin e)) h) s else s)"
    and "cs_fault t = None"
  shows "verdict_ok e msg c cb hx h tgt s t"
proof -
  let ?cand = "submit_block_candidate e (ck_job c) hx cb (sr_solution (ck_req c)) h (share_difficulty (chain (ce_coin e)) h) s"
  define s1 where "s1 = (if meets_target h tgt then ?cand else s)"
  have t: "cs_fault s1 = None" "t = cs_reject e msg ''low difficulty share'' 23 s1"
    using assms(4,5) cs_then_None unfolding s1_def[symmetric] by blast+
  have "cs_lines s1 = cs_lines s \<and> cs_counts s1 = cs_counts s \<and>
      cs_blocks s1 = cs_blocks s @ (if meets_target h tgt \<and> rtt_withheld e (ck_job c) h = Inr False then [block_entry e c cb hx h s] else [])"
    using candidate_logs[of e "ck_job c" hx cb "sr_solution (ck_req c)" h _ s] t(1) assms(3)
    by (cases "meets_target h tgt") (auto simp: s1_def block_entry_def)
  moreover have "cs_shares_accepted t = cs_shares_accepted s1 \<and> cs_shares_rejected t = cs_shares_rejected s1 + 1"
    using reject_logs(3)[of e msg "''low difficulty share''" 23 s1] by (simp add: t(2) cs_counts_def)
  ultimately show ?thesis
    using assms(1,2) by (simp add: t(2) verdict_ok_def reply_of_def share_good_def solve_due_def cs_counts_def)
qed

lemma duplicate_verdict:
  assumes "\<not> ck_stale c" and "\<not> share_easy e (share_difficulty (chain (ce_coin e)) h) s" and "\<not> share_fresh h s"
    and "cs_register_share (bytes_to_hex h) s = (first, s1)"
    and "t = (cs_send_line (error_line (cs_id e msg) 22 ''duplicate share'') s1)\<lparr>cs_shares_rejected := cs_shares_rejected s1 + 1\<rparr>"
  shows "verdict_ok e msg c cb hx h tgt s t"
  using register_logs[OF assms(4)] assms(1,2,3)
  by (simp add: assms(5) verdict_ok_def reply_of_def share_good_def solve_due_def cs_send_line_def cs_counts_def)

lemma note_logs [simp]:
  "cs_lines (note_accepted_share e d s) = cs_lines s" "cs_blocks (note_accepted_share e d s) = cs_blocks s"
  "cs_counts (note_accepted_share e d s) = cs_counts s" "cs_shares_accepted (note_accepted_share e d s) = cs_shares_accepted s"
  "cs_shares_rejected (note_accepted_share e d s) = cs_shares_rejected s" "cs_miner_id (note_accepted_share e d s) = cs_miner_id s"
  by (simp_all add: note_accepted_share_def Let_def cs_lines_def cs_blocks_def cs_counts_def)

lemma good_verdict:
  assumes "\<not> ck_stale c" and "\<not> share_easy e (share_difficulty (chain (ce_coin e)) h) s" and "share_fresh h s" and "cs_fault s = None"
    and "cs_register_share (bytes_to_hex h) s = (first, s1)"
    and "t = accept_share e msg c cb hx h tgt (meets_target h tgt) (share_difficulty (chain (ce_coin e)) h) td s1"
    and "cs_fault t = None"
  shows "verdict_ok e msg c cb hx h tgt s t"
proof -
  note reg = register_logs[OF assms(5)]
  let ?sd = "share_difficulty (chain (ce_coin e)) h"
  define s2 where "s2 = (note_accepted_share e ?sd ((cs_send_line (ok_line (cs_id e msg)) s1)
      \<lparr>cs_shares_accepted := cs_shares_accepted (cs_send_line (ok_line (cs_id e msg)) s1) + 1\<rparr>))"
  define s3 where "s3 = vardiff_tick e td tgt (s2\<lparr>cs_rl := map_option (clear_invalid (ce_ip e)) (cs_rl s2)\<rparr>)"
  define s4 where "s4 = cs_then (persist_share c (bytes_to_hex h) ?sd td (meets_target h tgt)) s3"
  define s5 where "s5 = cs_then (maybe_submit_aux_block e (ck_job c) (sr_job_id (ck_req c)) hx cb h ?sd) s4"
  have t: "t = cs_then (\<lambda>s. if meets_target h tgt
      then submit_block_candidate e (ck_job c) hx cb (sr_solution (ck_req c)) h ?sd s else s) s5"
    using assms(6) by (simp add: accept_share_def Let_def s5_def s4_def s3_def s2_def)
  have f5: "cs_fault s5 = None"
    using assms(7) cs_then_None unfolding t by blast
  then have f4: "cs_fault s4 = None" "s5 = maybe_submit_aux_block e (ck_job c) (sr_job_id (ck_req c)) hx cb h ?sd s4"
    using cs_then_None unfolding s5_def by blast+
  then have f3: "s4 = persist_share c (bytes_to_hex h) ?sd td (meets_target h tgt) s3"
    using cs_then_None unfolding s4_def by blast
  have s2: "cs_lines s2 = cs_lines s @ [ok_line (cs_id e msg)]" "cs_blocks s2 = cs_blocks s"
      "cs_counts s2 = (cs_shares_accepted s + 1, cs_shares_rejected s, cs_miner_id s)"
    using reg by (simp_all add: s2_def cs_send_line_def cs_counts_def)
  have s5: "prefix (cs_lines s2) (cs_lines s5)" "cs_blocks s5 = cs_blocks s" "cs_counts s5 = cs_counts s2"
    using tick_logs[where e = e and d = td and tgt = tgt and s = "s2\<lparr>cs_rl := map_option (clear_invalid (ce_ip e)) (cs_rl s2)\<rparr>"] s2
    by (simp_all add: f4 f3 s3_def)
  have t5: "t = (if meets_target h tgt then submit_block_candidate e (ck_job c) hx cb (sr_solution (ck_req c)) h ?sd s5 else s5)"
    using f5 by (simp add: t)
  have "cs_lines t = cs_lines s5 \<and> cs_counts t = cs_counts s5 \<and>
      cs_blocks t = cs_blocks s5 @ (if meets_target h tgt \<and> rtt_withheld e (ck_job c) h = Inr False then [block_entry e c cb hx h s] else [])"
    using candidate_logs[of e "ck_job c" hx cb "sr_solution (ck_req c)" h ?sd s5] assms(7) f5 s2(3) s5(3)
    by (cases "meets_target h tgt") (auto simp: t5 block_entry_def cs_counts_def)
  with s2 s5 assms(1,2,3) show ?thesis
    by (simp add: verdict_ok_def reply_of_def share_good_def solve_due_def cs_counts_def)
qed

lemma share_verdict_ok:
  assumes "cs_fault s = None" and "cs_fault (share_verdict e msg c cb hx h tgt s) = None"
  shows "verdict_ok e msg c cb hx h tgt s (share_verdict e msg c cb hx h tgt s)"
proof (cases "ck_stale c")
  case True
  then show ?thesis
    using assms by (intro stale_verdict) (simp_all add: share_verdict_def Let_def)
next
  case False
  note fresh = this
  obtain first s1 where r: "cs_register_share (bytes_to_hex h) s = (first, s1)"
    by force
  have f: "first = share_fresh h s"
    using register_logs(5)[OF r] by (simp add: share_fresh_def)
  consider (easy) "share_easy e (share_difficulty (chain (ce_coin e)) h) s"
    | (dup) "\<not> share_easy e (share_difficulty (chain (ce_coin e)) h) s" "\<not> first"
    | (good) "\<not> share_easy e (share_difficulty (chain (ce_coin e)) h) s" "first"
    by blast
  then show ?thesis
  proof cases
    case easy
    then show ?thesis
      using assms False by (intro easy_verdict) (simp_all add: share_verdict_def share_easy_def Let_def)
  next
    case dup
    then show ?thesis
      using False f by (intro duplicate_verdict[OF _ _ _ r]) (simp_all add: share_verdict_def share_easy_def Let_def r cs_send_line_def)
  next
    case good
    then show ?thesis
      using assms False f by (intro good_verdict[OF _ _ _ _ r]) (simp_all add: share_verdict_def share_easy_def Let_def r)
  qed
qed

section \<open>Property\<close>

text \<open>C2: The verdict on a V1 share, for every chain. When its header can be built and hashed and the handler
  finishes, the session answers with exactly the line of the decision table (stale, low difficulty,
  duplicate, accepted, in that order; an accepted share may be followed by a retarget), counts it once
  as accepted or as rejected, and hands the node the block of the share exactly when the hash meets the
  network target, the eCash rule does not hold it back, and the share is new or too easy: a solve is
  never lost to a stale job or to the session's difficulty, and a duplicate never submits again. The
  block is the share's own header and coinbase over the transactions of its job.\<close>

theorem client_share_verdict:
  assumes "submit_checks e msg s = Inr c" and "share_work e c s = Inr (cb, hx)" and "hex_to_bytes hx = Inr header"
    and "share_hash e c header = Inr (Some h)" and "target_from_bits_hex (mj_bits (ck_job c)) = Inr tgt"
    and "cs_fault s = None" and "cs_fault (handle_submit e msg s) = None"
  shows "verdict_ok e msg c cb hx h tgt s (handle_submit e msg s)"
proof -
  have "handle_submit e msg s = share_verdict e msg c cb hx h tgt s"
    using assms(1-5) by (simp add: handle_submit_def)
  with assms(6,7) show ?thesis
    by (simp add: share_verdict_ok)
qed

section \<open>A sample session\<close>

text \<open>An authorized session on a chain whose digests are all zero, one job in the window.\<close>

definition zhex :: "nat \<Rightarrow> hex" where
  "zhex n = bytes_to_hex (replicate n 0)"

lemma zhex_simps [simp]:
  "length (zhex n) = 2 * n" "valid_hex (zhex n) \<longleftrightarrow> n \<noteq> 0" "hex_to_bytes (zhex n) = Inr (replicate n 0)"
  "byte_reverse_hex (zhex n) = zhex n" "zhex m @ zhex n = zhex (m + n)"
  by (simp_all add: zhex_def valid_hex_bytes_to_hex byte_reverse_hex_bytes replicate_add flip: bytes_to_hex_append)

definition sample_job :: mining_job where
  "sample_job =
     \<lparr>mj_job_id = ''j'', mj_previousblockhash = zhex 32, mj_coinbase1 = zhex 4, mj_merkle_branch_le = [], mj_version = 1,
      mj_bits = zhex 4, mj_curtime = 0, mj_mintime = 0, mj_clean_jobs = True, mj_coinbase_value = 50, mj_total_fees = 0,
      mj_height = 9, mj_witness_commitment = [], mj_reserved = [], mj_zcash_merkle_root_le = [], mj_zcash_full_coinbase_hex = [],
      mj_segwit_active = False, mj_extranonce1_bytes = 4, mj_extranonce2_bytes = 8, mj_donation_percent = 0, mj_donation_address = [],
      mj_miner_fund_address = [], mj_miner_fund_value = 0, mj_staking_rewards_script = [], mj_staking_rewards_value = 0,
      mj_rtt = None, mj_tx_hexes = [], mj_aux_enabled = False, mj_aux_version = 0, mj_aux_prevhash = [], mj_aux_bits = [],
      mj_aux_curtime = 0, mj_aux_height = 0, mj_aux_coinbasevalue = 0, mj_aux_target = [], mj_mweb = [],
      mj_notify_prefix = ''p'', mj_notify_suffix = ''s''\<rparr>"

definition sample_ce :: "unit cs_env" where
  "sample_ce =
     \<lparr>ce_coin = sample_coin,
      ce_tier = \<lparr>tier_label = [], startingDifficulty = 4, vardiffEnabled = False, vardiffMin = 1, vardiffMax = 8,
                 allowNiceHash = False, tier_sv2 = False\<rparr>,
      ce_aux = \<lparr>aux_donationPercent = 0, aux_donationAddress = []\<rparr>, ce_aux_payout = [], ce_aux_client = False,
      ce_empty_blocks = False, ce_shares_per_minute = 6, ce_ip = ''ip'', ce_now = 0, ce_now_unix = 0, ce_rand = 0,
      ce_sha256 = (\<lambda>_. replicate 32 0), ce_scrypt = (\<lambda>_. replicate 32 0), ce_blake2b = (\<lambda>_ _. replicate 32 0),
      ce_exp = (\<lambda>_. 1), ce_powl = (\<lambda>_ _. 1), ce_rtt_facts = [], ce_fmt_double = (\<lambda>_. []), ce_blacklist = bl_empty,
      ce_ensure_miner = (\<lambda>_ _ _. 7), ce_encrypt = (\<lambda>n b. Some (b, n)), ce_decrypt = (\<lambda>n b. Some (b, n))\<rparr>"

definition sample_strat :: stratifier where
  "sample_strat = (st_new sample_coin 32)\<lparr>st_jobs := jw_push ''j'' sample_job (jw_new 32), st_last_prevhash := zhex 32\<rparr>"

definition sample_cs :: "unit cs" where
  "sample_cs = (cs_new sample_ce (zhex 4) ''sid'' sample_strat None ())
     \<lparr>cs_authorized := True, cs_subscribed := True, cs_worker_address := ''w'', cs_worker_name := ''0'', cs_miner_id := 7\<rparr>"

definition sample_share :: json where
  "sample_share = JObj [(''id'', JInt 5), (''method'', JStr ''mining.submit''),
     (''params'', JArr [JStr ''w'', JStr ''j'', JStr (zhex 8), JStr (zhex 4), JStr (zhex 4)])]"

definition sample_checked :: checked_share where
  "sample_checked =
     \<lparr>ck_req = \<lparr>sr_worker = ''w'', sr_job_id = ''j'', sr_nonce2 = zhex 8, sr_ntime = zhex 4, sr_nonce = zhex 4, sr_solution = [],
               sr_version_bits = None\<rparr>,
      ck_job = sample_job, ck_version = 1, ck_stale = False\<rparr>"

lemma parse_hex8_zhex: "parse_hex8_u32 (zhex 4) = Some 0"
  using stoul16_bytes_to_hex[of "replicate 4 0"] by (simp add: parse_hex8_u32_def parse_hex_any_u32_def zhex_def be_val_zeros)

lemma sample_find: "find_job ''j'' sample_strat = Some sample_job" "current_prevhash sample_strat = zhex 32"
    "latest_job sample_strat = Some sample_job"
  by (simp_all add: find_job_def latest_job_def jw_latest_def sample_strat_def jw_push_def jw_new_def jw_find_def current_prevhash_def)

lemma sample_cs_fields:
  "cs_strat sample_cs = sample_strat" "cs_authorized sample_cs" "cs_extranonce1 sample_cs = zhex 4" "cs_extranonce2_size sample_cs = 8"
  "cs_worker_address sample_cs = ''w''" "cs_worker_name sample_cs = ''0''" "cs_worker_script_hex sample_cs = []"
  "cs_aux_doge_address sample_cs = []" "cs_fault sample_cs = None" "cs_rl sample_cs = None" "cs_version_mask sample_cs = 0"
  "cs_out sample_cs = []" "cs_miner_id sample_cs = 7"
  by (simp_all add: sample_cs_def cs_new_def sample_ce_def Let_def)

lemma sample_job_fields:
  "mj_job_id sample_job = ''j''" "mj_previousblockhash sample_job = zhex 32" "mj_coinbase1 sample_job = zhex 4"
  "mj_merkle_branch_le sample_job = []" "mj_version sample_job = 1" "mj_bits sample_job = zhex 4" "mj_mintime sample_job = 0"
  "mj_height sample_job = 9" "mj_rtt sample_job = None" "mj_aux_enabled sample_job = False"
  by (simp_all add: sample_job_def)

lemma sample_ce_fields:
  "chain (ce_coin sample_ce) = Bitcoin" "ce_now_unix sample_ce = 0" "ce_sha256 sample_ce = (\<lambda>_. replicate 32 0)"
  "ce_now sample_ce = 0"
  by (simp_all add: sample_ce_def)

lemma client_submit_checks: "submit_checks sample_ce sample_share sample_cs = Inr sample_checked"
proof -
  have ps: "params_of sample_share = Some [JStr ''w'', JStr ''j'', JStr (zhex 8), JStr (zhex 4), JStr (zhex 4)]"
    by (simp add: sample_share_def params_of_def)
  have rd: "read_submit 8 [JStr ''w'', JStr ''j'', JStr (zhex 8), JStr (zhex 4), JStr (zhex 4)] = Inr (ck_req sample_checked)"
    by (simp add: read_submit_def sample_checked_def version_bits_param_def)
  have ck: "ck_job sample_checked = sample_job" "sr_worker (ck_req sample_checked) = ''w''" "sr_job_id (ck_req sample_checked) = ''j''"
      "sr_ntime (ck_req sample_checked) = zhex 4" "sr_version_bits (ck_req sample_checked) = None"
      "sample_checked = \<lparr>ck_req = ck_req sample_checked, ck_job = sample_job, ck_version = 1, ck_stale = False\<rparr>"
    by (simp_all add: sample_checked_def)
  show ?thesis
    unfolding submit_checks_def ps option.case
    by (simp add: sample_cs_fields sample_ce_fields rd ck(1-5) split_worker_def sample_find sample_job_fields parse_hex8_zhex
        valid_ntime_def rolled_version_def Let_def flip: ck(6))
qed

lemma sample_work:
  "\<exists>b. share_work sample_ce sample_checked sample_cs = Inr (zhex 16, bytes_to_hex b)"
proof -
  have cb: "session_coinbase sample_ce sample_checked sample_cs = zhex 16"
    by (simp add: session_coinbase_def active_coinbase1_def cs_coinbase2_def build_session_coinbase2_def rebuild_coinbase_def
        sample_cs_fields sample_job_fields) (simp add: sample_checked_def sample_job_fields)
  have txid: "compute_coinbase_txid_le (\<lambda>_. replicate 32 0) (zhex 16) = Inr (zhex 32)"
    by (simp add: compute_coinbase_txid_le_def sha256d_def) (simp add: zhex_def)
  have mr: "compute_root_le_hex H (zhex 32) [] = Inr (zhex 32)" for H
    by (simp add: compute_root_le_hex_def zhex_def)
  have ck: "ck_job sample_checked = sample_job" "ck_version sample_checked = 1" "sr_ntime (ck_req sample_checked) = zhex 4"
      "sr_nonce (ck_req sample_checked) = zhex 4"
    by (simp_all add: sample_checked_def)
  show ?thesis
    by (simp add: share_work_def sample_ce_fields cb share_header_def txid mr sample_job_fields ck Let_def build_block_header_def
        le_hex_u32_bytes) (simp add: zhex_def flip: bytes_to_hex_append)
qed

lemma client_zero_hash: "share_difficulty k (replicate 32 0) = 0" "meets_target (replicate 32 0) (replicate 32 0)"
  using hash_as_ld_bounds(2)[of "replicate 32 0"] mem_cmp_eq[of "replicate 32 0" "replicate 32 0"]
  by (simp_all add: share_difficulty_def be_val_zeros meets_target_def Let_def)

text \<open>The sample share is too easy for the session and solves a block.\<close>

theorem client_share_verdict_witness:
  "\<exists>b r. cs_blocks (handle_submit sample_ce sample_share sample_cs) = [(b, r)] \<and> blr_height r = 9 \<and>
     cs_lines (handle_submit sample_ce sample_share sample_cs) = [error_line (cs_id sample_ce sample_share) 23 ''low difficulty share'']"
proof -
  obtain b where w: "share_work sample_ce sample_checked sample_cs = Inr (zhex 16, bytes_to_hex b)"
    using sample_work by blast
  have h: "share_hash sample_ce sample_checked b = Inr (Some (replicate 32 0))"
    by (simp add: share_hash_def sample_ce_fields pow_hash_be_def sha256d_def)
  have tgt: "target_from_bits_hex (mj_bits (ck_job sample_checked)) = Inr (replicate 32 0)"
    by (simp add: target_from_bits_hex_def sample_checked_def sample_job_fields numeral_2_eq_2 numeral_3_eq_3)
  have ck: "ck_stale sample_checked = False" "ck_job sample_checked = sample_job"
    by (simp_all add: sample_checked_def)
  have easy: "share_easy sample_ce 0 sample_cs"
  proof -
    have "0 < dbl (4 * tolerance Bitcoin)"
      by (simp add: dbl_positive tolerance_def)
    moreover have "vd_current_diff (cs_vardiff sample_cs) = 4" "cs_last_difficulty sample_cs = 4"
      by (simp_all add: sample_cs_def cs_new_def sample_ce_def vd_new_def round_away_def clamp_def Let_def floor_eq_iff)
    ultimately show ?thesis
      by (simp add: share_easy_def share_target_def sample_ce_fields Let_def)
  qed
  have rtt: "rtt_withheld sample_ce sample_job h = Inr False" for h
    by (simp add: rtt_withheld_def sample_job_fields)
  have "cs_fault (handle_submit sample_ce sample_share sample_cs) = None"
    using easy tgt by (simp add: handle_submit_def client_submit_checks w h share_verdict_def client_zero_hash ck share_easy_def
        submit_block_candidate_def rtt sample_cs_fields cs_reject_def cs_send_line_def Let_def)
  then have v: "verdict_ok sample_ce sample_share sample_checked (zhex 16) (bytes_to_hex b) (replicate 32 0) (replicate 32 0) sample_cs
      (handle_submit sample_ce sample_share sample_cs)"
    using client_share_verdict[OF client_submit_checks w _ h tgt] sample_cs_fields(9) by simp
  moreover have "solve_due sample_ce sample_checked (replicate 32 0) (replicate 32 0) sample_cs"
    "\<not> share_good sample_ce sample_checked (replicate 32 0) sample_cs"
    "reply_of sample_ce sample_share sample_checked (replicate 32 0) sample_cs = error_line (cs_id sample_ce sample_share) 23 ''low difficulty share''"
    using easy by (simp_all add: solve_due_def share_good_def reply_of_def ck rtt client_zero_hash)
  moreover have "cs_lines sample_cs = []" "cs_blocks sample_cs = []"
    by (simp_all add: cs_lines_def cs_blocks_def sample_cs_fields)
  ultimately show ?thesis
    by (auto simp: verdict_ok_def block_entry_def ck sample_job_fields)
qed

end
