(* ===== verification/Client_Payout.thy ===== *)
theory Client_Payout
  imports Client_Session Client_Shares
begin

text \<open>
  Runs of a V1 session: requests, the node's answers to the address checks it asked for, new jobs, the
  end. Who an authorized session pays, and the coinbase it announces against the coinbase it rebuilds.
\<close>

section \<open>Runs\<close>

datatype client_event =
  V1_Line "json option"
| V1_Validated auth_request "string + bool"
| V1_Doge_Validated auth_request "string + bool"
| V1_New_Job mining_job
| V1_Shutdown

definition client_exec :: "'n cs_env \<Rightarrow> client_event \<Rightarrow> 'n cs \<Rightarrow> 'n cs" where
  "client_exec e ev s =
     (case ev of
        V1_Line line \<Rightarrow> process_line e line s
      | V1_Validated req answer \<Rightarrow> address_validated e req answer s
      | V1_Doge_Validated req answer \<Rightarrow> doge_validated e req answer s
      | V1_New_Job job \<Rightarrow> notify_new_job e job s
      | V1_Shutdown \<Rightarrow> cs_disconnect e s)"

text \<open>The node only answers what it was asked, and a worker thread that left on an exception runs nothing.\<close>

definition client_enabled :: "client_event \<Rightarrow> 'n cs \<Rightarrow> bool" where
  "client_enabled ev s \<longleftrightarrow>
     cs_fault s = None \<and>
     (case ev of
        V1_Validated req _ \<Rightarrow> Cs_Validate req \<in> set (cs_out s)
      | V1_Doge_Validated req _ \<Rightarrow> Cs_Validate_Doge req \<in> set (cs_out s)
      | _ \<Rightarrow> True)"

definition same_config :: "'n cs_env \<Rightarrow> 'n cs_env \<Rightarrow> bool" where
  "same_config e0 e \<longleftrightarrow> ce_coin e = ce_coin e0 \<and> ce_sha256 e = ce_sha256 e0 \<and> ce_blacklist e = ce_blacklist e0"

text \<open>A run keeps, beside the session, the requests the node has found valid.\<close>

definition client_init :: "'n cs \<times> auth_request set \<Rightarrow> bool" where
  "client_init sh \<longleftrightarrow> (\<exists>e en1 sid strat rl noise. sh = (cs_new e en1 sid strat rl noise, {}))"

fun found_valid :: "client_event \<Rightarrow> auth_request set \<Rightarrow> auth_request set" where
  "found_valid (V1_Validated req (Inr True)) H = insert req H"
| "found_valid _ H = H"

definition client_next :: "'n cs_env \<Rightarrow> 'n cs \<times> auth_request set \<Rightarrow> 'n cs_env \<times> client_event \<Rightarrow> 'n cs \<times> auth_request set \<Rightarrow> bool" where
  "client_next e0 sh ev th \<longleftrightarrow>
     same_config e0 (fst ev) \<and> client_enabled (snd ev) (fst sh) \<and>
     fst th = client_exec (fst ev) (snd ev) (fst sh) \<and>
     snd th = found_valid (snd ev) (snd sh)"

section \<open>Who is paid\<close>

text \<open>A request that passed the local checks.\<close>

definition request_ok :: "'n cs_env \<Rightarrow> auth_request \<Rightarrow> bool" where
  "request_ok e0 req \<longleftrightarrow>
     decode (ce_sha256 e0) (ar_addr req) = Inr (ar_decoded req) \<and>
     auth_blocked (ce_blacklist e0) (ar_addr req) (ar_worker req) = None"

definition payee_of :: "'n cs \<Rightarrow> bool \<times> string \<times> string \<times> hex \<times> bool" where
  "payee_of s = (cs_authorized s, cs_worker_address s, cs_worker_name s, cs_worker_script_hex s, cs_is_v2 s)"

fun asked :: "cs_effect \<Rightarrow> auth_request list" where
  "asked (Cs_Validate req) = [req]"
| "asked (Cs_Validate_Doge req) = [req]"
| "asked _ = []"

definition cs_asked :: "'n cs \<Rightarrow> auth_request set" where
  "cs_asked s = (\<Union>ef \<in> set (cs_out s). set (asked ef))"

definition doge_asked :: "'n cs \<Rightarrow> auth_request set" where
  "doge_asked s = {req. Cs_Validate_Doge req \<in> set (cs_out s)}"

definition payout_inv :: "'n cs_env \<Rightarrow> 'n cs \<times> auth_request set \<Rightarrow> bool" where
  "payout_inv e0 sh \<longleftrightarrow>
     (let s = fst sh; H = snd sh
      in (\<forall>req \<in> cs_asked s. request_ok e0 req) \<and> H \<subseteq> cs_asked s \<and> doge_asked s \<subseteq> H \<and> \<not> cs_is_v2 s \<and>
         (cs_authorized s \<longrightarrow>
            (\<exists>req \<in> H. cs_worker_address s = ar_addr req \<and> cs_worker_name s = ar_worker req \<and>
               cs_worker_script_hex s = payout_script e0 req)))"

text \<open>Two states that agree on all this.\<close>

definition same_payee :: "'n cs \<Rightarrow> 'n cs \<Rightarrow> bool" where
  "same_payee s t \<longleftrightarrow> payee_of t = payee_of s \<and> cs_asked t = cs_asked s \<and> doge_asked t = doge_asked s"

lemma same_payee_refl [simp]: "same_payee s s"
  by (simp add: same_payee_def)

lemma same_payee_trans: "same_payee s t \<Longrightarrow> same_payee t u \<Longrightarrow> same_payee s u"
  by (simp add: same_payee_def)

lemma same_payee_inv: "same_payee s t \<Longrightarrow> payout_inv e0 (s, H) \<Longrightarrow> payout_inv e0 (t, H)"
  by (auto simp: same_payee_def payout_inv_def payee_of_def Let_def)

lemma same_payee_emit: "asked ef = [] \<Longrightarrow> same_payee s (cs_emit ef s)"
  by (cases ef) (auto simp: same_payee_def payee_of_def cs_asked_def doge_asked_def cs_emit_def)

lemma same_payee_update [simp]:
  "same_payee s (t\<lparr>cs_fault := f\<rparr>) = same_payee s t" "same_payee s (t\<lparr>cs_strat := st\<rparr>) = same_payee s t"
  "same_payee s (t\<lparr>cs_rl := r\<rparr>) = same_payee s t" "same_payee s (t\<lparr>cs_closed := b\<rparr>) = same_payee s t"
  "same_payee s (t\<lparr>cs_vardiff := v\<rparr>) = same_payee s t" "same_payee s (t\<lparr>cs_zcash_jobs := z\<rparr>) = same_payee s t"
  "same_payee s (t\<lparr>cs_shares_accepted := n\<rparr>) = same_payee s t" "same_payee s (t\<lparr>cs_shares_rejected := n\<rparr>) = same_payee s t"
  "same_payee s (t\<lparr>cs_doge_submitted := d\<rparr>) = same_payee s t" "same_payee s (t\<lparr>cs_last_difficulty := a\<rparr>) = same_payee s t"
  "same_payee s (t\<lparr>cs_last_difficulty_change_ts := i\<rparr>) = same_payee s t" "same_payee s (t\<lparr>cs_stat_diff := a\<rparr>) = same_payee s t"
  "same_payee s (t\<lparr>cs_stat_hr1 := a\<rparr>) = same_payee s t" "same_payee s (t\<lparr>cs_stat_hr5 := a\<rparr>) = same_payee s t"
  "same_payee s (t\<lparr>cs_last_share_unix := u\<rparr>) = same_payee s t" "same_payee s (t\<lparr>cs_version_rolling := b\<rparr>) = same_payee s t"
  "same_payee s (t\<lparr>cs_version_mask := w\<rparr>) = same_payee s t" "same_payee s (t\<lparr>cs_user_agent := ua\<rparr>) = same_payee s t"
  "same_payee s (t\<lparr>cs_extranonce2_size := k\<rparr>) = same_payee s t" "same_payee s (t\<lparr>cs_subscribed := b\<rparr>) = same_payee s t"
  "same_payee s (t\<lparr>cs_extranonce_subscribed := b\<rparr>) = same_payee s t" "same_payee s (t\<lparr>cs_session_aux_jobs := m\<rparr>) = same_payee s t"
  "same_payee s (t\<lparr>cs_custom_difficulty := a\<rparr>) = same_payee s t" "same_payee s (t\<lparr>cs_has_custom_difficulty := b\<rparr>) = same_payee s t"
  "same_payee s (t\<lparr>cs_miner_id := j\<rparr>) = same_payee s t" "same_payee s (t\<lparr>cs_aux_doge_address := str\<rparr>) = same_payee s t"
  "same_payee s (t\<lparr>cs_doge_script_hex := hx\<rparr>) = same_payee s t"
  by (simp_all add: same_payee_def payee_of_def cs_asked_def doge_asked_def)

lemma same_payee_emitted [simp]: "asked ef = [] \<Longrightarrow> same_payee s (cs_emit ef t) = same_payee s t"
  using same_payee_emit[of ef t] by (simp add: same_payee_def)

lemma same_payee_line [simp]: "same_payee s (cs_send_line m t) = same_payee s t"
  by (simp add: cs_send_line_def)

lemma same_payee_disconnect [simp]: "same_payee s (cs_disconnect e t) = same_payee s t"
  by (simp add: cs_disconnect_def Let_def)

lemma same_payee_try: "(\<And>x t. same_payee s t \<Longrightarrow> same_payee s (k x t)) \<Longrightarrow> same_payee s t \<Longrightarrow> same_payee s (cs_try m k t)"
  by (cases m) simp_all

lemma same_payee_then: "(\<And>t. same_payee s t \<Longrightarrow> same_payee s (f t)) \<Longrightarrow> same_payee s t \<Longrightarrow> same_payee s (cs_then f t)"
  by (simp add: cs_then_def)

lemma same_payee_emit_job: "same_payee s t \<Longrightarrow> same_payee s (emit_job e job force t)"
  by (auto simp: emit_job_def intro!: same_payee_try split: option.split)

lemma same_payee_latest: "same_payee s t \<Longrightarrow> same_payee s (emit_latest e force t)"
  by (auto simp: emit_latest_def same_payee_emit_job split: option.split)

lemma same_payee_set_difficulty: "same_payee s t \<Longrightarrow> same_payee s (send_set_difficulty e d o' t)"
  by (auto simp: send_set_difficulty_def Let_def same_payee_latest)

lemma same_payee_reject: "same_payee s t \<Longrightarrow> same_payee s (cs_reject e msg reason code t)"
  by (auto simp: cs_reject_def Let_def split: option.split prod.split)

lemma same_payee_candidate: "same_payee s t \<Longrightarrow> same_payee s (submit_block_candidate e job hx cb sol h sd t)"
  by (auto simp: submit_block_candidate_def intro!: same_payee_try)

lemma same_payee_aux: "same_payee s t \<Longrightarrow> same_payee s (maybe_submit_aux_block e job jid hx cb h sd t)"
  by (auto simp: maybe_submit_aux_block_def Let_def intro!: same_payee_try split: option.split)

lemmas same_payee_steps = same_payee_emit_job same_payee_latest same_payee_set_difficulty same_payee_reject same_payee_candidate
  same_payee_aux same_payee_try same_payee_then

lemma same_payee_tick: "same_payee s t \<Longrightarrow> same_payee s (vardiff_tick e d tgt t)"
  by (auto simp: vardiff_tick_def Let_def intro!: same_payee_steps split: prod.split option.split)

lemma same_payee_persist: "same_payee s t \<Longrightarrow> same_payee s (persist_share c h sd td m t)"
  by (simp add: persist_share_def)

lemma same_payee_note: "same_payee s t \<Longrightarrow> same_payee s (note_accepted_share e sd t)"
  by (simp add: note_accepted_share_def Let_def)

lemma same_payee_accept: "same_payee s t \<Longrightarrow> same_payee s (accept_share e msg c cb hx h tgt m sd td t)"
  unfolding accept_share_def Let_def
  by (intro same_payee_then) (auto intro!: same_payee_steps same_payee_tick same_payee_persist same_payee_note)

lemma same_payee_register: "cs_register_share h s = (first, t) \<Longrightarrow> same_payee s t"
  by (auto simp: cs_register_share_def split: prod.splits)

lemma same_payee_stale: "same_payee s (stale_share e msg c cb hx h m sd s)"
proof -
  obtain first t where r: "cs_register_share (bytes_to_hex h) s = (first, t)"
    by force
  show ?thesis
    unfolding stale_share_def r Let_def prod.case
    by (intro same_payee_then) (auto intro!: same_payee_steps same_payee_register[OF r])
qed

lemma same_payee_verdict: "same_payee s (share_verdict e msg c cb hx h tgt s)"
proof -
  obtain first t where r: "cs_register_share (bytes_to_hex h) s = (first, t)"
    by force
  show ?thesis
    unfolding share_verdict_def Let_def r prod.case
    by (auto intro!: same_payee_steps same_payee_stale same_payee_accept same_payee_register[OF r])
qed

lemma same_payee_submit: "same_payee s (handle_submit e msg s)"
  unfolding handle_submit_def
  by (auto simp: cs_try_def intro!: same_payee_steps same_payee_verdict split: sum.split option.split prod.split)


lemma same_payee_configure: "same_payee s (handle_configure e msg s)"
  by (simp add: handle_configure_def Let_def)

lemma same_payee_subscribe: "same_payee s (handle_subscribe e msg s)"
proof -
  define s1 where "s1 = (case first_string msg of Some ua \<Rightarrow> s\<lparr>cs_user_agent := take 256 ua\<rparr> | None \<Rightarrow> s)"
  have "same_payee s s1"
    by (simp add: s1_def split: option.split)
  then show ?thesis
    unfolding handle_subscribe_def Let_def s1_def[symmetric]
    by (auto intro!: same_payee_then same_payee_set_difficulty)
qed

lemma same_payee_suggest: "same_payee s (handle_suggest_difficulty e msg s)"
  by (auto simp: handle_suggest_difficulty_def Let_def intro!: same_payee_steps split: option.split list.split json.split)

section \<open>Requests\<close>

lemma cs_asked_emit: "cs_asked (cs_emit ef s) = cs_asked s \<union> set (asked ef)"
  by (auto simp: cs_asked_def cs_emit_def)

lemma auth_checks_ok: "auth_checks e msg = Inr req \<Longrightarrow> request_ok e req"
  by (auto simp: auth_checks_def request_ok_def Let_def split: option.splits prod.splits if_splits sum.splits)

lemma request_ok_config: "same_config e0 e \<Longrightarrow> request_ok e req = request_ok e0 req"
  by (simp add: same_config_def request_ok_def)

lemma payout_authorize:
  assumes "same_config e0 e" and "payout_inv e0 (s, H)"
  shows "payout_inv e0 (handle_authorize e msg s, H)"
proof (cases "auth_checks e msg")
  case (Inl t)
  then show ?thesis
    using assms(2) by (intro same_payee_inv[OF _ assms(2)]) (simp add: handle_authorize_def)
next
  case (Inr req)
  have "request_ok e0 req"
    using auth_checks_ok[OF Inr] request_ok_config[OF assms(1)] by simp
  moreover have "doge_asked (cs_emit (Cs_Validate req) s) = doge_asked s"
    by (simp add: doge_asked_def cs_emit_def)
  ultimately show ?thesis
    using assms(2) by (auto simp: handle_authorize_def Inr payout_inv_def cs_asked_emit Let_def)
qed

lemma payout_line:
  assumes "same_config e0 e" and "payout_inv e0 (s, H)"
  shows "payout_inv e0 (process_line e line s, H)"
proof -
  have d: "payout_inv e0 (dispatch e m msg s, H)" for m msg
  proof (cases "m = ''mining.authorize''")
    case True
    then show ?thesis
      using payout_authorize[OF assms] by (simp add: dispatch_def)
  next
    case False
    then show ?thesis
      by (intro same_payee_inv[OF _ assms(2)])
         (auto simp: dispatch_def same_payee_configure same_payee_subscribe same_payee_submit same_payee_suggest same_payee_latest)
  qed
  have c: "payout_inv e0 (t, H) \<Longrightarrow> payout_inv e0 (cs_send_line m (t\<lparr>cs_fault := None\<rparr>), H)" for t m
    by (rule same_payee_inv) simp_all
  show ?thesis
    using assms(2) d same_payee_inv[OF _ assms(2)]
    by (auto simp: process_line_def Let_def intro!: c split: option.split fault.split)
qed

text \<open>Adopting a request keeps the rest.\<close>

lemma payout_proceed:
  assumes "same_config e0 e" and "payout_inv e0 (s, H)" and "req \<in> H"
  shows "payout_inv e0 (proceed_auth e req s, H)"
proof -
  define s1 where "s1 = s\<lparr>cs_worker_address := ar_addr req, cs_worker_name := ar_worker req, cs_worker_script_hex := payout_script e req\<rparr>"
  have script: "payout_script e req = payout_script e0 req"
    using assms(1) by (simp add: same_config_def payout_script_def)
  have i1: "payout_inv e0 (s1\<lparr>cs_authorized := b\<rparr>, H)" for b
    using assms(2,3) script by (auto simp: payout_inv_def s1_def Let_def cs_asked_def doge_asked_def)
  have adopt: "payout_inv e0 (t\<lparr>cs_authorized := True\<rparr>, H)" if "same_payee s1 t" for t
  proof -
    have "same_payee (s1\<lparr>cs_authorized := True\<rparr>) (t\<lparr>cs_authorized := True\<rparr>)"
      using that by (simp add: same_payee_def payee_of_def cs_asked_def doge_asked_def)
    then show ?thesis
      by (rule same_payee_inv) (rule i1)
  qed
  define s2 where "s2 = (case ar_custom_diff req of None \<Rightarrow> s1
      | Some d \<Rightarrow> send_set_difficulty e d None
          (s1\<lparr>cs_custom_difficulty := d, cs_has_custom_difficulty := True, cs_vardiff := vd_set_current d (cs_vardiff s1)\<rparr>))"
  have s2: "same_payee s1 s2"
    by (auto simp: s2_def intro!: same_payee_set_difficulty split: option.split)
  have "payout_inv e0 (s1, H)"
    using i1[of "cs_authorized s"] by (simp add: s1_def)
  then have i2: "payout_inv e0 (s2, H)"
    by (rule same_payee_inv[OF s2])
  have latest: "payout_inv e0 (t, H) \<Longrightarrow> payout_inv e0 (emit_latest e False t, H)" for t
    by (rule same_payee_inv[OF same_payee_latest]) simp_all
  have run: "payout_inv e0 (f s2, H) \<Longrightarrow> payout_inv e0 (cs_then f s2, H)" for f
    using i2 by (simp add: cs_then_def)
  show ?thesis
    unfolding proceed_auth_def Let_def s1_def[symmetric] s2_def[symmetric]
    by (rule run, rule latest, rule adopt) (simp add: s2)
qed

lemma payout_inv_heard: "payout_inv e0 (s, H) \<Longrightarrow> req \<in> cs_asked s \<Longrightarrow> payout_inv e0 (s, insert req H)"
  by (auto simp: payout_inv_def Let_def)

lemma payout_aux_field: "payout_inv e0 (s, H) \<Longrightarrow> payout_inv e0 (s\<lparr>cs_aux_doge_address := a, cs_doge_script_hex := x\<rparr>, H)"
  "payout_inv e0 (s, H) \<Longrightarrow> payout_inv e0 (s\<lparr>cs_aux_doge_address := a\<rparr>, H)"
  by (rule same_payee_inv; simp)+

lemma payout_validation:
  assumes "same_config e0 e" and "payout_inv e0 (s, H)" and "Cs_Validate req \<in> set (cs_out s)"
  shows "payout_inv e0 (address_validated e req answer s, if answer = Inr True then insert req H else H)"
proof -
  have a: "req \<in> cs_asked s"
    using assms(3) by (force simp: cs_asked_def)
  note i = payout_inv_heard[OF assms(2) a]
  have doge: "payout_inv e0 (cs_emit (Cs_Validate_Doge req) s, insert req H)"
    using i a by (auto simp: payout_inv_def cs_asked_emit doge_asked_def Let_def cs_emit_def cs_asked_def)
  have rej: "payout_inv e0 (cs_send_line m s, H)" for m
    by (rule same_payee_inv[OF _ assms(2)]) simp
  show ?thesis
    using assms(2) i doge rej
    by (auto simp: address_validated_def Let_def intro!: payout_proceed[OF assms(1)] payout_aux_field split: sum.split)
qed

lemma payout_doge:
  assumes "same_config e0 e" and "payout_inv e0 (s, H)" and "Cs_Validate_Doge req \<in> set (cs_out s)"
  shows "payout_inv e0 (doge_validated e req answer s, H)"
proof -
  have r: "req \<in> H"
    using assms(2,3) by (auto simp: payout_inv_def doge_asked_def Let_def)
  have rej: "payout_inv e0 (cs_send_line m s, H)" for m
    by (rule same_payee_inv[OF _ assms(2)]) simp
  show ?thesis
    using assms(2) rej
    by (auto simp: doge_validated_def Let_def intro!: payout_proceed[OF assms(1) _ r] payout_aux_field split: sum.split)
qed

lemma payout_new_job:
  assumes "payout_inv e0 (s, H)"
  shows "payout_inv e0 (notify_new_job e job s, H)"
proof -
  have "\<not> cs_is_v2 s"
    using assms by (simp add: payout_inv_def Let_def)
  then have "same_payee s (notify_new_job e job s)"
    by (cases "session_aux_of e job s")
       (auto simp: notify_new_job_def emit_aux_job_def emit_job_custom_def intro!: same_payee_emit_job split: option.split)
  then show ?thesis
    using assms by (rule same_payee_inv)
qed

lemma payout_step:
  assumes "payout_inv e0 sh" and "client_next e0 sh ev th"
  shows "payout_inv e0 th"
proof -
  obtain s H e v where sh: "sh = (s, H)" and ev: "ev = (e, v)"
    by fastforce
  obtain t K where th: "th = (t, K)"
    by fastforce
  have c: "same_config e0 e" and en: "client_enabled v s" and t: "t = client_exec e v s"
      and K: "K = found_valid v H"
    using assms(2) by (simp_all add: client_next_def sh ev th)
  note i = assms(1)[unfolded sh]
  show ?thesis
  proof (cases v)
    case (V1_Line line)
    then show ?thesis
      using payout_line[OF c i] by (simp add: th t K client_exec_def)
  next
    case (V1_Validated req answer)
    then have "payout_inv e0 (t, if answer = Inr True then insert req H else H)"
      using payout_validation[OF c i] en by (simp add: t client_exec_def client_enabled_def)
    moreover have "K = (if answer = Inr True then insert req H else H)"
      by (cases answer) (auto simp: K V1_Validated elim: found_valid.elims)
    ultimately show ?thesis
      by (simp add: th)
  next
    case (V1_Doge_Validated req answer)
    then show ?thesis
      using payout_doge[OF c i] en by (simp add: th t K client_exec_def client_enabled_def)
  next
    case (V1_New_Job job)
    then show ?thesis
      using payout_new_job[OF i] by (simp add: th t K client_exec_def)
  next
    case V1_Shutdown
    then show ?thesis
      using same_payee_inv[OF _ i, of "cs_disconnect e s"] by (simp add: th t K client_exec_def)
  qed
qed

interpretation payout: event_system client_init "client_next e0" "payout_inv e0"
proof
  show "payout_inv e0 sh" if "client_init sh" for sh
    using that by (auto simp: client_init_def payout_inv_def cs_new_def cs_asked_def doge_asked_def Let_def)
  show "payout_inv e0 th" if "payout_inv e0 sh" "client_next e0 sh ev th" for sh ev th
    using that by (rule payout_step)
qed



lemma decode_cash32: "decode H cash32 = Inr \<lparr>d_type = BchP2PKH, d_network = BchMainnet, d_program = map of_nat [0..<32]\<rparr>"
  unfolding decode_def cash32_cashaddr by (simp add: cash_network_def Let_def del: upt_rec_numeral)

definition sample_auth :: json where
  "sample_auth = JObj [(''method'', JStr ''mining.authorize''), (''params'', JArr [JStr cash32, JStr ''x''])]"

definition client_request :: auth_request where
  "client_request =
     \<lparr>ar_id = cs_id sample_ce sample_auth, ar_addr = cash32, ar_worker = ''0'',
      ar_decoded = \<lparr>d_type = BchP2PKH, d_network = BchMainnet, d_program = map of_nat [0..<32]\<rparr>,
      ar_custom_diff = None, ar_doge = []\<rparr>"

lemma sample_auth_checks: "auth_checks sample_ce sample_auth = Inr client_request"
proof -
  have w: "split_worker ''0'' cash32 = (cash32, ''0'')" "length cash32 \<le> 128" "\<not> bl_worker_is_free ''0''"
    by code_simp+
  have p: "first_string sample_auth = Some cash32" "second_string sample_auth = Some ''x''" "doge_address_of ''x'' = []"
    by (simp_all add: first_string_def second_string_def params_of_def sample_auth_def doge_address_of_def)
  have e: "ce_sha256 sample_ce = (\<lambda>_. replicate 32 0)" "ce_blacklist sample_ce = bl_empty" "\<not> vardiffEnabled (ce_tier sample_ce)"
    by (simp_all add: sample_ce_def)
  have b: "auth_blocked bl_empty cash32 ''0'' = None"
    using w(3) by (simp add: auth_blocked_def bl_address_blocked_def bl_worker_blocked_def bl_empty_def Let_def)
  show ?thesis
    using w(2) by (simp add: auth_checks_def p w(1) e b decode_cash32 client_request_def)
qed


end
