(* ===== verification/Client_Announce.thy ===== *)
theory Client_Announce
  imports Client_Payout
begin

text \<open>
  The coinbase a session announces in \<open>mining.notify\<close> against the coinbase it rebuilds for a share of that
  job: the same one after \<open>notifyNewJob\<close>, not after a retarget of a merge-mining session.
\<close>

section \<open>The notify texts of a published job\<close>

lemma published_texts:
  assumes "update_work H gen counter gbt st = Inr (st', Some job)"
  shows "(mj_notify_prefix job, mj_notify_suffix job) = notify_texts (st_coin st) job"
  using assms
proof (rule update_work_cases)
  fix bt cb1 branch
  assume f: "parse_template gbt = Inr (Some bt)" "build_coinbase1 (st_coin st) bt (mj_extranonce2_bytes job) = Inr (Some cb1)"
    "build_branch_le_hex H (map tx_txid_le (bt_transactions bt)) = Inr branch"
    "mj_extranonce2_bytes job = (if chain (st_coin st) = Zcash then 4 else 8)"
  then have cb1: "build_coinbase1 (st_coin st) bt (if chain (st_coin st) = Zcash then 4 else 8) = Inr (Some cb1)"
    by simp
  show ?thesis
    using assms f(1,3) cb1
    by (auto simp: update_work_def Let_def split_beta notify_texts_def simp del: if_split split: if_split_asm option.splits)
qed

lemma published_prefix:
  assumes "update_work H gen counter gbt st = Inr (st', Some job)" and "chain (st_coin st) \<noteq> Zcash"
  shows "mj_notify_prefix job = aux_notify_prefix job (mj_coinbase1 job)"
  using published_texts[OF assms(1)] assms(2) by (simp add: notify_texts_def aux_notify_prefix_def)

section \<open>What the rebuilt coinbase depends on\<close>

definition coin_view :: "'n cs \<Rightarrow> hex \<times> hex \<times> string \<times> (string \<rightharpoonup> session_aux)" where
  "coin_view s = (cs_extranonce1 s, cs_worker_script_hex s, cs_aux_doge_address s, cs_session_aux_jobs s)"

lemma coin_view_emit [simp]: "coin_view (cs_emit ef s) = coin_view s"
  by (simp add: coin_view_def)

lemma active_view: "coin_view t = coin_view s \<Longrightarrow> active_coinbase1 job jid t = active_coinbase1 job jid s"
  by (simp add: coin_view_def active_coinbase1_def)

lemma coinbase2_view:
  "coin_view t = coin_view s \<Longrightarrow> same_config e e' \<Longrightarrow> cs_coinbase2 e' job t = cs_coinbase2 e job s"
  by (simp add: coin_view_def cs_coinbase2_def same_config_def)

lemma session_coinbase_view:
  assumes "coin_view t = coin_view s" and "same_config e e'"
  shows "session_coinbase e' c t =
    active_coinbase1 (ck_job c) (sr_job_id (ck_req c)) s @ cs_extranonce1 s @ sr_nonce2 (ck_req c) @ cs_coinbase2 e (ck_job c) s"
  using active_view[OF assms(1)] coinbase2_view[OF assms] assms(1)
  by (simp add: session_coinbase_def rebuild_coinbase_def coin_view_def)

section \<open>New jobs\<close>

text \<open>What \<open>notifyNewJob\<close> sends a V1 session, and the session after it.\<close>

lemma notify_new_job_line:
  assumes "update_work H gen counter gbt st = Inr (st', Some job)" and "st_coin st = ce_coin e" and "chain (ce_coin e) \<noteq> Zcash"
    and "cs_subscribed s" "\<not> cs_closed s" "\<not> cs_is_v2 s"
    and "session_aux_of e job s = Inr aux" and "cs_session_aux_jobs s (mj_job_id job) = None"
  defines "t \<equiv> notify_new_job e job s"
  shows "cs_lines t = cs_lines s @
      [aux_notify_prefix job (active_coinbase1 job (mj_job_id job) t) @ cs_coinbase2 e job s @ mj_notify_suffix job]"
    and "cs_extranonce1 t = cs_extranonce1 s" and "cs_coinbase2 e job t = cs_coinbase2 e job s"
proof -
  note prefix = published_prefix[OF assms(1)]
  show "cs_lines t = cs_lines s @
      [aux_notify_prefix job (active_coinbase1 job (mj_job_id job) t) @ cs_coinbase2 e job s @ mj_notify_suffix job]"
  proof (cases aux)
    case None
    then show ?thesis
      using assms(2-8) prefix
      by (simp add: t_def notify_new_job_def emit_job_def cs_send_line_def force_clean_line_def active_coinbase1_def)
  next
    case (Some a)
    then have "cs_aux_doge_address s \<noteq> []"
      using assms(7) by (auto simp: session_aux_of_def split: if_splits)
    then show ?thesis
      using assms(4-7) Some
      by (simp add: t_def notify_new_job_def emit_aux_job_def emit_job_custom_def cs_send_line_def force_clean_line_def
          active_coinbase1_def bounded_put_def cs_coinbase2_def cs_lines_def cs_emit_def)
  qed
  show "cs_extranonce1 t = cs_extranonce1 s" "cs_coinbase2 e job t = cs_coinbase2 e job s"
    using assms(3-7)
    by (cases aux; simp add: t_def notify_new_job_def emit_job_def emit_aux_job_def emit_job_custom_def cs_send_line_def cs_coinbase2_def)+
qed



section \<open>Retargets of a merge-mining session\<close>

text \<open>A retarget, and the job sent again after \<open>mining.authorize\<close> or \<open>mining.extranonce.subscribe\<close>, announces
  the job's own \<open>coinbase1\<close>, with the placeholder where \<open>notifyNewJob\<close> had put the session's commitment.
  The session still rebuilds the coinbase with the commitment: no share of a miner that follows the new
  line hashes to what the pool computes.\<close>

theorem retarget_announces_other_coinbase:
  assumes "update_work H gen counter gbt st = Inr (st', Some job)" and "st_coin st = ce_coin e" and "chain (ce_coin e) \<noteq> Zcash"
    and "latest_job (cs_strat s) = Some job" and "cs_aux_doge_address s \<noteq> []" and "cs_session_aux_jobs s (mj_job_id job) = Some aux"
    and "splice_aux_commit (mj_coinbase1 job) (sa_aux_commit aux) \<noteq> mj_coinbase1 job"
    and "length (sa_aux_commit aux) = 88"
  shows "cs_lines (emit_latest e True s) = cs_lines s @
      [force_clean_line True (aux_notify_prefix job (mj_coinbase1 job) @ cs_coinbase2 e job s @ mj_notify_suffix job)]"
    and "ck_job c = job \<Longrightarrow> sr_job_id (ck_req c) = mj_job_id job \<Longrightarrow>
      session_coinbase e c (emit_latest e True s) \<noteq> mj_coinbase1 job @ cs_extranonce1 s @ sr_nonce2 (ck_req c) @ cs_coinbase2 e job s"
proof -
  have e: "emit_latest e True s = cs_send_line
      (force_clean_line True (mj_notify_prefix job @ cs_coinbase2 e job s @ mj_notify_suffix job)) s"
    using assms(3,4) by (simp add: emit_latest_def emit_job_def)
  then show "cs_lines (emit_latest e True s) = cs_lines s @
      [force_clean_line True (aux_notify_prefix job (mj_coinbase1 job) @ cs_coinbase2 e job s @ mj_notify_suffix job)]"
    using published_prefix[OF assms(1)] assms(2,3) by (simp add: cs_send_line_def)
  assume c: "ck_job c = job" "sr_job_id (ck_req c) = mj_job_id job"
  have a: "active_coinbase1 job (mj_job_id job) s = splice_aux_commit (mj_coinbase1 job) (sa_aux_commit aux)"
    using assms(5,6) by (simp add: active_coinbase1_def)
  have l: "length (splice_aux_commit (mj_coinbase1 job) (sa_aux_commit aux)) = length (mj_coinbase1 job)"
    using assms(8) by (simp add: splice_aux_commit_def)
  have "coin_view (emit_latest e True s) = coin_view s" "same_config e e"
    by (simp_all add: e cs_send_line_def same_config_def)
  from session_coinbase_view[OF this, of c] show "session_coinbase e c (emit_latest e True s) \<noteq>
      mj_coinbase1 job @ cs_extranonce1 s @ sr_nonce2 (ck_req c) @ cs_coinbase2 e job s"
    using a c l assms(7) by simp
qed

end
