(* ===== verification/Client_Channels.thy ===== *)
theory Client_Channels
  imports Client_Payout
begin

text \<open>
  Stratum V2 channels seen from the miner: what the frames of an extended channel make it hash against the
  header the session rebuilds, and the targets it is sent.
\<close>

section \<open>Plain frames\<close>

fun effect_frame :: "cs_effect \<Rightarrow> bytes list" where
  "effect_frame (Cs_Frame f) = [f]"
| "effect_frame _ = []"

definition cs_frames :: "'n cs \<Rightarrow> bytes list" where
  "cs_frames s = concat (map effect_frame (cs_out s))"

definition plain_v2 :: "'n cs \<Rightarrow> bool" where
  "plain_v2 s \<longleftrightarrow> \<not> cs_closed s \<and> \<not> cs_is_v2_encrypted s \<and> cs_fault s = None"

text \<open>What coinbases and jobs depend on.\<close>

definition channel_view :: "'n cs \<Rightarrow> (hex \<times> hex \<times> bool \<times> u32) \<times> stratifier \<times> bool" where
  "channel_view s =
     ((cs_extranonce1 s, cs_worker_script_hex s, cs_is_extended_channel s, cs_channel_id s), cs_strat s, plain_v2 s)"

lemma emit_frames [simp]: "cs_frames (cs_emit ef s) = cs_frames s @ effect_frame ef"
  by (simp add: cs_frames_def cs_emit_def)

lemma emit_view [simp]: "channel_view (cs_emit ef s) = channel_view s" "plain_v2 (cs_emit ef s) = plain_v2 s"
  by (simp_all add: channel_view_def plain_v2_def cs_emit_def)

lemma plain_update [simp]:
  "plain_v2 (s\<lparr>cs_worker_address := a\<rparr>) = plain_v2 s" "plain_v2 (s\<lparr>cs_worker_name := a\<rparr>) = plain_v2 s"
  "plain_v2 (s\<lparr>cs_worker_script_hex := h\<rparr>) = plain_v2 s" "plain_v2 (s\<lparr>cs_channel_id := u\<rparr>) = plain_v2 s"
  "plain_v2 (s\<lparr>cs_is_extended_channel := b\<rparr>) = plain_v2 s" "plain_v2 (s\<lparr>cs_last_difficulty := d\<rparr>) = plain_v2 s"
  "plain_v2 (s\<lparr>cs_vardiff := v\<rparr>) = plain_v2 s" "plain_v2 (s\<lparr>cs_extranonce2_size := k\<rparr>) = plain_v2 s"
  "plain_v2 (s\<lparr>cs_subscribed := b\<rparr>) = plain_v2 s" "plain_v2 (s\<lparr>cs_authorized := b\<rparr>) = plain_v2 s"
  "plain_v2 (s\<lparr>cs_miner_id := i\<rparr>) = plain_v2 s"
  by (simp_all add: plain_v2_def)

lemma frames_update [simp]:
  "cs_frames (s\<lparr>cs_worker_address := a\<rparr>) = cs_frames s" "cs_frames (s\<lparr>cs_worker_name := a\<rparr>) = cs_frames s"
  "cs_frames (s\<lparr>cs_worker_script_hex := h\<rparr>) = cs_frames s" "cs_frames (s\<lparr>cs_channel_id := u\<rparr>) = cs_frames s"
  "cs_frames (s\<lparr>cs_is_extended_channel := b\<rparr>) = cs_frames s" "cs_frames (s\<lparr>cs_last_difficulty := d\<rparr>) = cs_frames s"
  "cs_frames (s\<lparr>cs_vardiff := v\<rparr>) = cs_frames s" "cs_frames (s\<lparr>cs_extranonce2_size := k\<rparr>) = cs_frames s"
  "cs_frames (s\<lparr>cs_subscribed := b\<rparr>) = cs_frames s" "cs_frames (s\<lparr>cs_authorized := b\<rparr>) = cs_frames s"
  "cs_frames (s\<lparr>cs_miner_id := i\<rparr>) = cs_frames s"
  by (simp_all add: cs_frames_def)

lemma send_plain: "plain_v2 s \<Longrightarrow> send_v2_message e t w s = cs_emit (Cs_Frame (wrap_message EXT_COMMON t w)) s"
  by (simp add: plain_v2_def send_v2_message_def Let_def)

lemma plain_fault: "plain_v2 s \<Longrightarrow> cs_fault s = None"
  by (simp add: plain_v2_def)

lemma payload_of_frame [simp]: "drop 6 (wrap_message ext t w) = w"
  by (simp add: wrap_message_def Let_def length_Header_serialize)

lemma run_codec: "codec p bs x \<Longrightarrow> run_parser p bs = Inr x"
  using codec_run[of p bs x "[]"] by (simp add: run_parser_def mk_reader_def)

section \<open>The header of a V2 miner\<close>

text \<open>The Stratum V2 rules: the coinbase is the prefix, the channel's extranonce prefix, the miner's
  extranonce and the suffix; its double hash is folded over the merkle path; every number is little-endian.\<close>

definition spec_root :: "(bytes \<Rightarrow> bytes) \<Rightarrow> bytes list \<Rightarrow> bytes \<Rightarrow> bytes" where
  "spec_root H path leaf = fold (\<lambda>sib acc. H (acc @ sib)) path leaf"

definition miner_header ::
  "(bytes \<Rightarrow> bytes) \<Rightarrow> OpenExtendedMiningChannelSuccess \<Rightarrow> NewExtendedMiningJob \<Rightarrow> SetNewPrevHash \<Rightarrow> SubmitSharesExtended \<Rightarrow> bytes" where
  "miner_header sha256 ch j p m =
     nat_le 4 (unat (sse_version m)) @ ph_prev_hash p
     @ spec_root (sha256d sha256) (nej_merkle_path j)
         (sha256d sha256 (nej_coinbase_tx_prefix j @ oes_extranonce_prefix ch @ sse_extranonce m @ nej_coinbase_tx_suffix j))
     @ nat_le 4 (unat (sse_ntime m)) @ nat_le 4 (unat (ph_nbits p)) @ nat_le 4 (unat (sse_nonce m))"

lemma root_loop_spec:
  "\<forall>h \<in> set path. length h = 32 \<Longrightarrow> root_loop H cur (map bytes_to_hex path) = Inr (spec_root H path cur)"
  by (induction path arbitrary: cur) (simp_all add: spec_root_def)

lemma compute_root_spec:
  assumes "length leaf = 32" and "\<forall>h \<in> set path. length h = 32"
  shows "compute_root_le_hex H (bytes_to_hex leaf) (map bytes_to_hex path) = Inr (bytes_to_hex (spec_root H path leaf))"
  using assms by (simp add: compute_root_le_hex_def root_loop_spec)

lemma four_bytes: "length bits = 4 \<Longrightarrow> \<exists>a b c d. bits = [a, b, c, d]" for bits :: bytes
  by (auto simp: length_Suc_conv numeral_eq_Suc)

lemma nbits_bytes: "hex_to_bytes (mj_bits job) = Inr [a, b, c, d] \<Longrightarrow> nat_le 4 (unat (job_nbits job)) = [d, c, b, a]"
proof -
  assume "hex_to_bytes (mj_bits job) = Inr [a, b, c, d]"
  then have "job_nbits job = le_or 0 [d, c, b, a]"
    by (simp add: job_nbits_def ac_simps)
  moreover have "unat (of_nat v :: u32) = v" if "v < 256 ^ 4" for v
    using that by (simp add: unat_of_nat)
  moreover have "le_val [d, c, b, a] < 256 ^ 4"
    using le_val_less[of "[d, c, b, a]"] by (simp only: list.size) simp
  ultimately have "unat (job_nbits job) = le_val [d, c, b, a]"
    by (simp only: le_or_val)
  then show ?thesis
    using nat_le_le_val[of "[d, c, b, a]"] by (simp del: nat_le_le_val nat_le.simps le_val.simps add: eval_nat_numeral)
qed

section \<open>Jobs\<close>

text \<open>A job whose texts are the hex of bytes of the right sizes.\<close>

definition job_bytes :: "mining_job \<Rightarrow> bytes \<Rightarrow> bytes \<Rightarrow> bytes \<Rightarrow> bytes list \<Rightarrow> bool" where
  "job_bytes job prev bits cb1 path \<longleftrightarrow>
     mj_previousblockhash job = bytes_to_hex prev \<and> length prev = 32 \<and> mj_bits job = bytes_to_hex bits \<and> length bits = 4 \<and>
     mj_coinbase1 job = bytes_to_hex cb1 \<and> length cb1 \<le> 65535 \<and>
     mj_merkle_branch_le job = map bytes_to_hex path \<and> length path \<le> 255 \<and> (\<forall>h \<in> set path. length h = 32)"

lemma traverse_hex: "traverseE hex_to_bytes (map bytes_to_hex path) = Inr path"
  by (induction path) simp_all

definition extended_job_msg :: "mining_job \<Rightarrow> bytes \<Rightarrow> bytes \<Rightarrow> bytes list \<Rightarrow> u32 \<Rightarrow> NewExtendedMiningJob" where
  "extended_job_msg job cb1 cb2 path chan =
     \<lparr>nej_channel_id = chan, nej_job_id = v2_job_id job, nej_min_ntime = None, nej_version = mj_version job,
      nej_version_rolling_allowed = True, nej_merkle_path = path, nej_coinbase_tx_prefix = cb1, nej_coinbase_tx_suffix = cb2\<rparr>"

definition prev_hash_msg :: "mining_job \<Rightarrow> bytes \<Rightarrow> u32 \<Rightarrow> SetNewPrevHash" where
  "prev_hash_msg job prev chan =
     \<lparr>ph_channel_id = chan, ph_job_id = v2_job_id job, ph_prev_hash = rev prev, ph_min_ntime = mj_mintime job, ph_nbits = job_nbits job\<rparr>"

lemma emit_extended_frames:
  assumes "job_bytes job prev bits cb1 path" and "plain_v2 s" and "cs_is_extended_channel s" and "cs_coinbase2 e job s = bytes_to_hex cb2"
  shows "emit_job_v2 e job s =
    cs_emit (Cs_Frame (wrap_message EXT_COMMON MSG_SET_NEW_PREV_HASH (SetNewPrevHash_serialize (prev_hash_msg job prev (cs_channel_id s)) [])))
     (cs_emit (Cs_Frame (wrap_message EXT_COMMON MSG_NEW_EXTENDED_MINING_JOB
        (NewExtendedMiningJob_serialize (extended_job_msg job cb1 cb2 path (cs_channel_id s)) []))) s)"
proof -
  have filt: "List.filter (\<lambda>h. length h = 32) path = path"
    using assms(1) by (simp add: job_bytes_def)
  have j: "emit_extended_job e job s = cs_emit (Cs_Frame (wrap_message EXT_COMMON MSG_NEW_EXTENDED_MINING_JOB
      (NewExtendedMiningJob_serialize (extended_job_msg job cb1 cb2 path (cs_channel_id s)) []))) s"
    using assms by (simp add: emit_extended_job_def job_bytes_def traverse_hex filt send_plain extended_job_msg_def)
  show ?thesis
    using assms(1-3) plain_fault[OF assms(2)]
    by (simp add: emit_job_v2_def j emit_prev_hash_v2_def job_bytes_def byte_reverse_hex_bytes fixed32_def send_plain prev_hash_msg_def)
qed

lemma extended_share_header:
  assumes "job_bytes job prev bits cb1 path" and "cs_extranonce1 s = bytes_to_hex en1" and "cs_coinbase2 e job s = bytes_to_hex cb2"
    and "v2_find_job (sse_job_id m) s = Some job" and "\<And>x. length (ce_sha256 e x) = 32"
    and "oes_extranonce_prefix ch = en1"
  shows "\<exists>v. extended_share e m s = Inr (Some v) \<and>
    vs_coinbase v = bytes_to_hex (cb1 @ en1 @ sse_extranonce m @ cb2) \<and>
    vs_header v = bytes_to_hex (miner_header (ce_sha256 e) ch (extended_job_msg job cb1 cb2 path chan) (prev_hash_msg job prev chan) m)"
proof -
  let ?cb = "cb1 @ en1 @ sse_extranonce m @ cb2"
  let ?H = "sha256d (ce_sha256 e)"
  have cb: "rebuild_coinbase (mj_coinbase1 job) (cs_coinbase2 e job s) (cs_extranonce1 s @ bytes_to_hex (sse_extranonce m)) = bytes_to_hex ?cb"
    using assms(1-3) by (simp add: rebuild_coinbase_def job_bytes_def)
  have "length (?H ?cb) = 32"
    using assms(5) by (simp add: sha256d_def)
  then have w: "extended_work e job (sse_extranonce m) s = Inr (bytes_to_hex ?cb, bytes_to_hex (spec_root ?H path (?H ?cb)))"
    using assms(1) compute_root_spec[of "?H ?cb" path ?H]
    unfolding extended_work_def cb Let_def compute_coinbase_txid_le_def by (simp add: job_bytes_def del: bytes_to_hex_append)
  obtain a b c d where bits: "bits = [a, b, c, d]"
    using assms(1) four_bytes[of bits] by (auto simp: job_bytes_def)
  then have "hex_to_bytes (mj_bits job) = Inr [a, b, c, d]"
    using assms(1) by (simp add: job_bytes_def del: bytes_to_hex.simps)
  from nbits_bytes[OF this] have n: "rev bits = nat_le 4 (unat (job_nbits job))"
    by (simp add: bits)
  show ?thesis
    using assms(1,4,6) n
    by (simp add: extended_share_def w job_share_def v2_header_def build_block_header_def le_hex_u32_bytes job_bytes_def
        byte_reverse_hex_bytes miner_header_def extended_job_msg_def prev_hash_msg_def)
qed


section \<open>Opening an extended channel\<close>

definition channel_success :: "'n cs_env \<Rightarrow> OpenExtendedMiningChannel \<Rightarrow> bytes \<Rightarrow> OpenExtendedMiningChannelSuccess" where
  "channel_success e m en1 =
     \<lparr>oes_request_id = oec_request_id m, oes_channel_id = v2_channel_id e,
      oes_target = diff_to_target_bytes (initial_difficulty e (oec_nominal_hash_rate m)),
      oes_extranonce_size = max (oec_min_extranonce_size m) 8, oes_extranonce_prefix = en1, oes_group_channel_id = 0\<rparr>"

lemma open_extended_frames:
  assumes "plain_v2 s" and "cs_extranonce1 s = bytes_to_hex en1" and "latest_job (cs_strat s) = Some job"
    and "job_bytes job prev bits cb1 path"
    and "decode (ce_sha256 e) (fst (split_worker ''default'' (text_of (oec_user_identity m)))) = Inr d"
    and "build_session_coinbase2 (ce_sha256 e) (chain (ce_coin e)) job (script_pubkey_hex d) = bytes_to_hex cb2"
  defines "t \<equiv> open_extended_channel e m s" and "chan \<equiv> v2_channel_id e"
  shows "cs_frames t = cs_frames s @
      [wrap_message EXT_COMMON MSG_OPEN_EXTENDED_MINING_CHANNEL_SUCCESS (OpenExtendedMiningChannelSuccess_serialize (channel_success e m en1) []),
       wrap_message EXT_COMMON MSG_NEW_EXTENDED_MINING_JOB (NewExtendedMiningJob_serialize (extended_job_msg job cb1 cb2 path chan) []),
       wrap_message EXT_COMMON MSG_SET_NEW_PREV_HASH (SetNewPrevHash_serialize (prev_hash_msg job prev chan) [])]"
    and "cs_extranonce1 t = cs_extranonce1 s" and "cs_worker_script_hex t = script_pubkey_hex d" and "cs_strat t = cs_strat s"
proof -
  obtain addr worker where w: "split_worker ''default'' (text_of (oec_user_identity m)) = (addr, worker)"
    by force
  define s1 where "s1 = s\<lparr>cs_worker_address := addr, cs_worker_name := worker, cs_worker_script_hex := script_pubkey_hex d,
    cs_channel_id := chan, cs_is_extended_channel := True, cs_last_difficulty := initial_difficulty e (oec_nominal_hash_rate m),
    cs_vardiff := vd_set_current (initial_difficulty e (oec_nominal_hash_rate m)) (cs_vardiff s),
    cs_extranonce2_size := unat (max (oec_min_extranonce_size m) 8)\<rparr>"
  define s2 where "s2 = v2_enter_miner e ((cs_emit (Cs_Frame (wrap_message EXT_COMMON MSG_OPEN_EXTENDED_MINING_CHANNEL_SUCCESS
      (OpenExtendedMiningChannelSuccess_serialize (channel_success e m en1) []))) s1)\<lparr>cs_subscribed := True, cs_authorized := True\<rparr>)"
  have p1: "plain_v2 s1" "cs_channel_id s1 = chan" "cs_extranonce1 s1 = bytes_to_hex en1" "cs_frames s1 = cs_frames s"
    using assms(1,2) by (simp_all add: s1_def plain_v2_def cs_frames_def)
  have p2: "plain_v2 s2" "cs_strat s2 = cs_strat s" "cs_is_extended_channel s2" "cs_channel_id s2 = chan"
      "cs_extranonce1 s2 = cs_extranonce1 s" "cs_worker_script_hex s2 = script_pubkey_hex d"
      "cs_frames s2 = cs_frames s @ [wrap_message EXT_COMMON MSG_OPEN_EXTENDED_MINING_CHANNEL_SUCCESS
         (OpenExtendedMiningChannelSuccess_serialize (channel_success e m en1) [])]"
    using p1 by (simp_all add: s2_def v2_enter_miner_def Let_def) (simp_all add: s1_def)
  have "t = cs_then validate_payout_async (emit_latest_v2 e s2)"
    using assms(2,5) p1(1-3) w
    by (simp add: t_def open_extended_channel_def v2_identify_def s2_def s1_def chan_def channel_success_def send_plain Let_def)
  moreover have "cs_coinbase2 e job s2 = bytes_to_hex cb2"
    using assms(6) p2(6) by (simp add: cs_coinbase2_def)
  ultimately have t: "t = validate_payout_async
      (cs_emit (Cs_Frame (wrap_message EXT_COMMON MSG_SET_NEW_PREV_HASH (SetNewPrevHash_serialize (prev_hash_msg job prev chan) [])))
       (cs_emit (Cs_Frame (wrap_message EXT_COMMON MSG_NEW_EXTENDED_MINING_JOB
          (NewExtendedMiningJob_serialize (extended_job_msg job cb1 cb2 path chan) []))) s2))"
    using emit_extended_frames[OF assms(4) p2(1,3), of e cb2] assms(3) p2 plain_fault[OF p2(1)]
    by (simp add: emit_latest_v2_def)
  show "cs_frames t = cs_frames s @
      [wrap_message EXT_COMMON MSG_OPEN_EXTENDED_MINING_CHANNEL_SUCCESS (OpenExtendedMiningChannelSuccess_serialize (channel_success e m en1) []),
       wrap_message EXT_COMMON MSG_NEW_EXTENDED_MINING_JOB (NewExtendedMiningJob_serialize (extended_job_msg job cb1 cb2 path chan) []),
       wrap_message EXT_COMMON MSG_SET_NEW_PREV_HASH (SetNewPrevHash_serialize (prev_hash_msg job prev chan) [])]"
    "cs_extranonce1 t = cs_extranonce1 s" "cs_worker_script_hex t = script_pubkey_hex d" "cs_strat t = cs_strat s"
    using p2 by (simp_all add: t validate_payout_async_def)
qed

text \<open>C4: A Stratum V2 miner and the pool hash the same header. After \<open>OpenExtendedMiningChannel\<close> with an
  address that decodes, the session sends the channel, the job and the previous hash in three frames
  that read back exactly; a miner that follows the protocol on what it read, whatever extranonce,
  version, time and nonce it tries, hashes the bytes whose hex is the header the session rebuilds for
  its submission of that job, over the coinbase with the session's own payout.\<close>

theorem extended_miner_agrees:
  assumes "plain_v2 s" and "cs_extranonce1 s = bytes_to_hex en1" and "length en1 \<le> 32" and "latest_job (cs_strat s) = Some job"
    and "job_bytes job prev bits cb1 path" and "\<And>x. length (ce_sha256 e x) = 32"
    and "decode (ce_sha256 e) (fst (split_worker ''default'' (text_of (oec_user_identity m)))) = Inr d"
    and "build_session_coinbase2 (ce_sha256 e) (chain (ce_coin e)) job (script_pubkey_hex d) = bytes_to_hex cb2" and "length cb2 \<le> 65535"
  shows "\<exists>f1 f2 f3 ch j p. cs_frames (open_extended_channel e m s) = cs_frames s @ [f1, f2, f3] \<and>
    run_parser OpenExtendedMiningChannelSuccess_parse (drop 6 f1) = Inr ch \<and>
    run_parser NewExtendedMiningJob_parse (drop 6 f2) = Inr j \<and> run_parser SetNewPrevHash_parse (drop 6 f3) = Inr p \<and>
    (\<forall>sub. sse_job_id sub = nej_job_id j \<longrightarrow>
      (\<exists>v. extended_share e sub (open_extended_channel e m s) = Inr (Some v) \<and>
        vs_header v = bytes_to_hex (miner_header (ce_sha256 e) ch j p sub) \<and>
        vs_coinbase v = bytes_to_hex (cb1 @ en1 @ sse_extranonce sub @ cb2)))"
proof -
  let ?t = "open_extended_channel e m s" and ?chan = "v2_channel_id e"
  let ?ch = "channel_success e m en1" and ?j = "extended_job_msg job cb1 cb2 path (v2_channel_id e)"
    and ?p = "prev_hash_msg job prev (v2_channel_id e)"
  note o = open_extended_frames[OF assms(1,2,4,5,7,8)]
  have ch: "run_parser OpenExtendedMiningChannelSuccess_parse (OpenExtendedMiningChannelSuccess_serialize ?ch []) = Inr ?ch"
    using assms(3) by (intro run_codec m_oes.read_enc)
      (simp add: OpenExtendedMiningChannelSuccess_ok_def channel_success_def diff_to_target_bytes_def)
  have j: "run_parser NewExtendedMiningJob_parse (NewExtendedMiningJob_serialize ?j []) = Inr ?j"
    using assms(5,9) by (intro run_codec m_nej.read_enc)
      (simp add: NewExtendedMiningJob_ok_def extended_job_msg_def job_bytes_def list_all_iff)
  have p: "run_parser SetNewPrevHash_parse (SetNewPrevHash_serialize ?p []) = Inr ?p"
    using assms(5) by (intro run_codec m_ph.read_enc) (simp add: SetNewPrevHash_ok_def prev_hash_msg_def job_bytes_def)
  have "\<exists>v. extended_share e sub ?t = Inr (Some v) \<and> vs_header v = bytes_to_hex (miner_header (ce_sha256 e) ?ch ?j ?p sub) \<and>
      vs_coinbase v = bytes_to_hex (cb1 @ en1 @ sse_extranonce sub @ cb2)" if "sse_job_id sub = nej_job_id ?j" for sub
  proof -
    have f: "v2_find_job (sse_job_id sub) ?t = Some job"
      using that o(4) assms(4) by (simp add: v2_find_job_def extended_job_msg_def)
    have c: "cs_coinbase2 e job ?t = bytes_to_hex cb2" "cs_extranonce1 ?t = bytes_to_hex en1" "oes_extranonce_prefix ?ch = en1"
      using o(2,3) assms(2,8) by (simp_all add: cs_coinbase2_def channel_success_def)
    show ?thesis
      using extended_share_header[OF assms(5) c(2,1) f assms(6) c(3)] by blast
  qed
  note agree = this
  show ?thesis
  proof (intro exI conjI)
    show "cs_frames ?t = cs_frames s @
      [wrap_message EXT_COMMON MSG_OPEN_EXTENDED_MINING_CHANNEL_SUCCESS (OpenExtendedMiningChannelSuccess_serialize ?ch []),
       wrap_message EXT_COMMON MSG_NEW_EXTENDED_MINING_JOB (NewExtendedMiningJob_serialize ?j []),
       wrap_message EXT_COMMON MSG_SET_NEW_PREV_HASH (SetNewPrevHash_serialize ?p [])]"
      by (rule o(1))
    show "\<forall>sub. sse_job_id sub = nej_job_id ?j \<longrightarrow>
      (\<exists>v. extended_share e sub ?t = Inr (Some v) \<and> vs_header v = bytes_to_hex (miner_header (ce_sha256 e) ?ch ?j ?p sub) \<and>
        vs_coinbase v = bytes_to_hex (cb1 @ en1 @ sse_extranonce sub @ cb2))"
      using agree by blast
  qed (simp_all add: ch j p)
qed

definition sample_open :: OpenExtendedMiningChannel where
  "sample_open = \<lparr>oec_request_id = 5, oec_user_identity = map (\<lambda>c. of_nat (of_char c)) cash32, oec_nominal_hash_rate = 0,
     oec_max_target = replicate 32 0, oec_min_extranonce_size = 4\<rparr>"

lemma text_of_chars: "text_of (map (\<lambda>c. of_nat (of_char c)) s) = s"
proof -
  have "(of_char c :: nat) mod 256 = of_char c" for c
    using of_char_mod_256[of c] by simp
  then show ?thesis
    by (simp add: text_of_def comp_def unat_of_nat)
qed

definition sample_payee :: decoded where
  "sample_payee = \<lparr>d_type = BchP2PKH, d_network = BchMainnet, d_program = map of_nat [0..<32]\<rparr>"

definition sample_suffix :: bytes where
  "sample_suffix = replicate 4 0xff @ varint_bytes 1 @ serialize_out \<lparr>to_value = 50, to_script = script_bytes sample_payee\<rparr> @ replicate 4 0"

lemma sample_suffix:
  "build_session_coinbase2 H Bitcoin sample_job (script_pubkey_hex sample_payee) = bytes_to_hex sample_suffix" "length sample_suffix \<le> 65535"
proof -
  have l: "length (script_bytes sample_payee) < 0xfd"
    by (simp add: script_bytes_def sample_payee_def)
  have h: "bytes_to_hex (replicate 4 0xff) = ''ffffffff''" "bytes_to_hex (replicate 4 0) = ''00000000''"
    by code_simp+
  have n: "bytes_to_hex (script_bytes sample_payee) \<noteq> []"
    by (simp add: bytes_to_hex_Nil_iff script_bytes_def sample_payee_def del: bytes_to_hex.simps)
  show "build_session_coinbase2 H Bitcoin sample_job (script_pubkey_hex sample_payee) = bytes_to_hex sample_suffix"
    using n snprintf_02x_bytes[of 1] append_output_bytes[of 50, OF _ _ l]
    by (simp add: build_session_coinbase2_def script_pubkey_bytes ecash_values_def session_donation_def sample_job_def sample_suffix_def Let_def
        h del: bytes_to_hex.simps)
  show "length sample_suffix \<le> 65535"
    using l by (simp add: sample_suffix_def serialize_out_def varint_bytes_def)
qed

theorem extended_miner_agrees_witness:
  "\<exists>f1 f2 f3 ch j p s. cs_frames (open_extended_channel sample_ce sample_open s) = cs_frames s @ [f1, f2, f3] \<and>
     run_parser OpenExtendedMiningChannelSuccess_parse (drop 6 f1) = Inr ch \<and>
     run_parser NewExtendedMiningJob_parse (drop 6 f2) = Inr j \<and> run_parser SetNewPrevHash_parse (drop 6 f3) = Inr p \<and>
     (\<exists>v. extended_share sample_ce \<lparr>sse_channel_id = 0, sse_sequence_number = 0, sse_job_id = nej_job_id j, sse_nonce = 7, sse_ntime = 8,
          sse_version = 9, sse_extranonce = replicate 8 1\<rparr> (open_extended_channel sample_ce sample_open s) = Inr (Some v) \<and>
        vs_coinbase v = bytes_to_hex (replicate 8 0 @ replicate 8 1 @ sample_suffix))"
proof -
  let ?s = "cs_new sample_ce (zhex 4) ''sid'' sample_strat None ()"
  have s: "plain_v2 ?s" "cs_extranonce1 ?s = bytes_to_hex (replicate 4 0)" "latest_job (cs_strat ?s) = Some sample_job"
    by (simp_all add: plain_v2_def cs_new_def Let_def sample_find) (simp add: zhex_def)
  have j: "job_bytes sample_job (replicate 32 0) (replicate 4 0) (replicate 4 0) []"
    by (simp add: job_bytes_def sample_job_fields) (simp add: zhex_def)
  have h: "length (ce_sha256 sample_ce x) = 32" for x
    by (simp add: sample_ce_fields)
  have w: "fst (split_worker ''default'' (text_of (oec_user_identity sample_open))) = cash32"
    unfolding sample_open_def OpenExtendedMiningChannel.select_convs text_of_chars by (simp add: split_worker_def)
  have d: "decode (ce_sha256 sample_ce) (fst (split_worker ''default'' (text_of (oec_user_identity sample_open)))) = Inr sample_payee"
    unfolding w sample_payee_def by (rule decode_cash32)
  have c: "build_session_coinbase2 (ce_sha256 sample_ce) (chain (ce_coin sample_ce)) sample_job (script_pubkey_hex sample_payee) =
      bytes_to_hex sample_suffix"
    by (simp add: sample_ce_fields sample_suffix)
  have r: "replicate 8 0 = replicate 4 0 @ replicate 4 (0::u8)"
    by (simp add: replicate_add[symmetric])
  have l: "length (replicate 4 (0::u8)) \<le> 32"
    by simp
  let ?t = "open_extended_channel sample_ce sample_open ?s"
  obtain f1 f2 f3 ch j p where r': "cs_frames ?t = cs_frames ?s @ [f1, f2, f3]"
      "run_parser OpenExtendedMiningChannelSuccess_parse (drop 6 f1) = Inr ch"
      "run_parser NewExtendedMiningJob_parse (drop 6 f2) = Inr j" "run_parser SetNewPrevHash_parse (drop 6 f3) = Inr p"
      "sse_job_id sub = nej_job_id j \<Longrightarrow> \<exists>v. extended_share sample_ce sub ?t = Inr (Some v) \<and>
         vs_coinbase v = bytes_to_hex (replicate 8 0 @ sse_extranonce sub @ sample_suffix)" for sub
    using extended_miner_agrees[OF s(1,2) l s(3) j h d c sample_suffix(2)] unfolding r append_assoc by blast
  show ?thesis
    by (rule exI[of _ f1], rule exI[of _ f2], rule exI[of _ f3], rule exI[of _ ch], rule exI[of _ j], rule exI[of _ p], rule exI[of _ ?s])
      (use r' r'(5)[of "\<lparr>sse_channel_id = 0, sse_sequence_number = 0, sse_job_id = nej_job_id j, sse_nonce = 7, sse_ntime = 8,
          sse_version = 9, sse_extranonce = replicate 8 1\<rparr>"] in simp)
qed

end
