(* ===== verification/Redirector.thy ===== *)
theory Redirector
  imports "HOL-Library.Multiset" Session_Common Rate_Limiter
begin

text \<open>
  \<open>src/redirector_session.cpp\<close>: the redirector role. \<open>RedirectorPolicy\<close> chooses a backend for every miner
  (weighted round-robin, random or lowest latency, over the healthy backends), \<open>RedirectorSession\<close> answers
  the miner's subscribe and steers it there with \<open>client.reconnect\<close>. The policy is shared by the sessions
  of a coin; the results of its health probes are events. The random draw of a choice is an argument. Latencies are
  the non-negative finite doubles a probe measures.
\<close>

section \<open>Backend selection\<close>

record redirect_target =
  rt_host :: string
  rt_port :: u16
  rt_weight :: u32

record redirect_config =
  rc_targets :: "redirect_target list"
  rc_strategy :: string
  rc_wait :: u16
  rc_healthCheck :: bool
  rc_interval :: u16
  rc_timeout :: u16

record rp_target =
  tg_host :: string
  tg_port :: u16
  tg_weight :: u32
  tg_up :: bool
  tg_latency_ms :: rat

record redirector_policy =
  rp_targets :: "rp_target list"
  rp_wheel :: "nat list"
  rp_strategy :: string
  rp_wait :: u16
  rp_health_enabled :: bool
  rp_interval_s :: nat
  rp_timeout_ms :: nat
  rp_cursor :: u64
  rp_running :: bool

definition target_weight :: "redirect_target \<Rightarrow> u32" where
  "target_weight t = (if rt_weight t \<noteq> 0 then rt_weight t else 1)"

text \<open>The constructor's loop over the targets: the wheel holds an index \<open>min weight 1000\<close> times.\<close>

primrec rp_expand :: "nat \<Rightarrow> redirect_target list \<Rightarrow> rp_target list \<times> nat list" where
  "rp_expand idx [] = ([], [])"
| "rp_expand idx (t # ts) =
     (let tp = \<lparr>tg_host = rt_host t, tg_port = rt_port t, tg_weight = target_weight t, tg_up = True, tg_latency_ms = 0\<rparr>;
          w = min (tg_weight tp) 1000;
          (targets, wheel) = rp_expand (idx + 1) ts
      in (tp # targets, replicate (unat w) idx @ wheel))"

definition rp_new :: "redirect_config \<Rightarrow> redirector_policy" where
  "rp_new cfg =
     (let (targets, wheel) = rp_expand 0 (rc_targets cfg)
      in \<lparr>rp_targets = targets, rp_wheel = wheel, rp_strategy = rc_strategy cfg, rp_wait = rc_wait cfg,
          rp_health_enabled = rc_healthCheck cfg,
          rp_interval_s = (if rc_interval cfg > 0 then unat (rc_interval cfg) else 10),
          rp_timeout_ms = (if rc_timeout cfg > 0 then unat (rc_timeout cfg) else 1000),
          rp_cursor = 0, rp_running = False\<rparr>)"

definition rp_empty :: "redirector_policy \<Rightarrow> bool" where
  "rp_empty p \<longleftrightarrow> rp_targets p = []"

definition rp_healthy :: "redirector_policy \<Rightarrow> nat \<Rightarrow> bool" where
  "rp_healthy p i \<longleftrightarrow> \<not> rp_health_enabled p \<or> tg_up (rp_targets p ! i)"

definition rp_any_healthy :: "redirector_policy \<Rightarrow> bool" where
  "rp_any_healthy p \<longleftrightarrow> list_ex (rp_healthy p) [0..<length (rp_targets p)]"

definition rp_ok :: "redirector_policy \<Rightarrow> nat \<Rightarrow> bool" where
  "rp_ok p i \<longleftrightarrow> (if rp_any_healthy p then rp_healthy p i else True)"

definition rp_pick :: "redirector_policy \<Rightarrow> nat \<Rightarrow> string \<times> u16" where
  "rp_pick p i = (tg_host (rp_targets p ! i), tg_port (rp_targets p ! i))"

text \<open>The scan for the lowest latency, from \<open>best = -1\<close>, \<open>bl = 1e18\<close>.\<close>

definition latency_step :: "redirector_policy \<Rightarrow> nat \<Rightarrow> nat option \<times> rat \<Rightarrow> nat option \<times> rat" where
  "latency_step p i acc =
     (let (best, bl) = acc
      in if \<not> rp_ok p i then (best, bl)
         else let l = tg_latency_ms (rp_targets p ! i) in if l < bl then (Some i, l) else (best, bl))"

definition rp_best_latency :: "redirector_policy \<Rightarrow> nat option" where
  "rp_best_latency p = fst (fold (latency_step p) [0..<length (rp_targets p)] (None, 10 ^ 18))"

text \<open>The wheel loop; \<open>cursor_\<close> is a \<open>size_t\<close> that wraps.\<close>

primrec rp_turn :: "redirector_policy \<Rightarrow> nat \<Rightarrow> u64 \<Rightarrow> nat option \<times> u64" where
  "rp_turn p 0 cursor = (None, cursor)"
| "rp_turn p (Suc steps) cursor =
     (let i = rp_wheel p ! (unat cursor mod length (rp_wheel p))
      in if rp_ok p i then (Some i, cursor + 1) else rp_turn p steps (cursor + 1))"

definition rp_next :: "nat \<Rightarrow> redirector_policy \<Rightarrow> (string \<times> u16) \<times> redirector_policy" where
  "rp_next rng p =
     (if rp_targets p = [] then (([], 0), p)
      else
        case (if rp_strategy p = ''latency'' \<and> rp_health_enabled p then rp_best_latency p else None) of
          Some best \<Rightarrow> (rp_pick p best, p)
        | None \<Rightarrow>
            let c = List.filter (rp_ok p) [0..<length (rp_targets p)]
            in if rp_strategy p = ''random'' \<and> c \<noteq> [] then (rp_pick p (c ! (rng mod length c)), p)
               else
                 let (found, cursor) = rp_turn p (length (rp_wheel p)) (rp_cursor p);
                     p = p\<lparr>rp_cursor := cursor\<rparr>
                 in (rp_pick p (case found of Some i \<Rightarrow> i | None \<Rightarrow> 0), p))"

section \<open>Health probes\<close>

definition rp_start :: "redirector_policy \<Rightarrow> redirector_policy" where
  "rp_start p = (if \<not> rp_health_enabled p \<or> rp_targets p = [] then p else p\<lparr>rp_running := True\<rparr>)"

definition rp_stop :: "redirector_policy \<Rightarrow> redirector_policy" where
  "rp_stop p = p\<lparr>rp_running := False\<rparr>"

text \<open>The end of the probe of backend \<open>i\<close>: \<open>None\<close> when it did not resolve or connect, else the milliseconds.\<close>

definition rp_probed :: "nat \<Rightarrow> rat option \<Rightarrow> redirector_policy \<Rightarrow> redirector_policy" where
  "rp_probed i r p =
     p\<lparr>rp_targets := (rp_targets p)[i := (case r of
         None \<Rightarrow> (rp_targets p ! i)\<lparr>tg_up := False\<rparr>
       | Some ms \<Rightarrow> (rp_targets p ! i)\<lparr>tg_latency_ms := ms, tg_up := True\<rparr>)]\<rparr>"

definition rp_health :: "redirector_policy \<Rightarrow> (string \<times> u16 \<times> bool \<times> rat) list" where
  "rp_health p = map (\<lambda>t. (tg_host t, tg_port t, tg_up t, tg_latency_ms t)) (rp_targets p)"

section \<open>Sessions\<close>

record rs =
  rs_redirected :: bool
  rs_session_id :: string
  rs_timer :: bool \<comment> \<open>\<open>close_timer_\<close> is armed\<close>
  rs_closed :: bool
  rs_rl :: "rate_limiter option"
  rs_policy :: redirector_policy
  rs_out :: "string list" \<comment> \<open>the lines posted to the miner\<close>

definition rs_new :: "string \<Rightarrow> rate_limiter option \<Rightarrow> redirector_policy \<Rightarrow> rs" where
  "rs_new sid rl p =
     \<lparr>rs_redirected = False, rs_session_id = sid, rs_timer = False, rs_closed = False, rs_rl = rl, rs_policy = p, rs_out = []\<rparr>"

text \<open>The id of a reply; unlike the other sessions it is not escaped.\<close>

definition rs_id_json :: "json \<Rightarrow> string" where
  "rs_id_json msg =
     (case jfield msg ''id'' of
        Some (JInt i) \<Rightarrow> dec_int (sint (of_int i :: i64))
      | Some (JStr s) \<Rightarrow> quoted s
      | _ \<Rightarrow> ''null'')"

definition rs_send :: "string \<Rightarrow> rs \<Rightarrow> rs" where
  "rs_send m s = s\<lparr>rs_out := rs_out s @ [m]\<rparr>"

definition rs_close :: "string \<Rightarrow> rs \<Rightarrow> rs" where
  "rs_close ip s =
     (if rs_closed s then s else s\<lparr>rs_closed := True, rs_rl := map_option (rl_on_disconnect ip) (rs_rl s)\<rparr>)"

definition configure_reply :: "string \<Rightarrow> string" where
  "configure_reply id_json = jq ''{`id`:'' @ id_json @ jq '',`result`:{},`error`:null}'' @ [CHR 10]"

definition reconnect_line :: "string \<times> u16 \<Rightarrow> u16 \<Rightarrow> string" where
  "reconnect_line pick wait =
     jq ''{`id`:null,`method`:`client.reconnect`,`params`:['' @ quoted (fst pick) @ '','' @ dec_string (unat (snd pick)) @ '',''
     @ dec_string (unat wait) @ '']}'' @ [CHR 10]"

definition redirect_now :: "string \<Rightarrow> nat \<Rightarrow> rs \<Rightarrow> rs" where
  "redirect_now ip rng s =
     (if rs_redirected s then s
      else
        let s = s\<lparr>rs_redirected := True\<rparr>
        in if rp_empty (rs_policy s) then rs_close ip s
           else
             let (pick, p) = rp_next rng (rs_policy s);
                 s = rs_send (reconnect_line pick (rp_wait p)) (s\<lparr>rs_policy := p\<rparr>)
             in s\<lparr>rs_timer := True\<rparr>)"

definition rs_on_line :: "string \<Rightarrow> nat \<Rightarrow> json option \<Rightarrow> rs \<Rightarrow> rs" where
  "rs_on_line ip rng parsed s =
     (case parsed of
        None \<Rightarrow> s
      | Some msg \<Rightarrow>
          case method_of msg of
            None \<Rightarrow> s
          | Some m \<Rightarrow>
              if m = ''mining.configure'' then rs_send (configure_reply (rs_id_json msg)) s
              else if m = ''mining.subscribe''
              then redirect_now ip rng (rs_send (subscribe_line (rs_id_json msg) (rs_session_id s) ''00000000'' 4) s)
              else s)"

text \<open>\<open>close_timer_\<close> runs out five seconds after the miner was steered.\<close>

definition rs_on_timer :: "string \<Rightarrow> rs \<Rightarrow> rs" where
  "rs_on_timer ip s = (if rs_timer s then rs_close ip (s\<lparr>rs_timer := False\<rparr>) else s)"

section \<open>Runs of a policy\<close>

datatype rp_event = Rp_Next nat | Rp_Probed nat "rat option" | Rp_Start | Rp_Stop

fun rp_exec :: "rp_event \<Rightarrow> redirector_policy \<Rightarrow> redirector_policy" where
  "rp_exec (Rp_Next rng) p = snd (rp_next rng p)"
| "rp_exec (Rp_Probed i r) p = rp_probed i r p"
| "rp_exec Rp_Start p = rp_start p"
| "rp_exec Rp_Stop p = rp_stop p"

primrec rp_picks :: "nat list \<Rightarrow> redirector_policy \<Rightarrow> (string \<times> u16) list" where
  "rp_picks [] p = []"
| "rp_picks (rng # rngs) p = (let (pick, p) = rp_next rng p in pick # rp_picks rngs p)"

definition endpoint :: "redirect_target \<Rightarrow> string \<times> u16" where
  "endpoint t = (rt_host t, rt_port t)"

text \<open>What the events leave alone.\<close>

definition rp_base :: "redirector_policy \<Rightarrow> (string \<times> u16) list \<times> nat list \<times> string \<times> u16 \<times> bool" where
  "rp_base p =
     (map (\<lambda>t. (tg_host t, tg_port t)) (rp_targets p), rp_wheel p, rp_strategy p, rp_wait p, rp_health_enabled p)"

lemma ok_cursor [simp]: "rp_ok (p\<lparr>rp_cursor := c\<rparr>) = rp_ok p" "rp_pick (p\<lparr>rp_cursor := c\<rparr>) = rp_pick p"
proof -
  have "rp_healthy (p\<lparr>rp_cursor := c\<rparr>) = rp_healthy p"
    by (simp add: rp_healthy_def fun_eq_iff)
  then show "rp_ok (p\<lparr>rp_cursor := c\<rparr>) = rp_ok p" "rp_pick (p\<lparr>rp_cursor := c\<rparr>) = rp_pick p"
    by (auto simp: rp_ok_def[abs_def] rp_any_healthy_def rp_pick_def[abs_def])
qed

lemma next_base [simp]: "rp_base (snd (rp_next rng p)) = rp_base p"
  by (auto simp: rp_next_def rp_base_def Let_def split: option.splits prod.splits)

lemma next_targets [simp]: "rp_targets (snd (rp_next rng p)) = rp_targets p"
  by (auto simp: rp_next_def Let_def split: option.splits prod.splits)

lemma exec_base [simp]: "rp_base (rp_exec ev p) = rp_base p"
proof (cases ev)
  case (Rp_Probed i r)
  have "map (\<lambda>t. (tg_host t, tg_port t)) ((rp_targets p)[i := t]) = map (\<lambda>t. (tg_host t, tg_port t)) (rp_targets p)"
    if "tg_host t = tg_host (rp_targets p ! i)" "tg_port t = tg_port (rp_targets p ! i)" for t
    using that by (metis (no_types, lifting) list_update_id map_update)
  then show ?thesis
    by (simp add: Rp_Probed rp_base_def rp_probed_def split: option.split)
qed (simp_all add: rp_base_def rp_start_def rp_stop_def next_base[unfolded rp_base_def prod.inject])

lemma run_base: "rp_base (fold rp_exec evs p) = rp_base p"
  by (induction evs arbitrary: p) simp_all

lemma length_expand [simp]: "length (fst (rp_expand idx ts)) = length ts"
  by (induction ts arbitrary: idx) (simp_all add: Let_def case_prod_unfold)

lemma expand_endpoints: "map (\<lambda>t. (tg_host t, tg_port t)) (fst (rp_expand idx ts)) = map endpoint ts"
  by (induction ts arbitrary: idx) (simp_all add: Let_def case_prod_unfold endpoint_def)

lemma weight_pos: "0 < unat (min (target_weight t) 1000)"
  by (simp add: target_weight_def min_def unat_gt_0)

lemma expand_wheel: "set (snd (rp_expand idx ts)) = {idx..<idx + length ts}"
proof (induction ts arbitrary: idx)
  case (Cons t ts)
  have "unat (min (target_weight t) 1000) \<noteq> 0"
    using weight_pos[of t] by simp
  then show ?case
    using Cons[of "Suc idx"] by (auto simp: Let_def case_prod_unfold set_replicate_conv_if)
qed simp

lemma expand_mset:
  "mset (map f (snd (rp_expand idx ts))) =
     (\<Sum>i \<leftarrow> [0..<length ts]. replicate_mset (unat (min (target_weight (ts ! i)) 1000)) (f (idx + i)))"
proof (induction ts arbitrary: idx)
  case (Cons t ts)
  have "snd (rp_expand idx (t # ts)) = replicate (unat (min (target_weight t) 1000)) idx @ snd (rp_expand (Suc idx) ts)"
    by (simp add: Let_def case_prod_unfold)
  then have m: "mset (map f (snd (rp_expand idx (t # ts)))) =
      replicate_mset (unat (min (target_weight t) 1000)) (f idx) + mset (map f (snd (rp_expand (Suc idx) ts)))"
    by (simp only: map_append map_replicate mset_append mset_replicate)
  have u: "[0..<length (t # ts)] = 0 # map Suc [0..<length ts]"
    by (simp add: upt_conv_Cons map_Suc_upt del: upt_Suc)
  show ?case
    unfolding m Cons u by (simp add: comp_def)
qed simp

text \<open>A policy made by the constructor for \<open>cfg\<close>.\<close>

definition rp_of :: "redirect_config \<Rightarrow> redirector_policy \<Rightarrow> bool" where
  "rp_of cfg p \<longleftrightarrow> rp_base p = rp_base (rp_new cfg)"

lemma rp_of_run: "rp_of cfg (fold rp_exec evs (rp_new cfg))"
  by (simp add: rp_of_def run_base)

lemma rp_of_facts:
  assumes "rp_of cfg p"
  shows "length (rp_targets p) = length (rc_targets cfg)" "set (rp_wheel p) = {0..<length (rc_targets cfg)}"
    "i < length (rc_targets cfg) \<Longrightarrow> rp_pick p i = endpoint (rc_targets cfg ! i)"
    "rp_strategy p = rc_strategy cfg" "rp_health_enabled p = rc_healthCheck cfg"
    "mset (map f (rp_wheel p)) =
       (\<Sum>i \<leftarrow> [0..<length (rc_targets cfg)]. replicate_mset (unat (min (target_weight (rc_targets cfg ! i)) 1000)) (f i))"
proof -
  have b: "map (\<lambda>t. (tg_host t, tg_port t)) (rp_targets p) = map endpoint (rc_targets cfg)"
      "rp_wheel p = snd (rp_expand 0 (rc_targets cfg))" "rp_strategy p = rc_strategy cfg" "rp_health_enabled p = rc_healthCheck cfg"
    using assms by (simp_all add: rp_of_def rp_base_def rp_new_def case_prod_unfold expand_endpoints Let_def)
  then show "length (rp_targets p) = length (rc_targets cfg)" "set (rp_wheel p) = {0..<length (rc_targets cfg)}"
      "rp_strategy p = rc_strategy cfg" "rp_health_enabled p = rc_healthCheck cfg"
      "mset (map f (rp_wheel p)) =
       (\<Sum>i \<leftarrow> [0..<length (rc_targets cfg)]. replicate_mset (unat (min (target_weight (rc_targets cfg ! i)) 1000)) (f i))"
    using expand_wheel[of 0 "rc_targets cfg"] map_eq_imp_length_eq[OF b(1)] expand_mset[of f 0 "rc_targets cfg"] by simp_all
  show "rp_pick p i = endpoint (rc_targets cfg ! i)" if "i < length (rc_targets cfg)"
    using arg_cong[OF b(1), of "\<lambda>l. l ! i"] that \<open>length (rp_targets p) = length (rc_targets cfg)\<close> by (simp add: rp_pick_def)
qed

section \<open>Every choice is a live backend\<close>

lemma turn_cursor: "unat (snd (rp_turn p k c)) \<le> unat c + k"
proof (induction k arbitrary: c)
  case (Suc k)
  have "unat (c + 1) \<le> unat c + 1"
    using unat_word_ariths(1)[of c 1] by simp
  then show ?case
    using Suc[of "c + 1"] by (simp add: Let_def)
qed simp

lemma next_cursor: "unat (rp_cursor (snd (rp_next rng p))) \<le> unat (rp_cursor p) + length (rp_wheel p)"
  using turn_cursor[of p "length (rp_wheel p)" "rp_cursor p"]
  by (auto simp: rp_next_def Let_def split: option.splits prod.splits)

lemma run_cursor:
  "unat (rp_cursor (fold rp_exec evs p)) \<le> unat (rp_cursor p) + length evs * length (rp_wheel p)"
proof (induction evs arbitrary: p)
  case (Cons ev evs)
  have w: "rp_wheel (rp_exec ev p) = rp_wheel p"
    using exec_base[of ev p] by (simp only: rp_base_def prod.inject)
  have "unat (rp_cursor (rp_exec ev p)) \<le> unat (rp_cursor p) + length (rp_wheel p)"
    using next_cursor by (cases ev) (auto simp: rp_start_def rp_stop_def rp_probed_def)
  then show ?case
    using Cons[of "rp_exec ev p"] by (simp add: w)
qed simp

lemma turn_finds:
  assumes "unat c + k \<le> 2 ^ 64" and "j < k" and "rp_ok p (rp_wheel p ! ((unat c + j) mod length (rp_wheel p)))"
    and "rp_wheel p \<noteq> []"
  shows "\<exists>i \<in> set (rp_wheel p). fst (rp_turn p k c) = Some i \<and> rp_ok p i"
  using assms(1-3)
proof (induction k arbitrary: c j)
  case (Suc k)
  let ?i = "rp_wheel p ! (unat c mod length (rp_wheel p))"
  show ?case
  proof (cases "rp_ok p ?i")
    case True
    have "unat c mod length (rp_wheel p) < length (rp_wheel p)"
      using assms(4) by simp
    then show ?thesis
      using True by (auto simp: Let_def intro: bexI[of _ ?i])
  next
    case False
    then have j: "j \<noteq> 0" "j - 1 < k"
      using Suc.prems by (cases j; simp)+
    have "unat (c + 1) = unat c + 1"
      using Suc.prems(1) j unat_word_ariths(1)[of c 1] by simp
    then show ?thesis
      using Suc.IH[of "c + 1" "j - 1"] Suc.prems j False by (simp add: Let_def)
  qed
qed simp

lemma wheel_turn:
  assumes "unat c + length (rp_wheel p) \<le> 2 ^ 64" and "i \<in> set (rp_wheel p)" and "rp_ok p i"
  shows "\<exists>k \<in> set (rp_wheel p). fst (rp_turn p (length (rp_wheel p)) c) = Some k \<and> rp_ok p k"
proof -
  let ?n = "length (rp_wheel p)"
  obtain m where m: "m < ?n" "rp_wheel p ! m = i"
    using assms(2) by (auto simp: in_set_conv_nth)
  define j where "j = (m + ?n - unat c mod ?n) mod ?n"
  have "(unat c + j) mod ?n = (unat c mod ?n + (m + ?n - unat c mod ?n)) mod ?n"
    by (simp add: j_def mod_simps)
  also have "unat c mod ?n + (m + ?n - unat c mod ?n) = m + ?n"
    using mod_less_divisor[of ?n "unat c"] m(1) by linarith
  also have "(m + ?n) mod ?n = m"
    using m(1) by simp
  finally have "(unat c + j) mod ?n = m" .
  moreover have "j < ?n"
    unfolding j_def by (rule mod_less_divisor) (use m(1) in linarith)
  ultimately show ?thesis
    using turn_finds[OF assms(1), of j] assms(3) m by (metis length_greater_0_conv less_nat_zero_code list.size(3))
qed

lemma best_latency_scan:
  "fold (latency_step p) [0..<k] (None, 10 ^ 18) = (best, bl) \<Longrightarrow>
    bl \<le> 10 ^ 18 \<and> (\<forall>j < k. rp_ok p j \<longrightarrow> bl \<le> tg_latency_ms (rp_targets p ! j)) \<and>
    (case best of None \<Rightarrow> bl = 10 ^ 18 | Some i \<Rightarrow> i < k \<and> rp_ok p i \<and> bl = tg_latency_ms (rp_targets p ! i))"
proof (induction k arbitrary: best bl)
  case (Suc k)
  obtain b l where f: "fold (latency_step p) [0..<k] (None, 10 ^ 18) = (b, l)"
    by (rule prod.exhaust)
  note IH = Suc.IH[OF f]
  have step: "latency_step p k (b, l) = (best, bl)"
    using Suc.prems f by simp
  consider "best = b" "bl = l" "rp_ok p k \<longrightarrow> l \<le> tg_latency_ms (rp_targets p ! k)"
    | "best = Some k" "bl = tg_latency_ms (rp_targets p ! k)" "rp_ok p k" "bl < l"
    using step by (auto simp: latency_step_def Let_def split: if_splits)
  then show ?case
  proof cases
    case 1
    with IH show ?thesis
      by (cases b) (auto simp: less_Suc_eq)
  next
    case 2
    with IH show ?thesis
      by (force simp: less_Suc_eq)
  qed
qed auto

text \<open>The choice in a policy whose next turn of the wheel does not wrap the cursor.\<close>

lemma next_choice:
  assumes "rp_of cfg p" and "rc_targets cfg \<noteq> []" and "unat (rp_cursor p) + length (rp_wheel p) \<le> 2 ^ 64"
  shows "\<exists>i < length (rc_targets cfg). fst (rp_next rng p) = rp_pick p i \<and> rp_ok p i \<and>
    (rc_strategy cfg = ''latency'' \<and> rc_healthCheck cfg \<longrightarrow>
      (\<forall>j < length (rc_targets cfg). rp_ok p j \<and> tg_latency_ms (rp_targets p ! j) < 10 ^ 18 \<longrightarrow>
        tg_latency_ms (rp_targets p ! i) \<le> tg_latency_ms (rp_targets p ! j)))"
proof -
  let ?n = "length (rc_targets cfg)" and ?lat = "\<lambda>i. tg_latency_ms (rp_targets p ! i)"
  note f = rp_of_facts[OF assms(1)]
  have ne: "rp_targets p \<noteq> []"
    using f(1) assms(2) by auto
  have ex: "\<exists>i < ?n. rp_ok p i"
  proof (cases "rp_any_healthy p")
    case True
    then show ?thesis
      using f(1) by (auto simp: rp_ok_def rp_any_healthy_def list_ex_iff)
  next
    case False
    then show ?thesis
      using assms(2) by (auto simp: rp_ok_def intro: exI[of _ 0])
  qed
  obtain best bl where b: "fold (latency_step p) [0..<?n] (None, 10 ^ 18) = (best, bl)"
    by (rule prod.exhaust)
  note scan = best_latency_scan[OF b]
  have bb: "rp_best_latency p = best"
    unfolding rp_best_latency_def f(1) b by simp
  show ?thesis
  proof (cases "rc_strategy cfg = ''latency'' \<and> rc_healthCheck cfg \<and> best \<noteq> None")
    case True
    then obtain i where "best = Some i"
      by auto
    then show ?thesis
      using scan True ne by (intro exI[of _ i]) (auto simp: rp_next_def f(4,5) bb simp del: One_nat_def)
  next
    case False
    have slow: "\<not> ?lat j < 10 ^ 18" if "rc_strategy cfg = ''latency'' \<and> rc_healthCheck cfg" "j < ?n" "rp_ok p j" for j
      using scan that False by auto
    obtain i where i: "i < ?n" "rp_ok p i" "fst (rp_next rng p) = rp_pick p i"
    proof (cases "rc_strategy cfg = ''random''")
      case True
      let ?c = "List.filter (rp_ok p) [0..<?n]"
      have c: "?c \<noteq> []"
        using ex by (auto simp: filter_empty_conv)
      then have "?c ! (rng mod length ?c) \<in> set ?c"
        by (intro nth_mem mod_less_divisor) simp
      then show ?thesis
        using that[of "?c ! (rng mod length ?c)"] True c ne f by (simp add: rp_next_def Let_def)
    next
      case nr: False
      obtain i where "i < ?n" "rp_ok p i"
        using ex by blast
      then obtain k where "k \<in> set (rp_wheel p)" "fst (rp_turn p (length (rp_wheel p)) (rp_cursor p)) = Some k" "rp_ok p k"
        using wheel_turn[OF assms(3), of i] f(2) by auto
      then show ?thesis
        using that[of k] nr ne False f by (auto simp: rp_next_def bb case_prod_unfold Let_def)
    qed
    then show ?thesis
      using slow by (intro exI[of _ i]) auto
  qed
qed


definition sample_redirect :: "bool \<Rightarrow> redirect_config" where
  "sample_redirect health =
     \<lparr>rc_targets = [\<lparr>rt_host = ''a'', rt_port = 1, rt_weight = 0\<rparr>, \<lparr>rt_host = ''b'', rt_port = 2, rt_weight = 2\<rparr>],
      rc_strategy = ''round-robin'', rc_wait = 0, rc_healthCheck = health, rc_interval = 0, rc_timeout = 0\<rparr>"

lemma sample_wheel: "length (rp_wheel (rp_new (sample_redirect h))) = 3" "length (rc_targets (sample_redirect h)) = 2"
    "rc_targets (sample_redirect h) \<noteq> []"
  by (cases h; code_simp)+

lemma sample_probed:
  "tg_up (rp_targets (fold rp_exec [Rp_Start, Rp_Probed 0 None, Rp_Next 7, Rp_Probed 1 (Some 5)] (rp_new (sample_redirect True))) ! i) \<longleftrightarrow> i = 1"
  if "i < 2" for i
  using that by (cases i) (auto simp: less_Suc_eq, code_simp+)


section \<open>Weighted fairness\<close>

lemma picks_round:
  assumes "\<And>i. i \<in> set (rp_wheel p) \<Longrightarrow> rp_ok p i" and "rp_targets p \<noteq> []" and "rp_wheel p \<noteq> []"
    and "rp_strategy p \<noteq> ''random''" and "\<not> (rp_strategy p = ''latency'' \<and> rp_health_enabled p)"
    and "unat (rp_cursor p) + length rngs < 2 ^ 64"
  shows "rp_picks rngs p =
    map (\<lambda>j. rp_pick p (rp_wheel p ! ((unat (rp_cursor p) + j) mod length (rp_wheel p)))) [0..<length rngs]"
  using assms
proof (induction rngs arbitrary: p)
  case (Cons rng rngs)
  let ?n = "length (rp_wheel p)" and ?c = "rp_cursor p"
  let ?p = "p\<lparr>rp_cursor := ?c + 1\<rparr>"
  have i: "rp_wheel p ! (unat ?c mod ?n) \<in> set (rp_wheel p)"
    using Cons.prems(3) by simp
  have u: "unat (?c + 1) = unat ?c + 1"
    using Cons.prems(6) unat_word_ariths(1)[of ?c 1] by simp
  obtain m where n: "?n = Suc m"
    using Cons.prems(3) by (cases "rp_wheel p") auto
  have t: "rp_turn p ?n ?c = (Some (rp_wheel p ! (unat ?c mod ?n)), ?c + 1)"
    using Cons.prems(1)[OF i] by (subst n) (simp add: Let_def)
  have nx: "rp_next rng p = (rp_pick p (rp_wheel p ! (unat ?c mod ?n)), ?p)"
    using Cons.prems(2,4,5) by (auto simp: rp_next_def t Let_def)
  have IH: "rp_picks rngs ?p = map (\<lambda>j. rp_pick p (rp_wheel p ! ((unat ?c + 1 + j) mod ?n))) [0..<length rngs]"
    using Cons.IH[of ?p] Cons.prems u by simp
  show ?case
    by (simp add: nx IH upt_conv_Cons map_Suc_upt[symmetric] comp_def del: upt_Suc)
qed simp

lemma mset_rotate1: "mset (rotate1 xs) = mset xs"
  by (cases xs) simp_all

lemma mset_rotate: "mset (rotate c xs) = mset xs"
proof (induction c)
  case (Suc c)
  then show ?case
    by (simp only: rotate_Suc mset_rotate1)
qed simp

lemma mset_turn: "xs \<noteq> [] \<Longrightarrow> mset (map (\<lambda>j. f (xs ! ((c + j) mod length xs))) [0..<length xs]) = mset (map f xs)"
proof -
  assume "xs \<noteq> []"
  have "map (\<lambda>j. f (xs ! ((c + j) mod length xs))) [0..<length xs] = map f (rotate c xs)"
    by (rule nth_equalityI) (simp_all add: nth_rotate)
  moreover have "mset (rotate c xs) = mset xs"
    by (rule mset_rotate)
  ultimately show ?thesis
    by simp
qed

lemma mset_turns:
  "xs \<noteq> [] \<Longrightarrow> mset (map (\<lambda>j. f (xs ! ((c + j) mod length xs))) [0..<k * length xs]) = repeat_mset k (mset (map f xs))"
proof (induction k)
  case (Suc k)
  let ?n = "length xs"
  have "[0..<Suc k * ?n] = [0..<k * ?n] @ map (\<lambda>j. j + k * ?n) [0..<?n]"
    using upt_add_eq_append[of 0 "k * ?n" ?n] by (simp add: map_add_upt add.commute)
  moreover have "(c + (j + k * ?n)) mod ?n = (c + j) mod ?n" for j
    by (simp add: add.assoc[symmetric])
  ultimately show ?case
    using Suc mset_turn[OF Suc.prems, of f c] by (simp add: comp_def)
qed simp

text \<open>C29: The rotation is fair by weight. While every backend counts as healthy, the choices of \<open>k\<close> turns of the wheel,
  wherever the shared cursor stands, send to each backend exactly \<open>k\<close> times its weight (an absent weight
  counts 1, one above 1000 counts 1000), whatever the sessions' random draws.\<close>

theorem redirector_is_weighted_fair:
  assumes "p = fold rp_exec evs (rp_new cfg)" and "rc_targets cfg \<noteq> []"
    and "\<And>i. i < length (rc_targets cfg) \<Longrightarrow> rp_healthy p i"
    and "rc_strategy cfg \<noteq> ''random''" and "\<not> (rc_strategy cfg = ''latency'' \<and> rc_healthCheck cfg)"
    and "length rngs = k * length (rp_wheel (rp_new cfg))"
    and "length evs * length (rp_wheel (rp_new cfg)) + length rngs < 2 ^ 64"
  shows "mset (rp_picks rngs p) =
    repeat_mset k (\<Sum>t \<leftarrow> rc_targets cfg. replicate_mset (unat (min (target_weight t) 1000)) (endpoint t))"
proof -
  have o: "rp_of cfg p"
    unfolding assms(1) by (rule rp_of_run)
  note f = rp_of_facts[OF o]
  have w: "rp_wheel p = rp_wheel (rp_new cfg)"
    using o by (simp add: rp_of_def rp_base_def)
  have ne: "rp_wheel p \<noteq> []" "rp_targets p \<noteq> []"
    using f(1,2) assms(2) by auto
  have "unat (rp_cursor p) \<le> length evs * length (rp_wheel p)"
    using run_cursor[of evs "rp_new cfg"] unfolding assms(1)[symmetric] w by (simp add: rp_new_def case_prod_unfold Let_def)
  then have c: "unat (rp_cursor p) + length rngs < 2 ^ 64"
    using assms(7) unfolding w by simp
  have ok: "rp_ok p i" if "i \<in> set (rp_wheel p)" for i
    using assms(3)[of i] that f(2) by (auto simp: rp_ok_def)
  have "mset (rp_picks rngs p) = repeat_mset k (mset (map (rp_pick p) (rp_wheel p)))"
    using picks_round[OF ok ne(2,1) _ _ c] mset_turns[OF ne(1), of "rp_pick p"] f(4,5) assms(4-6) by (simp add: w)
  also have "mset (map (rp_pick p) (rp_wheel p)) =
      (\<Sum>i \<leftarrow> [0..<length (rc_targets cfg)]. replicate_mset (unat (min (target_weight (rc_targets cfg ! i)) 1000)) (endpoint (rc_targets cfg ! i)))"
    unfolding f(6) by (intro arg_cong[of _ _ sum_list] map_cong) (simp_all add: f(3))
  also have "\<dots> = (\<Sum>t \<leftarrow> rc_targets cfg. replicate_mset (unat (min (target_weight t) 1000)) (endpoint t))"
    by (intro arg_cong[of _ _ sum_list] nth_equalityI) simp_all
  finally show ?thesis .
qed

theorem redirector_is_weighted_fair_witness:
  "mset (rp_picks [0, 0, 0, 0, 0, 0] (rp_new (sample_redirect False))) = {#(''a'', 1), (''a'', 1), (''b'', 2), (''b'', 2), (''b'', 2), (''b'', 2)#}"
proof -
  have h: "rp_healthy (rp_new (sample_redirect False)) i" for i
    by (simp add: rp_healthy_def rp_new_def sample_redirect_def case_prod_unfold Let_def)
  have "mset (rp_picks [0, 0, 0, 0, 0, 0] (rp_new (sample_redirect False))) =
      repeat_mset 2 (\<Sum>t \<leftarrow> rc_targets (sample_redirect False). replicate_mset (unat (min (target_weight t) 1000)) (endpoint t))"
    by (rule redirector_is_weighted_fair[of _ "[]"]) (simp_all add: sample_wheel h, simp_all add: sample_redirect_def)
  also have "(\<Sum>t \<leftarrow> rc_targets (sample_redirect False). replicate_mset (unat (min (target_weight t) 1000)) (endpoint t)) =
      {#(''a'', 1), (''b'', 2), (''b'', 2)#}"
    by code_simp
  also have "repeat_mset 2 \<dots> = {#(''a'', 1), (''a'', 1), (''b'', 2), (''b'', 2), (''b'', 2), (''b'', 2)#}"
    by (simp add: numeral_2_eq_2)
  finally show ?thesis .
qed

section \<open>A session is steered once\<close>

definition is_subscribe :: "json option \<Rightarrow> bool" where
  "is_subscribe m \<longleftrightarrow> (case m of Some msg \<Rightarrow> method_of msg = Some ''mining.subscribe'' | None \<Rightarrow> False)"

definition rs_replies :: "string \<Rightarrow> json option \<Rightarrow> string list" where
  "rs_replies sid m =
     (case m of
        None \<Rightarrow> []
      | Some msg \<Rightarrow>
          if method_of msg = Some ''mining.configure'' then [configure_reply (rs_id_json msg)]
          else if method_of msg = Some ''mining.subscribe'' then [subscribe_line (rs_id_json msg) sid ''00000000'' 4] else [])"

abbreviation rs_lines :: "string \<Rightarrow> (nat \<times> json option) list \<Rightarrow> rs \<Rightarrow> rs" where
  "rs_lines ip \<equiv> fold (\<lambda>(rng, m). rs_on_line ip rng m)"

lemma on_line_quiet:
  assumes "rs_redirected s \<or> \<not> is_subscribe m"
  shows "rs_on_line ip rng m s = s\<lparr>rs_out := rs_out s @ rs_replies (rs_session_id s) m\<rparr>"
  using assms
  by (cases m) (auto simp: rs_on_line_def rs_replies_def is_subscribe_def rs_send_def redirect_now_def split: option.split)

lemma lines_quiet:
  "rs_redirected s \<or> (\<forall>x \<in> set msgs. \<not> is_subscribe (snd x)) \<Longrightarrow>
    rs_lines ip msgs s = s\<lparr>rs_out := rs_out s @ concat (map (\<lambda>x. rs_replies (rs_session_id s) (snd x)) msgs)\<rparr>"
proof (induction msgs arbitrary: s)
  case (Cons x msgs)
  have "rs_lines ip (x # msgs) s = rs_lines ip msgs (s\<lparr>rs_out := rs_out s @ rs_replies (rs_session_id s) (snd x)\<rparr>)"
    using on_line_quiet[of s "snd x" ip "fst x"] Cons.prems by (auto simp: case_prod_unfold)
  then show ?case
    using Cons.IH[of "s\<lparr>rs_out := rs_out s @ rs_replies (rs_session_id s) (snd x)\<rparr>"] Cons.prems by auto
qed simp

text \<open>The first subscribe is answered and the miner steered to the policy's choice at once; later messages are answered
  but never steer again, and the timer closes the session.\<close>

theorem redirector_steers_once:
  assumes "\<not> rp_empty p" and "\<forall>x \<in> set pre. \<not> is_subscribe (snd x)" and "is_subscribe m"
    and s_def: "s = rs_lines ip (pre @ (rng, m) # post) (rs_new sid rl p)"
  shows "rs_out s = concat (map (\<lambda>x. rs_replies sid (snd x)) pre) @ rs_replies sid m
      @ reconnect_line (fst (rp_next rng p)) (rp_wait p) # concat (map (\<lambda>x. rs_replies sid (snd x)) post)"
    "rs_policy s = snd (rp_next rng p)" "\<not> rs_closed s" "rs_closed (rs_on_timer ip s)"
proof -
  let ?a = "concat (map (\<lambda>x. rs_replies sid (snd x)) pre)"
  let ?s1 = "(rs_new sid rl p)\<lparr>rs_out := ?a\<rparr>"
  have p: "rs_lines ip pre (rs_new sid rl p) = ?s1"
    using lines_quiet[of "rs_new sid rl p" pre ip] assms(2) by (simp add: rs_new_def)
  obtain msg where msg: "m = Some msg" "method_of msg = Some ''mining.subscribe''"
    using assms(3) by (auto simp: is_subscribe_def split: option.splits)
  have w: "rp_wait (snd (rp_next rng p)) = rp_wait p"
    using next_base[of rng p] by (simp only: rp_base_def prod.inject)
  have q: "rs_on_line ip rng m ?s1 =
      ?s1\<lparr>rs_out := ?a @ rs_replies sid m @ [reconnect_line (fst (rp_next rng p)) (rp_wait p)], rs_redirected := True,
        rs_policy := snd (rp_next rng p), rs_timer := True\<rparr>"
    using assms(1) w
    by (simp add: rs_on_line_def msg redirect_now_def rs_send_def rs_new_def rs_replies_def case_prod_unfold Let_def)
  have s: "s = rs_lines ip post (rs_on_line ip rng m ?s1)"
    by (simp add: s_def p)
  show "rs_out s = ?a @ rs_replies sid m
      @ reconnect_line (fst (rp_next rng p)) (rp_wait p) # concat (map (\<lambda>x. rs_replies sid (snd x)) post)"
      "rs_policy s = snd (rp_next rng p)" "\<not> rs_closed s" "rs_closed (rs_on_timer ip s)"
    unfolding s q by (simp_all add: lines_quiet, simp_all add: rs_new_def rs_on_timer_def rs_close_def)
qed

end
