(* ===== verification/Sv2_Noise.thy ===== *)
theory Sv2_Noise
  imports Upstream_Types
begin

text \<open>
  \<open>src/sv2_noise.cpp\<close>: the responder of the Noise NX handshake of Stratum V2 and its transport ciphers. The
  primitives of libsodium and libsecp256k1 are the record \<open>noise_prims\<close>, an argument of every function
  that uses them; the bytes of the random generator are the list of draws a function consumes, and \<open>None\<close>
  is a loop that has not ended when they run out.

  The reference is the initiator of the protocol: \<open>noise_initiator\<close> is what a miner computes from the
  reply. The hypotheses \<open>prims_ok\<close> are the documented behaviour of the primitives.
\<close>

section \<open>Primitives\<close>

record noise_prims =
  np_sha256 :: "bytes \<Rightarrow> bytes"
  np_hmac :: "bytes \<Rightarrow> bytes \<Rightarrow> bytes" \<comment> \<open>key, data\<close>
  np_seal :: "bytes \<Rightarrow> bytes \<Rightarrow> bytes \<Rightarrow> bytes \<Rightarrow> bytes" \<comment> \<open>key, nonce, associated data, plaintext\<close>
  np_open :: "bytes \<Rightarrow> bytes \<Rightarrow> bytes \<Rightarrow> bytes \<Rightarrow> bytes option"
  np_pubkey :: "bytes \<Rightarrow> bytes option" \<comment> \<open>\<open>None\<close>: not a secret key\<close>
  np_xonly :: "bytes \<Rightarrow> bytes \<times> bool" \<comment> \<open>x coordinate, odd\<close>
  np_negate :: "bytes \<Rightarrow> bytes option"
  np_ellswift :: "bytes \<Rightarrow> bytes \<Rightarrow> bytes option" \<comment> \<open>secret key, auxiliary randomness\<close>
  np_ell_decode :: "bytes \<Rightarrow> bytes option"
  np_xdh :: "bytes \<Rightarrow> bytes \<Rightarrow> bytes \<Rightarrow> bool \<Rightarrow> bytes option" \<comment> \<open>keys of A and B, secret key, whether it is B's\<close>
  np_keypair :: "bytes \<Rightarrow> bool"
  np_sign :: "bytes \<Rightarrow> bytes \<Rightarrow> bytes \<Rightarrow> bytes option" \<comment> \<open>message, secret key, auxiliary randomness\<close>

section \<open>State\<close>

record noise_state =
  ns_handshake_complete :: bool
  ns_ck :: bytes
  ns_h :: bytes
  ns_rx_key :: bytes
  ns_tx_key :: bytes
  ns_rx_nonce :: u64
  ns_tx_nonce :: u64
  ns_authority_priv :: bytes
  ns_s_priv :: bytes
  ns_s_pub :: bytes
  ns_e_priv :: bytes
  ns_e_pub :: bytes
  ns_e_pub_A :: bytes

definition ns_new :: noise_state where
  "ns_new =
     \<lparr>ns_handshake_complete = False, ns_ck = replicate 32 0, ns_h = replicate 32 0, ns_rx_key = replicate 32 0,
      ns_tx_key = replicate 32 0, ns_rx_nonce = 0, ns_tx_nonce = 0, ns_authority_priv = replicate 32 0,
      ns_s_priv = replicate 32 0, ns_s_pub = replicate 64 0, ns_e_priv = replicate 32 0, ns_e_pub = replicate 64 0,
      ns_e_pub_A = replicate 64 0\<rparr>"

text \<open>Move construction into an object whose authority key is \<open>uninit\<close>: that member is not moved.\<close>

definition ns_move :: "bytes \<Rightarrow> noise_state \<Rightarrow> noise_state" where
  "ns_move uninit other = other\<lparr>ns_authority_priv := uninit\<rparr>"

section \<open>Initialisation\<close>

text \<open>\<open>strtol\<close> of a two-character C string, base 16: the value as a byte, and what follows it.\<close>

definition strtol_byte :: "string \<Rightarrow> u8 \<times> string" where
  "strtol_byte two =
     (let s = takeWhile (\<lambda>c. c \<noteq> CHR 0x00) two;
          (neg, t) = strip_sign (dropWhile is_space s);
          ds = takeWhile is_hex_char t;
          v = int (hex_digits_val ds 0)
      in if ds = [] then (0, s) else (of_int (if neg then - v else v), drop (length ds) t))"

text \<open>The loop over the output buffer; it stops at the first pair with unread characters.\<close>

fun fill_hex :: "string \<Rightarrow> bytes \<Rightarrow> bool \<times> bytes" where
  "fill_hex (a # b # s) (x # out) =
     (let (v, rest) = strtol_byte [a, b]
      in if rest \<noteq> [] then (False, v # out)
         else let (ok, r) = fill_hex s out in (ok, v # r))"
| "fill_hex _ out = (True, out)"

definition noise_hex_to_bytes :: "string \<Rightarrow> bytes \<Rightarrow> bool \<times> bytes" where
  "noise_hex_to_bytes hex out = (if length hex \<noteq> length out * 2 then (False, out) else fill_hex hex out)"

text \<open>Keys are drawn until one is valid; a key whose public key is odd is negated.\<close>

fun draw_key :: "noise_prims \<Rightarrow> bytes list \<Rightarrow> (bytes \<times> bytes list) option" where
  "draw_key P [] = None"
| "draw_key P (k # ds) =
     (case np_pubkey P k of
        None \<Rightarrow> draw_key P ds
      | Some pub \<Rightarrow>
          if snd (np_xonly P pub)
          then (case np_negate P k of None \<Rightarrow> draw_key P ds | Some k' \<Rightarrow> Some (k', ds))
          else Some (k, ds))"

fun next_draw :: "bytes list \<Rightarrow> (bytes \<times> bytes list) option" where
  "next_draw [] = None"
| "next_draw (d # ds) = Some (d, ds)"

definition proto_name :: bytes where
  "proto_name = ascii ''Noise_NX_Secp256k1+EllSwift_ChaChaPoly_SHA256''"

definition ns_initialize ::
  "noise_prims \<Rightarrow> string \<Rightarrow> bytes list \<Rightarrow> noise_state \<Rightarrow> (bool \<times> noise_state \<times> bytes list) option" where
  "ns_initialize P authority_key_hex ds s =
     (let (ok, key) = noise_hex_to_bytes authority_key_hex (ns_authority_priv s);
          s = s\<lparr>ns_authority_priv := key\<rparr>
      in if \<not> ok then Some (False, s, ds)
         else
           case draw_key P ds of
             None \<Rightarrow> None
           | Some (priv, ds) \<Rightarrow>
               case next_draw ds of
                 None \<Rightarrow> None
               | Some (aux, ds) \<Rightarrow>
                   (case np_ellswift P priv aux of
                      None \<Rightarrow> Some (False, s\<lparr>ns_s_priv := priv\<rparr>, ds)
                    | Some pub \<Rightarrow>
                        let ck = np_sha256 P proto_name
                        in Some (True, s\<lparr>ns_s_priv := priv, ns_s_pub := pub, ns_ck := ck, ns_h := np_sha256 P ck\<rparr>, ds)))"

section \<open>Handshake\<close>

definition mix_hash :: "noise_prims \<Rightarrow> bytes \<Rightarrow> noise_state \<Rightarrow> noise_state" where
  "mix_hash P data s = s\<lparr>ns_h := np_sha256 P (ns_h s @ data)\<rparr>"

definition mix_key :: "noise_prims \<Rightarrow> bytes \<Rightarrow> noise_state \<Rightarrow> bytes \<times> noise_state" where
  "mix_key P ikm s =
     (let prk = np_hmac P (ns_ck s) ikm;
          ck = np_hmac P prk [0x01];
          out = np_hmac P prk (ck @ [0x02])
      in (out, s\<lparr>ns_ck := ck\<rparr>))"

definition process_act1 :: "noise_prims \<Rightarrow> bytes \<Rightarrow> noise_state \<Rightarrow> noise_state" where
  "process_act1 P client_ellswift s = mix_hash P [] (mix_hash P client_ellswift (s\<lparr>ns_e_pub_A := client_ellswift\<rparr>))"

definition zero_nonce :: bytes where
  "zero_nonce = replicate 12 0"

text \<open>Version 0, valid from an hour ago for a year from now.\<close>

definition cert_head :: "u32 \<Rightarrow> bytes" where
  "cert_head now_s =
     (let valid_from = now_s - 3600; not_valid_after = now_s + 365 * 24 * 3600
      in [0x00, 0x00] @ map (byte_of valid_from) [0..<4] @ map (byte_of not_valid_after) [0..<4])"

definition noise_error :: "string \<Rightarrow> 'a res option" where
  "noise_error m = Some (Inl (Runtime_Error m))"

text \<open>The certificate of the static key, signed with the authority key.\<close>

definition sign_cert :: "noise_prims \<Rightarrow> u32 \<Rightarrow> bytes list \<Rightarrow> noise_state \<Rightarrow> (bytes \<times> bytes list) res option" where
  "sign_cert P now_s ds s =
     (let head = cert_head now_s
      in case np_ell_decode P (ns_s_pub s) of
           None \<Rightarrow> noise_error ''Failed to decode server static EllSwift public key''
         | Some full \<Rightarrow>
             let hash = np_sha256 P (head @ fst (np_xonly P full))
             in if \<not> np_keypair P (ns_authority_priv s)
                then noise_error ''Failed to create secp256k1 keypair from authority private key''
                else case next_draw ds of
                       None \<Rightarrow> None
                     | Some (aux, ds) \<Rightarrow>
                         (case np_sign P hash (ns_authority_priv s) aux of
                            None \<Rightarrow> noise_error ''Schnorr BIP340 signature creation failed''
                          | Some sig \<Rightarrow> Some (Inr (head @ sig, ds))))"

text \<open>The transport keys of both directions, from the chaining key.\<close>

definition noise_split :: "noise_prims \<Rightarrow> bytes \<Rightarrow> bytes \<times> bytes" where
  "noise_split P ck =
     (let prk = np_hmac P ck [];
          k1 = np_hmac P prk [0x01]
      in (k1, np_hmac P prk (k1 @ [0x02])))"

definition act2_keys :: "noise_prims \<Rightarrow> bytes list \<Rightarrow> noise_state \<Rightarrow> (noise_state \<times> bytes list) res option" where
  "act2_keys P ds s =
     (case draw_key P ds of
        None \<Rightarrow> None
      | Some (priv, ds) \<Rightarrow>
          case next_draw ds of
            None \<Rightarrow> None
          | Some (aux, ds) \<Rightarrow>
              (case np_ellswift P priv aux of
                 None \<Rightarrow> noise_error ''Failed to construct server ephemeral EllSwift key''
               | Some pub \<Rightarrow> Some (Inr (mix_hash P pub (s\<lparr>ns_e_priv := priv, ns_e_pub := pub\<rparr>), ds))))"

definition generate_act2 ::
  "noise_prims \<Rightarrow> u32 \<Rightarrow> bytes list \<Rightarrow> noise_state \<Rightarrow> (bytes \<times> noise_state \<times> bytes list) res option" where
  "generate_act2 P now_s ds s =
     (case act2_keys P ds s of
        None \<Rightarrow> None
      | Some (Inl x) \<Rightarrow> Some (Inl x)
      | Some (Inr (s, ds)) \<Rightarrow>
          (case np_xdh P (ns_e_pub_A s) (ns_e_pub s) (ns_e_priv s) True of
             None \<Rightarrow> noise_error ''secp256k1_ellswift_xdh for ee failed''
           | Some ee \<Rightarrow>
               let (k1, s) = mix_key P ee s;
                   c_s = np_seal P k1 zero_nonce (ns_h s) (ns_s_pub s);
                   s = mix_hash P c_s s
               in (case np_xdh P (ns_e_pub_A s) (ns_s_pub s) (ns_s_priv s) True of
                     None \<Rightarrow> noise_error ''secp256k1_ellswift_xdh for es failed''
                   | Some es \<Rightarrow>
                       let (k2, s) = mix_key P es s
                       in (case sign_cert P now_s ds s of
                             None \<Rightarrow> None
                           | Some (Inl x) \<Rightarrow> Some (Inl x)
                           | Some (Inr (cert, ds)) \<Rightarrow>
                               let c_sig = np_seal P k2 zero_nonce (ns_h s) cert;
                                   s = mix_hash P c_sig s;
                                   (rx, tx) = noise_split P (ns_ck s)
                               in Some (Inr (ns_e_pub s @ c_s @ c_sig,
                                    s\<lparr>ns_rx_key := rx, ns_tx_key := tx, ns_rx_nonce := 0, ns_tx_nonce := 0,
                                      ns_handshake_complete := True\<rparr>, ds))))))"

section \<open>Transport\<close>

definition nonce_bytes :: "u64 \<Rightarrow> bytes" where
  "nonce_bytes n = replicate 4 0 @ map (byte_of n) [0..<8]"

definition ns_decrypt :: "noise_prims \<Rightarrow> noise_state \<Rightarrow> bytes \<Rightarrow> (bytes \<times> noise_state) option" where
  "ns_decrypt P s ciphertext =
     (if length ciphertext < 16 then None
      else case np_open P (ns_rx_key s) (nonce_bytes (ns_rx_nonce s)) [] ciphertext of
             None \<Rightarrow> None
           | Some m \<Rightarrow> Some (m, s\<lparr>ns_rx_nonce := ns_rx_nonce s + 1\<rparr>))"

definition ns_encrypt :: "noise_prims \<Rightarrow> noise_state \<Rightarrow> bytes \<Rightarrow> bytes \<times> noise_state" where
  "ns_encrypt P s plaintext =
     (np_seal P (ns_tx_key s) (nonce_bytes (ns_tx_nonce s)) [] plaintext, s\<lparr>ns_tx_nonce := ns_tx_nonce s + 1\<rparr>)"

section \<open>The initiator\<close>

text \<open>
  A miner with the ephemeral key pair \<open>(ea, EA)\<close> that knows how to verify the pool's signature: its keys for sending
  and for receiving and the pool's static key, or \<open>None\<close> when the reply does not authenticate.
\<close>

definition noise_initiator ::
  "noise_prims \<Rightarrow> (bytes \<Rightarrow> bytes \<Rightarrow> bool) \<Rightarrow> u32 \<Rightarrow> bytes \<Rightarrow> bytes \<Rightarrow> bytes \<Rightarrow> (bytes \<times> bytes \<times> bytes) option" where
  "noise_initiator P verify now ea EA act2 =
     (let re = take 64 act2; c_s = take 80 (drop 64 act2); c_sig = drop 144 act2;
          s = ns_new\<lparr>ns_ck := np_sha256 P proto_name, ns_h := np_sha256 P (np_sha256 P proto_name)\<rparr>;
          s = mix_hash P re (mix_hash P [] (mix_hash P EA s))
      in case np_xdh P EA re ea False of
           None \<Rightarrow> None
         | Some ee \<Rightarrow>
             let (k1, s) = mix_key P ee s
             in case np_open P k1 zero_nonce (ns_h s) c_s of
                  None \<Rightarrow> None
                | Some rs \<Rightarrow>
                    let s = mix_hash P c_s s
                    in case np_xdh P EA rs ea False of
                         None \<Rightarrow> None
                       | Some es \<Rightarrow>
                           let (k2, s) = mix_key P es s
                           in case np_open P k2 zero_nonce (ns_h s) c_sig of
                                None \<Rightarrow> None
                              | Some cert \<Rightarrow>
                                  let valid_from = le_val (take 4 (drop 2 cert)); until = le_val (take 4 (drop 6 cert))
                                  in case np_ell_decode P rs of
                                       None \<Rightarrow> None
                                     | Some full \<Rightarrow>
                                         if take 2 cert = [0, 0] \<and> valid_from \<le> unat now \<and> unat now \<le> until
                                           \<and> verify (np_sha256 P (take 10 cert @ fst (np_xonly P full))) (drop 10 cert)
                                         then let (k1, k2) = noise_split P (ns_ck (mix_hash P c_sig s)) in Some (k1, k2, rs)
                                         else None)"

text \<open>The documented behaviour of the primitives.\<close>

definition prims_ok :: "noise_prims \<Rightarrow> bool" where
  "prims_ok P \<longleftrightarrow>
     (\<forall>k n ad m. np_open P k n ad (np_seal P k n ad m) = Some m \<and> length (np_seal P k n ad m) = length m + 16) \<and>
     (\<forall>a x A b y B z. np_ellswift P a x = Some A \<longrightarrow> np_ellswift P b y = Some B \<longrightarrow> np_xdh P A B b True = Some z \<longrightarrow>
        np_xdh P A B a False = Some z) \<and>
     (\<forall>a x A. np_ellswift P a x = Some A \<longrightarrow> length A = 64) \<and>
     (\<forall>m k x sig. np_sign P m k x = Some sig \<longrightarrow> length sig = 64)"

section \<open>Handshake and transport agree\<close>

definition noise_peer :: "bytes \<times> bytes \<times> bytes \<Rightarrow> noise_state" where
  "noise_peer keys = (case keys of (tx, rx, _) \<Rightarrow> ns_new\<lparr>ns_tx_key := tx, ns_rx_key := rx, ns_handshake_complete := True\<rparr>)"

text \<open>A conversation over the transport: each side encrypts, the other decrypts; the plaintexts as received.\<close>

fun noise_talk :: "noise_prims \<Rightarrow> (bool \<times> bytes) list \<Rightarrow> noise_state \<Rightarrow> noise_state \<Rightarrow> bytes list option" where
  "noise_talk P [] pool miner = Some []"
| "noise_talk P ((from_pool, m) # ms) pool miner =
     (let (c, sender) = ns_encrypt P (if from_pool then pool else miner) m
      in case ns_decrypt P (if from_pool then miner else pool) c of
           None \<Rightarrow> None
         | Some (m', receiver) \<Rightarrow>
             map_option ((#) m') (if from_pool then noise_talk P ms sender receiver else noise_talk P ms receiver sender))"

definition in_step :: "noise_state \<Rightarrow> noise_state \<Rightarrow> bool" where
  "in_step a b \<longleftrightarrow> ns_tx_key a = ns_rx_key b \<and> ns_rx_key a = ns_tx_key b \<and> ns_tx_nonce a = ns_rx_nonce b \<and> ns_rx_nonce a = ns_tx_nonce b"

lemma seal_open: "prims_ok P \<Longrightarrow> np_open P k n ad (np_seal P k n ad m) = Some m"
    "prims_ok P \<Longrightarrow> length (np_seal P k n ad m) = length m + 16"
  by (simp_all add: prims_ok_def)

lemma talk_in_step: "prims_ok P \<Longrightarrow> in_step pool miner \<Longrightarrow> noise_talk P ms pool miner = Some (map snd ms)"
proof (induction ms arbitrary: pool miner)
  case (Cons x ms)
  obtain d m where x: "x = (d, m)"
    by (cases x)
  show ?case
    using Cons.IH[of "pool\<lparr>ns_tx_nonce := ns_tx_nonce pool + 1\<rparr>" "miner\<lparr>ns_rx_nonce := ns_rx_nonce miner + 1\<rparr>"]
      Cons.IH[of "pool\<lparr>ns_rx_nonce := ns_rx_nonce pool + 1\<rparr>" "miner\<lparr>ns_tx_nonce := ns_tx_nonce miner + 1\<rparr>"] Cons.prems
    by (cases d) (simp_all add: x ns_encrypt_def ns_decrypt_def in_step_def seal_open)
qed simp

lemma mix_simps:
  "ns_s_pub (mix_hash P d s) = ns_s_pub s" "ns_s_priv (mix_hash P d s) = ns_s_priv s" "ns_ck (mix_hash P d s) = ns_ck s"
  "ns_e_pub_A (mix_hash P d s) = ns_e_pub_A s" "ns_e_pub (mix_hash P d s) = ns_e_pub s" "ns_e_priv (mix_hash P d s) = ns_e_priv s"
  "ns_authority_priv (mix_hash P d s) = ns_authority_priv s" "ns_h (mix_hash P d s) = np_sha256 P (ns_h s @ d)"
  by (simp_all add: mix_hash_def)

lemma mix_key_simps:
  "ns_s_pub (snd (mix_key P d s)) = ns_s_pub s" "ns_s_priv (snd (mix_key P d s)) = ns_s_priv s"
  "ns_e_pub_A (snd (mix_key P d s)) = ns_e_pub_A s" "ns_e_pub (snd (mix_key P d s)) = ns_e_pub s"
  "ns_h (snd (mix_key P d s)) = ns_h s" "ns_authority_priv (snd (mix_key P d s)) = ns_authority_priv s"
  by (simp_all add: mix_key_def Let_def)

text \<open>Keys and chaining key depend on the chaining key alone.\<close>

lemma mix_key_cong: "ns_ck s = ns_ck t \<Longrightarrow> fst (mix_key P d s) = fst (mix_key P d t) \<and> ns_ck (snd (mix_key P d s)) = ns_ck (snd (mix_key P d t))"
  by (simp add: mix_key_def Let_def)

lemma length_cert_head [simp]: "length (cert_head now) = 10"
  by (simp add: cert_head_def Let_def)

lemma cert_times:
  "take 2 (cert_head now @ r) = [0, 0]"
  "le_val (take 4 (drop 2 (cert_head now @ r))) = unat (now - 3600)"
  "le_val (take 4 (drop 6 (cert_head now @ r))) = unat (now + 31536000)"
proof -
  have c: "cert_head now = [0, 0] @ nat_le 4 (unat (now - 3600)) @ nat_le 4 (unat (now + 31536000))"
    by (simp add: cert_head_def Let_def bytes_of_word del: upt_rec_numeral)
  have b: "unat w mod 256 ^ 4 = unat w" for w :: u32
    using unat_bounds(3)[of w] by simp
  show "take 2 (cert_head now @ r) = [0, 0]"
    by (simp add: c)
  show "le_val (take 4 (drop 2 (cert_head now @ r))) = unat (now - 3600)"
    "le_val (take 4 (drop 6 (cert_head now @ r))) = unat (now + 31536000)"
    unfolding c using b by (simp_all add: le_val_nat_le)
qed

lemmas cert_fields = cert_times[where r = "[]", simplified]

lemma initialized:
  assumes "ns_initialize P key ds s = Some (True, s0, ds')"
  shows "\<exists>aux. np_ellswift P (ns_s_priv s0) aux = Some (ns_s_pub s0)" "ns_ck s0 = np_sha256 P proto_name"
    "ns_h s0 = np_sha256 P (np_sha256 P proto_name)"
  using assms by (auto simp: ns_initialize_def Let_def split: prod.splits if_splits option.splits)

lemma act2_keys_ok:
  assumes "act2_keys P ds s = Some (Inr (t, ds'))"
  obtains aux where "np_ellswift P (ns_e_priv t) aux = Some (ns_e_pub t)" "ns_h t = np_sha256 P (ns_h s @ ns_e_pub t)" "ns_ck t = ns_ck s"
    "ns_s_pub t = ns_s_pub s" "ns_s_priv t = ns_s_priv s" "ns_e_pub_A t = ns_e_pub_A s" "ns_authority_priv t = ns_authority_priv s"
  using assms by (auto simp: act2_keys_def noise_error_def mix_hash_def split: prod.splits option.splits)

lemma sign_cert_ok:
  assumes "sign_cert P now ds s = Some (Inr (cert, ds'))"
  obtains full aux sig where "cert = cert_head now @ sig" "np_ell_decode P (ns_s_pub s) = Some full"
    "np_sign P (np_sha256 P (cert_head now @ fst (np_xonly P full))) (ns_authority_priv s) aux = Some sig"
  using assms by (auto simp: sign_cert_def noise_error_def Let_def split: option.splits if_splits)

text \<open>The two encrypted tokens of the reply to a chaining state \<open>t\<close>, and the state after them.\<close>

definition act2_tokens :: "noise_prims \<Rightarrow> bytes \<Rightarrow> bytes \<Rightarrow> bytes \<Rightarrow> noise_state \<Rightarrow> bytes \<times> bytes \<times> noise_state" where
  "act2_tokens P ee es cert t =
     (let c_s = np_seal P (fst (mix_key P ee t)) zero_nonce (ns_h t) (ns_s_pub t);
          t2 = mix_hash P c_s (snd (mix_key P ee t));
          c_sig = np_seal P (fst (mix_key P es t2)) zero_nonce (ns_h t2) cert
      in (c_s, c_sig, mix_hash P c_sig (snd (mix_key P es t2))))"

lemma generate_act2_ok:
  assumes "generate_act2 P now ds s = Some (Inr (act2, s2, rest))"
  obtains t ds1 ee es cert u ds2 c_s c_sig t4 where "act2_keys P ds s = Some (Inr (t, ds1))"
    "np_xdh P (ns_e_pub_A t) (ns_e_pub t) (ns_e_priv t) True = Some ee"
    "np_xdh P (ns_e_pub_A t) (ns_s_pub t) (ns_s_priv t) True = Some es"
    "act2_tokens P ee es cert t = (c_s, c_sig, t4)" "sign_cert P now ds1 u = Some (Inr (cert, ds2))"
    "ns_s_pub u = ns_s_pub t" "ns_authority_priv u = ns_authority_priv t" "act2 = ns_e_pub t @ c_s @ c_sig"
    "s2 = t4\<lparr>ns_rx_key := fst (noise_split P (ns_ck t4)), ns_tx_key := snd (noise_split P (ns_ck t4)),
            ns_rx_nonce := 0, ns_tx_nonce := 0, ns_handshake_complete := True\<rparr>"
proof -
  obtain t ds1 where t: "act2_keys P ds s = Some (Inr (t, ds1))"
    using assms by (auto simp: generate_act2_def split: option.splits sum.splits)
  obtain ee es where z: "np_xdh P (ns_e_pub_A t) (ns_e_pub t) (ns_e_priv t) True = Some ee"
      "np_xdh P (ns_e_pub_A t) (ns_s_pub t) (ns_s_priv t) True = Some es"
    using assms t by (auto simp: generate_act2_def noise_error_def case_prod_unfold Let_def mix_simps mix_key_simps split: option.splits)
  let ?c_s = "np_seal P (fst (mix_key P ee t)) zero_nonce (ns_h t) (ns_s_pub t)"
  let ?t2 = "mix_hash P ?c_s (snd (mix_key P ee t))"
  let ?u = "snd (mix_key P es ?t2)"
  obtain cert ds2 where c: "sign_cert P now ds1 ?u = Some (Inr (cert, ds2))"
    using assms t z by (auto simp: generate_act2_def noise_error_def case_prod_unfold Let_def mix_simps mix_key_simps split: option.splits sum.splits)
  let ?c_sig = "np_seal P (fst (mix_key P es ?t2)) zero_nonce (ns_h ?t2) cert"
  show thesis
    using assms t z c
    by (intro that[of t ds1 ee es cert ?c_s ?c_sig "mix_hash P ?c_sig ?u" ?u ds2])
      (simp_all add: act2_tokens_def generate_act2_def case_prod_unfold Let_def mix_simps mix_key_simps)
qed

text \<open>What follows from \<open>prims_ok\<close>.\<close>

lemma prims:
  assumes "prims_ok P"
  shows "np_ellswift P a x = Some A \<Longrightarrow> np_ellswift P b y = Some B \<Longrightarrow> np_xdh P A B b True = Some z \<Longrightarrow> np_xdh P A B a False = Some z"
    "np_ellswift P a x = Some A \<Longrightarrow> length A = 64" "np_sign P m k x = Some g \<Longrightarrow> length g = 64"
  using assms unfolding prims_ok_def by blast+

text \<open>One encrypted token of the reply, on both sides: with the same chaining key and hash the initiator reads what the
  responder sealed, and both go on with the same chaining key and hash.\<close>

lemma token_agrees:
  assumes "prims_ok P" and "ns_ck i = ns_ck t" and "ns_h i = ns_h t"
    and c_def: "c = np_seal P (fst (mix_key P z t)) zero_nonce (ns_h t) m"
  shows "np_open P (fst (mix_key P z i)) zero_nonce (ns_h (snd (mix_key P z i))) c = Some m"
    "ns_ck (mix_hash P c (snd (mix_key P z i))) = ns_ck (mix_hash P c (snd (mix_key P z t)))"
    "ns_h (mix_hash P c (snd (mix_key P z i))) = ns_h (mix_hash P c (snd (mix_key P z t)))"
  using mix_key_cong[OF assms(2), of P z] assms(1,3) by (simp_all add: c_def mix_simps mix_key_simps seal_open)

text \<open>The initiator on a reply of these tokens.\<close>

lemma initiator_reads:
  assumes ok: "prims_ok P" and toks: "act2_tokens P ee es cert t = (c_s, c_sig, t4)"
    and len: "length (ns_e_pub t) = 64" "length (ns_s_pub t) = 64"
    and dh: "np_xdh P EA (ns_e_pub t) ea False = Some ee" "np_xdh P EA (ns_s_pub t) ea False = Some es"
    and t: "ns_ck t = np_sha256 P proto_name"
      "ns_h t = np_sha256 P (np_sha256 P (np_sha256 P (np_sha256 P (np_sha256 P proto_name) @ EA)) @ ns_e_pub t)"
    and cert: "cert = cert_head now @ sg" "np_ell_decode P (ns_s_pub t) = Some full"
      "verify (np_sha256 P (cert_head now @ fst (np_xonly P full))) sg"
    and clock: "unat (now - 3600) \<le> unat now'" "unat now' \<le> unat (now + 31536000)"
  shows "noise_initiator P verify now' ea EA (ns_e_pub t @ c_s @ c_sig) =
    Some (fst (noise_split P (ns_ck t4)), snd (noise_split P (ns_ck t4)), ns_s_pub t)"
proof -
  define i0 where "i0 = mix_hash P (ns_e_pub t) (mix_hash P [] (mix_hash P EA
      (ns_new\<lparr>ns_ck := np_sha256 P proto_name, ns_h := np_sha256 P (np_sha256 P proto_name)\<rparr>)))"
  have i0: "ns_ck i0 = ns_ck t" "ns_h i0 = ns_h t"
    by (simp_all add: i0_def mix_simps t(1), subst t(2), simp)
  have tok: "c_s = np_seal P (fst (mix_key P ee t)) zero_nonce (ns_h t) (ns_s_pub t)"
      "c_sig = np_seal P (fst (mix_key P es (mix_hash P c_s (snd (mix_key P ee t))))) zero_nonce
         (ns_h (mix_hash P c_s (snd (mix_key P ee t)))) cert"
      "t4 = mix_hash P c_sig (snd (mix_key P es (mix_hash P c_s (snd (mix_key P ee t)))))"
    using toks by (auto simp: act2_tokens_def Let_def)
  note a1 = token_agrees[OF ok i0 tok(1)]
  note a2 = token_agrees[OF ok a1(2,3) tok(2)]
  have cut: "take 64 (ns_e_pub t @ c_s @ c_sig) = ns_e_pub t" "take 80 (drop 64 (ns_e_pub t @ c_s @ c_sig)) = c_s"
      "drop 144 (ns_e_pub t @ c_s @ c_sig) = c_sig"
    using len ok by (simp_all add: tok(1) seal_open)
  show ?thesis
    unfolding noise_initiator_def cut Let_def i0_def[symmetric]
    using a1(1) a2 cert(2,3) by (simp add: case_prod_unfold dh tok(3)[symmetric]) (simp add: cert(1) cert_fields clock)
qed

text \<open>C11: The Noise NX handshake and its transport work for a miner that follows the protocol. When the session was
  initialised with the authority key, the reply to a miner's first act authenticates: the miner, whose
  clock is within the validity of the certificate and that knows the authority's public key, reads the pool's static
  key and derives exactly the session's two transport keys, crossed. From then on every conversation, in
  any interleaving of the two directions, is received as it was sent, the nonce counters staying in step.\<close>

theorem noise_handshake_agrees:
  assumes ok: "prims_ok P" and init: "ns_initialize P key ds ns_new = Some (True, s0, ds')"
    and ea: "np_ellswift P ea ax = Some EA"
    and act2: "generate_act2 P now ds2 (process_act1 P EA s0) = Some (Inr (act2, s2, rest))"
    and sig: "\<And>m x g. np_sign P m (ns_authority_priv s0) x = Some g \<Longrightarrow> verify m g"
    and clock: "unat (now - 3600) \<le> unat now'" "unat now' \<le> unat (now + 31536000)"
  shows "length act2 = 64 + (64 + 16) + (74 + 16) \<and> ns_handshake_complete s2 \<and>
    (\<exists>keys. noise_initiator P verify now' ea EA act2 = Some keys \<and> keys = (ns_rx_key s2, ns_tx_key s2, ns_s_pub s0) \<and>
      (\<forall>ms. noise_talk P ms s2 (noise_peer keys) = Some (map snd ms)))"
proof -
  obtain t ds1 ee es cert u dsc c_s c_sig t4 where g: "act2_keys P ds2 (process_act1 P EA s0) = Some (Inr (t, ds1))"
      "np_xdh P (ns_e_pub_A t) (ns_e_pub t) (ns_e_priv t) True = Some ee"
      "np_xdh P (ns_e_pub_A t) (ns_s_pub t) (ns_s_priv t) True = Some es"
      "act2_tokens P ee es cert t = (c_s, c_sig, t4)" "sign_cert P now ds1 u = Some (Inr (cert, dsc))"
      "ns_s_pub u = ns_s_pub t" "ns_authority_priv u = ns_authority_priv t" "act2 = ns_e_pub t @ c_s @ c_sig"
      "s2 = t4\<lparr>ns_rx_key := fst (noise_split P (ns_ck t4)), ns_tx_key := snd (noise_split P (ns_ck t4)),
            ns_rx_nonce := 0, ns_tx_nonce := 0, ns_handshake_complete := True\<rparr>"
    using generate_act2_ok[OF act2] by metis
  have t: "\<exists>aux. np_ellswift P (ns_e_priv t) aux = Some (ns_e_pub t)" "ns_ck t = ns_ck s0" "ns_s_pub t = ns_s_pub s0"
      "ns_h t = np_sha256 P (np_sha256 P (np_sha256 P (ns_h s0 @ EA)) @ ns_e_pub t)"
      "ns_s_priv t = ns_s_priv s0" "ns_e_pub_A t = EA" "ns_authority_priv t = ns_authority_priv s0"
    using act2_keys_ok[OF g(1)] by (auto simp: process_act1_def mix_hash_def)
  obtain full auxs sg where ce: "cert = cert_head now @ sg" "np_ell_decode P (ns_s_pub t) = Some full"
      "np_sign P (np_sha256 P (cert_head now @ fst (np_xonly P full))) (ns_authority_priv s0) auxs = Some sg"
    using sign_cert_ok[OF g(5)] unfolding g(6,7) t(7) by metis
  obtain auxp where sp: "np_ellswift P (ns_s_priv s0) auxp = Some (ns_s_pub s0)"
    using initialized(1)[OF init] by blast
  have len: "length (ns_e_pub t) = 64" "length (ns_s_pub t) = 64" "length sg = 64"
    using prims(2)[OF ok] prims(3)[OF ok ce(3)] t(1) sp by (auto simp: t(3))
  have dh: "np_xdh P EA (ns_e_pub t) ea False = Some ee" "np_xdh P EA (ns_s_pub t) ea False = Some es"
    using prims(1)[OF ok ea] t(1) g(2,3) sp unfolding t(3,5,6) by blast+
  have keys: "noise_initiator P verify now' ea EA act2 = Some (ns_rx_key s2, ns_tx_key s2, ns_s_pub s0)"
    using initiator_reads[OF ok g(4) len(1,2) dh _ _ ce(1,2) _ clock] sig[OF ce(3)] t(4) initialized(2,3)[OF init]
    by (simp add: g(8,9) t(2,3))
  moreover have "length act2 = 64 + (64 + 16) + (74 + 16)"
    using g(4) len ok by (auto simp: g(8) act2_tokens_def Let_def seal_open ce(1))
  ultimately show ?thesis
    by (auto simp: g(9) noise_peer_def in_step_def ns_new_def intro: talk_in_step[OF ok])
qed

definition sample_prims :: noise_prims where
  "sample_prims =
     \<lparr>np_sha256 = (\<lambda>_. replicate 32 0), np_hmac = (\<lambda>_ _. replicate 32 1), np_seal = (\<lambda>_ _ _ m. m @ replicate 16 0),
      np_open = (\<lambda>_ _ _ c. Some (take (length c - 16) c)), np_pubkey = Some, np_xonly = (\<lambda>p. (p, False)),
      np_negate = (\<lambda>_. None), np_ellswift = (\<lambda>_ _. Some (replicate 64 0)), np_ell_decode = Some,
      np_xdh = (\<lambda>_ _ _ _. Some (replicate 32 2)), np_keypair = (\<lambda>_. True), np_sign = (\<lambda>_ _ _. Some (replicate 64 3))\<rparr>"

lemma fill_hex_zeros: "fill_hex (replicate (n + n) CHR ''0'') (replicate n 0) = (True, replicate n 0)"
proof (induction n)
  case (Suc n)
  have "strtol_byte ''00'' = (0, [])"
    by code_simp
  then show ?case
    using Suc by simp
qed simp

theorem noise_handshake_agrees_witness:
  "\<exists>s0 act2 s2 keys. ns_initialize sample_prims (replicate 64 CHR ''0'') [[7], [8]] ns_new = Some (True, s0, []) \<and>
     generate_act2 sample_prims 5000 [[7], [8], [9]] (process_act1 sample_prims (replicate 64 0) s0) = Some (Inr (act2, s2, [])) \<and>
     length act2 = 234 \<and> noise_initiator sample_prims (\<lambda>_ g. g = replicate 64 3) 6000 [] (replicate 64 0) act2 = Some keys \<and>
     noise_talk sample_prims [(True, [1, 2]), (False, [3])] s2 (noise_peer keys) = Some [[1, 2], [3]]"
proof -
  let ?P = sample_prims
  have ok: "prims_ok ?P"
    by (simp add: prims_ok_def sample_prims_def)
  have "fill_hex (replicate 64 CHR ''0'') (replicate 32 0) = (True, replicate 32 0)"
    using fill_hex_zeros[of 32] by simp
  then obtain s0 where init: "ns_initialize ?P (replicate 64 CHR ''0'') [[7], [8]] ns_new = Some (True, s0, [])"
    by (simp add: ns_initialize_def noise_hex_to_bytes_def ns_new_def Let_def sample_prims_def)
  obtain act2 s2 where act2: "generate_act2 ?P 5000 [[7], [8], [9]] (process_act1 ?P (replicate 64 0) s0) = Some (Inr (act2, s2, []))"
    by (simp add: generate_act2_def act2_keys_def sign_cert_def mix_key_def noise_split_def Let_def sample_prims_def)
  have sig: "np_sign ?P m k x = Some g \<Longrightarrow> g = replicate 64 3" for m k x g
    by (simp add: sample_prims_def)
  have clock: "unat (5000 - 3600 :: u32) \<le> unat (6000 :: u32)" "unat (6000 :: u32) \<le> unat (5000 + 31536000 :: u32)"
    by simp_all
  have ea: "np_ellswift ?P [] [] = Some (replicate 64 0)"
    by (simp add: sample_prims_def)
  have h: "length act2 = 64 + (64 + 16) + (74 + 16) \<and> ns_handshake_complete s2 \<and>
      (\<exists>keys. noise_initiator ?P (\<lambda>_ g. g = replicate 64 3) 6000 [] (replicate 64 0) act2 = Some keys \<and>
         keys = (ns_rx_key s2, ns_tx_key s2, ns_s_pub s0) \<and> (\<forall>ms. noise_talk ?P ms s2 (noise_peer keys) = Some (map snd ms)))"
    by (rule noise_handshake_agrees[OF ok init ea act2 _ clock]) (rule sig)
  then obtain keys where k: "noise_initiator ?P (\<lambda>_ g. g = replicate 64 3) 6000 [] (replicate 64 0) act2 = Some keys"
      "\<And>ms. noise_talk ?P ms s2 (noise_peer keys) = Some (map snd ms)"
    by blast
  have "length act2 = 234"
    using h by simp
  then show ?thesis
    using init act2 k(1) k(2)[of "[(True, [1, 2]), (False, [3])]"]
    by (intro exI[of _ s0] exI[of _ act2] exI[of _ s2] exI[of _ keys]) simp
qed

text \<open>Drawing a key ends as soon as a draw is a usable secret key.\<close>

theorem draw_key_returns:
  assumes "k \<in> set ds" and "np_pubkey P k = Some pub" and "snd (np_xonly P pub) \<longrightarrow> np_negate P k \<noteq> None"
  shows "\<exists>k' ds'. draw_key P ds = Some (k', ds')"
  using assms by (induction ds) (auto split: option.split)

text \<open>The reader of the authority key takes what \<open>strtol\<close> takes: signs and blanks are not refused.\<close>

theorem authority_key_accepts_signs: "fill_hex ''-1 a'' [0, 0] = (True, [255, 10])"
  by code_simp

end
