(* ===== verification/Sv2_Relay.thy ===== *)
theory Sv2_Relay
  imports Proxy_Session Sv2_Noise Client_Channels
begin

text \<open>
  \<open>src/sv2_relay_session.cpp\<close>: a Stratum V2 miner of the proxy role. The session speaks SV2 to the
  miner, in the clear or over Noise, and mines on the shared upstream of \<open>Proxy_Session\<close>: an upstream job
  becomes \<open>NewMiningJob\<close> and \<open>SetNewPrevHash\<close> with the merkle root computed here over a fixed extranonce2,
  a share becomes a V1 submit. A handler may throw; the exception stays in \<open>sv_fault\<close> and nothing runs
  after it until the frame loop catches it. What the session posts to the socket and to the upstream
  is appended to \<open>sv_out\<close>. The rotating extranonce2 is defined for sizes of at most eight bytes: beyond, the
  source shifts a 64-bit counter by its width or more, which C++ leaves undefined and the model reads as 0.
\<close>

section \<open>State\<close>

datatype sv_effect =
  Sv_Raw bytes
| Sv_Forward int upstream_submit

record job_rec =
  jr_up :: proxy_notify
  jr_fixed_en2 :: hex

record 'u sv =
  sv_noise :: noise_state
  sv_handshake_done :: bool
  sv_noise_active :: bool
  sv_setup_done :: bool
  sv_channel_open :: bool
  sv_channel_id :: u32
  sv_open_request_id :: u32
  sv_user_identity :: bytes
  sv_slot :: proxy_slot
  sv_attached :: bool
  sv_target_diff :: rat
  sv_jobs :: "u32 \<rightharpoonup> job_rec"
  sv_job_order :: "u32 list"
  sv_next_job_id :: u32
  sv_en2_counter :: u64
  sv_latest_up_job :: "proxy_notify option"
  sv_forwarded :: u64
  sv_accepted :: u64
  sv_rejected :: u64
  sv_closed :: bool
  sv_rl :: "rate_limiter option"
  sv_up :: 'u
  sv_fault :: "exn option"
  sv_out :: "sv_effect list"

text \<open>The constants of a session and the readings of an event: \<open>ve_draws\<close> are the random bytes of a handshake.\<close>

record 'u sv_env =
  ve_ops :: "'u upstream_ops"
  ve_sink :: nat
  ve_ip :: string
  ve_sha256 :: "bytes \<Rightarrow> bytes"
  ve_prims :: noise_prims
  ve_authority :: string
  ve_draws :: "bytes list"
  ve_now :: int
  ve_now_unix :: u32

definition sv_new :: "rate_limiter option \<Rightarrow> 'u \<Rightarrow> 'u sv" where
  "sv_new rl up =
     \<lparr>sv_noise = ns_new, sv_handshake_done = False, sv_noise_active = False, sv_setup_done = False, sv_channel_open = False,
      sv_channel_id = 1, sv_open_request_id = 0, sv_user_identity = [], sv_slot = no_slot, sv_attached = False,
      sv_target_diff = 1, sv_jobs = Map.empty, sv_job_order = [], sv_next_job_id = 1, sv_en2_counter = 0,
      sv_latest_up_job = None, sv_forwarded = 0, sv_accepted = 0, sv_rejected = 0, sv_closed = False, sv_rl = rl, sv_up = up,
      sv_fault = None, sv_out = []\<rparr>"

definition sv_then :: "('u sv \<Rightarrow> 'u sv) \<Rightarrow> 'u sv \<Rightarrow> 'u sv" where
  "sv_then f s = (if sv_fault s = None then f s else s)"

definition sv_try :: "'a res \<Rightarrow> ('a \<Rightarrow> 'u sv \<Rightarrow> 'u sv) \<Rightarrow> 'u sv \<Rightarrow> 'u sv" where
  "sv_try m k s = (case m of Inr x \<Rightarrow> k x s | Inl x \<Rightarrow> s\<lparr>sv_fault := Some x\<rparr>)"

definition sv_emit :: "sv_effect \<Rightarrow> 'u sv \<Rightarrow> 'u sv" where
  "sv_emit ef s = s\<lparr>sv_out := sv_out s @ [ef]\<rparr>"

definition sv_close :: "'u sv_env \<Rightarrow> 'u sv \<Rightarrow> 'u sv" where
  "sv_close e s =
     (if sv_closed s then s
      else
        let s = s\<lparr>sv_closed := True\<rparr>;
            s = (if sv_attached s
                 then s\<lparr>sv_up := op_detach (ve_ops e) (ps_link_id (sv_slot s)) (ps_slot_id (sv_slot s)) (sv_up s)\<rparr> else s)
        in s\<lparr>sv_rl := map_option (rl_on_disconnect (ve_ip e)) (sv_rl s)\<rparr>)"

section \<open>Sending\<close>

definition send_sv2 :: "'u sv_env \<Rightarrow> u8 \<Rightarrow> writer \<Rightarrow> 'u sv \<Rightarrow> 'u sv" where
  "send_sv2 e t payload s =
     (let frame = wrap_message EXT_COMMON t payload
      in if \<not> sv_noise_active s then sv_emit (Sv_Raw frame) s
         else
           let (c1, n) = ns_encrypt (ve_prims e) (sv_noise s) (take 6 frame);
               (c2, n) = ns_encrypt (ve_prims e) n (drop 6 frame)
           in sv_emit (Sv_Raw (c1 @ c2)) (s\<lparr>sv_noise := n\<rparr>))"

section \<open>Jobs\<close>

text \<open>Byte \<open>i\<close> of the fixed extranonce2 is \<open>(en2_counter >> (8 * (nbytes - 1 - i))) & 0xFF\<close>.\<close>

definition current_fixed_en2 :: "'u sv \<Rightarrow> hex" where
  "current_fixed_en2 s =
     (let nbytes = ps_en2_size (sv_slot s)
      in concat (map (\<lambda>i. let b = unat (drop_bit (8 * (nbytes - 1 - i)) (sv_en2_counter s) AND 0xFF)
                          in [hex_digit (b div 16), hex_digit (b mod 16)]) [0..<nbytes]))"

definition sv_merkle_root :: "'u sv_env \<Rightarrow> proxy_notify \<Rightarrow> hex \<Rightarrow> hex res" where
  "sv_merkle_root e job full_extra =
     bindE (compute_coinbase_txid_le (ve_sha256 e) (rebuild_coinbase (pn_coinbase1 job) (pn_coinbase2 job) full_extra)) (\<lambda>txid.
       compute_root_le_hex (sha256d (ve_sha256 e)) txid (pn_merkle_branch job))"

definition nbits_of :: "bytes \<Rightarrow> u32" where
  "nbits_of bb =
     (case bb of
        [a, b, c, d] \<Rightarrow> push_bit 24 (ucast a) OR push_bit 16 (ucast b) OR push_bit 8 (ucast c) OR ucast d
      | _ \<Rightarrow> 0)"

definition bytes32 :: "bytes \<Rightarrow> bytes" where
  "bytes32 bs = (if length bs = 32 then bs else replicate 32 0)"

definition sv_remember_job :: "u32 \<Rightarrow> job_rec \<Rightarrow> 'u sv \<Rightarrow> 'u sv" where
  "sv_remember_job job_id r s =
     (let order = sv_job_order s @ [job_id];
          old = take (length order - 16) order
      in s\<lparr>sv_jobs := ((sv_jobs s)(job_id \<mapsto> r)) |` (- set old), sv_job_order := drop (length order - 16) order\<rparr>)"

definition sv_emit_job :: "'u sv_env \<Rightarrow> proxy_notify \<Rightarrow> 'u sv \<Rightarrow> 'u sv" where
  "sv_emit_job e job s =
     (if \<not> sv_channel_open s then s
      else
        let s = s\<lparr>sv_en2_counter := sv_en2_counter s + 1\<rparr>;
            fixed_en2 = current_fixed_en2 s
        in sv_try (sv_merkle_root e job (ps_en1_hex (sv_slot s) @ fixed_en2)) (\<lambda>mroot s.
             let job_id = sv_next_job_id s;
                 s = sv_remember_job job_id \<lparr>jr_up = job, jr_fixed_en2 = fixed_en2\<rparr> (s\<lparr>sv_next_job_id := job_id + 1\<rparr>)
             in sv_try (hex_to_bytes mroot) (\<lambda>mr s.
                  let s = send_sv2 e MSG_NEW_MINING_JOB
                        (NewMiningJob_serialize \<lparr>nmj_channel_id = sv_channel_id s, nmj_job_id = job_id, nmj_min_ntime = None,
                           nmj_version = pn_version job, nmj_merkle_root = bytes32 mr\<rparr> []) s
                  in sv_try (hex_to_bytes (pn_bits job)) (\<lambda>bb.
                     sv_try (hex_to_bytes (swap_words_hex (pn_prevhash_stratum job))) (\<lambda>ph s.
                       send_sv2 e MSG_SET_NEW_PREV_HASH
                         (SetNewPrevHash_serialize \<lparr>ph_channel_id = sv_channel_id s, ph_job_id = job_id, ph_prev_hash = bytes32 ph,
                            ph_min_ntime = pn_mintime job, ph_nbits = nbits_of bb\<rparr> []) s)) s) s) s)"

definition sv_send_set_target :: "'u sv_env \<Rightarrow> rat \<Rightarrow> 'u sv \<Rightarrow> 'u sv" where
  "sv_send_set_target e d s =
     (if \<not> sv_channel_open s then s
      else send_sv2 e MSG_SET_TARGET
             (SetTarget_serialize \<lparr>st_channel_id = sv_channel_id s, st_maximum_target = diff_to_target_bytes d\<rparr> []) s)"

section \<open>Attaching\<close>

definition sv_hold :: "'u sv_env \<Rightarrow> 'u sv \<Rightarrow> 'u sv" where
  "sv_hold e s = s\<lparr>sv_up := op_register_waiter (ve_ops e) (ve_sink e) (sv_up s)\<rparr>"

definition sv_try_attach :: "'u sv_env \<Rightarrow> 'u sv \<Rightarrow> 'u sv" where
  "sv_try_attach e s =
     (if \<not> op_any_ready (ve_ops e) (sv_up s) then sv_hold e s
      else
        let (slot, up) = op_attach (ve_ops e) (ve_sink e) (sv_up s);
            s = s\<lparr>sv_slot := slot, sv_up := up\<rparr>
        in if \<not> ps_ok slot then sv_hold e s
           else
             let d = op_current_diff (ve_ops e) (ps_link_id slot) up;
                 s = s\<lparr>sv_attached := True, sv_target_diff := (if d \<le> 0 then 1 else d)\<rparr>
             in sv_try (hex_to_bytes (ps_en1_hex slot)) (\<lambda>prefix s.
                  let s = send_sv2 e MSG_OPEN_STANDARD_MINING_CHANNEL_SUCCESS
                        (OpenStandardMiningChannelSuccess_serialize
                           \<lparr>oss_request_id = sv_open_request_id s, oss_channel_id = sv_channel_id s,
                            oss_target = diff_to_target_bytes (sv_target_diff s), oss_extranonce_prefix = prefix,
                            oss_group_channel_id = 0\<rparr> []) s;
                      s = s\<lparr>sv_channel_open := True, sv_latest_up_job := op_current_job (ve_ops e) (ps_link_id slot) (sv_up s)\<rparr>
                  in case sv_latest_up_job s of None \<Rightarrow> s | Some job \<Rightarrow> sv_emit_job e job s) s)"

section \<open>Messages\<close>

definition sv_setup_connection :: "'u sv_env \<Rightarrow> SetupConnection \<Rightarrow> 'u sv \<Rightarrow> 'u sv" where
  "sv_setup_connection e sc s =
     (send_sv2 e MSG_SETUP_CONNECTION_SUCCESS (SetupConnectionSuccess_serialize \<lparr>scs_used_version = 2, scs_flags = 0\<rparr> []) s)
       \<lparr>sv_setup_done := True\<rparr>"

definition sv_open_channel :: "'u sv_env \<Rightarrow> OpenStandardMiningChannel \<Rightarrow> 'u sv \<Rightarrow> 'u sv" where
  "sv_open_channel e oc s =
     sv_try_attach e (s\<lparr>sv_open_request_id := osc_request_id oc, sv_user_identity := osc_user_identity oc\<rparr>)"

definition sv_reject :: "'u sv_env \<Rightarrow> SubmitSharesStandard \<Rightarrow> string \<Rightarrow> 'u sv \<Rightarrow> 'u sv" where
  "sv_reject e sub code s =
     (let s = send_sv2 e MSG_SUBMIT_SHARES_ERROR
            (SubmitSharesError_serialize \<lparr>ssx_channel_id = sv_channel_id s, ssx_sequence_number = sss_sequence_number sub,
               ssx_error_code = ascii code\<rparr> []) s;
          s = s\<lparr>sv_rejected := sv_rejected s + 1\<rparr>
      in case sv_rl s of
           None \<Rightarrow> s
         | Some rl \<Rightarrow>
             let (ban, rl) = record_invalid_share (ve_ip e) (ve_now e) rl; s = s\<lparr>sv_rl := Some rl\<rparr>
             in if ban then sv_close e s else s)"

text \<open>The header a submit stands for, over the session's slot.\<close>

definition sv_header :: "'u sv_env \<Rightarrow> job_rec \<Rightarrow> SubmitSharesStandard \<Rightarrow> 'u sv \<Rightarrow> hex res" where
  "sv_header e r sub s =
     (let job = jr_up r
      in share_header (ve_sha256 e) (sss_version sub) (swap_words_hex (pn_prevhash_stratum job))
           (rebuild_coinbase (pn_coinbase1 job) (pn_coinbase2 job) (ps_en1_hex (sv_slot s) @ jr_fixed_en2 r))
           (pn_merkle_branch job) (int_to_hex (sss_ntime sub) 8) (pn_bits job) (int_to_hex (sss_nonce sub) 8))"

definition sv_threshold :: "'u sv \<Rightarrow> rat" where
  "sv_threshold s = (if sv_target_diff s > 0 then sv_target_diff s else 1)"

definition sv_submit_of :: "job_rec \<Rightarrow> SubmitSharesStandard \<Rightarrow> 'u sv \<Rightarrow> upstream_submit" where
  "sv_submit_of r sub s =
     \<lparr>us_job_id = pn_job_id (jr_up r), us_en2_full_hex = ps_slot_hex (sv_slot s) @ jr_fixed_en2 r,
      us_ntime_hex = int_to_hex (sss_ntime sub) 8, us_nonce_hex = int_to_hex (sss_nonce sub) 8,
      us_version_bits = Some (sss_version sub)\<rparr>"

definition sv_score :: "'u sv_env \<Rightarrow> SubmitSharesStandard \<Rightarrow> job_rec \<Rightarrow> bytes \<Rightarrow> 'u sv \<Rightarrow> 'u sv" where
  "sv_score e sub r hash_be s =
     (let meets_network = meets_target hash_be (pn_net_target_be (jr_up r));
          share_diff = share_difficulty Bitcoin hash_be;
          threshold = sv_threshold s
      in if share_diff < dbl (threshold * px_tol) \<and> \<not> meets_network then sv_reject e sub ''low-difficulty'' s
         else
           let s = sv_emit (Sv_Forward (ps_link_id (sv_slot s)) (sv_submit_of r sub s)) s;
               s = s\<lparr>sv_forwarded := sv_forwarded s + 1\<rparr>;
               s = send_sv2 e MSG_SUBMIT_SHARES_SUCCESS
                     (SubmitSharesSuccess_serialize \<lparr>sok_channel_id = sv_channel_id s, sok_last_sequence_number = sss_sequence_number sub,
                        sok_new_submits_accepted_count = 1, sok_new_shares_sum = of_int (llround threshold)\<rparr> []) s
           in s\<lparr>sv_accepted := sv_accepted s + 1, sv_rl := map_option (clear_invalid (ve_ip e)) (sv_rl s)\<rparr>)"

definition sv_submit_shares :: "'u sv_env \<Rightarrow> SubmitSharesStandard \<Rightarrow> 'u sv \<Rightarrow> 'u sv" where
  "sv_submit_shares e sub s =
     (if \<not> sv_channel_open s \<or> \<not> sv_attached s then sv_reject e sub ''not-open'' s
      else case sv_jobs s (sss_job_id sub) of
        None \<Rightarrow> sv_reject e sub ''stale-job'' s
      | Some r \<Rightarrow>
          if \<not> valid_ntime (sss_ntime sub) (pn_mintime (jr_up r)) (ve_now_unix e) 7200 then sv_reject e sub ''ntime-invalid'' s
          else sv_try (bindE (sv_header e r sub s) hex_to_bytes) (\<lambda>hb s.
                 sv_score e sub r (rev (sha256d (ve_sha256 e) hb)) s) s)"

definition sv_handle_frame :: "'u sv_env \<Rightarrow> u8 \<Rightarrow> bytes \<Rightarrow> 'u sv \<Rightarrow> 'u sv" where
  "sv_handle_frame e t payload s =
     (if t = MSG_SETUP_CONNECTION then sv_try (run_parser SetupConnection_deserialize payload) (sv_setup_connection e) s
      else if t = MSG_OPEN_STANDARD_MINING_CHANNEL then
        sv_try (run_parser OpenStandardMiningChannel_deserialize payload) (sv_open_channel e) s
      else if t = MSG_SUBMIT_SHARES_STANDARD then
        sv_try (run_parser SubmitSharesStandard_deserialize payload) (sv_submit_shares e) s
      else if t = MSG_CLOSE_CHANNEL then sv_close e s
      else s)"

text \<open>The \<open>catch\<close> around it.\<close>

definition sv_handle_caught :: "'u sv_env \<Rightarrow> u8 \<Rightarrow> bytes \<Rightarrow> 'u sv \<Rightarrow> 'u sv" where
  "sv_handle_caught e t payload s = (sv_handle_frame e t payload s)\<lparr>sv_fault := None\<rparr>"

section \<open>Frames in\<close>

text \<open>The first bytes decide the transport: whether the frame loop is entered, with the rest of the buffer. A
  handshake whose reply throws leaves the session with the exception; so does one whose draws run out.\<close>

definition sv_handshake :: "'u sv_env \<Rightarrow> bytes \<Rightarrow> 'u sv \<Rightarrow> bool \<times> bytes \<times> 'u sv" where
  "sv_handshake e buf s =
     (if sv_handshake_done s then (True, buf, s)
      else if length buf < 6 then (False, buf, s)
      else if take 3 buf = [0x00, 0x00, 0x00]
      then (True, buf, s\<lparr>sv_noise_active := False, sv_handshake_done := True\<rparr>)
      else
        let s = s\<lparr>sv_noise_active := True\<rparr>
        in if length buf < 64 then (False, buf, s)
           else case ns_initialize (ve_prims e) (ve_authority e) (ve_draws e) (sv_noise s) of
                  None \<Rightarrow> (False, buf, s\<lparr>sv_fault := Some (Runtime_Error ''random'')\<rparr>)
                | Some (ok, n, ds) \<Rightarrow>
                    if \<not> ok then (False, buf, sv_close e (s\<lparr>sv_noise := n\<rparr>))
                    else
                      let n = process_act1 (ve_prims e) (take 64 buf) n
                      in case generate_act2 (ve_prims e) (ve_now_unix e) ds n of
                           None \<Rightarrow> (False, buf, s\<lparr>sv_noise := n, sv_fault := Some (Runtime_Error ''random'')\<rparr>)
                         | Some (Inl x) \<Rightarrow> (False, buf, s\<lparr>sv_noise := n, sv_fault := Some x\<rparr>)
                         | Some (Inr (act2, n, _)) \<Rightarrow>
                             (True, drop 64 buf, (sv_emit (Sv_Raw act2) (s\<lparr>sv_noise := n\<rparr>))\<lparr>sv_handshake_done := True\<rparr>))"

text \<open>The header of the next frame: \<open>None\<close> when there are too few bytes, else the header (unless it does not decrypt), the
  bytes after it and the cipher.\<close>

definition sv_read_header :: "'u sv_env \<Rightarrow> bytes \<Rightarrow> 'u sv \<Rightarrow> (Header option \<times> bytes \<times> 'u sv) option" where
  "sv_read_header e buf s =
     (let n = (if sv_noise_active s then 22 else 6)
      in if length buf < n then None
         else if sv_noise_active s then
           (case ns_decrypt (ve_prims e) (sv_noise s) (take 22 buf) of
              None \<Rightarrow> Some (None, buf, s)
            | Some (hd6, n) \<Rightarrow>
                (case run_parser Header_deserialize hd6 of
                   Inl _ \<Rightarrow> Some (None, buf, s\<lparr>sv_noise := n\<rparr>)
                 | Inr h \<Rightarrow> Some (Some h, drop 22 buf, s\<lparr>sv_noise := n\<rparr>)))
         else
           (case run_parser Header_deserialize (take 6 buf) of
              Inl _ \<Rightarrow> Some (None, buf, s)
            | Inr h \<Rightarrow> Some (Some h, drop 6 buf, s)))"

text \<open>Its payload; an encrypted payload of length 0 is skipped, not decrypted.\<close>

definition sv_read_payload :: "'u sv_env \<Rightarrow> nat \<Rightarrow> bytes \<Rightarrow> 'u sv \<Rightarrow> (bytes option \<times> bytes \<times> 'u sv) option" where
  "sv_read_payload e len buf s =
     (let need = (if sv_noise_active s then len + 16 else len)
      in if length buf < need then None
         else if sv_noise_active s \<and> len > 0 then
           (case ns_decrypt (ve_prims e) (sv_noise s) (take need buf) of
              None \<Rightarrow> Some (None, buf, s)
            | Some (m, n) \<Rightarrow> Some (Some m, drop need buf, s\<lparr>sv_noise := n\<rparr>))
         else Some (Some (take len buf), drop need buf, s))"

record sv_rx =
  sx_in :: bytes
  sx_header :: "Header option"

lemma read_header_shrinks: "sv_read_header e buf s = Some (Some h, buf', s') \<Longrightarrow> length buf' < length buf"
  by (auto simp: sv_read_header_def Let_def split: if_splits option.splits sum.splits)

lemma read_payload_shrinks: "sv_read_payload e n buf s = Some (m, buf', s') \<Longrightarrow> length buf' \<le> length buf"
  by (auto simp: sv_read_payload_def Let_def split: if_splits option.splits)

function sv_frames :: "'u sv_env \<Rightarrow> sv_rx \<Rightarrow> 'u sv \<Rightarrow> sv_rx \<times> 'u sv" where
  "sv_frames e x s =
     (if sv_closed s then (x, s)
      else
        case sx_header x of
          None \<Rightarrow>
            (case sv_read_header e (sx_in x) s of
               None \<Rightarrow> (x, s)
             | Some (None, buf, s) \<Rightarrow> (\<lparr>sx_in = buf, sx_header = None\<rparr>, sv_close e s)
             | Some (Some h, buf, s) \<Rightarrow>
                 if \<not> frame_length_ok (h_msg_length h) then (\<lparr>sx_in = buf, sx_header = None\<rparr>, sv_close e s)
                 else sv_frames e \<lparr>sx_in = buf, sx_header = Some h\<rparr> s)
        | Some h \<Rightarrow>
            (case sv_read_payload e (unat (h_msg_length h)) (sx_in x) s of
               None \<Rightarrow> (x, s)
             | Some (None, buf, s) \<Rightarrow> (\<lparr>sx_in = buf, sx_header = Some h\<rparr>, sv_close e s)
             | Some (Some payload, buf, s) \<Rightarrow>
                 sv_frames e \<lparr>sx_in = buf, sx_header = None\<rparr> (sv_handle_caught e (h_msg_type h) payload s)))"
  by pat_completeness auto

termination
  by (relation "measure (\<lambda>(e, x, s). 2 * length (sx_in x) + (if sx_header x = None then 0 else 1))")
     (auto dest!: read_header_shrinks read_payload_shrinks)

declare sv_frames.simps [simp del]

definition sv_consume :: "'u sv_env \<Rightarrow> sv_rx \<Rightarrow> 'u sv \<Rightarrow> sv_rx \<times> 'u sv" where
  "sv_consume e x s =
     (let (go, buf, s) = sv_handshake e (sx_in x) s; x = x\<lparr>sx_in := buf\<rparr>
      in if go then sv_frames e x s else (x, s))"

text \<open>A completed read; \<open>None\<close> is a transport error.\<close>

definition sv_on_read :: "'u sv_env \<Rightarrow> bytes option \<Rightarrow> sv_rx \<times> 'u sv \<Rightarrow> sv_rx \<times> 'u sv" where
  "sv_on_read e chunk st =
     (let (x, s) = st
      in case chunk of
           None \<Rightarrow> (x, sv_close e s)
         | Some bs \<Rightarrow>
             let x = x\<lparr>sx_in := sx_in x @ bs\<rparr>
             in if length (sx_in x) > 4 * 2 ^ 20 then (x, sv_close e s) else sv_consume e x s)"

section \<open>Upstream events\<close>

definition sv_upstream_job :: "'u sv_env \<Rightarrow> proxy_notify \<Rightarrow> 'u sv \<Rightarrow> 'u sv" where
  "sv_upstream_job e job s =
     (if sv_closed s then s
      else let s = s\<lparr>sv_latest_up_job := Some job\<rparr> in if sv_channel_open s then sv_emit_job e job s else s)"

definition sv_upstream_diff :: "'u sv_env \<Rightarrow> rat \<Rightarrow> 'u sv \<Rightarrow> 'u sv" where
  "sv_upstream_diff e d s =
     (if sv_closed s then s
      else
        let s = s\<lparr>sv_target_diff := (if d > 0 then d else sv_target_diff s)\<rparr>
        in if sv_channel_open s then sv_send_set_target e (sv_target_diff s) s else s)"

definition sv_upstream_extranonce :: "'u sv_env \<Rightarrow> hex \<Rightarrow> nat \<Rightarrow> 'u sv \<Rightarrow> 'u sv" where
  "sv_upstream_extranonce e en1 en2_size s =
     (if sv_closed s then s
      else
        let s = s\<lparr>sv_slot := (sv_slot s)\<lparr>ps_en1_hex := en1, ps_en2_size := en2_size\<rparr>\<rparr>
        in case sv_latest_up_job s of Some job \<Rightarrow> if sv_channel_open s then sv_emit_job e job s else s | None \<Rightarrow> s)"

definition sv_upstream_state :: "'u sv_env \<Rightarrow> bool \<Rightarrow> 'u sv \<Rightarrow> 'u sv" where
  "sv_upstream_state e up s =
     (if sv_closed s then s else if up \<and> sv_setup_done s \<and> \<not> sv_channel_open s then sv_try_attach e s else s)"

definition sv_rebind :: "'u sv_env \<Rightarrow> proxy_slot \<Rightarrow> proxy_notify option \<Rightarrow> rat \<Rightarrow> 'u sv \<Rightarrow> 'u sv" where
  "sv_rebind e slot job d s =
     (if sv_closed s \<or> \<not> ps_ok slot then s
      else
        let s = s\<lparr>sv_slot := slot, sv_attached := True, sv_target_diff := (if d > 0 then d else sv_target_diff s)\<rparr>;
            s = sv_send_set_target e (sv_target_diff s) s
        in case job of None \<Rightarrow> s | Some j \<Rightarrow> sv_emit_job e j (s\<lparr>sv_latest_up_job := Some j\<rparr>))"

section \<open>One header\<close>

text \<open>The Stratum V2 rules of a standard channel: the miner hashes the announced version bits, previous hash, merkle root
  and bits with its own version, time and nonce.\<close>

definition std_header :: "NewMiningJob \<Rightarrow> SetNewPrevHash \<Rightarrow> SubmitSharesStandard \<Rightarrow> bytes" where
  "std_header j p sub =
     nat_le 4 (unat (sss_version sub)) @ ph_prev_hash p @ nmj_merkle_root j
     @ nat_le 4 (unat (sss_ntime sub)) @ nat_le 4 (unat (ph_nbits p)) @ nat_le 4 (unat (sss_nonce sub))"

text \<open>An upstream job whose texts are the hex of bytes of the right sizes.\<close>

definition notify_bytes :: "proxy_notify \<Rightarrow> bytes \<Rightarrow> bytes \<Rightarrow> bytes \<Rightarrow> bytes \<Rightarrow> bytes list \<Rightarrow> bool" where
  "notify_bytes job prev bits cb1 cb2 path \<longleftrightarrow>
     pn_prevhash_stratum job = swap_words_hex (bytes_to_hex prev) \<and> length prev = 32 \<and>
     pn_bits job = bytes_to_hex bits \<and> length bits = 4 \<and> pn_coinbase1 job = bytes_to_hex cb1 \<and> pn_coinbase2 job = bytes_to_hex cb2 \<and>
     pn_merkle_branch job = map bytes_to_hex path \<and> (\<forall>h \<in> set path. length h = 32)"

definition root_of :: "(bytes \<Rightarrow> bytes) \<Rightarrow> bytes list \<Rightarrow> bytes \<Rightarrow> bytes" where
  "root_of sha256 path cb = spec_root (sha256d sha256) path (sha256d sha256 cb)"

lemma fixed_en2_bytes: "\<exists>bs. current_fixed_en2 s = bytes_to_hex bs \<and> length bs = ps_en2_size (sv_slot s)"
proof -
  let ?n = "ps_en2_size (sv_slot s)"
  let ?b = "\<lambda>i. unat (drop_bit (8 * (?n - 1 - i)) (sv_en2_counter s) AND 0xFF)"
  have "[hex_digit (?b i div 16), hex_digit (?b i mod 16)] = bytes_to_hex [of_nat (?b i)]" for i
    using unat_and_255[of "drop_bit (8 * (?n - 1 - i)) (sv_en2_counter s)"] by (simp add: bytes_to_hex_of_nat div_less del: bytes_to_hex.simps)
  then have "current_fixed_en2 s = bytes_to_hex (map (\<lambda>i. of_nat (?b i)) [0..<?n])"
    by (simp add: current_fixed_en2_def Let_def bytes_to_hex_map)
  then show ?thesis
    by (intro exI[of _ "map (\<lambda>i. of_nat (?b i)) [0..<?n]"]) simp
qed

lemma root_of_job:
  assumes "notify_bytes job prev bits cb1 cb2 path" and "\<And>x. length (ve_sha256 e x) = 32"
  shows "sv_merkle_root e job (bytes_to_hex en) = Inr (bytes_to_hex (root_of (ve_sha256 e) path (cb1 @ en @ cb2)))"
proof -
  have "rebuild_coinbase (pn_coinbase1 job) (pn_coinbase2 job) (bytes_to_hex en) = bytes_to_hex (cb1 @ en @ cb2)"
    using assms(1) by (simp add: rebuild_coinbase_def notify_bytes_def)
  then show ?thesis
    using assms compute_root_spec[of "sha256d (ve_sha256 e) (cb1 @ en @ cb2)" path "sha256d (ve_sha256 e)"]
    by (simp add: sv_merkle_root_def compute_coinbase_txid_le_def root_of_def notify_bytes_def sha256d_def del: bytes_to_hex_append)
qed

lemma length_root_of: "(\<And>x. length (sha256 x) = 32) \<Longrightarrow> length (root_of sha256 path cb) = 32"
  by (induction path rule: rev_induct) (simp_all add: root_of_def spec_root_def sha256d_def)

lemma nbits_of_bytes: "nat_le 4 (unat (nbits_of [a, b, c, d])) = [d, c, b, a]"
proof -
  let ?job = "undefined\<lparr>mj_bits := bytes_to_hex [a, b, c, d]\<rparr>"
  have h: "hex_to_bytes (mj_bits ?job) = Inr [a, b, c, d]"
    by (simp del: bytes_to_hex.simps)
  then have "job_nbits ?job = nbits_of [a, b, c, d]"
    by (simp add: job_nbits_def nbits_of_def)
  with nbits_bytes[OF h] show ?thesis
    by simp
qed

text \<open>The header of a share over given extranonce bytes.\<close>

lemma notify_header:
  assumes "notify_bytes job prev bits cb1 cb2 path" and "\<And>x. length (sha256 x) = 32"
    and "rebuild_coinbase (pn_coinbase1 job) (pn_coinbase2 job) en_hex = bytes_to_hex cb"
  shows "share_header sha256 (sss_version sub) (swap_words_hex (pn_prevhash_stratum job))
      (rebuild_coinbase (pn_coinbase1 job) (pn_coinbase2 job) en_hex) (pn_merkle_branch job)
      (int_to_hex (sss_ntime sub) 8) (pn_bits job) (int_to_hex (sss_nonce sub) 8) =
    Inr (bytes_to_hex (nat_le 4 (unat (sss_version sub)) @ prev @ root_of sha256 path cb @ nat_le 4 (unat (sss_ntime sub))
      @ rev bits @ nat_le 4 (unat (sss_nonce sub))))"
proof -
  have r: "bindE (compute_coinbase_txid_le sha256 (bytes_to_hex cb)) (\<lambda>txid. bindE (compute_root_le_hex (sha256d sha256) txid
      (map bytes_to_hex path)) f) = f (bytes_to_hex (root_of sha256 path cb))" for f :: "hex \<Rightarrow> hex res"
    using assms(1,2) compute_root_spec[of "sha256d sha256 cb" path "sha256d sha256"]
    by (simp add: compute_coinbase_txid_le_def root_of_def notify_bytes_def sha256d_def)
  have i: "byte_reverse_hex (int_to_hex w 8) = bytes_to_hex (nat_le 4 (unat w))" for w :: u32
    using int_to_hex_bytes[of w 4] by (simp add: byte_reverse_hex_bytes del: nat_le.simps)
  show ?thesis
    unfolding share_header_def assms(3) using assms(1)
    by (simp add: notify_bytes_def r build_block_header_def le_hex_u32_bytes byte_reverse_hex_bytes i del: nat_le.simps)
qed

definition sv_sent :: "'u sv \<Rightarrow> 'u sv \<Rightarrow> sv_effect list" where
  "sv_sent s t = drop (length (sv_out s)) (sv_out t)"

definition announced_job :: "'u sv_env \<Rightarrow> proxy_notify \<Rightarrow> bytes list \<Rightarrow> bytes \<Rightarrow> 'u sv \<Rightarrow> NewMiningJob" where
  "announced_job e job path cb s =
     \<lparr>nmj_channel_id = sv_channel_id s, nmj_job_id = sv_next_job_id s, nmj_min_ntime = None, nmj_version = pn_version job,
      nmj_merkle_root = root_of (ve_sha256 e) path cb\<rparr>"

definition announced_prev :: "proxy_notify \<Rightarrow> bytes \<Rightarrow> bytes \<Rightarrow> 'u sv \<Rightarrow> SetNewPrevHash" where
  "announced_prev job prev bits s =
     \<lparr>ph_channel_id = sv_channel_id s, ph_job_id = sv_next_job_id s, ph_prev_hash = prev, ph_min_ntime = pn_mintime job,
      ph_nbits = nbits_of bits\<rparr>"

lemma emit_job_announces:
  assumes "notify_bytes job prev bits cb1 cb2 path" and "\<And>x. length (ve_sha256 e x) = 32"
    and "sv_channel_open s" and "\<not> sv_noise_active s" and "ps_en1_hex (sv_slot s) = bytes_to_hex en1"
    and r: "r = \<lparr>jr_up = job, jr_fixed_en2 = current_fixed_en2 (s\<lparr>sv_en2_counter := sv_en2_counter s + 1\<rparr>)\<rparr>"
  shows "\<exists>en2. jr_fixed_en2 r = bytes_to_hex en2 \<and> length en2 = ps_en2_size (sv_slot s) \<and>
    sv_emit_job e job s =
     sv_emit (Sv_Raw (wrap_message EXT_COMMON MSG_SET_NEW_PREV_HASH (SetNewPrevHash_serialize (announced_prev job prev bits s) [])))
      (sv_emit (Sv_Raw (wrap_message EXT_COMMON MSG_NEW_MINING_JOB
         (NewMiningJob_serialize (announced_job e job path (cb1 @ (en1 @ en2) @ cb2) s) [])))
       (sv_remember_job (sv_next_job_id s) r (s\<lparr>sv_en2_counter := sv_en2_counter s + 1, sv_next_job_id := sv_next_job_id s + 1\<rparr>)))"
proof -
  let ?s = "s\<lparr>sv_en2_counter := sv_en2_counter s + 1\<rparr>"
  obtain en2 where en2: "current_fixed_en2 ?s = bytes_to_hex en2" "length en2 = ps_en2_size (sv_slot s)"
    using fixed_en2_bytes[of ?s] by auto
  have root: "sv_merkle_root e job (bytes_to_hex en1 @ bytes_to_hex en2) =
      Inr (bytes_to_hex (root_of (ve_sha256 e) path (cb1 @ (en1 @ en2) @ cb2)))"
    using root_of_job[OF assms(1,2), of "en1 @ en2"] by simp
  have h: "hex_to_bytes (pn_bits job) = Inr bits" "hex_to_bytes (swap_words_hex (pn_prevhash_stratum job)) = Inr prev" "length prev = 32"
    using assms(1) by (simp_all add: notify_bytes_def)
  show ?thesis
    using en2 assms(3,4) length_root_of[OF assms(2)]
    by (intro exI[of _ en2]) (simp add: r announced_job_def announced_prev_def sv_emit_job_def Let_def assms(5) root h sv_try_def bytes32_def send_sv2_def
        sv_remember_job_def sv_emit_def del: append_assoc)
qed

lemma rolled_inside: "v AND NOT m = w AND NOT m \<Longrightarrow> rolled_version w m (Some v) = v"
  by (auto simp: rolled_version_def bit_eq_iff bit_simps)

lemma remembered: "k \<notin> set (sv_job_order s) \<Longrightarrow> sv_jobs (sv_remember_job k r s) k = Some r"
  using set_take_subset[of "length (sv_job_order s) - 15" "sv_job_order s"]
  by (auto simp: sv_remember_job_def Let_def)

text \<open>What a submit sends to the upstream.\<close>

lemma sv_emit_out [simp]: "sv_out (sv_emit ef s) = sv_out s @ [ef]"
  by (simp add: sv_emit_def)

lemma send_sv2_out: "\<exists>f. sv_out (send_sv2 e t w s) = sv_out s @ [Sv_Raw f]"
  by (simp add: send_sv2_def Let_def case_prod_unfold)

lemma sv_close_out [simp]: "sv_out (sv_close e s) = sv_out s"
  by (simp add: sv_close_def Let_def)

lemma sv_reject_out: "\<exists>f. sv_out (sv_reject e sub code s) = sv_out s @ [Sv_Raw f]"
proof -
  obtain f where "sv_out (send_sv2 e MSG_SUBMIT_SHARES_ERROR
            (SubmitSharesError_serialize \<lparr>ssx_channel_id = sv_channel_id s, ssx_sequence_number = sss_sequence_number sub,
               ssx_error_code = ascii code\<rparr> []) s) = sv_out s @ [Sv_Raw f]"
    using send_sv2_out by metis
  then show ?thesis
    by (intro exI[of _ f]) (simp add: sv_reject_def Let_def split: option.split prod.split)
qed

lemma sv_score_out:
  "\<exists>f. sv_out (sv_score e sub r h s) = sv_out s @ [Sv_Raw f] \<or>
     sv_out (sv_score e sub r h s) = sv_out s @ [Sv_Forward (ps_link_id (sv_slot s)) (sv_submit_of r sub s), Sv_Raw f]"
proof -
  let ?s = "(sv_emit (Sv_Forward (ps_link_id (sv_slot s)) (sv_submit_of r sub s)) s)\<lparr>sv_forwarded := sv_forwarded s + 1\<rparr>"
  obtain f where "sv_out (send_sv2 e MSG_SUBMIT_SHARES_SUCCESS
      (SubmitSharesSuccess_serialize \<lparr>sok_channel_id = sv_channel_id ?s, sok_last_sequence_number = sss_sequence_number sub,
         sok_new_submits_accepted_count = 1, sok_new_shares_sum = of_int (llround (sv_threshold s))\<rparr> []) ?s) = sv_out ?s @ [Sv_Raw f]"
    using send_sv2_out by metis
  then show ?thesis
    using sv_reject_out[of e sub "''low-difficulty''" s] by (auto simp: sv_score_def Let_def sv_emit_def)
qed

lemma forwarded_submit:
  assumes "Sv_Forward l us \<in> set (sv_sent s (sv_submit_shares e sub s))"
  shows "\<exists>r. sv_jobs s (sss_job_id sub) = Some r \<and> us = sv_submit_of r sub s \<and> l = ps_link_id (sv_slot s)"
proof -
  have no: "Sv_Forward l us \<notin> set (sv_sent s (sv_reject e sub code s))" for code
    using sv_reject_out[of e sub code s] by (auto simp: sv_sent_def)
  obtain r where r: "sv_jobs s (sss_job_id sub) = Some r"
    using assms no by (cases "sv_jobs s (sss_job_id sub)") (auto simp: sv_submit_shares_def split: if_splits)
  obtain hb where "Sv_Forward l us \<in> set (sv_sent s (sv_score e sub r (rev (sha256d (ve_sha256 e) hb)) s))"
    using assms no r by (auto simp: sv_submit_shares_def sv_try_def sv_sent_def split: if_splits sum.splits)
  then show ?thesis
    using sv_score_out[of e sub r "rev (sha256d (ve_sha256 e) hb)" s] r by (auto simp: sv_sent_def)
qed

text \<open>The header an upstream pool computes for a V1 submit, by the Stratum V1 rules with version rolling.\<close>

definition pool_header :: "(bytes \<Rightarrow> bytes) \<Rightarrow> u32 \<Rightarrow> proxy_notify \<Rightarrow> hex \<Rightarrow> upstream_submit \<Rightarrow> hex res" where
  "pool_header sha256 vmask job pool_en1 us =
     share_header sha256 (rolled_version (pn_version job) vmask (us_version_bits us)) (swap_words_hex (pn_prevhash_stratum job))
       (rebuild_coinbase (pn_coinbase1 job) (pn_coinbase2 job) (pool_en1 @ us_en2_full_hex us)) (pn_merkle_branch job)
       (us_ntime_hex us) (pn_bits job) (us_nonce_hex us)"

lemma announced_read_back:
  assumes "notify_bytes job prev bits cb1 cb2 path" and "\<And>x. length (ve_sha256 e x) = 32"
  shows "run_parser NewMiningJob_parse (NewMiningJob_serialize (announced_job e job path cb s) []) = Inr (announced_job e job path cb s)"
    "run_parser SetNewPrevHash_parse (SetNewPrevHash_serialize (announced_prev job prev bits s) []) = Inr (announced_prev job prev bits s)"
proof -
  show "run_parser NewMiningJob_parse (NewMiningJob_serialize (announced_job e job path cb s) []) = Inr (announced_job e job path cb s)"
    by (intro run_codec m_nmj.read_enc) (simp add: NewMiningJob_ok_def announced_job_def length_root_of[OF assms(2)])
  show "run_parser SetNewPrevHash_parse (SetNewPrevHash_serialize (announced_prev job prev bits s) []) = Inr (announced_prev job prev bits s)"
    using assms(1) by (intro run_codec m_ph.read_enc) (simp add: SetNewPrevHash_ok_def notify_bytes_def announced_prev_def)
qed

lemma announced_header:
  assumes job: "notify_bytes job prev bits cb1 cb2 path" and sha: "\<And>x. length (ve_sha256 e x) = 32"
  shows "share_header (ve_sha256 e) (sss_version sub) (swap_words_hex (pn_prevhash_stratum job))
      (rebuild_coinbase (pn_coinbase1 job) (pn_coinbase2 job) (bytes_to_hex en1 @ bytes_to_hex en2)) (pn_merkle_branch job)
      (int_to_hex (sss_ntime sub) 8) (pn_bits job) (int_to_hex (sss_nonce sub) 8) =
    Inr (bytes_to_hex (std_header (announced_job e job path (cb1 @ (en1 @ en2) @ cb2) s) (announced_prev job prev bits s) sub))"
proof -
  obtain a b c d where bits: "bits = [a, b, c, d]"
    using job four_bytes[of bits] by (auto simp: notify_bytes_def)
  have cb: "rebuild_coinbase (pn_coinbase1 job) (pn_coinbase2 job) (bytes_to_hex en1 @ bytes_to_hex en2) = bytes_to_hex (cb1 @ (en1 @ en2) @ cb2)"
    using job by (simp add: rebuild_coinbase_def notify_bytes_def)
  show ?thesis
    using notify_header[where sub = sub and ?sha256.0 = "ve_sha256 e", OF job sha cb]
    by (simp add: std_header_def announced_job_def announced_prev_def bits nbits_of_bytes del: nat_le.simps append_assoc)
qed

lemma scored_header:
  assumes "notify_bytes job prev bits cb1 cb2 path" and "\<And>x. length (ve_sha256 e x) = 32"
    and "jr_up r = job" and "jr_fixed_en2 r = bytes_to_hex en2" and "ps_en1_hex (sv_slot u) = bytes_to_hex en1"
  shows "sv_header e r sub u =
    Inr (bytes_to_hex (std_header (announced_job e job path (cb1 @ (en1 @ en2) @ cb2) s) (announced_prev job prev bits s) sub))"
  using announced_header[OF assms(1,2), where sub = sub and s = s and ?en1.0 = en1 and ?en2.0 = en2] assms(3-5) by (simp add: sv_header_def Let_def)

lemma forwarded_header:
  assumes "notify_bytes job prev bits cb1 cb2 path" and "\<And>x. length (ve_sha256 e x) = 32"
    and "jr_up r = job" and "jr_fixed_en2 r = bytes_to_hex en2"
    and "Sv_Forward l us \<in> set (sv_sent u (sv_submit_shares e sub u))" and "sv_jobs u (sss_job_id sub) = Some r"
    and "bytes_to_hex en1 = pool_en1 @ ps_slot_hex (sv_slot u)" and "sss_version sub AND NOT vmask = pn_version job AND NOT vmask"
  shows "us_job_id us = pn_job_id job \<and> pool_header (ve_sha256 e) vmask job pool_en1 us =
    Inr (bytes_to_hex (std_header (announced_job e job path (cb1 @ (en1 @ en2) @ cb2) s) (announced_prev job prev bits s) sub))"
proof -
  have us: "us = sv_submit_of r sub u"
    using forwarded_submit[OF assms(5)] assms(6) by auto
  have en: "pool_en1 @ us_en2_full_hex us = bytes_to_hex en1 @ bytes_to_hex en2"
    using assms(4,7) by (simp add: us sv_submit_of_def flip: append_assoc)
  show ?thesis
    using announced_header[OF assms(1,2), where sub = sub and s = s and ?en1.0 = en1 and ?en2.0 = en2] assms(3)
    unfolding pool_header_def en by (simp add: us sv_submit_of_def rolled_inside[OF assms(8)])
qed


definition relay_env :: "v1_up sv_env" where
  "relay_env =
     \<lparr>ve_ops = v1_ops, ve_sink = 9, ve_ip = ''ip'', ve_sha256 = (\<lambda>_. replicate 32 0), ve_prims = sample_prims, ve_authority = [],
      ve_draws = [], ve_now = 0, ve_now_unix = 0\<rparr>"

definition relay_job :: proxy_notify where
  "relay_job = sample_notify\<lparr>pn_prevhash_stratum := swap_words_hex (zeros_hex 32)\<rparr>"

definition relay_state :: "v1_up sv" where
  "relay_state = (sv_new None sample_v1)
     \<lparr>sv_channel_open := True, sv_attached := True,
      sv_slot := \<lparr>ps_ok = True, ps_link_id = 0, ps_slot_id = 0, ps_slot_hex = zeros_hex 2, ps_en1_hex = zeros_hex 6, ps_en2_size = 4\<rparr>\<rparr>"

lemma relay_sample_facts:
  "notify_bytes relay_job (replicate 32 0) (replicate 4 0) [] [] []" "length (ve_sha256 relay_env x) = 32"
  "sv_channel_open relay_state" "\<not> sv_noise_active relay_state" "ps_en1_hex (sv_slot relay_state) = bytes_to_hex (replicate 6 0)"
  "sv_next_job_id relay_state \<notin> set (sv_job_order relay_state)"
  by (simp_all add: notify_bytes_def relay_job_def sample_notify_def zeros_hex_def relay_env_def relay_state_def sv_new_def)


end
