(* ===== verification/Sv2_Relay_Frames.thy ===== *)
theory Sv2_Relay_Frames
  imports Sv2_Relay
begin

text \<open>
  The receiving side of an SV2 session of the proxy against a miner that encrypts with Noise: frames are
  handled as they were sent, however TCP cuts the ciphertext.
\<close>

section \<open>The receiving cipher\<close>

text \<open>The part of a session that reading frames depends on; handlers leave it alone.\<close>

definition rx_view :: "'u sv \<Rightarrow> bool \<times> bool \<times> bytes \<times> u64" where
  "rx_view s = (sv_handshake_done s, sv_noise_active s, ns_rx_key (sv_noise s), ns_rx_nonce (sv_noise s))"

lemma rx_update [simp]:
  "rx_view (s\<lparr>sv_setup_done := b\<rparr>) = rx_view s" "rx_view (s\<lparr>sv_channel_open := b\<rparr>) = rx_view s"
  "rx_view (s\<lparr>sv_open_request_id := i\<rparr>) = rx_view s" "rx_view (s\<lparr>sv_user_identity := u\<rparr>) = rx_view s"
  "rx_view (s\<lparr>sv_slot := sl\<rparr>) = rx_view s" "rx_view (s\<lparr>sv_attached := b\<rparr>) = rx_view s" "rx_view (s\<lparr>sv_target_diff := d\<rparr>) = rx_view s"
  "rx_view (s\<lparr>sv_jobs := js\<rparr>) = rx_view s" "rx_view (s\<lparr>sv_job_order := os\<rparr>) = rx_view s" "rx_view (s\<lparr>sv_next_job_id := i\<rparr>) = rx_view s"
  "rx_view (s\<lparr>sv_en2_counter := c\<rparr>) = rx_view s" "rx_view (s\<lparr>sv_latest_up_job := j\<rparr>) = rx_view s"
  "rx_view (s\<lparr>sv_forwarded := c\<rparr>) = rx_view s" "rx_view (s\<lparr>sv_accepted := c\<rparr>) = rx_view s" "rx_view (s\<lparr>sv_rejected := c\<rparr>) = rx_view s"
  "rx_view (s\<lparr>sv_closed := b\<rparr>) = rx_view s" "rx_view (s\<lparr>sv_rl := rl\<rparr>) = rx_view s" "rx_view (s\<lparr>sv_up := up\<rparr>) = rx_view s"
  "rx_view (s\<lparr>sv_fault := f\<rparr>) = rx_view s" "rx_view (s\<lparr>sv_out := out\<rparr>) = rx_view s"
  by (simp_all add: rx_view_def)

lemma rx_emit [simp]: "rx_view (sv_emit ef s) = rx_view s"
  by (simp add: sv_emit_def)

lemma rx_close [simp]: "rx_view (sv_close e s) = rx_view s"
  by (simp add: sv_close_def Let_def)

lemma rx_send [simp]: "rx_view (send_sv2 e t w s) = rx_view s"
  by (simp add: send_sv2_def ns_encrypt_def Let_def) (simp add: rx_view_def sv_emit_def)

lemma rx_try: "(\<And>x s. rx_view (k x s) = rx_view s) \<Longrightarrow> rx_view (sv_try m k s) = rx_view s"
  by (cases m) (simp_all add: sv_try_def)

lemma rx_remember [simp]: "rx_view (sv_remember_job i r s) = rx_view s"
  by (simp add: sv_remember_job_def Let_def)

lemma rx_hold [simp]: "rx_view (sv_hold e s) = rx_view s"
  by (simp add: sv_hold_def)

lemma rx_emit_job [simp]: "rx_view (sv_emit_job e job s) = rx_view s"
  by (auto simp: sv_emit_job_def Let_def sv_try_def split: sum.split)

lemma rx_attach [simp]: "rx_view (sv_try_attach e s) = rx_view s"
  by (auto simp: sv_try_attach_def Let_def sv_try_def split: sum.split prod.split option.split)

lemma rx_reject [simp]: "rx_view (sv_reject e sub code s) = rx_view s"
  by (auto simp: sv_reject_def Let_def split: option.split prod.split)

lemma rx_submit [simp]: "rx_view (sv_submit_shares e sub s) = rx_view s"
  by (auto simp: sv_submit_shares_def sv_score_def Let_def sv_try_def split: sum.split option.split)

lemma rx_handle [simp]: "rx_view (sv_handle_caught e t payload s) = rx_view s"
  by (auto simp: sv_handle_caught_def sv_handle_frame_def sv_setup_connection_def sv_open_channel_def sv_try_def split: sum.split)

section \<open>Reading does not depend on the chunks\<close>

lemma read_header_append:
  "sv_read_header e buf s = Some (h, buf', s') \<Longrightarrow> sv_read_header e (buf @ extra) s = Some (h, buf' @ extra, s')"
  by (auto simp: sv_read_header_def Let_def split: if_splits option.splits sum.splits)

lemma read_payload_append:
  "sv_read_payload e n buf s = Some (m, buf', s') \<Longrightarrow> sv_read_payload e n (buf @ extra) s = Some (m, buf' @ extra, s')"
  by (auto simp: sv_read_payload_def Let_def split: if_splits option.splits)

lemma frames_closed: "sv_closed s \<Longrightarrow> sv_frames e x s = (x, s)"
  by (subst sv_frames.simps) simp

lemma close_closed [simp]: "sv_closed (sv_close e s)"
  by (simp add: sv_close_def Let_def)

lemma frames_cases:
  obtains (closed) "sv_closed s"
  | (wait) "\<not> sv_closed s" "sx_header x = None" "sv_read_header e (sx_in x) s = None"
  | (header) h buf s' where "\<not> sv_closed s" "sx_header x = None" "sv_read_header e (sx_in x) s = Some (h, buf, s')"
  | (wait') h where "\<not> sv_closed s" "sx_header x = Some h" "sv_read_payload e (unat (h_msg_length h)) (sx_in x) s = None"
  | (payload) h m buf s' where "\<not> sv_closed s" "sx_header x = Some h"
      "sv_read_payload e (unat (h_msg_length h)) (sx_in x) s = Some (m, buf, s')"
  by (metis option.exhaust prod_cases3)

lemma frames_append:
  "sv_frames e (x\<lparr>sx_in := sx_in x @ extra\<rparr>) s =
     (let (x', s') = sv_frames e x s in sv_frames e (x'\<lparr>sx_in := sx_in x' @ extra\<rparr>) s')"
proof (induction e x s rule: sv_frames.induct)
  case (1 e x s)
  note step = sv_frames.simps[of e x s] sv_frames.simps[of e "x\<lparr>sx_in := sx_in x @ extra\<rparr>" s]
  show ?case
  proof (cases rule: frames_cases[where s = s and x = x and e = e])
    case (header h buf s')
    note a = read_header_append[OF header(3), of extra]
    show ?thesis
    proof (cases h)
      case (Some hd)
      then show ?thesis
        using "1.IH"(1)[OF header(1,2,3) refl Some refl] header a by (simp add: step frames_closed)
    qed (use header a in \<open>simp add: step frames_closed\<close>)
  next
    case (payload h m buf s')
    note a = read_payload_append[OF payload(3), of extra]
    show ?thesis
    proof (cases m)
      case (Some w)
      then show ?thesis
        using "1.IH"(2)[OF payload(1,2,3) refl Some refl] payload a by (simp add: step frames_closed)
    qed (use payload a in \<open>simp add: step frames_closed\<close>)
  qed (simp_all add: step(1) frames_closed)
qed

lemma frames_leave:
  "sv_frames e x s = (x', s') \<Longrightarrow> length (sx_in x') \<le> length (sx_in x) \<and> sv_handshake_done s' = sv_handshake_done s"
proof (induction e x s arbitrary: x' s' rule: sv_frames.induct)
  case (1 e x s)
  have done_rx: "rx_view a = rx_view b \<Longrightarrow> sv_handshake_done a = sv_handshake_done b" for a b :: "'a sv"
    by (simp add: rx_view_def)
  note keep = done_rx[OF rx_close] done_rx[OF rx_handle]
  have head: "sv_read_header e b t = Some (h, b', t') \<Longrightarrow> length b' \<le> length b \<and> sv_handshake_done t' = sv_handshake_done t" for h b b' t t'
    by (auto simp: sv_read_header_def Let_def split: if_splits option.splits sum.splits)
  have load: "sv_read_payload e n b t = Some (m, b', t') \<Longrightarrow> length b' \<le> length b \<and> sv_handshake_done t' = sv_handshake_done t" for n m b b' t t'
    by (auto simp: sv_read_payload_def Let_def split: if_splits option.splits)
  note step = sv_frames.simps[of e x s]
  show ?case
  proof (cases rule: frames_cases[where s = s and x = x and e = e])
    case (header h buf t)
    show ?thesis
    proof (cases "\<exists>hd. h = Some hd \<and> frame_length_ok (h_msg_length hd)")
      case True
      then obtain hd where "h = Some hd" "frame_length_ok (h_msg_length hd)"
        by blast
      then show ?thesis
        using "1.IH"(1)[OF header(1,2,3) refl _ refl, of hd] "1.prems" header head[OF header(3)] by (auto simp: step)
    next
      case False
      then show ?thesis
        using "1.prems" header head[OF header(3)] by (auto simp: step keep split: option.splits)
    qed
  next
    case (payload h m buf t)
    show ?thesis
    proof (cases m)
      case (Some w)
      then show ?thesis
        using "1.IH"(2)[OF payload(1,2,3) refl Some refl] "1.prems" payload load[OF payload(3)] by (auto simp: step keep)
    qed (use "1.prems" payload load[OF payload(3)] in \<open>auto simp: step keep\<close>)
  qed (use "1.prems" in \<open>auto simp: step\<close>)
qed

lemma frames_again: "sv_frames e x s = (x', s') \<Longrightarrow> sv_frames e x' s' = (x', s')"
  using frames_append[of e x "[]" s] by simp

section \<open>The miner's stream\<close>

text \<open>What a miner sends that follows the protocol: each frame's header and payload sealed on their own, under consecutive nonces.\<close>

fun noise_stream :: "noise_prims \<Rightarrow> bytes \<Rightarrow> u64 \<Rightarrow> (u8 \<times> bytes) list \<Rightarrow> bytes" where
  "noise_stream P k n [] = []"
| "noise_stream P k n ((t, w) # fs) =
     np_seal P k (nonce_bytes n) [] (take 6 (wrap_message EXT_COMMON t w)) @ np_seal P k (nonce_bytes (n + 1)) [] w @
     noise_stream P k (n + 2) fs"

text \<open>The frames handled one after the other; a frame moves the receiving nonce by two.\<close>

definition rx_frame :: "'u sv \<Rightarrow> 'u sv" where
  "rx_frame s = s\<lparr>sv_noise := (sv_noise s)\<lparr>ns_rx_nonce := ns_rx_nonce (sv_noise s) + 2\<rparr>\<rparr>"

fun handle_all :: "'u sv_env \<Rightarrow> (u8 \<times> bytes) list \<Rightarrow> 'u sv \<Rightarrow> 'u sv" where
  "handle_all e [] s = s"
| "handle_all e ((t, w) # fs) s = (if sv_closed s then s else handle_all e fs (sv_handle_caught e t w (rx_frame s)))"

lemma frame_head:
  assumes "length w < 2 ^ 24"
  shows "\<exists>h. run_parser Header_deserialize (take 6 (wrap_message ext t w)) = Inr h \<and> h_msg_type h = t \<and>
    h_msg_length h = of_nat (length w) \<and> length (take 6 (wrap_message ext t w)) = 6"
proof -
  have "run_parser Header_deserialize (take 6 (wrap_message ext t w)) =
      Inr \<lparr>h_extension_type = (if is_channel_msg t then ext OR CHANNEL_MSG_BIT else ext), h_msg_type = t, h_msg_length = of_nat (length w)\<rparr>"
    using wrap_message_header[OF assms, unfolded decodes_def, rule_format, where pre = "[]" and suf = "[]"]
    by (simp add: run_parser_def mk_reader_def)
  moreover have "length (take 6 (wrap_message ext t w)) = 6"
    by (simp add: wrap_message_def Let_def)
  ultimately show ?thesis
    by simp
qed

lemma frames_of_stream:
  assumes "prims_ok (ve_prims e)" and "\<forall>(t, w) \<in> set fs. 0 < length w \<and> length w \<le> 65519" and "rx_view s = (True, True, k, n)"
  shows "\<exists>x. sv_frames e \<lparr>sx_in = noise_stream (ve_prims e) k n fs, sx_header = None\<rparr> s = (x, handle_all e fs s)"
  using assms(2,3)
proof (induction fs arbitrary: s n)
  case Nil
  then show ?case
    by (subst sv_frames.simps) (auto simp: sv_read_header_def)
next
  case (Cons f fs)
  obtain t w where f: "f = (t, w)"
    by (cases f)
  obtain h where h: "run_parser Header_deserialize (take 6 (wrap_message EXT_COMMON t w)) = Inr h" "h_msg_type h = t"
      "h_msg_length h = of_nat (length w)" "length (take 6 (wrap_message EXT_COMMON t w)) = 6"
    using frame_head[of w EXT_COMMON t] Cons.prems(1) f by force
  have l: "unat (of_nat (length w) :: u32) = length w" "0 < length w" "frame_length_ok (h_msg_length h)"
    using Cons.prems(1) f by (auto simp: unat_of_nat h(3) frame_length_ok_iff)
  let ?P = "ve_prims e"
  let ?c1 = "np_seal ?P k (nonce_bytes n) [] (take 6 (wrap_message EXT_COMMON t w))"
  let ?c2 = "np_seal ?P k (nonce_bytes (n + 1)) [] w"
  let ?n1 = "(sv_noise s)\<lparr>ns_rx_nonce := n + 1\<rparr>"
  have len: "length ?c1 = 22" "length ?c2 = length w + 16"
    using h(4) by (simp_all add: seal_open[OF assms(1)])
  have rx: "sv_noise_active s" "ns_rx_key (sv_noise s) = k" "ns_rx_nonce (sv_noise s) = n"
    using Cons.prems(2) by (auto simp: rx_view_def)
  have head: "sv_read_header e (?c1 @ rest) s = Some (Some h, rest, s\<lparr>sv_noise := ?n1\<rparr>)" for rest
    using rx len h by (simp add: sv_read_header_def ns_decrypt_def seal_open[OF assms(1)])
  have load: "sv_read_payload e (unat (h_msg_length h)) (?c2 @ rest) (s\<lparr>sv_noise := ?n1\<rparr>) = Some (Some w, rest, rx_frame s)" for rest
    using rx len l by (simp add: sv_read_payload_def ns_decrypt_def seal_open[OF assms(1)] h(3) rx_frame_def add.commute)
  show ?case
  proof (cases "sv_closed s")
    case False
    have "rx_view (sv_handle_caught e t w (rx_frame s)) = (True, True, k, n + 2)"
      unfolding rx_handle using Cons.prems(2) by (simp add: rx_view_def rx_frame_def)
    then obtain x where "sv_frames e \<lparr>sx_in = noise_stream ?P k (n + 2) fs, sx_header = None\<rparr> (sv_handle_caught e t w (rx_frame s)) =
        (x, handle_all e fs (sv_handle_caught e t w (rx_frame s)))"
      using Cons.IH[of "sv_handle_caught e t w (rx_frame s)" "n + 2"] Cons.prems(1) by auto
    then show ?thesis
      using False by (subst sv_frames.simps, subst sv_frames.simps) (simp add: f head load h(2) l(3))
  qed (simp add: f frames_closed)
qed

section \<open>Reads\<close>

text \<open>The read loop over the chunks TCP delivers; a closed session reads no further.\<close>

definition sv_reads :: "'u sv_env \<Rightarrow> bytes list \<Rightarrow> sv_rx \<times> 'u sv \<Rightarrow> sv_rx \<times> 'u sv" where
  "sv_reads e chunks st = fold (\<lambda>c st. if sv_closed (snd st) then st else sv_on_read e (Some c) st) chunks st"

lemma reads_closed: "sv_closed (snd st) \<Longrightarrow> sv_reads e chunks st = st"
  by (induction chunks) (simp_all add: sv_reads_def)

lemma reads_frames:
  assumes "sv_handshake_done s"
    and "length (sx_in x) + length (concat chunks) \<le> 4 * 2 ^ 20" and "sv_frames e x s = (x, s)"
  shows "snd (sv_reads e chunks (x, s)) = snd (sv_frames e (x\<lparr>sx_in := sx_in x @ concat chunks\<rparr>) s)"
  using assms
proof (induction chunks arbitrary: x s)
  case Nil
  then show ?case
    by (simp add: sv_reads_def)
next
  case (Cons c chunks)
  show ?case
  proof (cases "sv_closed s")
    case False
    obtain x1 s1 where f: "sv_frames e (x\<lparr>sx_in := sx_in x @ c\<rparr>) s = (x1, s1)"
      by (rule prod.exhaust)
    have leave: "length (sx_in x1) \<le> length (sx_in x) + length c" "sv_handshake_done s1"
      using frames_leave[OF f] Cons.prems(1) by simp_all
    have step: "sv_reads e (c # chunks) (x, s) = sv_reads e chunks (x1, s1)"
      using Cons.prems(1,2) False f
      by (simp add: sv_reads_def sv_on_read_def sv_consume_def sv_handshake_def Let_def)
    have whole: "sv_frames e (x\<lparr>sx_in := sx_in x @ concat (c # chunks)\<rparr>) s = sv_frames e (x1\<lparr>sx_in := sx_in x1 @ concat chunks\<rparr>) s1"
      using frames_append[of e "x\<lparr>sx_in := sx_in x @ c\<rparr>" "concat chunks" s] f by simp
    have again: "sv_frames e x1 s1 = (x1, s1)"
      using frames_again[OF f] .
    show ?thesis
      unfolding step whole
      using Cons.IH[OF leave(2) _ again] Cons.prems(2) leave(1) by simp
  qed (simp add: reads_closed frames_closed)
qed


text \<open>A sealed empty payload is skipped without being opened: the session's nonce is then one behind the miner's.\<close>

lemma empty_payload_skips_nonce:
  assumes "prims_ok (ve_prims e)" and "rx_view s = (True, True, k, n)" and "\<not> sv_closed s"
  shows "rx_view (snd (sv_frames e \<lparr>sx_in = noise_stream (ve_prims e) k n [(t, [])], sx_header = None\<rparr> s)) = (True, True, k, n + 1)"
proof -
  obtain h where h: "run_parser Header_deserialize (take 6 (wrap_message EXT_COMMON t [])) = Inr h" "h_msg_type h = t"
      "h_msg_length h = 0" "length (take 6 (wrap_message EXT_COMMON t [])) = 6"
    using frame_head[of "[]" EXT_COMMON t] by auto
  let ?P = "ve_prims e" and ?s = "s\<lparr>sv_noise := (sv_noise s)\<lparr>ns_rx_nonce := n + 1\<rparr>\<rparr>"
  have rx: "sv_noise_active s" "ns_rx_key (sv_noise s) = k" "ns_rx_nonce (sv_noise s) = n"
    using assms(2) by (auto simp: rx_view_def)
  have head: "sv_read_header e (np_seal ?P k (nonce_bytes n) [] (take 6 (wrap_message EXT_COMMON t [])) @ rest) s = Some (Some h, rest, ?s)" for rest
    using rx h by (simp add: sv_read_header_def ns_decrypt_def seal_open[OF assms(1)])
  have load: "sv_read_payload e (unat (h_msg_length h)) (np_seal ?P k (nonce_bytes (n + 1)) [] []) ?s = Some (Some [], [], ?s)"
    using rx h by (simp add: sv_read_payload_def seal_open[OF assms(1)])
  have ok: "frame_length_ok (h_msg_length h)"
    using h(3) by (simp add: frame_length_ok_def)
  have rest: "sv_frames e \<lparr>sx_in = [], sx_header = None\<rparr> u = (\<lparr>sx_in = [], sx_header = None\<rparr>, u)" for u
    by (subst sv_frames.simps) (simp add: sv_read_header_def)
  have "snd (sv_frames e \<lparr>sx_in = noise_stream ?P k n [(t, [])], sx_header = None\<rparr> s) = sv_handle_caught e t [] ?s"
    using assms(3) by (subst sv_frames.simps, subst sv_frames.simps) (simp add: head load h(2) ok rest)
  then show ?thesis
    using assms(2) by (simp add: rx_handle) (simp add: rx_view_def)
qed


end
