(* ===== verification/Db_Worker.thy ===== *)
theory Db_Worker
  imports Utils Floats
begin

text \<open>
  The asynchronous database writer (\<open>DbWorker\<close>, \<open>src/db_worker.cpp\<close>). The sessions' threads enqueue
  records, the worker's thread takes every queue at once and writes the batch in one transaction; a broken connection
  puts the batch back in front of what was enqueued meanwhile. The two threads interleave at the mutex: an enqueue,
  the draining of the queues and the end of a flush are each one step. PostgreSQL and libpqxx are the answers the worker gets to the statements of
  a transaction, an argument of the step; what was written is the list of the committed
  transactions, each the list of its statements.
\<close>

section \<open>Records\<close>

record db_share =
  dsh_miner_id :: int
  dsh_job_id :: string
  dsh_nonce :: string
  dsh_extranonce1 :: string
  dsh_extranonce2 :: string
  dsh_share_hash :: string
  dsh_difficulty :: rat
  dsh_accepted :: bool
  dsh_block_found :: bool

record db_presence =
  dpr_btc_address :: string
  dpr_worker_name :: string
  dpr_status :: string
  dpr_ip :: string

record db_best =
  dbs_miner_id :: int
  dbs_difficulty :: rat
  dbs_hash :: string

record db_hashrate =
  dhr_miner_id :: int
  dhr_hashrate_hps :: rat
  dhr_ts :: int

record db_block =
  dbl_height :: int
  dbl_block_hash :: string
  dbl_miner_id :: int
  dbl_difficulty :: rat
  dbl_reward_value :: int
  dbl_coin :: string

record db_config =
  dbc_batch_size :: nat
  dbc_max_queue :: nat
  dbc_share_multiplier :: rat
  dbc_coin :: string

text \<open>The five queues; a batch has the same shape.\<close>

record db_queues =
  dq_shares :: "db_share list"
  dq_presences :: "db_presence list"
  dq_best :: "db_best list"
  dq_hashrates :: "db_hashrate list"
  dq_blocks :: "db_block list"

definition empty_queues :: db_queues where
  "empty_queues = \<lparr>dq_shares = [], dq_presences = [], dq_best = [], dq_hashrates = [], dq_blocks = []\<rparr>"

definition dq_depth :: "db_queues \<Rightarrow> nat" where
  "dq_depth q = length (dq_shares q) + length (dq_presences q) + length (dq_best q) + length (dq_hashrates q) + length (dq_blocks q)"

text \<open>A batch in front of the queues.\<close>

definition dq_append :: "db_queues \<Rightarrow> db_queues \<Rightarrow> db_queues" where
  "dq_append b q =
     \<lparr>dq_shares = dq_shares b @ dq_shares q, dq_presences = dq_presences b @ dq_presences q, dq_best = dq_best b @ dq_best q,
      dq_hashrates = dq_hashrates b @ dq_hashrates q, dq_blocks = dq_blocks b @ dq_blocks q\<rparr>"

section \<open>Statements\<close>

text \<open>The statements of a flush with their parameters; \<open>Sql_Insert_Shares\<close> carries the text of its \<open>VALUES\<close> list.\<close>

datatype db_param = P_Int int | P_Text string | P_Float rat | P_Bool bool

datatype sql =
  Sql_Upsert_Miner db_presence
| Sql_Insert_Shares string "db_param list"
| Sql_Add_Effort rat
| Sql_Update_Best db_best
| Sql_Insert_Hashrate int rat int
| Sql_Select_Net_Diff string
| Sql_Select_Effort
| Sql_Select_Finder_Effort int string
| Sql_Insert_Block db_block rat rat rat string \<comment> \<open>the block, its round effort, network difficulty, finder effort and coin\<close>
| Sql_Reset_Effort int
| Sql_Aggregate_Hashrates rat
| Sql_Commit

text \<open>An answer: the value of the first field, when the result has a row and the field is not null; a broken
  connection; or any other exception.\<close>

datatype sql_answer = Sql_Value "rat option" | Sql_Broken | Sql_Failed

datatype db_fault = Db_Broken | Db_Failed

text \<open>A transaction: the statements so far, the entries it put into the miner cache and the shares it counted as written. A
  statement that throws is not part of it.\<close>

record db_txn =
  tx_log :: "sql list"
  tx_cache :: "((string \<times> string) \<times> int) list"
  tx_written :: u64

type_synonym 'a tx = "db_txn \<Rightarrow> (db_fault + 'a) \<times> db_txn"

definition returnT :: "'a \<Rightarrow> 'a tx" where
  "returnT x t = (Inr x, t)"

definition bindT :: "'a tx \<Rightarrow> ('a \<Rightarrow> 'b tx) \<Rightarrow> 'b tx" where
  "bindT m f t = (case m t of (Inl x, t) \<Rightarrow> (Inl x, t) | (Inr x, t) \<Rightarrow> f x t)"

definition tx_exec :: "(sql list \<Rightarrow> sql_answer) \<Rightarrow> sql \<Rightarrow> rat option tx" where
  "tx_exec ans q t =
     (case ans (tx_log t @ [q]) of
        Sql_Value v \<Rightarrow> (Inr v, t\<lparr>tx_log := tx_log t @ [q]\<rparr>)
      | Sql_Broken \<Rightarrow> (Inl Db_Broken, t)
      | Sql_Failed \<Rightarrow> (Inl Db_Failed, t))"

definition tx_run :: "(sql list \<Rightarrow> sql_answer) \<Rightarrow> sql \<Rightarrow> unit tx" where
  "tx_run ans q = bindT (tx_exec ans q) (\<lambda>_. returnT ())"

primrec tx_each :: "('a \<Rightarrow> unit tx) \<Rightarrow> 'a list \<Rightarrow> unit tx" where
  "tx_each f [] = returnT ()"
| "tx_each f (x # xs) = bindT (f x) (\<lambda>_. tx_each f xs)"

section \<open>A flush\<close>

text \<open>The id in the answer goes into the cache before the transaction commits.\<close>

definition flush_presence :: "(sql list \<Rightarrow> sql_answer) \<Rightarrow> db_presence \<Rightarrow> unit tx" where
  "flush_presence ans p =
     bindT (tx_exec ans (Sql_Upsert_Miner p)) (\<lambda>v t.
       (Inr (), case v of
                  None \<Rightarrow> t
                | Some i \<Rightarrow> t\<lparr>tx_cache := tx_cache t @ [((dpr_btc_address p, dpr_worker_name p), \<lfloor>i\<rfloor>)]\<rparr>))"

text \<open>The multi-row insert: one group of nine placeholders per share.\<close>

definition placeholder :: "nat \<Rightarrow> string" where
  "placeholder idx =
     ''('' @ concat (map (\<lambda>k. CHR ''$'' # dec_string (idx + k) @ (if k = 8 then '')'' else '','')) [0..<9])"

primrec placeholders :: "nat \<Rightarrow> db_share list \<Rightarrow> string list" where
  "placeholders idx [] = []"
| "placeholders idx (s # ss) = placeholder idx # placeholders (idx + 9) ss"

fun join_comma :: "string list \<Rightarrow> string" where
  "join_comma [] = []"
| "join_comma [x] = x"
| "join_comma (x # y # xs) = x @ CHR '','' # join_comma (y # xs)"

definition share_params :: "db_share \<Rightarrow> db_param list" where
  "share_params s =
     [P_Int (dsh_miner_id s), P_Text (dsh_job_id s), P_Text (dsh_nonce s), P_Text (dsh_extranonce1 s), P_Text (dsh_extranonce2 s),
      P_Text (dsh_share_hash s), P_Float (dsh_difficulty s), P_Bool (dsh_accepted s), P_Bool (dsh_block_found s)]"

definition insert_shares :: "db_share list \<Rightarrow> sql" where
  "insert_shares batch = Sql_Insert_Shares (join_comma (placeholders 1 batch)) (concat (map share_params batch))"

definition flush_share_rows :: "(sql list \<Rightarrow> sql_answer) \<Rightarrow> db_share list \<Rightarrow> unit tx" where
  "flush_share_rows ans batch =
     (if batch = [] then returnT ()
      else bindT (tx_run ans (insert_shares batch)) (\<lambda>_ t. (Inr (), t\<lparr>tx_written := tx_written t + of_nat (length batch)\<rparr>)))"

definition batch_diff :: "db_share list \<Rightarrow> rat" where
  "batch_diff batch = fold (\<lambda>s d. if dsh_accepted s then dbl (d + dsh_difficulty s) else d) batch 0"

definition flush_effort :: "(sql list \<Rightarrow> sql_answer) \<Rightarrow> db_share list \<Rightarrow> unit tx" where
  "flush_effort ans batch = (let d = batch_diff batch in if d > 0 then tx_run ans (Sql_Add_Effort d) else returnT ())"

definition net_diff_snapshot :: "(sql list \<Rightarrow> sql_answer) \<Rightarrow> db_config \<Rightarrow> db_block list \<Rightarrow> rat tx" where
  "net_diff_snapshot ans cfg blocks =
     (if blocks = [] then returnT 0
      else bindT (tx_exec ans (Sql_Select_Net_Diff (dbc_coin cfg))) (\<lambda>v. returnT (case v of None \<Rightarrow> 0 | Some d \<Rightarrow> d)))"

definition block_coin :: "db_config \<Rightarrow> db_block \<Rightarrow> string" where
  "block_coin cfg b = (if dbl_coin b = [] then dbc_coin cfg else dbl_coin b)"

definition is_aux_block :: "db_config \<Rightarrow> db_block \<Rightarrow> bool" where
  "is_aux_block cfg b \<longleftrightarrow> block_coin cfg b \<noteq> dbc_coin cfg"

text \<open>The difficulty and the efforts frozen with a block; a merge-mined one gets none.\<close>

definition block_efforts :: "(sql list \<Rightarrow> sql_answer) \<Rightarrow> db_config \<Rightarrow> rat \<Rightarrow> db_block \<Rightarrow> (rat \<times> rat \<times> rat) tx" where
  "block_efforts ans cfg net b =
     (if is_aux_block cfg b then returnT (0, 0, 0)
      else
        bindT (tx_exec ans Sql_Select_Effort) (\<lambda>r.
          bindT (if dbl_miner_id b > 0 then tx_exec ans (Sql_Select_Finder_Effort (dbl_miner_id b) (dbc_coin cfg)) else returnT None) (\<lambda>f.
            returnT (case r of None \<Rightarrow> 0 | Some d \<Rightarrow> d, net, case f of None \<Rightarrow> 0 | Some d \<Rightarrow> d))))"

definition block_row :: "db_config \<Rightarrow> db_block \<Rightarrow> rat \<times> rat \<times> rat \<Rightarrow> sql" where
  "block_row cfg b efforts =
     (case efforts of (round_effort, net, finder_effort) \<Rightarrow>
        Sql_Insert_Block (b\<lparr>dbl_miner_id := (if dbl_miner_id b > 0 then dbl_miner_id b else 0)\<rparr>) round_effort net finder_effort (block_coin cfg b))"

definition flush_block :: "(sql list \<Rightarrow> sql_answer) \<Rightarrow> db_config \<Rightarrow> rat \<Rightarrow> db_block \<Rightarrow> unit tx" where
  "flush_block ans cfg net b =
     bindT (block_efforts ans cfg net b) (\<lambda>efforts.
       bindT (tx_run ans (block_row cfg b efforts)) (\<lambda>_.
         if is_aux_block cfg b then returnT () else tx_run ans (Sql_Reset_Effort (dbl_height b))))"

definition flush_hashrate :: "(sql list \<Rightarrow> sql_answer) \<Rightarrow> db_hashrate \<Rightarrow> unit tx" where
  "flush_hashrate ans h = tx_run ans (Sql_Insert_Hashrate (dhr_miner_id h) (dhr_hashrate_hps h) (dhr_ts h))"

definition flush :: "(sql list \<Rightarrow> sql_answer) \<Rightarrow> db_config \<Rightarrow> db_queues \<Rightarrow> unit tx" where
  "flush ans cfg b =
     bindT (tx_each (flush_presence ans) (dq_presences b)) (\<lambda>_.
     bindT (flush_share_rows ans (dq_shares b)) (\<lambda>_.
     bindT (flush_effort ans (dq_shares b)) (\<lambda>_.
     bindT (tx_each (\<lambda>x. tx_run ans (Sql_Update_Best x)) (dq_best b)) (\<lambda>_.
     bindT (tx_each (flush_hashrate ans) (dq_hashrates b)) (\<lambda>_.
     bindT (net_diff_snapshot ans cfg (dq_blocks b)) (\<lambda>net.
     bindT (tx_each (flush_block ans cfg net) (dq_blocks b)) (\<lambda>_.
     tx_run ans Sql_Commit)))))))"

section \<open>The worker\<close>

text \<open>What the worker has done: a transaction that committed, or a batch given up with an error in the log.\<close>

datatype db_ended = Db_Committed "sql list" | Db_Given_Up db_queues

record db_worker =
  dw_cfg :: db_config
  dw_queues :: db_queues
  dw_running :: bool
  dw_conn :: bool \<comment> \<open>a connection object that says it is open\<close>
  dw_taken :: "db_queues option" \<comment> \<open>the batch being flushed\<close>
  dw_shares_written :: u64
  dw_shares_dropped :: u64
  dw_batches :: u64
  dw_depth_metric :: nat
  dw_cache :: "((string \<times> string) \<times> int) list"
  dw_ended :: "db_ended list"

definition dw_new :: "db_config \<Rightarrow> db_worker" where
  "dw_new cfg =
     \<lparr>dw_cfg = cfg, dw_queues = empty_queues, dw_running = False, dw_conn = False, dw_taken = None, dw_shares_written = 0,
      dw_shares_dropped = 0, dw_batches = 0, dw_depth_metric = 0, dw_cache = [], dw_ended = []\<rparr>"

definition enqueue_share :: "db_share \<Rightarrow> db_worker \<Rightarrow> bool \<times> db_worker" where
  "enqueue_share r w =
     (let q = dw_queues w
      in if dbc_max_queue (dw_cfg w) \<le> length (dq_shares q) then (False, w\<lparr>dw_shares_dropped := dw_shares_dropped w + 1\<rparr>)
         else (True, w\<lparr>dw_queues := q\<lparr>dq_shares := dq_shares q @ [r]\<rparr>\<rparr>))"

definition enqueue_presence :: "db_presence \<Rightarrow> db_worker \<Rightarrow> bool \<times> db_worker" where
  "enqueue_presence r w =
     (let q = dw_queues w
      in if dbc_max_queue (dw_cfg w) \<le> length (dq_presences q) then (False, w)
         else (True, w\<lparr>dw_queues := q\<lparr>dq_presences := dq_presences q @ [r]\<rparr>\<rparr>))"

definition enqueue_best_share :: "db_best \<Rightarrow> db_worker \<Rightarrow> bool \<times> db_worker" where
  "enqueue_best_share r w =
     (let q = dw_queues w
      in if dbc_max_queue (dw_cfg w) \<le> length (dq_best q) then (False, w)
         else (True, w\<lparr>dw_queues := q\<lparr>dq_best := dq_best q @ [r]\<rparr>\<rparr>))"

definition enqueue_hashrate :: "db_hashrate \<Rightarrow> db_worker \<Rightarrow> bool \<times> db_worker" where
  "enqueue_hashrate r w =
     (let q = dw_queues w
      in if dbc_max_queue (dw_cfg w) \<le> length (dq_hashrates q) then (False, w)
         else (True, w\<lparr>dw_queues := q\<lparr>dq_hashrates := dq_hashrates q @ [r]\<rparr>\<rparr>))"

definition enqueue_block :: "db_block \<Rightarrow> db_worker \<Rightarrow> bool \<times> db_worker" where
  "enqueue_block r w =
     (let q = dw_queues w
      in if dbc_max_queue (dw_cfg w) \<le> length (dq_blocks q) then (False, w)
         else (True, w\<lparr>dw_queues := q\<lparr>dq_blocks := dq_blocks q @ [r]\<rparr>\<rparr>))"

definition dw_stats :: "db_worker \<Rightarrow> u64 \<times> u64 \<times> u64 \<times> nat" where
  "dw_stats w = (dw_shares_written w, dw_shares_dropped w, dw_batches w, dq_depth (dw_queues w))"

definition dw_start :: "bool \<Rightarrow> db_worker \<Rightarrow> db_worker" where
  "dw_start opened w = (if dw_running w then w else w\<lparr>dw_running := True, dw_conn := opened\<rparr>)"

definition dw_stop :: "db_worker \<Rightarrow> db_worker" where
  "dw_stop w = w\<lparr>dw_running := False\<rparr>"

text \<open>The predicate the worker waits for, up to the flush interval; draining does not depend on it.\<close>

definition dw_wakes :: "db_worker \<Rightarrow> bool" where
  "dw_wakes w \<longleftrightarrow>
     (let n = dbc_batch_size (dw_cfg w); q = dw_queues w
      in \<not> dw_running w \<or> n \<le> length (dq_shares q) \<or> n \<le> length (dq_presences q) \<or> n \<le> length (dq_best q) \<or>
         n \<le> length (dq_hashrates q) \<or> dq_blocks q \<noteq> [])"

text \<open>
  An iteration of the loop up to the flush: \<open>reconnects\<close> says whether a lost connection comes back (else the
  iteration ends), then the queues are drained. The queue-depth metric is set after they were cleared. \<open>agg\<close>
  is the answer to the periodic aggregation, when it is due; it has its own transaction.
\<close>

definition dw_take :: "bool \<Rightarrow> (sql list \<Rightarrow> sql_answer) option \<Rightarrow> db_worker \<Rightarrow> db_worker" where
  "dw_take reconnects agg w =
     (if \<not> dw_running w \<or> dw_taken w \<noteq> None then w
      else
        let w = (if dw_conn w then w else w\<lparr>dw_conn := reconnects\<rparr>)
        in if \<not> dw_conn w then w
           else
             let batch = dw_queues w;
                 w = w\<lparr>dw_queues := empty_queues\<rparr>;
                 w = w\<lparr>dw_depth_metric := dq_depth (dw_queues w)\<rparr>;
                 w = (case agg of
                        None \<Rightarrow> w
                      | Some ans \<Rightarrow>
                          (case bindT (tx_run ans (Sql_Aggregate_Hashrates (dbc_share_multiplier (dw_cfg w)))) (\<lambda>_. tx_run ans Sql_Commit)
                                  \<lparr>tx_log = [], tx_cache = [], tx_written = 0\<rparr> of
                             (Inr _, t) \<Rightarrow> w\<lparr>dw_ended := dw_ended w @ [Db_Committed (tx_log t)]\<rparr>
                           | (Inl _, _) \<Rightarrow> w))
             in if dq_depth batch = 0 then w else w\<lparr>dw_taken := Some batch\<rparr>)"

text \<open>The flush of the batch taken and its three ends.\<close>

definition dw_flush :: "(sql list \<Rightarrow> sql_answer) \<Rightarrow> db_worker \<Rightarrow> db_worker" where
  "dw_flush ans w =
     (case dw_taken w of
        None \<Rightarrow> w
      | Some batch \<Rightarrow>
          let (r, t) = flush ans (dw_cfg w) batch \<lparr>tx_log = [], tx_cache = [], tx_written = 0\<rparr>;
              w = w\<lparr>dw_taken := None, dw_cache := dw_cache w @ tx_cache t, dw_shares_written := dw_shares_written w + tx_written t\<rparr>
          in case r of
               Inr _ \<Rightarrow> w\<lparr>dw_ended := dw_ended w @ [Db_Committed (tx_log t)], dw_batches := dw_batches w + 1\<rparr>
             | Inl Db_Broken \<Rightarrow> w\<lparr>dw_queues := dq_append batch (dw_queues w), dw_conn := False\<rparr>
             | Inl Db_Failed \<Rightarrow> w\<lparr>dw_ended := dw_ended w @ [Db_Given_Up batch]\<rparr>)"

section \<open>Runs\<close>

datatype dw_event =
  Enq_Share db_share
| Enq_Presence db_presence
| Enq_Best db_best
| Enq_Hashrate db_hashrate
| Enq_Block db_block
| Dw_Start bool
| Dw_Stop
| Dw_Take bool "(sql list \<Rightarrow> sql_answer) option"
| Dw_Flush "sql list \<Rightarrow> sql_answer"

fun dw_exec :: "dw_event \<Rightarrow> db_worker \<Rightarrow> db_worker" where
  "dw_exec (Enq_Share r) w = snd (enqueue_share r w)"
| "dw_exec (Enq_Presence r) w = snd (enqueue_presence r w)"
| "dw_exec (Enq_Best r) w = snd (enqueue_best_share r w)"
| "dw_exec (Enq_Hashrate r) w = snd (enqueue_hashrate r w)"
| "dw_exec (Enq_Block r) w = snd (enqueue_block r w)"
| "dw_exec (Dw_Start c) w = dw_start c w"
| "dw_exec Dw_Stop w = dw_stop w"
| "dw_exec (Dw_Take c agg) w = dw_take c agg w"
| "dw_exec (Dw_Flush ans) w = dw_flush ans w"

text \<open>The record an event enqueues, when the caller was told that it was accepted.\<close>

fun dw_accepts :: "dw_event \<Rightarrow> db_worker \<Rightarrow> db_queues" where
  "dw_accepts (Enq_Share r) w = (if fst (enqueue_share r w) then empty_queues\<lparr>dq_shares := [r]\<rparr> else empty_queues)"
| "dw_accepts (Enq_Presence r) w = (if fst (enqueue_presence r w) then empty_queues\<lparr>dq_presences := [r]\<rparr> else empty_queues)"
| "dw_accepts (Enq_Best r) w = (if fst (enqueue_best_share r w) then empty_queues\<lparr>dq_best := [r]\<rparr> else empty_queues)"
| "dw_accepts (Enq_Hashrate r) w = (if fst (enqueue_hashrate r w) then empty_queues\<lparr>dq_hashrates := [r]\<rparr> else empty_queues)"
| "dw_accepts (Enq_Block r) w = (if fst (enqueue_block r w) then empty_queues\<lparr>dq_blocks := [r]\<rparr> else empty_queues)"
| "dw_accepts _ w = empty_queues"

primrec dw_run :: "dw_event list \<Rightarrow> db_worker \<Rightarrow> db_worker" where
  "dw_run [] w = w"
| "dw_run (v # vs) w = dw_run vs (dw_exec v w)"

primrec dw_accepted :: "dw_event list \<Rightarrow> db_worker \<Rightarrow> db_queues" where
  "dw_accepted [] w = empty_queues"
| "dw_accepted (v # vs) w = dq_append (dw_accepts v w) (dw_accepted vs (dw_exec v w))"

section \<open>What the database stores\<close>

text \<open>The rows a statement asks for; a multi-row insert is read back from its parameters, nine at a time.\<close>

fun int_param :: "db_param \<Rightarrow> int" where "int_param (P_Int i) = i" | "int_param _ = 0"
fun text_param :: "db_param \<Rightarrow> string" where "text_param (P_Text s) = s" | "text_param _ = []"
fun float_param :: "db_param \<Rightarrow> rat" where "float_param (P_Float x) = x" | "float_param _ = 0"
fun bool_param :: "db_param \<Rightarrow> bool" where "bool_param (P_Bool b) = b" | "bool_param _ = False"

fun read_shares :: "db_param list \<Rightarrow> db_share list" where
  "read_shares (m # j # n # e1 # e2 # h # d # a # b # ps) =
     \<lparr>dsh_miner_id = int_param m, dsh_job_id = text_param j, dsh_nonce = text_param n, dsh_extranonce1 = text_param e1,
      dsh_extranonce2 = text_param e2, dsh_share_hash = text_param h, dsh_difficulty = float_param d,
      dsh_accepted = bool_param a, dsh_block_found = bool_param b\<rparr> # read_shares ps"
| "read_shares _ = []"

fun sql_rows :: "sql \<Rightarrow> db_queues" where
  "sql_rows (Sql_Upsert_Miner p) = empty_queues\<lparr>dq_presences := [p]\<rparr>"
| "sql_rows (Sql_Insert_Shares _ ps) = empty_queues\<lparr>dq_shares := read_shares ps\<rparr>"
| "sql_rows (Sql_Update_Best b) = empty_queues\<lparr>dq_best := [b]\<rparr>"
| "sql_rows (Sql_Insert_Hashrate m h t) = empty_queues\<lparr>dq_hashrates := [\<lparr>dhr_miner_id = m, dhr_hashrate_hps = h, dhr_ts = t\<rparr>]\<rparr>"
| "sql_rows (Sql_Insert_Block b _ _ _ coin) = empty_queues\<lparr>dq_blocks := [b\<lparr>dbl_coin := coin\<rparr>]\<rparr>"
| "sql_rows _ = empty_queues"

definition stored :: "sql list \<Rightarrow> db_queues" where
  "stored l = foldr (\<lambda>q. dq_append (sql_rows q)) l empty_queues"

text \<open>A batch as rows: a block without a miner has miner 0, one without a coin the pool's.\<close>

definition block_stored :: "db_config \<Rightarrow> db_block \<Rightarrow> db_block" where
  "block_stored cfg b = b\<lparr>dbl_miner_id := max 0 (dbl_miner_id b), dbl_coin := block_coin cfg b\<rparr>"

definition as_rows :: "db_config \<Rightarrow> db_queues \<Rightarrow> db_queues" where
  "as_rows cfg q = q\<lparr>dq_blocks := map (block_stored cfg) (dq_blocks q)\<rparr>"

fun ended_rows :: "db_config \<Rightarrow> db_ended \<Rightarrow> db_queues" where
  "ended_rows cfg (Db_Committed l) = stored l"
| "ended_rows cfg (Db_Given_Up b) = as_rows cfg b"

definition dq_concat :: "db_queues list \<Rightarrow> db_queues" where
  "dq_concat qs = foldr dq_append qs empty_queues"

definition taken_batch :: "db_worker \<Rightarrow> db_queues" where
  "taken_batch w = (case dw_taken w of None \<Rightarrow> empty_queues | Some b \<Rightarrow> b)"

section \<open>Batches\<close>

lemma dq_append_assoc: "dq_append (dq_append a b) c = dq_append a (dq_append b c)"
  by (simp add: dq_append_def)

lemma dq_append_empty [simp]: "dq_append empty_queues q = q" "dq_append q empty_queues = q"
  by (simp_all add: dq_append_def empty_queues_def)

lemma dq_depth_0: "dq_depth q = 0 \<longleftrightarrow> q = empty_queues"
  by (cases q) (auto simp: dq_depth_def empty_queues_def)

lemma as_rows_append: "as_rows cfg (dq_append a b) = dq_append (as_rows cfg a) (as_rows cfg b)"
  by (simp add: as_rows_def dq_append_def)

lemma as_rows_empty [simp]: "as_rows cfg empty_queues = empty_queues"
  by (simp add: as_rows_def empty_queues_def)

lemma stored_append: "stored (l @ m) = dq_append (stored l) (stored m)"
  by (induction l) (simp_all add: stored_def dq_append_assoc)

lemma stored_simps [simp]: "stored [] = empty_queues" "stored (q # l) = dq_append (sql_rows q) (stored l)"
  by (simp_all add: stored_def)

lemma dq_concat_simps [simp]: "dq_concat [] = empty_queues" "dq_concat (q # qs) = dq_append q (dq_concat qs)"
    "dq_concat (qs @ rs) = dq_append (dq_concat qs) (dq_concat rs)"
  by (induction qs) (simp_all add: dq_concat_def dq_append_assoc)

lemma read_share_params: "read_shares (concat (map share_params ss)) = ss"
  by (induction ss) (simp_all add: share_params_def)

section \<open>A flush that succeeds\<close>

text \<open>The effort accumulator of the database as the list of the amounts added since it was last reset.\<close>

fun sql_effort :: "sql \<Rightarrow> rat list \<Rightarrow> rat list" where
  "sql_effort (Sql_Add_Effort d) es = es @ [d]"
| "sql_effort (Sql_Reset_Effort _) es = []"
| "sql_effort _ es = es"

text \<open>\<open>adds m q g\<close>: when \<open>m\<close> does not throw, the statements it ran store the rows \<open>q\<close> and change the accumulator by \<open>g\<close>.\<close>

definition adds :: "'a tx \<Rightarrow> db_queues \<Rightarrow> (rat list \<Rightarrow> rat list) \<Rightarrow> bool" where
  "adds m q g \<longleftrightarrow> (\<forall>t x t'. m t = (Inr x, t') \<longrightarrow> (\<exists>l. tx_log t' = tx_log t @ l \<and> stored l = q \<and> fold sql_effort l = g))"

lemma adds_eq: "adds m q g \<Longrightarrow> q = r \<Longrightarrow> g = h \<Longrightarrow> adds m r h"
  by simp

lemma adds_return: "adds (returnT x) empty_queues id"
  by (simp add: adds_def returnT_def)

lemma adds_quiet: "(\<And>t. \<exists>x t'. m t = (Inr x, t') \<and> tx_log t' = tx_log t) \<Longrightarrow> adds m empty_queues id"
  unfolding adds_def by (metis Pair_inject append_Nil2 fold_simps(1) id_apply stored_simps(1) ext)

lemma adds_bind:
  assumes "adds m q g" and "\<And>x. adds (f x) r h"
  shows "adds (bindT m f) (dq_append q r) (h \<circ> g)"
  unfolding adds_def
proof (intro allI impI)
  fix t y t'
  assume "bindT m f t = (Inr y, t')"
  then obtain x u where "m t = (Inr x, u)" "f x u = (Inr y, t')"
    by (auto simp: bindT_def split: prod.splits sum.splits)
  then obtain l k where "tx_log u = tx_log t @ l" "stored l = q" "fold sql_effort l = g"
      "tx_log t' = tx_log u @ k" "stored k = r" "fold sql_effort k = h"
    using assms unfolding adds_def by metis
  then show "\<exists>l. tx_log t' = tx_log t @ l \<and> stored l = dq_append q r \<and> fold sql_effort l = h \<circ> g"
    by (intro exI[of _ "l @ k"]) (auto simp: stored_append)
qed

lemma adds_then: "adds m q g \<Longrightarrow> (\<And>x. adds (f x) empty_queues id) \<Longrightarrow> adds (bindT m f) q g"
  using adds_bind[of m q g f empty_queues id] by simp

lemma adds_exec: "adds (tx_exec ans q) (sql_rows q) (sql_effort q)"
  by (auto simp: adds_def tx_exec_def split: sql_answer.splits)

lemma adds_run: "adds (tx_run ans q) (sql_rows q) (sql_effort q)"
  unfolding tx_run_def by (rule adds_then[OF adds_exec adds_return])

lemma adds_each: "(\<And>x. adds (f x) (g x) (h x)) \<Longrightarrow> adds (tx_each f xs) (dq_concat (map g xs)) (fold h xs)"
proof (induction xs)
  case (Cons x xs)
  then show ?case
    using adds_bind[OF Cons.prems[of x] Cons.IH[OF Cons.prems]] by (simp add: comp_def)
qed (simp add: adds_return)

lemma fold_id: "(\<And>x. x \<in> set xs \<Longrightarrow> h x = id) \<Longrightarrow> fold h xs = id"
  by (induction xs) simp_all

lemma concat_each:
  "dq_concat (map (\<lambda>p. empty_queues\<lparr>dq_presences := [p]\<rparr>) ps) = empty_queues\<lparr>dq_presences := ps\<rparr>"
  "dq_concat (map (\<lambda>b. empty_queues\<lparr>dq_best := [b]\<rparr>) bs) = empty_queues\<lparr>dq_best := bs\<rparr>"
  "dq_concat (map (\<lambda>h. empty_queues\<lparr>dq_hashrates := [h]\<rparr>) hs) = empty_queues\<lparr>dq_hashrates := hs\<rparr>"
  "dq_concat (map (\<lambda>b. empty_queues\<lparr>dq_blocks := [f b]\<rparr>) bl) = empty_queues\<lparr>dq_blocks := map f bl\<rparr>"
proof -
  show "dq_concat (map (\<lambda>p. empty_queues\<lparr>dq_presences := [p]\<rparr>) ps) = empty_queues\<lparr>dq_presences := ps\<rparr>"
    by (induction ps) (simp_all add: empty_queues_def dq_append_def)
  show "dq_concat (map (\<lambda>b. empty_queues\<lparr>dq_best := [b]\<rparr>) bs) = empty_queues\<lparr>dq_best := bs\<rparr>"
    by (induction bs) (simp_all add: empty_queues_def dq_append_def)
  show "dq_concat (map (\<lambda>h. empty_queues\<lparr>dq_hashrates := [h]\<rparr>) hs) = empty_queues\<lparr>dq_hashrates := hs\<rparr>"
    by (induction hs) (simp_all add: empty_queues_def dq_append_def)
  show "dq_concat (map (\<lambda>b. empty_queues\<lparr>dq_blocks := [f b]\<rparr>) bl) = empty_queues\<lparr>dq_blocks := map f bl\<rparr>"
    by (induction bl) (simp_all add: empty_queues_def dq_append_def)
qed

lemma adds_presence: "adds (flush_presence ans p) (empty_queues\<lparr>dq_presences := [p]\<rparr>) id"
proof -
  have e: "sql_effort (Sql_Upsert_Miner p) = id"
    by auto
  show ?thesis
    unfolding flush_presence_def
    by (rule adds_then[OF adds_exec[of ans "Sql_Upsert_Miner p", unfolded sql_rows.simps e]]) (rule adds_quiet, auto split: option.split)
qed

lemma adds_shares: "adds (flush_share_rows ans ss) (empty_queues\<lparr>dq_shares := ss\<rparr>) id"
proof (cases "ss = []")
  case True
  then show ?thesis
    by (simp add: flush_share_rows_def adds_return) (simp add: empty_queues_def adds_return[unfolded empty_queues_def])
next
  case False
  have r: "sql_rows (insert_shares ss) = empty_queues\<lparr>dq_shares := ss\<rparr>" and e: "sql_effort (insert_shares ss) = id"
    by (auto simp: insert_shares_def read_share_params)
  have "adds (bindT (tx_run ans (insert_shares ss)) (\<lambda>_ t. (Inr (), t\<lparr>tx_written := tx_written t + of_nat (length ss)\<rparr>)))
      (empty_queues\<lparr>dq_shares := ss\<rparr>) id"
    by (rule adds_then[OF adds_run[of ans "insert_shares ss", unfolded r e]]) (rule adds_quiet, simp)
  then show ?thesis
    using False by (simp add: flush_share_rows_def)
qed

definition effort_terms :: "db_share list \<Rightarrow> rat list" where
  "effort_terms ss = (if batch_diff ss > 0 then [batch_diff ss] else [])"

lemma adds_effort: "adds (flush_effort ans ss) empty_queues (\<lambda>es. es @ effort_terms ss)"
proof (cases "batch_diff ss > 0")
  case True
  have "sql_effort (Sql_Add_Effort (batch_diff ss)) = (\<lambda>es. es @ effort_terms ss)"
    using True by (auto simp: effort_terms_def)
  then show ?thesis
    using True adds_run[of ans "Sql_Add_Effort (batch_diff ss)"] by (simp add: flush_effort_def Let_def)
next
  case False
  then show ?thesis
    using adds_return[of "()"] by (simp add: flush_effort_def effort_terms_def id_def)
qed

lemma adds_block:
  "adds (flush_block ans cfg net b) (empty_queues\<lparr>dq_blocks := [block_stored cfg b]\<rparr>) (if is_aux_block cfg b then id else (\<lambda>_. []))"
proof -
  have sel: "adds (tx_exec ans q) empty_queues id" if "q = Sql_Select_Effort \<or> (\<exists>m c. q = Sql_Select_Finder_Effort m c)" for q
  proof -
    have "sql_rows q = empty_queues" "sql_effort q = id"
      using that by auto
    then show ?thesis
      using adds_exec[of ans q] by simp
  qed
  have efforts: "adds (block_efforts ans cfg net b) empty_queues id"
    by (auto simp: block_efforts_def intro!: adds_return adds_then sel)
  have row: "adds (tx_run ans (block_row cfg b es)) (empty_queues\<lparr>dq_blocks := [block_stored cfg b]\<rparr>) id" for es
  proof -
    obtain r n f where es: "es = (r, n, f)"
      by (cases es)
    have "sql_rows (block_row cfg b es) = empty_queues\<lparr>dq_blocks := [block_stored cfg b]\<rparr>" "sql_effort (block_row cfg b es) = id"
      by (auto simp: block_row_def block_stored_def es)
    then show ?thesis
      using adds_run[of ans "block_row cfg b es"] by simp
  qed
  have reset: "adds (if is_aux_block cfg b then returnT () else tx_run ans (Sql_Reset_Effort (dbl_height b))) empty_queues
      (if is_aux_block cfg b then id else (\<lambda>_. []))"
  proof -
    have "sql_effort (Sql_Reset_Effort (dbl_height b)) = (\<lambda>_. [])"
      by auto
    then show ?thesis
      using adds_run[of ans "Sql_Reset_Effort (dbl_height b)"] adds_return by auto
  qed
  show ?thesis
    unfolding flush_block_def by (rule adds_eq[OF adds_bind[OF efforts adds_bind[OF row reset]]]) simp_all
qed

definition has_parent_block :: "db_config \<Rightarrow> db_block list \<Rightarrow> bool" where
  "has_parent_block cfg bs \<longleftrightarrow> (\<exists>b \<in> set bs. \<not> is_aux_block cfg b)"

text \<open>What a batch does to the accumulator: its shares are added, then a block of the pool's own coin resets it.\<close>

definition batch_effort :: "db_config \<Rightarrow> db_queues \<Rightarrow> rat list \<Rightarrow> rat list" where
  "batch_effort cfg b es = (if has_parent_block cfg (dq_blocks b) then [] else es @ effort_terms (dq_shares b))"

lemma fold_blocks:
  "fold (\<lambda>b. if is_aux_block cfg b then id else (\<lambda>_. [])) bs = (if has_parent_block cfg bs then (\<lambda>_. []) else id)"
  by (induction bs) (auto simp: has_parent_block_def fun_eq_iff)

lemma adds_flush: "adds (flush ans cfg b) (as_rows cfg b) (batch_effort cfg b)"
proof -
  have quiet: "fold (\<lambda>_. id) xs = id" for xs :: "'a list"
    by (rule fold_id) simp
  have effort_id: "sql_effort (Sql_Update_Best x) = id" "sql_effort (Sql_Insert_Hashrate i j k) = id"
      "sql_effort (Sql_Select_Net_Diff c) = id" "sql_effort Sql_Commit = id" for x i j k c
    by auto
  have presences: "adds (tx_each (flush_presence ans) (dq_presences b)) (empty_queues\<lparr>dq_presences := dq_presences b\<rparr>) id"
    using adds_each[where f = "flush_presence ans" and xs = "dq_presences b", OF adds_presence] by (simp only: concat_each quiet)
  have best: "adds (tx_each (\<lambda>x. tx_run ans (Sql_Update_Best x)) (dq_best b)) (empty_queues\<lparr>dq_best := dq_best b\<rparr>) id"
    using adds_each[where f = "\<lambda>x. tx_run ans (Sql_Update_Best x)" and xs = "dq_best b", OF adds_run]
    by (simp only: sql_rows.simps effort_id concat_each quiet)
  have "adds (flush_hashrate ans h) (empty_queues\<lparr>dq_hashrates := [h]\<rparr>) id" for h
    using adds_run[of ans "Sql_Insert_Hashrate (dhr_miner_id h) (dhr_hashrate_hps h) (dhr_ts h)"]
    by (cases h) (simp add: flush_hashrate_def effort_id del: sql_effort.simps)
  then have hashrates: "adds (tx_each (flush_hashrate ans) (dq_hashrates b)) (empty_queues\<lparr>dq_hashrates := dq_hashrates b\<rparr>) id"
    using adds_each[where f = "flush_hashrate ans" and xs = "dq_hashrates b"] by (fastforce simp only: concat_each quiet)
  have net: "adds (net_diff_snapshot ans cfg (dq_blocks b)) empty_queues id"
    using adds_exec[of ans "Sql_Select_Net_Diff (dbc_coin cfg)"]
    by (auto simp: net_diff_snapshot_def effort_id simp del: sql_effort.simps intro!: adds_return adds_then)
  have blocks: "adds (tx_each (flush_block ans cfg n) (dq_blocks b)) (empty_queues\<lparr>dq_blocks := map (block_stored cfg) (dq_blocks b)\<rparr>)
      (if has_parent_block cfg (dq_blocks b) then (\<lambda>_. []) else id)" for n
    using adds_each[where f = "flush_block ans cfg n" and xs = "dq_blocks b", OF adds_block] by (simp only: concat_each fold_blocks)
  have commit: "adds (tx_run ans Sql_Commit) empty_queues id"
    using adds_run[of ans Sql_Commit] by (simp add: effort_id del: sql_effort.simps)
  note all = adds_bind[OF presences adds_bind[OF adds_shares adds_bind[OF adds_effort adds_bind[OF best adds_bind[OF hashrates
      adds_bind[OF net adds_bind[OF blocks commit]]]]]]]
  show ?thesis
    unfolding flush_def
    by (rule adds_eq[OF all]) (auto simp: batch_effort_def fun_eq_iff as_rows_def dq_append_def empty_queues_def)
qed

section \<open>A flush that throws\<close>

text \<open>\<open>only F m\<close>: the faults \<open>m\<close> can end in.\<close>

definition only :: "db_fault set \<Rightarrow> 'a tx \<Rightarrow> bool" where
  "only F m \<longleftrightarrow> (\<forall>t f t'. m t = (Inl f, t') \<longrightarrow> f \<in> F)"

definition answers_within :: "db_fault set \<Rightarrow> (sql list \<Rightarrow> sql_answer) \<Rightarrow> bool" where
  "answers_within F ans \<longleftrightarrow> (\<forall>l. (ans l = Sql_Broken \<longrightarrow> Db_Broken \<in> F) \<and> (ans l = Sql_Failed \<longrightarrow> Db_Failed \<in> F))"

lemma only_return: "only F (returnT x)" "only F (\<lambda>t. (Inr (f t), g t))"
  by (simp_all add: only_def returnT_def)

lemma only_bind: "only F m \<Longrightarrow> (\<And>x. only F (f x)) \<Longrightarrow> only F (bindT m f)"
  unfolding only_def bindT_def by (fastforce split: prod.splits sum.splits)

lemma only_exec: "answers_within F ans \<Longrightarrow> only F (tx_exec ans q)"
  by (auto simp: only_def answers_within_def tx_exec_def split: sql_answer.splits)

lemma only_run: "answers_within F ans \<Longrightarrow> only F (tx_run ans q)"
  by (simp add: tx_run_def only_bind only_exec only_return)

lemma only_each: "(\<And>x. only F (f x)) \<Longrightarrow> only F (tx_each f xs)"
  by (induction xs) (simp_all add: only_return only_bind)

lemma only_parts:
  assumes "answers_within F ans"
  shows "only F (flush_presence ans p)" "only F (flush_share_rows ans ss)" "only F (flush_effort ans ss)" "only F (flush_hashrate ans h)"
    "only F (net_diff_snapshot ans cfg bs)" "only F (block_efforts ans cfg net b)"
  by (simp_all add: flush_presence_def flush_share_rows_def flush_effort_def flush_hashrate_def net_diff_snapshot_def block_efforts_def
      Let_def only_bind only_exec only_run only_return assms)

lemma only_block: "answers_within F ans \<Longrightarrow> only F (flush_block ans cfg net b)"
  unfolding flush_block_def by (intro only_bind only_parts) (simp_all add: only_bind only_run only_return)

lemma only_flush: "answers_within F ans \<Longrightarrow> only F (flush ans cfg b)"
  unfolding flush_def by (intro only_bind only_each only_run only_parts only_block)

section \<open>Every accepted record has one place\<close>

definition dw_rows :: "db_config \<Rightarrow> db_worker \<Rightarrow> db_queues" where
  "dw_rows cfg w =
     dq_append (dq_concat (map (ended_rows cfg) (dw_ended w))) (dq_append (as_rows cfg (taken_batch w)) (as_rows cfg (dw_queues w)))"

lemma flush_rows:
  assumes "flush ans cfg b \<lparr>tx_log = [], tx_cache = c, tx_written = n\<rparr> = (Inr x, t)"
  shows "stored (tx_log t) = as_rows cfg b" and "fold sql_effort (tx_log t) = batch_effort cfg b"
  using adds_flush[of ans cfg b] assms unfolding adds_def by fastforce+

lemma flush_step:
  assumes "dw_cfg w = cfg"
  shows "dw_cfg (dw_flush ans w) = cfg \<and> dw_rows cfg (dw_flush ans w) = dw_rows cfg w"
proof (cases "dw_taken w")
  case (Some b)
  obtain r t where f: "flush ans cfg b \<lparr>tx_log = [], tx_cache = [], tx_written = 0\<rparr> = (r, t)"
    by (rule prod.exhaust)
  show ?thesis
  proof (cases r)
    case (Inl e)
    then show ?thesis
      using f Some assms
      by (cases e) (simp_all add: dw_flush_def dw_rows_def taken_batch_def as_rows_append dq_append_assoc)
  next
    case (Inr x)
    then show ?thesis
      using f Some assms flush_rows(1)[OF f[unfolded Inr]] by (simp add: dw_flush_def dw_rows_def taken_batch_def dq_append_assoc)
  qed
qed (simp add: dw_flush_def assms)

lemma take_step:
  assumes "dw_cfg w = cfg"
  shows "dw_cfg (dw_take c agg w) = cfg \<and> dw_rows cfg (dw_take c agg w) = dw_rows cfg w"
proof -
  have agg: "stored l = empty_queues"
    if "bindT (tx_run ans (Sql_Aggregate_Hashrates m)) (\<lambda>_. tx_run ans Sql_Commit) \<lparr>tx_log = [], tx_cache = [], tx_written = 0\<rparr> = (Inr x, t)"
      "l = tx_log t" for ans m x t l
    using adds_bind[OF adds_run adds_run, of ans "Sql_Aggregate_Hashrates m" "\<lambda>_. ans" Sql_Commit] that unfolding adds_def by fastforce
  show ?thesis
    using assms dq_depth_0[of "dw_queues w"]
    by (auto simp: dw_take_def dw_rows_def taken_batch_def Let_def agg split: option.splits prod.splits sum.splits)
qed

lemma enqueue_step:
  assumes "dw_cfg w = cfg"
  shows "dw_cfg (dw_exec v w) = cfg \<and> dw_rows cfg (dw_exec v w) = dq_append (dw_rows cfg w) (as_rows cfg (dw_accepts v w))"
proof -
  have queue: "dw_rows cfg (u\<lparr>dw_queues := dq_append (dw_queues w) x\<rparr>) = dq_append (dw_rows cfg w) (as_rows cfg x)"
    if "dw_ended u = dw_ended w" "dw_taken u = dw_taken w" for u x
    using that by (simp add: dw_rows_def taken_batch_def as_rows_append dq_append_assoc)
  have one: "(dw_queues w)\<lparr>dq_shares := dq_shares (dw_queues w) @ [r1]\<rparr> = dq_append (dw_queues w) (empty_queues\<lparr>dq_shares := [r1]\<rparr>)"
      "(dw_queues w)\<lparr>dq_presences := dq_presences (dw_queues w) @ [r2]\<rparr> = dq_append (dw_queues w) (empty_queues\<lparr>dq_presences := [r2]\<rparr>)"
      "(dw_queues w)\<lparr>dq_best := dq_best (dw_queues w) @ [r3]\<rparr> = dq_append (dw_queues w) (empty_queues\<lparr>dq_best := [r3]\<rparr>)"
      "(dw_queues w)\<lparr>dq_hashrates := dq_hashrates (dw_queues w) @ [r4]\<rparr> = dq_append (dw_queues w) (empty_queues\<lparr>dq_hashrates := [r4]\<rparr>)"
      "(dw_queues w)\<lparr>dq_blocks := dq_blocks (dw_queues w) @ [r5]\<rparr> = dq_append (dw_queues w) (empty_queues\<lparr>dq_blocks := [r5]\<rparr>)"
    for r1 r2 r3 r4 r5
    by (cases "dw_queues w", simp add: dq_append_def empty_queues_def)+
  show ?thesis
  proof (cases v)
    case (Dw_Take c agg)
    then show ?thesis
      using take_step[OF assms] by simp
  next
    case (Dw_Flush ans)
    then show ?thesis
      using flush_step[OF assms] by simp
  qed (use assms in \<open>auto simp: enqueue_share_def enqueue_presence_def enqueue_best_share_def enqueue_hashrate_def enqueue_block_def
      Let_def one queue dw_start_def dw_stop_def\<close>, simp_all add: dw_rows_def taken_batch_def)
qed

lemma run_rows:
  "dw_cfg w = cfg \<Longrightarrow> dw_cfg (dw_run vs w) = cfg \<and> dw_rows cfg (dw_run vs w) = dq_append (dw_rows cfg w) (as_rows cfg (dw_accepted vs w))"
  using enqueue_step by (induction vs arbitrary: w) (auto simp: as_rows_append dq_append_assoc)

lemma new_rows: "dw_cfg (dw_new cfg) = cfg" "dw_rows cfg (dw_new cfg) = empty_queues" "dw_ended (dw_new cfg) = []"
  by (simp_all add: dw_new_def dw_rows_def taken_batch_def)

lemma flush_gives_up:
  assumes "answers_within {Db_Broken} ans" and "Db_Given_Up b \<in> set (dw_ended (dw_flush ans w))"
  shows "Db_Given_Up b \<in> set (dw_ended w)"
proof (cases "dw_taken w")
  case (Some x)
  obtain r t where f: "flush ans (dw_cfg w) x \<lparr>tx_log = [], tx_cache = [], tx_written = 0\<rparr> = (r, t)"
    by (rule prod.exhaust)
  have "r \<noteq> Inl Db_Failed"
    using only_flush[OF assms(1)] f unfolding only_def by blast
  then show ?thesis
    using assms(2) f Some by (auto simp: dw_flush_def Let_def split: sum.splits db_fault.splits)
qed (use assms(2) in \<open>simp add: dw_flush_def\<close>)

lemma step_gives_up:
  assumes "\<And>ans. v = Dw_Flush ans \<Longrightarrow> answers_within {Db_Broken} ans" and "Db_Given_Up b \<in> set (dw_ended (dw_exec v w))"
  shows "Db_Given_Up b \<in> set (dw_ended w)"
  using assms flush_gives_up
  by (cases v) (auto simp: enqueue_share_def enqueue_presence_def enqueue_best_share_def enqueue_hashrate_def enqueue_block_def
      dw_start_def dw_stop_def dw_take_def Let_def split: if_splits option.splits prod.splits sum.splits)

lemma run_gives_up:
  assumes "\<And>ans. Dw_Flush ans \<in> set vs \<Longrightarrow> answers_within {Db_Broken} ans" and "Db_Given_Up b \<in> set (dw_ended (dw_run vs w))"
  shows "Db_Given_Up b \<in> set (dw_ended w)"
  using assms
proof (induction vs arbitrary: w)
  case (Cons v vs)
  then have "Db_Given_Up b \<in> set (dw_ended (dw_exec v w))"
    by simp
  then show ?case
    using step_gives_up[of v b w] Cons.prems(1) by auto
qed simp

lemma healthy_round:
  assumes "dw_running w" "dw_taken w = None" "answers_within {} ans" "dw_cfg w = cfg"
  shows "dw_queues (dw_flush ans (dw_take True None w)) = empty_queues \<and> dw_taken (dw_flush ans (dw_take True None w)) = None \<and>
    dq_concat (map (ended_rows cfg) (dw_ended (dw_flush ans (dw_take True None w)))) =
      dq_append (dq_concat (map (ended_rows cfg) (dw_ended w))) (as_rows cfg (dw_queues w))"
proof -
  let ?w = "dw_take True None w"
  obtain r t where f: "flush ans cfg (dw_queues w) \<lparr>tx_log = [], tx_cache = [], tx_written = 0\<rparr> = (r, t)"
    by (rule prod.exhaust)
  have "r \<noteq> Inl e" for e
    using only_flush[OF assms(3)] f unfolding only_def by blast
  then have r: "\<exists>x. r = Inr x"
    by (cases r) auto
  have idle: "dw_queues (dw_flush ans ?w) = empty_queues \<and> dw_taken (dw_flush ans ?w) = None"
    using assms f r dq_depth_0[of "dw_queues w"] by (auto simp: dw_take_def dw_flush_def Let_def)
  have "dw_rows cfg (dw_flush ans ?w) = dw_rows cfg w"
    using take_step[OF assms(4)] flush_step by simp
  then show ?thesis
    using idle assms(2) by (simp add: dw_rows_def taken_batch_def)
qed

text \<open>C39: The writer is lossless over lost connections. In every interleaving of enqueuing threads and the worker, every
  record whose enqueue returned true, in the order of acceptance, is in exactly one place: in a transaction that
  committed (as the rows of the statements' parameters), in a batch given up with an error, in the batch being
  flushed, or in its queue. A batch is given up only after an answer that is neither a value nor a broken connection. And
  one iteration with a connection and a database that answers empties the queues into committed transactions.\<close>

theorem db_worker_loses_nothing:
  "let w = dw_run vs (dw_new cfg); done = (\<lambda>w. dq_concat (map (ended_rows cfg) (dw_ended w))) in
    as_rows cfg (dw_accepted vs (dw_new cfg)) = dq_concat [done w, as_rows cfg (taken_batch w), as_rows cfg (dw_queues w)] \<and>
    ((\<forall>ans. Dw_Flush ans \<in> set vs \<longrightarrow> (\<forall>l. ans l \<noteq> Sql_Failed)) \<longrightarrow> (\<forall>b. Db_Given_Up b \<notin> set (dw_ended w))) \<and>
    (\<forall>ans. dw_running w \<and> dw_taken w = None \<and> (\<forall>l. \<exists>v. ans l = Sql_Value v) \<longrightarrow>
      (let w' = dw_flush ans (dw_take True None w) in
        dw_queues w' = empty_queues \<and> dw_taken w' = None \<and> done w' = dq_append (done w) (as_rows cfg (dw_queues w))))"
proof -
  let ?w = "dw_run vs (dw_new cfg)"
  have c: "dw_cfg ?w = cfg" "dw_rows cfg ?w = as_rows cfg (dw_accepted vs (dw_new cfg))"
    using run_rows[of "dw_new cfg" cfg vs] by (simp_all add: new_rows)
  have g: "Db_Given_Up b \<notin> set (dw_ended ?w)" if "\<forall>ans. Dw_Flush ans \<in> set vs \<longrightarrow> (\<forall>l. ans l \<noteq> Sql_Failed)" for b
    using that run_gives_up[of vs b "dw_new cfg"] by (auto simp: answers_within_def new_rows)
  have h: "answers_within {} ans" if "\<forall>l. \<exists>v. ans l = Sql_Value v" for ans
    using that by (auto simp: answers_within_def) (metis sql_answer.distinct(1,3))+
  show ?thesis
    unfolding Let_def using c g h healthy_round[of ?w _ cfg] by (simp add: dw_rows_def)
qed

definition sample_dw_config :: db_config where
  "sample_dw_config = \<lparr>dbc_batch_size = 256, dbc_max_queue = 2, dbc_share_multiplier = 1, dbc_coin = ''LTC''\<rparr>"

definition sample_dw_share :: "rat \<Rightarrow> db_share" where
  "sample_dw_share d =
     \<lparr>dsh_miner_id = 7, dsh_job_id = ''j'', dsh_nonce = ''00'', dsh_extranonce1 = [], dsh_extranonce2 = [], dsh_share_hash = [],
      dsh_difficulty = d, dsh_accepted = True, dsh_block_found = False\<rparr>"

text \<open>Two shares, a third refused at the bound, a flush that loses the connection, then one share more than the bound allows.\<close>

definition sample_dw_events :: "dw_event list" where
  "sample_dw_events =
     [Enq_Share (sample_dw_share 1), Enq_Share (sample_dw_share 2), Enq_Share (sample_dw_share 3), Dw_Start True, Dw_Take True None,
      Enq_Share (sample_dw_share 4), Dw_Flush (\<lambda>l. if length l = 1 then Sql_Value None else Sql_Broken)]"

theorem db_worker_loses_nothing_witness:
  "let w = dw_run sample_dw_events (dw_new sample_dw_config);
       w' = dw_flush (\<lambda>_. Sql_Value None) (dw_take True None w) in
    map dsh_difficulty (dq_shares (dw_queues w)) = [1, 2, 4] \<and> (\<forall>b. Db_Given_Up b \<notin> set (dw_ended w)) \<and> dw_queues w' = empty_queues \<and>
    map dsh_difficulty (dq_shares (dq_concat (map (ended_rows sample_dw_config) (dw_ended w')))) = [1, 2, 4]"
proof -
  let ?w = "dw_run sample_dw_events (dw_new sample_dw_config)"
  note h = db_worker_loses_nothing[of sample_dw_events sample_dw_config, unfolded Let_def]
  note sim = sample_dw_events_def sample_dw_config_def sample_dw_share_def dw_new_def empty_queues_def enqueue_share_def Let_def
    dw_start_def dw_take_def dq_depth_def dw_flush_def flush_def bindT_def returnT_def flush_share_rows_def tx_run_def tx_exec_def
    insert_shares_def flush_effort_def batch_diff_def dq_append_def net_diff_snapshot_def
  have q: "dw_queues ?w = empty_queues\<lparr>dq_shares := map sample_dw_share [1, 2, 4]\<rparr>" "dw_running ?w" "dw_taken ?w = None" "dw_ended ?w = []"
    by (simp_all add: sim)
  have "Dw_Flush ans \<in> set sample_dw_events \<Longrightarrow> ans l \<noteq> Sql_Failed" for ans l
    by (auto simp: sample_dw_events_def)
  then have g: "Db_Given_Up b \<notin> set (dw_ended ?w)" for b
    using h by blast
  have r: "dw_queues (dw_flush (\<lambda>_. Sql_Value None) (dw_take True None ?w)) = empty_queues"
      "dq_concat (map (ended_rows sample_dw_config) (dw_ended (dw_flush (\<lambda>_. Sql_Value None) (dw_take True None ?w)))) =
        as_rows sample_dw_config (dw_queues ?w)"
    using h q(2-4) by auto
  show ?thesis
    unfolding Let_def r q(1) using g by (simp add: as_rows_def) (simp add: empty_queues_def sample_dw_share_def)
qed

text \<open>Shares count as written before their transaction commits, so a requeued batch counts again.\<close>

lemma counted_before_commit:
  "dw_shares_written (dw_run sample_dw_events (dw_new sample_dw_config)) = 2 \<and> dw_ended (dw_run sample_dw_events (dw_new sample_dw_config)) = []"
  by (simp add: sample_dw_events_def sample_dw_config_def sample_dw_share_def dw_new_def empty_queues_def enqueue_share_def Let_def
    dw_start_def dw_take_def dq_depth_def dw_flush_def flush_def bindT_def returnT_def flush_share_rows_def tx_run_def tx_exec_def
    insert_shares_def flush_effort_def batch_diff_def dq_append_def net_diff_snapshot_def)

section \<open>The effort accumulator\<close>

lemma parent_block_rows: "has_parent_block cfg (dq_blocks (as_rows cfg b)) \<longleftrightarrow> has_parent_block cfg (dq_blocks b)"
  by (auto simp: has_parent_block_def as_rows_def is_aux_block_def block_stored_def block_coin_def)

lemma batch_effort_rows: "batch_effort cfg (as_rows cfg b) = batch_effort cfg b"
  by (simp add: batch_effort_def fun_eq_iff parent_block_rows) (simp add: as_rows_def)

definition effort_ok :: "db_config \<Rightarrow> db_ended \<Rightarrow> bool" where
  "effort_ok cfg e \<longleftrightarrow> (case e of Db_Committed l \<Rightarrow> fold sql_effort l = batch_effort cfg (stored l) | Db_Given_Up b \<Rightarrow> True)"

lemma aggregate_effort:
  assumes "bindT (tx_run ans (Sql_Aggregate_Hashrates m)) (\<lambda>_. tx_run ans Sql_Commit) \<lparr>tx_log = [], tx_cache = [], tx_written = 0\<rparr> = (Inr x, t)"
  shows "effort_ok cfg (Db_Committed (tx_log t))"
proof -
  have "adds (bindT (tx_run ans (Sql_Aggregate_Hashrates m)) (\<lambda>_. tx_run ans Sql_Commit)) empty_queues id"
    by (rule adds_eq[OF adds_bind[OF adds_run adds_run]]) auto
  then have "stored (tx_log t) = empty_queues" "fold sql_effort (tx_log t) = id"
    using assms unfolding adds_def by fastforce+
  then show ?thesis
    by (simp add: effort_ok_def batch_effort_def fun_eq_iff has_parent_block_def effort_terms_def batch_diff_def empty_queues_def)
qed

lemma step_effort:
  assumes "dw_cfg w = cfg" and "\<forall>e \<in> set (dw_ended w). effort_ok cfg e"
  shows "\<forall>e \<in> set (dw_ended (dw_exec v w)). effort_ok cfg e"
proof (cases v)
  case (Dw_Take c agg)
  then show ?thesis
    using assms by (auto simp: dw_take_def Let_def aggregate_effort split: option.splits prod.splits sum.splits if_splits)
next
  case (Dw_Flush ans)
  show ?thesis
  proof (cases "dw_taken w")
    case (Some b)
    obtain r t where f: "flush ans cfg b \<lparr>tx_log = [], tx_cache = [], tx_written = 0\<rparr> = (r, t)"
      by (rule prod.exhaust)
    have "r = Inr x \<Longrightarrow> effort_ok cfg (Db_Committed (tx_log t))" for x
      using flush_rows[of ans cfg b "[]" 0 x t] f by (simp add: effort_ok_def batch_effort_rows)
    moreover have "effort_ok cfg (Db_Given_Up b)"
      by (simp add: effort_ok_def)
    ultimately show ?thesis
      using Dw_Flush Some f assms by (auto simp: dw_flush_def Let_def split: sum.splits db_fault.splits)
  qed (use assms Dw_Flush in \<open>simp add: dw_flush_def\<close>)
qed (use assms in \<open>auto simp: enqueue_share_def enqueue_presence_def enqueue_best_share_def enqueue_hashrate_def enqueue_block_def
      dw_start_def dw_stop_def Let_def\<close>)

lemma run_effort:
  "dw_cfg w = cfg \<Longrightarrow> \<forall>e \<in> set (dw_ended w). effort_ok cfg e \<Longrightarrow> \<forall>e \<in> set (dw_ended (dw_run vs w)). effort_ok cfg e"
proof (induction vs arbitrary: w)
  case (Cons v vs)
  then show ?case
    using step_effort[of w cfg v] enqueue_step[of w cfg v] by auto
qed simp

text \<open>The accumulator after the transactions, and the batches that committed.\<close>

definition db_effort :: "db_ended list \<Rightarrow> rat list" where
  "db_effort ends = fold (\<lambda>e es. case e of Db_Committed l \<Rightarrow> fold sql_effort l es | Db_Given_Up _ \<Rightarrow> es) ends []"

definition committed_rows :: "db_ended list \<Rightarrow> db_queues list" where
  "committed_rows ends = concat (map (\<lambda>e. case e of Db_Committed l \<Rightarrow> [stored l] | Db_Given_Up _ \<Rightarrow> []) ends)"

lemma effort_since_block:
  assumes "\<forall>e \<in> set ends. effort_ok cfg e"
  shows "db_effort ends =
    concat (map (\<lambda>q. effort_terms (dq_shares q))
      (rev (takeWhile (\<lambda>q. \<not> has_parent_block cfg (dq_blocks q)) (rev (committed_rows ends)))))"
  using assms
proof (induction ends rule: rev_induct)
  case (snoc e ends)
  then show ?case
    by (cases e) (simp_all add: db_effort_def committed_rows_def effort_ok_def batch_effort_def)
qed (simp add: db_effort_def committed_rows_def)

text \<open>C40: The effort accumulator is the work since the pool's last block. In every run the amounts added since the last reset
  are those of the committed batches after the last one with a block of the pool's own coin, one per batch with accepted
  work, in order; a merge-mined block or a batch given up changes nothing.\<close>

theorem db_effort_is_work_since_block:
  "let w = dw_run vs (dw_new cfg) in
    db_effort (dw_ended w) =
      concat (map (\<lambda>q. effort_terms (dq_shares q))
        (rev (takeWhile (\<lambda>q. \<not> has_parent_block cfg (dq_blocks q)) (rev (committed_rows (dw_ended w))))))"
  unfolding Let_def by (rule effort_since_block[OF run_effort]) (simp_all add: new_rows)

section \<open>Size of a flush\<close>

text \<open>Every share brings nine parameters, numbered in the order of the text; the whole batch goes into one statement.\<close>

lemma placeholders_nth: "k < length ss \<Longrightarrow> placeholders i ss ! k = placeholder (i + 9 * k)"
proof (induction ss arbitrary: i k)
  case (Cons s ss)
  then show ?case
    by (cases k) (simp_all add: add.assoc)
qed simp

lemma batch_parameters: "insert_shares ss = Sql_Insert_Shares t ps \<Longrightarrow> length ps = 9 * length ss"
  by (induction ss arbitrary: t ps) (auto simp: insert_shares_def share_params_def)

text \<open>A queue within the default bound of 65536 shares becomes one statement with more parameters than the 16-bit count of PostgreSQL's
  protocol holds as soon as 7282 shares are waiting.\<close>

lemma batch_exceeds_protocol:
  assumes "7282 \<le> length ss" and "insert_shares ss = Sql_Insert_Shares t ps"
  shows "65535 < length ps"
  using batch_parameters[OF assms(2)] assms(1) by simp

text \<open>The queue-depth metric is read after the queues were cleared.\<close>

lemma depth_metric_zero: "dw_depth_metric w = 0 \<Longrightarrow> dw_depth_metric (dw_exec v w) = 0"
proof (cases v)
  case (Dw_Take c agg)
  assume "dw_depth_metric w = 0"
  moreover have "dq_depth empty_queues = 0"
    by (simp add: dq_depth_def empty_queues_def)
  ultimately show ?thesis
    by (auto simp: Dw_Take dw_take_def Let_def split: option.splits prod.splits sum.splits)
qed (auto simp: enqueue_share_def enqueue_presence_def enqueue_best_share_def enqueue_hashrate_def enqueue_block_def
      dw_start_def dw_stop_def dw_flush_def Let_def split: option.splits prod.splits sum.splits db_fault.splits)

end
