(* ===== verification/Generator.thy ===== *)
theory Generator
  imports Stratifier "HOL-Library.AList"
begin

text \<open>
  The template generator (\<open>Generator\<close>, \<open>src/generator.cpp\<close>): polling, the triggers of the node's ZMQ feed, the
  keepalive that rebroadcasts the job, the watchdog of the feed, and the decision whether a template is new work. It runs
  on one thread; an asynchronous request is an output and its answer an event. The answer to a poll arrives with
  whether a ZMQ socket is connected. Times are nanoseconds of the steady clock.
  The RPC connection (\<open>BeastClient::on_read\<close>, \<open>src/beast_client.cpp\<close>) runs the callback of a request inside its own \<open>try\<close>: a callback
  that throws is called a second time, with an error, and only what it throws then ends the thread (\<open>gn_fault\<close>).
  \<open>cb t\<close> is what the template callback throws on the template \<open>t\<close>, if anything.
  Last, the generator and the stratifier its callback feeds are run together.
\<close>

section \<open>State\<close>

datatype gn_effect =
  Gn_Fetch bool \<comment> \<open>a template is requested: by a poll, or by the keepalive\<close>
| Gn_Template json \<comment> \<open>the template callback\<close>
| Gn_Block_Notify
| Gn_Submit string

record generator =
  gn_use_zmq :: bool
  gn_zmq_connected :: bool
  gn_running :: bool
  gn_stopped :: bool
  gn_hashblock :: "string list"
  gn_rawblock :: "string list"
  gn_clients :: nat
  gn_poll_interval :: int
  gn_current :: json
  gn_aux :: bool \<comment> \<open>\<open>auxClient_\<close> is set\<close>
  gn_last_zmq :: int
  gn_last_tip :: int
  gn_last_recover :: int
  gn_poll_timer :: "int option" \<comment> \<open>armed, with its interval\<close>
  gn_update_timer :: bool
  gn_watchdog_timer :: bool
  gn_fault :: "exn option"
  gn_out :: "gn_effect list"

definition seconds :: "int \<Rightarrow> int" where
  "seconds n = n * 1000000000"

definition zmqRecoverGrace :: int where "zmqRecoverGrace = seconds 20"
definition zmqRecoverThrottle :: int where "zmqRecoverThrottle = seconds 30"

definition gn_new :: "bool \<Rightarrow> int \<Rightarrow> generator" where
  "gn_new use_zmq poll_interval =
     \<lparr>gn_use_zmq = use_zmq, gn_zmq_connected = False, gn_running = False, gn_stopped = False, gn_hashblock = [], gn_rawblock = [],
      gn_clients = 0, gn_poll_interval = poll_interval, gn_current = JNull, gn_aux = False, gn_last_zmq = 0, gn_last_tip = 0,
      gn_last_recover = 0, gn_poll_timer = None, gn_update_timer = False, gn_watchdog_timer = False, gn_fault = None, gn_out = []\<rparr>"

definition set_zmq_endpoints :: "string list \<Rightarrow> string list \<Rightarrow> generator \<Rightarrow> generator" where
  "set_zmq_endpoints hashblock rawblock g = g\<lparr>gn_hashblock := hashblock, gn_rawblock := rawblock\<rparr>"

definition set_aux_client :: "generator \<Rightarrow> generator" where
  "set_aux_client g = g\<lparr>gn_aux := True\<rparr>"

definition gn_emit :: "gn_effect \<Rightarrow> generator \<Rightarrow> generator" where
  "gn_emit x g = g\<lparr>gn_out := gn_out g @ [x]\<rparr>"

definition gn_current_template :: "generator \<Rightarrow> json" where
  "gn_current_template g = gn_current g"

section \<open>Polling and the feed\<close>

definition poll_block_template :: "generator \<Rightarrow> generator" where
  "poll_block_template g = (if gn_running g then gn_emit (Gn_Fetch True) g else g)"

definition start_rpc_polling :: "generator \<Rightarrow> generator" where
  "start_rpc_polling g = poll_block_template (g\<lparr>gn_use_zmq := False\<rparr>)"

text \<open>The endpoints the clients are opened for, each once; \<open>opened\<close> says whether the sockets could be set up. The single
  client of the old configuration is never created.\<close>

definition start_zmq_clients :: "bool \<Rightarrow> generator \<Rightarrow> bool \<times> generator" where
  "start_zmq_clients opened g =
     (let n = length (remdups (gn_hashblock g @ gn_rawblock g))
      in if n = 0 then (False, g)
         else if opened then (True, g\<lparr>gn_clients := gn_clients g + n, gn_zmq_connected := True\<rparr>)
         else (False, g\<lparr>gn_clients := 0\<rparr>))"

definition schedule_zmq_watchdog :: "generator \<Rightarrow> generator" where
  "schedule_zmq_watchdog g = g\<lparr>gn_watchdog_timer := True\<rparr>"

definition arm_job_update :: "generator \<Rightarrow> generator" where
  "arm_job_update g = g\<lparr>gn_update_timer := True\<rparr>"

definition start_zmq :: "bool \<Rightarrow> generator \<Rightarrow> generator" where
  "start_zmq opened g =
     (let (ok, g) = start_zmq_clients opened g
      in if \<not> ok then schedule_zmq_watchdog (start_rpc_polling (g\<lparr>gn_use_zmq := False\<rparr>))
         else schedule_zmq_watchdog (poll_block_template g))"

definition gn_start :: "bool \<Rightarrow> int \<Rightarrow> generator \<Rightarrow> generator" where
  "gn_start opened now g =
     (let g = g\<lparr>gn_running := True, gn_last_zmq := now\<rparr>
      in arm_job_update (if gn_use_zmq g then start_zmq opened g else start_rpc_polling g))"

definition gn_stop :: "generator \<Rightarrow> generator" where
  "gn_stop g =
     (if gn_stopped g then g
      else g\<lparr>gn_stopped := True, gn_running := False, gn_watchdog_timer := False, gn_update_timer := False, gn_clients := 0,
             gn_zmq_connected := False, gn_poll_timer := None\<rparr>)"

definition handle_zmq_message :: "string \<Rightarrow> int \<Rightarrow> generator \<Rightarrow> generator" where
  "handle_zmq_message topic now g =
     (let g = g\<lparr>gn_last_zmq := now\<rparr> in if topic = ''hashblock'' then poll_block_template g else g)"

definition submit_block :: "string \<Rightarrow> generator \<Rightarrow> generator" where
  "submit_block block_data g = gn_emit (Gn_Submit block_data) g"

section \<open>A template arrives\<close>

definition jput :: "string \<Rightarrow> json \<Rightarrow> json \<Rightarrow> json" where
  "jput k v j = (case j of JObj kvs \<Rightarrow> JObj (AList.update k v kvs) | _ \<Rightarrow> j)"

text \<open>The aux template goes under \<open>result.aux\<close> of the parent's.\<close>

definition merge_aux :: "json \<Rightarrow> json \<Rightarrow> json" where
  "merge_aux parent aux =
     (case (jfield parent ''result'', jfield aux ''result'') of
        (Some r, Some a) \<Rightarrow> if is_object r \<and> is_object a then jput ''result'' (jput ''aux'' a r) parent else parent
      | _ \<Rightarrow> parent)"

definition prevhash_of :: "json \<Rightarrow> string res" where
  "prevhash_of t =
     (case jfield t ''result'' of
        None \<Rightarrow> Inr []
      | Some r \<Rightarrow> if r = JNull then Inr [] else value_or get_string r ''previousblockhash'' [])"

definition aux_prevhash_of :: "json \<Rightarrow> string res" where
  "aux_prevhash_of t =
     (case jfield t ''result'' of
        None \<Rightarrow> Inr []
      | Some r \<Rightarrow>
          if \<not> is_object r then Inr []
          else case jfield r ''aux'' of
            None \<Rightarrow> Inr []
          | Some a \<Rightarrow> if is_object a then value_or get_string a ''previousblockhash'' [] else Inr [])"

text \<open>The two tips a template builds on.\<close>

definition tips_of :: "json \<Rightarrow> (string \<times> string) res" where
  "tips_of t = bindE (prevhash_of t) (\<lambda>p. bindE (aux_prevhash_of t) (\<lambda>a. Inr (p, a)))"

definition tip_moved :: "json \<Rightarrow> json \<Rightarrow> bool res" where
  "tip_moved t current =
     bindE (prevhash_of t) (\<lambda>new. bindE (prevhash_of current) (\<lambda>old.
     bindE (aux_prevhash_of t) (\<lambda>new_aux. bindE (aux_prevhash_of current) (\<lambda>old_aux.
       Inr (new \<noteq> old \<or> new_aux \<noteq> old_aux)))))"

definition new_work :: "(json \<Rightarrow> exn option) \<Rightarrow> bool \<Rightarrow> int \<Rightarrow> json \<Rightarrow> generator \<Rightarrow> generator \<times> exn option" where
  "new_work cb from_poll now t g =
     (case tip_moved t (gn_current g) of
        Inl x \<Rightarrow> (g, Some x)
      | Inr moved \<Rightarrow>
          if moved then
            let g = gn_emit (Gn_Template t) (g\<lparr>gn_current := t, gn_last_tip := now\<rparr>)
            in case cb t of Some x \<Rightarrow> (g, Some x) | None \<Rightarrow> (arm_job_update (gn_emit Gn_Block_Notify g), None)
          else if \<not> from_poll then (gn_emit (Gn_Template t) (g\<lparr>gn_current := t\<rparr>), cb t)
          else (g, None))"

definition next_interval :: "generator \<Rightarrow> int" where
  "next_interval g = (if gn_use_zmq g \<and> gn_zmq_connected g then gn_poll_interval g * 6 else gn_poll_interval g)"

definition arm_poll :: "bool \<Rightarrow> generator \<Rightarrow> generator" where
  "arm_poll from_poll g = (if from_poll then g\<lparr>gn_poll_timer := Some (next_interval g)\<rparr> else g)"

text \<open>\<open>None\<close> is a transport error.\<close>

definition handle_block_template ::
    "(json \<Rightarrow> exn option) \<Rightarrow> bool \<Rightarrow> bool \<Rightarrow> int \<Rightarrow> json option \<Rightarrow> generator \<Rightarrow> generator \<times> exn option" where
  "handle_block_template cb from_poll any_connected now answer g =
     (if from_poll \<and> gn_use_zmq g \<and> \<not> any_connected then (start_rpc_polling (g\<lparr>gn_zmq_connected := False\<rparr>), None)
      else case answer of
        None \<Rightarrow> (arm_poll from_poll g, None)
      | Some t \<Rightarrow>
          case new_work cb from_poll now t g of (g, Some x) \<Rightarrow> (g, Some x) | (g, None) \<Rightarrow> (arm_poll from_poll g, None))"

definition settle :: "generator \<times> exn option \<Rightarrow> generator" where
  "settle r = (case r of (g, None) \<Rightarrow> g | (g, Some x) \<Rightarrow> g\<lparr>gn_fault := Some x\<rparr>)"

text \<open>What a node answered to a fetch, and with an aux client what the aux chain answered. With several nodes, one that does
  not answer, or whose answer makes the callback throw, leaves the fetch open at the next one unless it is the last (\<open>at_end\<close>).
  Whether the fetch is closed is the first component.\<close>

definition fetched ::
    "(json \<Rightarrow> exn option) \<Rightarrow> bool \<Rightarrow> bool \<Rightarrow> bool \<Rightarrow> int \<Rightarrow> json option \<Rightarrow> json option \<Rightarrow> generator \<Rightarrow> bool \<times> generator" where
  "fetched cb at_end from_poll any_connected now parent aux g =
     (let handle = handle_block_template cb from_poll any_connected now
      in case parent of
        None \<Rightarrow> if at_end then (True, settle (handle None g)) else (False, g)
      | Some p \<Rightarrow>
          if \<not> gn_aux g then
            case handle (Some p) g of
              (g, None) \<Rightarrow> (True, g)
            | (g, Some _) \<Rightarrow> if at_end then (True, settle (handle None g)) else (False, g)
          else case aux of
            None \<Rightarrow> (True, settle (handle (Some p) g))
          | Some a \<Rightarrow>
              case handle (Some (merge_aux p a)) g of
                (g, None) \<Rightarrow> (True, g)
              | (g, Some _) \<Rightarrow> (True, settle (handle (Some p) g)))"

section \<open>Timers\<close>

definition on_poll_timer :: "generator \<Rightarrow> generator" where
  "on_poll_timer g =
     (if gn_poll_timer g = None then g
      else let g = g\<lparr>gn_poll_timer := None\<rparr> in if gn_running g then poll_block_template g else g)"

definition on_update_timer :: "generator \<Rightarrow> generator" where
  "on_update_timer g =
     (if \<not> gn_update_timer g then g
      else let g = g\<lparr>gn_update_timer := False\<rparr>
           in if gn_running g then gn_emit (Gn_Fetch False) (arm_job_update g) else g)"

definition reconnect_zmq :: "bool \<Rightarrow> int \<Rightarrow> generator \<Rightarrow> bool \<times> generator" where
  "reconnect_zmq opened now g =
     (let (ok, g) = start_zmq_clients opened (g\<lparr>gn_clients := 0, gn_zmq_connected := False\<rparr>)
      in if ok then (True, poll_block_template (g\<lparr>gn_last_zmq := now\<rparr>)) else (False, g))"

definition need_recover :: "generator \<Rightarrow> bool" where
  "need_recover g = (if gn_use_zmq g then gn_last_tip g \<noteq> 0 \<and> gn_last_tip g > gn_last_zmq g + zmqRecoverGrace else True)"

definition on_watchdog :: "bool \<Rightarrow> int \<Rightarrow> generator \<Rightarrow> generator" where
  "on_watchdog opened now g =
     (if \<not> gn_watchdog_timer g then g
      else let g = g\<lparr>gn_watchdog_timer := False\<rparr>
      in if \<not> gn_running g then g
      else
        let g = (if need_recover g \<and> now - gn_last_recover g > zmqRecoverThrottle then
                   let g = g\<lparr>gn_last_recover := now\<rparr>; (ok, g') = reconnect_zmq opened now g
                   in if gn_use_zmq g then g' else if ok then g'\<lparr>gn_use_zmq := True\<rparr> else g'
                 else g)
        in schedule_zmq_watchdog g)"

section \<open>Runs\<close>

datatype gn_event =
  Gn_Start bool int
| Gn_Stop
| Gn_Zmq string int
| Gn_Fetched bool bool bool int "json option" "json option"
| Gn_Poll_Timer
| Gn_Update_Timer
| Gn_Watchdog bool int
| Gn_Submit_Block string

fun gn_exec :: "(json \<Rightarrow> exn option) \<Rightarrow> gn_event \<Rightarrow> generator \<Rightarrow> generator" where
  "gn_exec cb (Gn_Start opened now) g = gn_start opened now g"
| "gn_exec cb Gn_Stop g = gn_stop g"
| "gn_exec cb (Gn_Zmq topic now) g = handle_zmq_message topic now g"
| "gn_exec cb (Gn_Fetched at_end from_poll up now p a) g = snd (fetched cb at_end from_poll up now p a g)"
| "gn_exec cb Gn_Poll_Timer g = on_poll_timer g"
| "gn_exec cb Gn_Update_Timer g = on_update_timer g"
| "gn_exec cb (Gn_Watchdog opened now) g = on_watchdog opened now g"
| "gn_exec cb (Gn_Submit_Block b) g = submit_block b g"

text \<open>Nothing runs after an exception.\<close>

primrec gn_run :: "(json \<Rightarrow> exn option) \<Rightarrow> gn_event list \<Rightarrow> generator \<Rightarrow> generator" where
  "gn_run cb [] g = g"
| "gn_run cb (v # vs) g = (if gn_fault g \<noteq> None then g else gn_run cb vs (gn_exec cb v g))"

section \<open>Polling never stops\<close>

definition fetches :: "bool \<Rightarrow> gn_effect list \<Rightarrow> nat" where
  "fetches from_poll out = length (filter (\<lambda>x. x = Gn_Fetch from_poll) out)"

definition published :: "gn_effect list \<Rightarrow> json list" where
  "published out = concat (map (\<lambda>x. case x of Gn_Template t \<Rightarrow> [t] | _ \<Rightarrow> []) out)"

definition readable :: "json \<Rightarrow> bool" where
  "readable t \<longleftrightarrow> \<not> isl (tips_of t)"

definition last_published :: "gn_effect list \<Rightarrow> json" where
  "last_published out = (if published out = [] then JNull else last (published out))"

text \<open>The fetches an event answers, and those it closes.\<close>

fun answers_fetch :: "gn_event \<Rightarrow> bool \<Rightarrow> bool" where
  "answers_fetch (Gn_Fetched _ from_poll _ _ _ _) b \<longleftrightarrow> b = from_poll"
| "answers_fetch _ b \<longleftrightarrow> False"

fun closes :: "(json \<Rightarrow> exn option) \<Rightarrow> gn_event \<Rightarrow> generator \<Rightarrow> bool \<Rightarrow> bool" where
  "closes cb (Gn_Fetched at_end from_poll up now p x) g b \<longleftrightarrow> b = from_poll \<and> fst (fetched cb at_end from_poll up now p x g)"
| "closes cb _ g b \<longleftrightarrow> False"

fun starts :: "gn_event \<Rightarrow> bool" where
  "starts (Gn_Start _ _) \<longleftrightarrow> True"
| "starts _ \<longleftrightarrow> False"

definition gn_configured :: "bool \<Rightarrow> bool \<Rightarrow> string list \<Rightarrow> string list \<Rightarrow> int \<Rightarrow> generator" where
  "gn_configured z aux hashblock rawblock i =
     (let g = set_zmq_endpoints hashblock rawblock (gn_new z i) in if aux then set_aux_client g else g)"

text \<open>
  A run: the generator is started once, every answer belongs to a request that is still open, and an exception
  ends it. \<open>gn_reach cb z g a\<close>: the generator, configured to use the feed or not, is \<open>g\<close> after \<open>a b\<close> fetches by polls (\<open>b\<close>) and
  keepalives were closed.
\<close>

inductive gn_reach :: "(json \<Rightarrow> exn option) \<Rightarrow> bool \<Rightarrow> generator \<Rightarrow> (bool \<Rightarrow> nat) \<Rightarrow> bool" where
  gn_reach_start: "gn_reach cb z (gn_exec cb (Gn_Start opened now) (gn_configured z aux hashblock rawblock i)) (\<lambda>_. 0)"
| gn_reach_step: "gn_reach cb z g a \<Longrightarrow> gn_fault g = None \<Longrightarrow> \<not> starts v \<Longrightarrow>
    (\<And>b. answers_fetch v b \<Longrightarrow> a b < fetches b (gn_out g)) \<Longrightarrow>
    gn_reach cb z (gn_exec cb v g) (\<lambda>b. if closes cb v g b then a b + 1 else a b)"

inductive_cases gn_reachE: "gn_reach cb z g a"

definition gn_kept :: "bool \<Rightarrow> generator \<Rightarrow> (bool \<Rightarrow> nat) \<Rightarrow> bool" where
  "gn_kept z g a \<longleftrightarrow>
     (gn_running g \<longrightarrow> gn_update_timer g) \<and> (gn_watchdog_timer g \<longleftrightarrow> z \<and> gn_running g) \<and> (gn_use_zmq g \<longrightarrow> z) \<and>
     gn_current g = last_published (gn_out g) \<and>
     readable (last_published (gn_out g)) \<and> (gn_fault g \<noteq> None \<longrightarrow> gn_aux g) \<and>
     a True \<le> fetches True (gn_out g) \<and> a False \<le> fetches False (gn_out g)"

definition gn_polls :: "generator \<Rightarrow> (bool \<Rightarrow> nat) \<Rightarrow> bool" where
  "gn_polls g a \<longleftrightarrow> (gn_fault g = None \<and> gn_running g \<longrightarrow> a True < fetches True (gn_out g) \<or> gn_poll_timer g \<noteq> None)"

definition gn_alive :: "bool \<Rightarrow> generator \<Rightarrow> (bool \<Rightarrow> nat) \<Rightarrow> bool" where
  "gn_alive z g a \<longleftrightarrow> gn_kept z g a \<and> gn_polls g a"

lemma fetches_simps [simp]: "fetches b [] = 0" "fetches b (x # xs) = (if x = Gn_Fetch b then 1 else 0) + fetches b xs"
    "fetches b (xs @ ys) = fetches b xs + fetches b ys"
  by (simp_all add: fetches_def)

lemma published_simps [simp]: "published [] = []" "published (xs @ ys) = published xs @ published ys"
    "published (Gn_Fetch b # xs) = published xs" "published (Gn_Template t # xs) = t # published xs"
    "published (Gn_Block_Notify # xs) = published xs" "published (Gn_Submit s # xs) = published xs"
  by (simp_all add: published_def)

lemma last_published_simps [simp]: "last_published [] = JNull" "last_published (xs @ [Gn_Template t]) = t"
    "last_published (xs @ [Gn_Template t, Gn_Block_Notify]) = t" "last_published (xs @ [Gn_Fetch b]) = last_published xs" "last_published [Gn_Fetch b] = JNull"
    "last_published (xs @ [Gn_Submit s]) = last_published xs"
  by (simp_all add: last_published_def)

lemmas gn_step_defs = gn_start_def start_zmq_def start_zmq_clients_def start_rpc_polling_def poll_block_template_def gn_emit_def
  schedule_zmq_watchdog_def arm_job_update_def gn_stop_def handle_zmq_message_def submit_block_def on_poll_timer_def on_update_timer_def
  Let_def

lemma tips_of_null [simp]: "tips_of JNull = Inr ([], [])"
  by (simp add: tips_of_def prevhash_of_def aux_prevhash_of_def)

lemma readable_simps [simp]: "readable JNull" "tips_of t = Inr x \<Longrightarrow> readable t"
  by (simp_all add: readable_def)

lemma alive_start: "gn_alive z (gn_start opened now (gn_configured z aux hashblock rawblock i)) (\<lambda>_. 0)"
  by (auto simp: gn_alive_def gn_kept_def gn_polls_def gn_configured_def set_zmq_endpoints_def set_aux_client_def gn_new_def gn_step_defs)

lemma kept_poll: "gn_kept z g a \<Longrightarrow> gn_kept z (poll_block_template g) a"
  by (simp add: gn_kept_def poll_block_template_def gn_emit_def)

lemma polls_poll: "a True \<le> fetches True (gn_out g) \<Longrightarrow> gn_polls (poll_block_template g) a"
  by (simp add: gn_polls_def poll_block_template_def gn_emit_def)

lemma kept_le: "gn_kept z g a \<Longrightarrow> a True \<le> fetches True (gn_out g)"
  by (simp add: gn_kept_def)

lemma kept_update:
  "gn_kept z g a \<Longrightarrow> gn_kept z (g\<lparr>gn_zmq_connected := c\<rparr>) a" "gn_kept z g a \<Longrightarrow> gn_kept z (g\<lparr>gn_last_zmq := t\<rparr>) a"
  "gn_kept z g a \<Longrightarrow> gn_kept z (g\<lparr>gn_last_recover := t\<rparr>) a" "gn_kept z g a \<Longrightarrow> gn_kept z (g\<lparr>gn_clients := n\<rparr>) a"
  "gn_kept z g a \<Longrightarrow> gn_kept z (g\<lparr>gn_poll_timer := p\<rparr>) a" "gn_kept z g a \<Longrightarrow> gn_kept z (g\<lparr>gn_use_zmq := False\<rparr>) a"
  "gn_kept z g a \<Longrightarrow> z \<Longrightarrow> gn_kept z (g\<lparr>gn_use_zmq := u\<rparr>) a"
  by (auto simp: gn_kept_def)

lemma polls_update [simp]:
  "gn_polls (g\<lparr>gn_zmq_connected := c\<rparr>) a = gn_polls g a" "gn_polls (g\<lparr>gn_last_zmq := t\<rparr>) a = gn_polls g a"
  "gn_polls (g\<lparr>gn_last_recover := t\<rparr>) a = gn_polls g a" "gn_polls (g\<lparr>gn_clients := n\<rparr>) a = gn_polls g a"
  "gn_polls (g\<lparr>gn_use_zmq := u\<rparr>) a = gn_polls g a" "gn_polls (g\<lparr>gn_watchdog_timer := w\<rparr>) a = gn_polls g a"
  "gn_polls (g\<lparr>gn_update_timer := w\<rparr>) a = gn_polls g a"
  by (simp_all add: gn_polls_def)

text \<open>A template is compared with the one in hand. One whose tips cannot be read changes nothing; of any other the generator holds
  the parent's tip afterwards, whether the callback throws or not.\<close>

lemma tip_moved_tips: "tips_of t = Inr x \<Longrightarrow> tips_of c = Inr y \<Longrightarrow> tip_moved t c = Inr (x \<noteq> y)"
  by (cases "prevhash_of t"; cases "prevhash_of c"; cases "aux_prevhash_of t"; cases "aux_prevhash_of c")
    (auto simp: tip_moved_def tips_of_def)

lemma tip_moved_throws: "tips_of t = Inl e \<Longrightarrow> tips_of c = Inr y \<Longrightarrow> \<exists>x. tip_moved t c = Inl x"
  by (cases "prevhash_of t"; cases "prevhash_of c"; cases "aux_prevhash_of t"; cases "aux_prevhash_of c")
    (auto simp: tip_moved_def tips_of_def)

lemma new_work_cases:
  assumes "tips_of (gn_current g) = Inr y"
  obtains e x where "tips_of t = Inl e" "new_work cb from_poll now t g = (g, Some x)"
  | x where "tips_of t = Inr x" "x \<noteq> y" "cb t = None" "new_work cb from_poll now t g =
      (g\<lparr>gn_current := t, gn_last_tip := now, gn_update_timer := True, gn_out := gn_out g @ [Gn_Template t, Gn_Block_Notify]\<rparr>, None)"
  | x z where "tips_of t = Inr x" "x \<noteq> y" "cb t = Some z" "new_work cb from_poll now t g =
      (g\<lparr>gn_current := t, gn_last_tip := now, gn_out := gn_out g @ [Gn_Template t]\<rparr>, Some z)"
  | "tips_of t = Inr y" "\<not> from_poll" "new_work cb from_poll now t g = (g\<lparr>gn_current := t, gn_out := gn_out g @ [Gn_Template t]\<rparr>, cb t)"
  | "tips_of t = Inr y" from_poll "new_work cb from_poll now t g = (g, None)"
proof (cases "tips_of t")
  case (Inl e)
  then show ?thesis
    using that(1) tip_moved_throws[OF Inl assms] by (auto simp: new_work_def)
next
  case (Inr x)
  note m = tip_moved_tips[OF Inr assms]
  consider "x \<noteq> y" "cb t = None" | z where "x \<noteq> y" "cb t = Some z" | "x = y" "\<not> from_poll" | "x = y" "from_poll"
    by (cases "cb t") auto
  then show ?thesis
  proof cases
    case 1
    then show ?thesis
      by (intro that(2)[OF Inr]) (simp_all add: new_work_def m gn_emit_def arm_job_update_def)
  next
    case 2
    then show ?thesis
      by (intro that(3)[OF Inr]) (simp_all add: new_work_def m gn_emit_def)
  next
    case 3
    then show ?thesis
      using Inr by (intro that(4)) (simp_all add: new_work_def m gn_emit_def)
  next
    case 4
    then show ?thesis
      using Inr by (intro that(5)) (simp_all add: new_work_def m)
  qed
qed

lemma kept_tips: "gn_kept z g a \<Longrightarrow> \<exists>y. tips_of (gn_current g) = Inr y"
  by (cases "tips_of (gn_current g)") (auto simp: gn_kept_def readable_def)

lemma kept_new_work:
  assumes "gn_kept z g a"
  shows "gn_kept z (fst (new_work cb from_poll now t g)) a"
proof -
  obtain y where y: "tips_of (gn_current g) = Inr y"
    using kept_tips[OF assms] by blast
  show ?thesis
    using assms by (cases rule: new_work_cases[OF y, of t cb from_poll now]) (auto simp: gn_kept_def)
qed

lemma new_work_fields:
  "gn_kept z g a \<Longrightarrow> gn_polls (fst (new_work cb from_poll now t g)) a = gn_polls g a \<and>
    gn_aux (fst (new_work cb from_poll now t g)) = gn_aux g \<and> gn_fault (fst (new_work cb from_poll now t g)) = gn_fault g \<and>
    gn_use_zmq (fst (new_work cb from_poll now t g)) = gn_use_zmq g"
  by (erule kept_tips[THEN exE]) (erule new_work_cases[of g _ t cb from_poll now]; simp add: gn_polls_def)

lemma kept_answer: "gn_kept z g a \<Longrightarrow> a b < fetches b (gn_out g) \<Longrightarrow> gn_kept z g (\<lambda>c. if c = b then a c + 1 else a c)"
  by (cases b) (simp_all add: gn_kept_def)

lemma kept_arm_poll: "gn_kept z g a \<Longrightarrow> gn_kept z (arm_poll from_poll g) a"
  by (simp add: arm_poll_def kept_update)

lemma alive_handle:
  assumes "gn_alive z g a" "a from_poll < fetches from_poll (gn_out g)" "handle_block_template cb from_poll up now answer g = (h, x)"
  shows "gn_kept z h (\<lambda>b. if b = from_poll then a b + 1 else a b) \<and> gn_alive z h a \<and> gn_aux h = gn_aux g \<and> gn_fault h = gn_fault g \<and>
    (x = None \<longrightarrow> gn_polls h (\<lambda>b. if b = from_poll then a b + 1 else a b)) \<and> (answer = None \<longrightarrow> x = None)"
proof -
  let ?a = "\<lambda>b. if b = from_poll then a b + 1 else a b"
  have k: "gn_kept z g a" "gn_kept z g ?a" "gn_polls g a" and p: "\<not> from_poll \<Longrightarrow> gn_polls g ?a"
    using assms kept_answer[of z g a from_poll] by (auto simp: gn_alive_def gn_polls_def)
  have arm: "\<not> from_poll \<Longrightarrow> gn_polls f ?a \<Longrightarrow> gn_polls (arm_poll from_poll f) ?a" "from_poll \<Longrightarrow> gn_polls (arm_poll from_poll f) ?a"
      "gn_polls f a \<Longrightarrow> gn_polls (arm_poll from_poll f) a" "gn_aux (arm_poll from_poll f) = gn_aux f" "gn_fault (arm_poll from_poll f) = gn_fault f" for f
    by (auto simp: arm_poll_def gn_polls_def)
  consider (lost) "from_poll \<and> gn_use_zmq g \<and> \<not> up" "h = start_rpc_polling (g\<lparr>gn_zmq_connected := False\<rparr>)" "x = None"
    | (none) "answer = None" "h = arm_poll from_poll g" "x = None"
    | (throws) t y where "answer = Some t" "new_work cb from_poll now t g = (h, Some y)" "x = Some y"
    | (ok) t w where "answer = Some t" "new_work cb from_poll now t g = (w, None)" "h = arm_poll from_poll w" "x = None"
    using assms(3) by (auto simp: handle_block_template_def split: if_splits option.splits prod.splits)
  then show ?thesis
  proof cases
    case lost
    have "gn_aux h = gn_aux g \<and> gn_fault h = gn_fault g"
      using lost by (simp add: start_rpc_polling_def poll_block_template_def gn_emit_def)
    then show ?thesis
      using lost kept_le[OF k(2)] kept_le[OF k(1)] k
      by (simp add: gn_alive_def start_rpc_polling_def kept_poll kept_update polls_poll)
  next
    case none
    then show ?thesis
      using k p arm by (cases from_poll) (simp_all add: gn_alive_def kept_arm_poll)
  next
    case (throws t y)
    then show ?thesis
      using kept_new_work[OF k(1), of cb from_poll now t] kept_new_work[OF k(2), of cb from_poll now t]
        new_work_fields[OF k(1), of cb from_poll now t] k(3) by (simp add: gn_alive_def)
  next
    case (ok t w)
    have w: "gn_kept z w a" "gn_kept z w ?a" "gn_polls w a = gn_polls g a" "gn_polls w ?a = gn_polls g ?a" "gn_aux w = gn_aux g" "gn_fault w = gn_fault g"
      using ok kept_new_work[OF k(1), of cb from_poll now t] kept_new_work[OF k(2), of cb from_poll now t]
        new_work_fields[OF k(1), of cb from_poll now t] new_work_fields[OF k(2), of cb from_poll now t] by simp_all
    then show ?thesis
      using ok k p arm by (cases from_poll) (simp_all add: gn_alive_def kept_arm_poll)
  qed
qed

lemma alive_settle:
  assumes "gn_kept z h a" "x = None \<Longrightarrow> gn_polls h a" "x \<noteq> None \<Longrightarrow> gn_aux h"
  shows "gn_alive z (settle (h, x)) a"
  using assms by (cases x) (simp_all add: settle_def gn_alive_def gn_kept_def gn_polls_def)

lemma alive_fetched:
  assumes "gn_alive z g a" "a from_poll < fetches from_poll (gn_out g)" "fetched cb at_end from_poll up now parent aux g = (c, h)"
  shows "gn_alive z h (\<lambda>b. if b = from_poll \<and> c then a b + 1 else a b)"
proof -
  let ?a = "\<lambda>b. if b = from_poll then a b + 1 else a b"
  let ?handle = "\<lambda>t g. handle_block_template cb from_poll up now t g"
  obtain h1 x1 where 1: "?handle None g = (h1, x1)"
    by fastforce
  note a1 = alive_handle[OF assms(1,2) 1]
  have again: "gn_alive z (settle (?handle t f)) ?a"
    if f: "gn_alive z f a" "gn_kept z f ?a" "t = None \<or> gn_aux f" for t f
  proof -
    obtain f2 x2 where 2: "?handle t f = (f2, x2)"
      by fastforce
    have "a from_poll < fetches from_poll (gn_out f)"
      using f(2) by (cases from_poll) (simp_all add: gn_kept_def)
    from alive_handle[OF f(1) this 2] show ?thesis
      unfolding 2 using f(3) by (intro alive_settle) auto
  qed
  have first: "gn_alive z f a \<and> gn_kept z f ?a \<and> gn_aux f = gn_aux g \<and> (x = None \<longrightarrow> gn_alive z f ?a)" if "?handle t g = (f, x)" for t f x
    using alive_handle[OF assms(1,2) that] by (simp add: gn_alive_def)
  have k: "gn_kept z g ?a"
    using assms kept_answer[of z g a from_poll] by (auto simp: gn_alive_def)
  show ?thesis
  proof (cases parent)
    case None
    then show ?thesis
      using assms(1,3) again[OF assms(1) k, of None] by (auto simp: fetched_def split: if_splits)
  next
    case (Some p)
    show ?thesis
    proof (cases "gn_aux g")
      case False
      obtain f x where f: "?handle (Some p) g = (f, x)"
        by fastforce
      show ?thesis
        using assms(3) False Some first[OF f] again[of f None] by (cases x) (auto simp: fetched_def f split: if_splits)
    next
      case True
      show ?thesis
      proof (cases aux)
        case None
        then show ?thesis
          using assms(1,3) True Some again[OF assms(1) k, of "Some p"] by (auto simp: fetched_def)
      next
        case (Some a')
        obtain f x where f: "?handle (Some (merge_aux p a')) g = (f, x)"
          by fastforce
        show ?thesis
          using assms(3) True Some \<open>parent = Some p\<close> first[OF f] again[of f "Some p"] by (cases x) (auto simp: fetched_def f)
      qed
    qed
  qed
qed

lemma reconnect_watched:
  "reconnect_zmq opened now (g\<lparr>gn_watchdog_timer := w\<rparr>) =
     (fst (reconnect_zmq opened now g), (snd (reconnect_zmq opened now g))\<lparr>gn_watchdog_timer := w\<rparr>)"
  by (simp add: reconnect_zmq_def start_zmq_clients_def poll_block_template_def gn_emit_def Let_def)

lemma watchdog_step:
  assumes "gn_watchdog_timer g" "gn_running g"
  shows "on_watchdog opened now g =
    (if need_recover g \<and> now - gn_last_recover g > zmqRecoverThrottle
     then (let r = reconnect_zmq opened now (g\<lparr>gn_last_recover := now\<rparr>)
           in if \<not> gn_use_zmq g \<and> fst r then (snd r)\<lparr>gn_use_zmq := True\<rparr> else snd r) \<lparr>gn_watchdog_timer := True\<rparr>
     else g)"
proof -
  let ?h = "g\<lparr>gn_watchdog_timer := False\<rparr>"
  have n: "need_recover ?h = need_recover g"
    by (simp add: need_recover_def)
  have g: "?h\<lparr>gn_watchdog_timer := True\<rparr> = g"
    using assms(1) by (cases g) simp
  have "?h\<lparr>gn_last_recover := now\<rparr> = (g\<lparr>gn_last_recover := now\<rparr>)\<lparr>gn_watchdog_timer := False\<rparr>"
    by simp
  then have r: "reconnect_zmq opened now (?h\<lparr>gn_last_recover := now\<rparr>) =
      (fst (reconnect_zmq opened now (g\<lparr>gn_last_recover := now\<rparr>)),
       (snd (reconnect_zmq opened now (g\<lparr>gn_last_recover := now\<rparr>)))\<lparr>gn_watchdog_timer := False\<rparr>)"
    by (simp only: reconnect_watched)
  show ?thesis
  proof (cases "need_recover g \<and> now - gn_last_recover g > zmqRecoverThrottle")
    case True
    then show ?thesis
      using assms n by (simp add: on_watchdog_def schedule_zmq_watchdog_def Let_def r)
  next
    case False
    then have "on_watchdog opened now g = ?h\<lparr>gn_watchdog_timer := True\<rparr>"
      using assms n by (auto simp: on_watchdog_def schedule_zmq_watchdog_def Let_def)
    then show ?thesis
      unfolding g using False by auto
  qed
qed

lemma alive_watchdog:
  assumes "gn_alive z g a" "gn_fault g = None"
  shows "gn_alive z (on_watchdog opened now g) a"
proof (cases "gn_watchdog_timer g \<and> gn_running g")
  case True
  then have z: z
    using assms by (simp add: gn_alive_def gn_kept_def)
  have watch: "gn_kept z h a \<Longrightarrow> gn_running h \<Longrightarrow> gn_kept z (h\<lparr>gn_watchdog_timer := True\<rparr>) a" for h
    using z by (simp add: gn_kept_def)
  have run: "gn_running (snd (reconnect_zmq opened now (g\<lparr>gn_last_recover := now\<rparr>)))"
    using True by (simp add: reconnect_zmq_def start_zmq_clients_def poll_block_template_def gn_emit_def Let_def)
  have "gn_alive z (snd (reconnect_zmq opened now (g\<lparr>gn_last_recover := now\<rparr>))) a"
    using assms by (auto simp: reconnect_zmq_def start_zmq_clients_def Let_def gn_alive_def kept_update kept_poll dest: kept_le intro!: polls_poll)
  then show ?thesis
    using assms True z watch run by (auto simp: watchdog_step Let_def gn_alive_def kept_update)
qed (use assms in \<open>auto simp: gn_alive_def gn_kept_def gn_polls_def on_watchdog_def\<close>)

lemma alive_step:
  assumes "gn_alive z g a" "gn_fault g = None" "\<not> starts v" "\<And>b. answers_fetch v b \<Longrightarrow> a b < fetches b (gn_out g)"
  shows "gn_alive z (gn_exec cb v g) (\<lambda>b. if closes cb v g b then a b + 1 else a b)"
proof (cases v)
  case (Gn_Fetched at_end from_poll up now p x)
  then show ?thesis
    using alive_fetched[OF assms(1), of from_poll cb at_end up now p x, OF _ prod.collapse[symmetric]] assms(4)[of from_poll] by simp
next
  case (Gn_Watchdog opened now)
  then show ?thesis
    using alive_watchdog[OF assms(1,2)] by simp
next
  case (Gn_Zmq topic now)
  then show ?thesis
    using assms(1) by (auto simp: handle_zmq_message_def Let_def gn_alive_def kept_update kept_poll dest: kept_le intro!: polls_poll)
next
  case Gn_Poll_Timer
  then show ?thesis
    using assms(1) by (auto simp: on_poll_timer_def Let_def gn_alive_def kept_update kept_poll dest: kept_le intro!: polls_poll) (simp add: gn_polls_def)
next
  case Gn_Update_Timer
  then show ?thesis
    using assms(1) by (auto simp: on_update_timer_def Let_def gn_alive_def gn_kept_def gn_polls_def gn_emit_def arm_job_update_def)
next
  case Gn_Stop
  then show ?thesis
    using assms(1) by (auto simp: gn_stop_def gn_alive_def gn_kept_def gn_polls_def)
next
  case (Gn_Submit_Block b)
  then show ?thesis
    using assms(1) by (auto simp: submit_block_def gn_emit_def gn_alive_def gn_kept_def gn_polls_def)
qed (use assms(3) in simp)

lemma alive: "gn_reach cb z g a \<Longrightarrow> gn_alive z g a"
proof (induction rule: gn_reach.induct)
  case (gn_reach_start cb z opened now aux hashblock rawblock i)
  then show ?case
    by (simp add: alive_start)
next
  case (gn_reach_step cb z g a v)
  then show ?case
    by (intro alive_step)
qed

text \<open>C19: The generator never goes deaf. In every run, whatever the nodes answer, whatever the template callback throws, and whatever
  sockets open, break or come back: while it runs, the keepalive timer is armed, a poll is
  outstanding or the poll timer is armed, and configured for the feed its watchdog is armed too. Without an aux chain
  no exception ever ends its thread. And the template it holds is the one published last.\<close>

theorem generator_never_stops_polling:
  assumes "gn_reach cb z g a"
  shows "(gn_running g \<and> gn_fault g = None \<longrightarrow>
      gn_update_timer g \<and> (a True < fetches True (gn_out g) \<or> gn_poll_timer g \<noteq> None) \<and> (z \<longrightarrow> gn_watchdog_timer g)) \<and>
    (\<not> gn_aux g \<longrightarrow> gn_fault g = None) \<and>
    gn_current_template g = last_published (gn_out g)"
  using alive[OF assms] unfolding gn_alive_def gn_kept_def gn_polls_def gn_current_template_def by auto

definition sample_parent :: "string \<Rightarrow> json" where
  "sample_parent p = JObj [(''result'', JObj [(''previousblockhash'', JStr p)])]"

text \<open>The feed does not come up, a template arrives and the poll timer fires.\<close>

definition sample_gn :: generator where
  "sample_gn = gn_run (\<lambda>_. None) [Gn_Start False 5, Gn_Fetched True True False 6 (Some (sample_parent ''p'')) None, Gn_Poll_Timer]
     (gn_configured True False [''tcp''] [] 10)"

lemmas gn_sample_defs = sample_gn_def sample_parent_def gn_configured_def set_zmq_endpoints_def set_aux_client_def gn_new_def fetched_def
  handle_block_template_def arm_poll_def settle_def new_work_def tip_moved_def prevhash_of_def aux_prevhash_of_def value_or_def next_interval_def gn_step_defs

theorem generator_never_stops_polling_witness:
  "gn_running sample_gn \<and> gn_update_timer sample_gn \<and> gn_watchdog_timer sample_gn \<and> gn_poll_timer sample_gn = None \<and>
    1 < fetches True (gn_out sample_gn) \<and> gn_current_template sample_gn = sample_parent ''p''"
proof -
  let ?cb = "\<lambda>_. None"
  let ?g0 = "gn_exec ?cb (Gn_Start False 5) (gn_configured True False [''tcp''] [] 10)"
  let ?v1 = "Gn_Fetched True True False 6 (Some (sample_parent ''p'')) None"
  let ?g1 = "gn_exec ?cb ?v1 ?g0"
  have ok: "gn_fault ?g0 = None" "gn_fault ?g1 = None" "gn_fault sample_gn = None" "0 < fetches True (gn_out ?g0)"
    by (simp_all add: gn_sample_defs)
  have c: "closes ?cb ?v1 ?g0 b = b" for b
    by (simp add: gn_sample_defs)
  have r0: "gn_reach ?cb True ?g0 (\<lambda>_. 0)"
    by (rule gn_reach_start)
  have r1: "gn_reach ?cb True ?g1 (\<lambda>b. if b then 0 + 1 else 0)"
    using gn_reach_step[OF r0 ok(1), of ?v1] ok(4) unfolding c by simp
  have r2: "gn_reach ?cb True (gn_exec ?cb Gn_Poll_Timer ?g1) (\<lambda>b. if closes ?cb Gn_Poll_Timer ?g1 b then
      (if b then 0 + 1 else 0) + 1 else if b then 0 + 1 else 0)"
    by (rule gn_reach_step[OF r1 ok(2)]) simp_all
  have "sample_gn = gn_exec ?cb Gn_Poll_Timer ?g1"
    using ok(1,2) by (simp add: sample_gn_def gn_configured_def set_zmq_endpoints_def gn_new_def)
  note r = r2[folded this]
  have run: "gn_running sample_gn" "gn_poll_timer sample_gn = None" "published (gn_out sample_gn) = [sample_parent ''p'']"
    by (simp_all add: gn_sample_defs)
  show ?thesis
    using generator_never_stops_polling[OF r] ok(3) run by (simp add: last_published_def)
qed

section \<open>New work\<close>

text \<open>An answer that is processed leaves the generator with the tips of the answer. It is published, and announced as a
  block, exactly when one of the tips moved; a keepalive publishes it in any case.\<close>

lemma new_work_publishes:
  assumes "tips_of (gn_current g) = Inr y" and "new_work cb from_poll now t g = (h, None)"
  shows "tips_of (gn_current h) = tips_of t \<and>
    gn_out h = gn_out g @ (if tips_of t \<noteq> tips_of (gn_current g) then [Gn_Template t, Gn_Block_Notify] else if \<not> from_poll then [Gn_Template t] else [])"
  using assms(2) by (cases rule: new_work_cases[OF assms(1), of t cb from_poll now]) (auto simp: assms(1))

section \<open>The generator feeds the stratifier\<close>

text \<open>The template callback is \<open>updateWork\<close>; \<open>ids\<close> are the clock and counter readings of the job ids.\<close>

fun serve :: "(bytes \<Rightarrow> bytes) \<Rightarrow> (u64 \<times> u64) list \<Rightarrow> json list \<Rightarrow> stratifier \<Rightarrow> (stratifier \<times> mining_job option list) res" where
  "serve H ids [] s = Inr (s, [])"
| "serve H [] (t # ts) s = Inr (s, replicate (length (t # ts)) None)"
| "serve H (i # ids) (t # ts) s =
     bindE (update_work H (fst i) (snd i) t s) (\<lambda>(s, j). bindE (serve H ids ts s) (\<lambda>(s, js). Inr (s, j # js)))"

text \<open>Where the parent's tip moves along a list of templates.\<close>

fun tip_moves :: "string \<Rightarrow> json list \<Rightarrow> bool list" where
  "tip_moves p [] = []"
| "tip_moves p (t # ts) = (prevhash_of t \<noteq> Inr p) # tip_moves (case prevhash_of t of Inr q \<Rightarrow> q | Inl _ \<Rightarrow> p) ts"

lemma bindE_InrE: "bindE m f = Inr y \<Longrightarrow> (\<And>x. m = Inr x \<Longrightarrow> f x = Inr y \<Longrightarrow> P) \<Longrightarrow> P"
  by (cases m) simp_all

lemma length_tip_moves: "length (tip_moves p ts) = length ts"
  by (induction p ts rule: tip_moves.induct) simp_all

lemma update_work_tip:
  assumes "update_work H i c t s = Inr (s', Some mj)"
  shows "prevhash_of t = Inr (mj_previousblockhash mj)"
proof -
  obtain bt where bt: "parse_template t = Inr (Some bt)" "mj_previousblockhash mj = bt_previousblockhash bt"
    using update_work_cases[OF assms] by metis
  obtain r where r: "jfield t ''result'' = Some r" "is_object r"
    using bt(1) by (cases "jfield t ''result''"; simp add: parse_template_def split: if_splits)
  have "value_or get_string r ''previousblockhash'' [] = Inr (bt_previousblockhash bt)"
    using bt(1) r(2) unfolding parse_template_def r(1) option.case split_beta Let_def
    by (simp only: if_not_P not_not if_False HOL.simp_thms) (elim bindE_InrE, simp only: sum.inject option.inject, hypsubst, simp only: block_template.select_convs)
  then show ?thesis
    using bt(2) r by (cases r) (simp_all add: prevhash_of_def)
qed

lemma serve_tip:
  assumes "serve H ids ts s = Inr (s', js)" "None \<notin> set js" "jw_ok (st_jobs s)"
  shows "jw_ok (st_jobs s') \<and> (if ts = [] then s' = s else prevhash_of (last ts) = Inr (current_prevhash s') \<and> latest_job s' = last js) \<and>
    map (map_option mj_clean_jobs) js = map Some (tip_moves (current_prevhash s) ts)"
  using assms
proof (induction H ids ts s arbitrary: js rule: serve.induct)
  case (3 H i ids t ts s)
  obtain s1 j js' where u: "update_work H (fst i) (snd i) t s = Inr (s1, j)" "serve H ids ts s1 = Inr (s', js')" "js = j # js'"
    using 3(2) by (auto simp: bindE_Inr_iff)
  obtain mj where j: "j = Some mj"
    using u(3) 3(3) by (cases j) auto
  have p: "latest_job s1 = Some mj" "current_prevhash s1 = mj_previousblockhash mj" "mj_clean_jobs mj \<longleftrightarrow> mj_previousblockhash mj \<noteq> current_prevhash s"
    using update_work_publishes[OF 3(4) u(1)] j by auto
  have t: "prevhash_of t = Inr (mj_previousblockhash mj)"
    using update_work_tip u(1) j by blast
  have ok: "jw_ok (st_jobs s1)"
  proof (rule update_work_cases[OF u(1)[unfolded j]])
    fix b
    assume "s1 = s\<lparr>st_last_prevhash := bt_previousblockhash b, st_seen_shares := if mj_clean_jobs mj then {} else st_seen_shares s,
        st_best_share_round := if mj_clean_jobs mj then 0 else st_best_share_round s,
        st_jobs := jw_push (mj_job_id mj) mj (st_jobs s)\<rparr>"
    then show ?thesis
      using jw.push_ok[OF 3(4)] by simp
  qed
  note IH = 3(1)[OF u(2) _ ok]
  have "None \<notin> set js'"
    using 3(3) u(3) by auto
  from IH[OF this] show ?case
    using u t p j u(2) by (cases ts) auto
qed auto

lemma merge_keeps_parent: "prevhash_of (merge_aux p a) = prevhash_of p"
proof (cases p)
  case (JObj kvs)
  show ?thesis
  proof (cases "map_of kvs ''result''")
    case (Some r)
    then show ?thesis
      by (cases r; cases "jfield a ''result''") (auto simp: JObj merge_aux_def jput_def prevhash_of_def value_or_def update_conv')
  qed (simp add: JObj merge_aux_def)
qed (simp_all add: merge_aux_def)

lemma handle_keeps_tip:
  assumes "tips_of (gn_current g) = Inr y" "handle_block_template cb from_poll up now (Some t) g = (h, x)" "gn_use_zmq g \<longrightarrow> from_poll \<longrightarrow> up"
  shows "gn_use_zmq h = gn_use_zmq g \<and> (\<exists>z. tips_of (gn_current h) = Inr z) \<and>
    (case tips_of t of Inl _ \<Rightarrow> h = g \<and> x \<noteq> None | Inr _ \<Rightarrow> prevhash_of (gn_current h) = prevhash_of t)"
proof -
  obtain w v where w: "new_work cb from_poll now t g = (w, v)"
    by fastforce
  have h: "(h, x) = (case v of None \<Rightarrow> (arm_poll from_poll w, None) | Some z \<Rightarrow> (w, Some z))"
    using assms(2,3) w by (auto simp: handle_block_template_def split: option.splits)
  have p: "prevhash_of a = prevhash_of b" if "tips_of a = Inr z" "tips_of b = Inr z" for a b z
    using that unfolding tips_of_def by (cases "prevhash_of a"; cases "aux_prevhash_of a"; cases "prevhash_of b"; cases "aux_prevhash_of b") auto
  show ?thesis
    using w h assms(1) p[of "gn_current g" y t]
    by (cases rule: new_work_cases[OF assms(1), of t cb from_poll now]) (auto simp: arm_poll_def split: option.splits)
qed

lemma fetched_keeps_tip:
  assumes "tips_of (gn_current g) = Inr y" "tips_of p = Inr z" "gn_use_zmq g \<longrightarrow> from_poll \<longrightarrow> up"
  shows "prevhash_of (gn_current (snd (fetched cb at_end from_poll up now (Some p) aux g))) = prevhash_of p"
proof -
  let ?handle = "\<lambda>t g. handle_block_template cb from_poll up now t g"
  have none: "gn_current (settle (?handle None f)) = gn_current f" for f
    by (simp add: handle_block_template_def start_rpc_polling_def poll_block_template_def gn_emit_def settle_def arm_poll_def)
  have settle: "gn_current (settle (f, x)) = gn_current f" for f x
    by (cases x) (simp_all add: settle_def)
  have parent: "prevhash_of (gn_current (fst (?handle (Some p) f))) = prevhash_of p"
    if "tips_of (gn_current f) = Inr w" "gn_use_zmq f = gn_use_zmq g" for f w
    using handle_keeps_tip[OF that(1) prod.collapse[symmetric], where cb = cb and from_poll = from_poll and up = up and now = now and t = p] that(2) assms(2,3) by simp
  show ?thesis
  proof (cases "gn_aux g")
    case False
    then show ?thesis
      using parent[OF assms(1) refl] none
      by (cases "?handle (Some p) g"; cases "snd (?handle (Some p) g)") (auto simp: fetched_def Let_def)
  next
    case True
    show ?thesis
    proof (cases aux)
      case None
      then show ?thesis
        using True parent[OF assms(1) refl] settle by (cases "?handle (Some p) g") (simp add: fetched_def Let_def)
    next
      case (Some a)
      obtain f x where f: "?handle (Some (merge_aux p a)) g = (f, x)"
        by fastforce
      note k = handle_keeps_tip[OF assms(1) f assms(3)]
      obtain w where w: "tips_of (gn_current f) = Inr w" "gn_use_zmq f = gn_use_zmq g"
        using k by blast
      have "x = None \<Longrightarrow> prevhash_of (gn_current f) = prevhash_of p"
        using k merge_keeps_parent by (auto split: sum.splits)
      then show ?thesis
        using True Some f parent[OF w] settle
        by (cases x; cases "?handle (Some p) f") (simp_all add: fetched_def Let_def)
    qed
  qed
qed



section \<open>Where the code departs from its comments\<close>

text \<open>The watchdog's comment takes a tip that moved without a message of the feed for a dead feed. The aux chain has no feed: when
  its tip moves while the parent's stands still, the watchdog takes a healthy feed down.\<close>

lemma aux_tip_marks_feed_stale:
  assumes "tips_of t = Inr (p, x)" "tips_of (gn_current g) = Inr (p, y)" "x \<noteq> y" "cb t = None"
    and "gn_use_zmq g" "gn_last_zmq g + zmqRecoverGrace < now" "now \<noteq> 0"
  shows "need_recover (fst (new_work cb from_poll now t g))"
  using assms by (cases rule: new_work_cases[OF assms(2), of t cb from_poll now]) (auto simp: need_recover_def)

text \<open>An answer without a result (an error of the node) has the empty tip: it is published as new work and announced as a block.\<close>

lemma missing_result_is_new_work:
  assumes "tips_of (gn_current g) = Inr (p, x)" "p \<noteq> []" "cb (JObj [(''error'', e)]) = None"
  shows "gn_out (fst (new_work cb from_poll now (JObj [(''error'', e)]) g)) = gn_out g @ [Gn_Template (JObj [(''error'', e)]), Gn_Block_Notify]"
proof -
  have "tips_of (JObj [(''error'', e)]) = Inr ([], [])"
    by (simp add: tips_of_def prevhash_of_def aux_prevhash_of_def)
  then show ?thesis
    using assms by (cases rule: new_work_cases[OF assms(1), of "JObj [(''error'', e)]" cb from_poll now]) auto
qed

text \<open>A template on which the callback throws counts as the current one although no job came of it: the polls that
  follow find it unchanged.\<close>

lemma throwing_template_is_kept:
  assumes "tips_of t = Inr x" "tips_of (gn_current g) = Inr y" "x \<noteq> y" "cb t = Some e"
  shows "new_work cb True now' t (fst (new_work cb True now t g)) = (fst (new_work cb True now t g), None)"
proof -
  have 1: "gn_current (fst (new_work cb True now t g)) = t"
    using assms by (cases rule: new_work_cases[OF assms(2), of t cb True now]) auto
  have "tips_of (gn_current (fst (new_work cb True now t g))) = Inr x"
    using 1 assms(1) by simp
  then show ?thesis
    by (cases rule: new_work_cases[of _ x t cb True now']) (use assms(1) in auto)
qed

end
