(* ===== verification/Node_Client.thy ===== *)
theory Node_Client
  imports Stratifier
begin

text \<open>
  The RPC client of the node (\<open>BitcoinClient\<close>, \<open>src/bitcoin_client.cpp\<close>, over one \<open>BeastClient\<close> of \<open>src/beast_client.cpp\<close> per
  HTTP request): the requests, failover over the configured nodes, the retry of block submissions, the redundant
  submissions and the watchdog that returns to the primary. Many calls are in flight at once; each is one entry of
  a table. Sending a request is an output, what comes of it an event: the parsed answer, or \<open>None\<close> for a transport error
  or text that is no JSON. \<open>cb i r\<close> says whether the caller's callback of call \<open>i\<close> throws on \<open>r\<close>; a callback that throws
  on an answer is called again with an error (\<open>on_read\<close>), an exception of that second call ends the thread (\<open>nc_fault\<close>).
\<close>

section \<open>State\<close>

record nc_endpoint =
  ne_host :: string
  ne_port :: string
  ne_auth :: string

text \<open>\<open>nc_attempt\<close> is the attempt of a submission, \<open>None\<close> for any other call; \<open>nc_waiting\<close> is the retry timer.\<close>

record nc_call =
  nc_request :: json
  nc_idx :: nat
  nc_tried :: nat
  nc_attempt :: "nat option"
  nc_waiting :: bool

datatype nc_effect =
  Nc_Run nat nat json \<comment> \<open>the request of a call goes to a node\<close>
| Nc_Broadcast nc_endpoint json
| Nc_Probe_Run json
| Nc_Deliver nat "json option" \<comment> \<open>the caller's callback\<close>

record node_client =
  nc_chain :: chain_kind
  nc_endpoints :: "nc_endpoint list" \<comment> \<open>the primary, then the fallbacks\<close>
  nc_submit_endpoints :: "nc_endpoint list"
  nc_current :: nat
  nc_watchdog :: bool
  nc_probes :: nat
  nc_calls :: "nat \<Rightarrow> nc_call option"
  nc_next :: nat
  nc_fault :: bool
  nc_out :: "nc_effect list"

definition kSubmitMaxAttempts :: nat where "kSubmitMaxAttempts = 5"

text \<open>\<open>base64\<close> is the encoder of Boost.Beast.\<close>

definition encode_auth :: "(string \<Rightarrow> string) \<Rightarrow> string \<Rightarrow> string \<Rightarrow> string" where
  "encode_auth base64 user pass = (if user = [] \<and> pass = [] then [] else base64 (user @ '':'' @ pass))"

definition nc_new :: "(string \<Rightarrow> string) \<Rightarrow> string \<Rightarrow> string \<Rightarrow> string \<Rightarrow> string \<Rightarrow> chain_kind \<Rightarrow> node_client" where
  "nc_new base64 host port user pass kind =
     \<lparr>nc_chain = kind,
      nc_endpoints = [\<lparr>ne_host = host, ne_port = port, ne_auth = (if user \<noteq> [] \<and> pass \<noteq> [] then encode_auth base64 user pass else [])\<rparr>],
      nc_submit_endpoints = [], nc_current = 0, nc_watchdog = False, nc_probes = 0, nc_calls = (\<lambda>_. None), nc_next = 0,
      nc_fault = False, nc_out = []\<rparr>"

definition add_fallback_node :: "(string \<Rightarrow> string) \<Rightarrow> string \<Rightarrow> string \<Rightarrow> string \<Rightarrow> string \<Rightarrow> node_client \<Rightarrow> node_client" where
  "add_fallback_node base64 host port user pass g =
     g\<lparr>nc_endpoints := nc_endpoints g @ [\<lparr>ne_host = host, ne_port = port, ne_auth = encode_auth base64 user pass\<rparr>]\<rparr>"

definition add_submit_endpoint :: "(string \<Rightarrow> string) \<Rightarrow> string \<Rightarrow> string \<Rightarrow> string \<Rightarrow> string \<Rightarrow> node_client \<Rightarrow> node_client" where
  "add_submit_endpoint base64 host port user pass g =
     g\<lparr>nc_submit_endpoints := nc_submit_endpoints g @ [\<lparr>ne_host = host, ne_port = port, ne_auth = encode_auth base64 user pass\<rparr>]\<rparr>"

definition start_watchdog :: "node_client \<Rightarrow> node_client" where
  "start_watchdog g = (if length (nc_endpoints g) \<le> 1 then g else g\<lparr>nc_watchdog := True\<rparr>)"

definition nc_emit :: "nc_effect \<Rightarrow> node_client \<Rightarrow> node_client" where
  "nc_emit x g = g\<lparr>nc_out := nc_out g @ [x]\<rparr>"

section \<open>One call\<close>

definition rpc_run :: "nat \<Rightarrow> nc_call \<Rightarrow> node_client \<Rightarrow> node_client" where
  "rpc_run i c g = nc_emit (Nc_Run i (nc_idx c) (nc_request c)) (g\<lparr>nc_calls := (nc_calls g)(i \<mapsto> c)\<rparr>)"

definition async_rpc :: "nat \<Rightarrow> json \<Rightarrow> nat option \<Rightarrow> node_client \<Rightarrow> node_client" where
  "async_rpc i req attempt g =
     rpc_run i \<lparr>nc_request = req, nc_idx = (if length (nc_endpoints g) \<le> 1 then 0 else nc_current g), nc_tried = 0,
       nc_attempt = attempt, nc_waiting = False\<rparr> g"

definition nc_callback :: "(nat \<Rightarrow> json option \<Rightarrow> bool) \<Rightarrow> nat \<Rightarrow> json option \<Rightarrow> node_client \<Rightarrow> node_client \<times> bool" where
  "nc_callback cb i r g = (nc_emit (Nc_Deliver i r) (g\<lparr>nc_calls := (nc_calls g)(i := None)\<rparr>), cb i r)"

text \<open>What \<open>asyncRPC\<close> reports: to the caller, or to the retry of a submission.\<close>

definition rpc_answered :: "(nat \<Rightarrow> json option \<Rightarrow> bool) \<Rightarrow> nat \<Rightarrow> nc_call \<Rightarrow> json option \<Rightarrow> node_client \<Rightarrow> node_client \<times> bool" where
  "rpc_answered cb i c r g =
     (case nc_attempt c of
        None \<Rightarrow> nc_callback cb i r g
      | Some attempt_no \<Rightarrow>
          if r \<noteq> None then nc_callback cb i r g
          else if kSubmitMaxAttempts \<le> attempt_no then nc_callback cb i None g
          else (g\<lparr>nc_calls := (nc_calls g)(i \<mapsto> c\<lparr>nc_waiting := True\<rparr>)\<rparr>, False))"

text \<open>What a node said to a request: an answer is passed on, an error tries the next node.\<close>

definition rpc_result :: "(nat \<Rightarrow> json option \<Rightarrow> bool) \<Rightarrow> nat \<Rightarrow> nc_call \<Rightarrow> json option \<Rightarrow> node_client \<Rightarrow> node_client \<times> bool" where
  "rpc_result cb i c r g =
     (let n = length (nc_endpoints g)
      in if n \<le> 1 then rpc_answered cb i c r g
         else case r of
           Some j \<Rightarrow> rpc_answered cb i c r (g\<lparr>nc_current := nc_idx c\<rparr>)
         | None \<Rightarrow>
             if n \<le> nc_tried c + 1 then rpc_answered cb i c None g
             else (rpc_run i (c\<lparr>nc_idx := (nc_idx c + 1) mod n, nc_tried := nc_tried c + 1\<rparr>) g, False))"

text \<open>\<open>BeastClient\<close>: errors on the way are reported at once; the callback of an answer runs inside the \<open>try\<close> of the parser.\<close>

definition on_read :: "(nat \<Rightarrow> json option \<Rightarrow> bool) \<Rightarrow> nat \<Rightarrow> nc_call \<Rightarrow> json option \<Rightarrow> node_client \<Rightarrow> node_client" where
  "on_read cb i c r g =
     (let (h, threw) = rpc_result cb i c r g
      in if \<not> threw then h
         else if r = None then h\<lparr>nc_fault := True\<rparr>
         else let (h, threw) = rpc_result cb i c None h in if threw then h\<lparr>nc_fault := True\<rparr> else h)"

section \<open>Requests\<close>

definition rpc_request :: "string \<Rightarrow> json list \<Rightarrow> json" where
  "rpc_request method params = JObj [(''method'', JStr method), (''params'', JArr params), (''id'', JInt 1)]"

definition template_rules :: "chain_kind \<Rightarrow> json" where
  "template_rules kind =
     (if kind = BitcoinCash \<or> kind = ECash then JArr [JStr '''']
      else if kind = Dogecoin then JArr [JStr '''']
      else if kind = Litecoin then JArr [JStr ''segwit'', JStr ''mweb'']
      else JArr [JStr ''segwit''])"

definition template_request :: "chain_kind \<Rightarrow> json" where
  "template_request kind =
     (let asked = JObj [(''capabilities'', JArr [JStr ''coinbasetxn'', JStr ''workid'', JStr ''coinbase/append'']),
                        (''rules'', template_rules kind)]
      in if kind = DigiByte then rpc_request ''getblocktemplate'' [asked, JStr ''sha256d''] else rpc_request ''getblocktemplate'' [asked])"

definition validate_request :: "string \<Rightarrow> json" where
  "validate_request address = rpc_request ''validateaddress'' [JStr address]"

definition submit_block_request :: "string \<Rightarrow> json" where
  "submit_block_request block_data = rpc_request ''submitblock'' [JStr block_data]"

definition get_aux_block_request :: "string \<Rightarrow> json" where
  "get_aux_block_request payout_address = rpc_request ''createauxblock'' [JStr payout_address]"

definition submit_aux_block_request :: "string \<Rightarrow> string \<Rightarrow> json" where
  "submit_aux_block_request hash auxpow_hex = rpc_request ''submitauxblock'' [JStr hash, JStr auxpow_hex]"

definition precious_block_request :: "string \<Rightarrow> json" where
  "precious_block_request hash = rpc_request ''preciousblock'' [JStr hash]"

definition block_hash_request :: "int \<Rightarrow> json" where
  "block_hash_request height = rpc_request ''getblockhash'' [JInt height]"

definition block_request :: "string \<Rightarrow> json" where
  "block_request hash = rpc_request ''getblock'' [JStr hash]"

definition txn_request :: "string \<Rightarrow> json" where
  "txn_request hash = rpc_request ''getrawtransaction'' [JStr hash, JInt 1]"

definition submit_txn_request :: "string \<Rightarrow> json" where
  "submit_txn_request data = rpc_request ''submittransaction'' [JStr data]"

definition address_info_request :: "string \<Rightarrow> json" where
  "address_info_request address = rpc_request ''getaddressinfo'' [JStr address]"

definition list_unspent_request :: "int \<Rightarrow> int \<Rightarrow> string list \<Rightarrow> json" where
  "list_unspent_request min_conf max_conf addresses =
     rpc_request ''listunspent'' [JInt min_conf, JInt max_conf, JArr (map JStr addresses)]"

definition blockchain_info_request :: json where
  "blockchain_info_request = rpc_request ''getblockchaininfo'' []"

definition block_count_request :: json where
  "block_count_request = rpc_request ''getblockcount'' []"

definition best_block_hash_request :: json where
  "best_block_hash_request = rpc_request ''getbestblockhash'' []"

definition mining_info_request :: json where
  "mining_info_request = rpc_request ''getmininginfo'' []"

definition balance_request :: json where
  "balance_request = rpc_request ''getbalance'' []"

definition network_info_request :: json where
  "network_info_request = rpc_request ''getnetworkinfo'' []"

definition peer_info_request :: json where
  "peer_info_request = rpc_request ''getpeerinfo'' []"

definition connection_count_request :: json where
  "connection_count_request = rpc_request ''getconnectioncount'' []"

definition info_request :: json where
  "info_request = rpc_request ''getinfo'' []"

text \<open>\<open>None\<close>: the callback gets an error at once.\<close>

definition validate_txn_request :: "string \<Rightarrow> json option" where
  "validate_txn_request txn = (if txn = [] then None else Some (rpc_request ''decoderawtransaction'' [JStr txn]))"

text \<open>What \<open>asyncValidateAddress\<close> reports of an answer: valid, script, witness.\<close>

fun get_bool :: "json \<Rightarrow> bool res" where
  "get_bool (JBool b) = Inr b"
| "get_bool _ = Inl type_error"

definition validate_answer :: "string \<Rightarrow> json option \<Rightarrow> (bool \<times> bool \<times> bool) option" where
  "validate_answer address r =
     (case r of
        None \<Rightarrow> None
      | Some response \<Rightarrow>
          case jfield response ''result'' of
            None \<Rightarrow> None
          | Some result \<Rightarrow>
              case bindE (value_or get_bool result ''isvalid'' False) (\<lambda>valid.
                   bindE (value_or get_bool result ''isscript'' False) (\<lambda>script.
                   bindE (value_or get_bool result ''iswitness'' False) (\<lambda>witness. Inr (valid, script, witness)))) of
                Inl _ \<Rightarrow> None
              | Inr (valid, script, witness) \<Rightarrow>
                  Some (valid,
                    script \<or> (\<not> contains result ''isscript'' \<and> address \<noteq> [] \<and> (hd address = CHR ''3'' \<or> hd address = CHR ''2'')),
                    witness))"

section \<open>The client\<close>

definition broadcast_submit :: "json \<Rightarrow> node_client \<Rightarrow> node_client" where
  "broadcast_submit req g = fold (\<lambda>ep. nc_emit (Nc_Broadcast ep req)) (nc_submit_endpoints g) g"

definition nc_call_new :: "json \<Rightarrow> nat option \<Rightarrow> node_client \<Rightarrow> node_client" where
  "nc_call_new req attempt g = async_rpc (nc_next g) req attempt (g\<lparr>nc_next := nc_next g + 1\<rparr>)"

definition async_submit_with_retry :: "json \<Rightarrow> node_client \<Rightarrow> node_client" where
  "async_submit_with_retry req g = nc_call_new req (Some 1) g"

definition async_submit_block :: "string \<Rightarrow> node_client \<Rightarrow> node_client" where
  "async_submit_block block_data g =
     (let req = submit_block_request block_data in async_submit_with_retry req (broadcast_submit req g))"

definition on_retry_timer :: "nat \<Rightarrow> nc_call \<Rightarrow> node_client \<Rightarrow> node_client" where
  "on_retry_timer i c g = async_rpc i (nc_request c) (map_option Suc (nc_attempt c)) g"

definition on_node_watchdog :: "node_client \<Rightarrow> node_client" where
  "on_node_watchdog g =
     (if nc_current g \<noteq> 0 then nc_emit (Nc_Probe_Run block_count_request) (g\<lparr>nc_probes := nc_probes g + 1\<rparr>) else g)"

definition on_probe :: "json option \<Rightarrow> node_client \<Rightarrow> node_client" where
  "on_probe r g = (if r \<noteq> None then g\<lparr>nc_probes := nc_probes g - 1, nc_current := 0\<rparr> else g\<lparr>nc_probes := nc_probes g - 1\<rparr>)"

datatype nc_event =
  Nc_Request json
| Nc_Submit_Block string
| Nc_Submit_Aux string string
| Nc_Outcome nat "json option"
| Nc_Retry nat
| Nc_Watchdog
| Nc_Probe "json option"

fun nc_exec :: "(nat \<Rightarrow> json option \<Rightarrow> bool) \<Rightarrow> nc_event \<Rightarrow> node_client \<Rightarrow> node_client" where
  "nc_exec cb (Nc_Request req) g = nc_call_new req None g"
| "nc_exec cb (Nc_Submit_Block block_data) g = async_submit_block block_data g"
| "nc_exec cb (Nc_Submit_Aux hash auxpow_hex) g = async_submit_with_retry (submit_aux_block_request hash auxpow_hex) g"
| "nc_exec cb (Nc_Outcome i r) g = (case nc_calls g i of Some c \<Rightarrow> on_read cb i c r g | None \<Rightarrow> g)"
| "nc_exec cb (Nc_Retry i) g = (case nc_calls g i of Some c \<Rightarrow> on_retry_timer i c g | None \<Rightarrow> g)"
| "nc_exec cb Nc_Watchdog g = on_node_watchdog g"
| "nc_exec cb (Nc_Probe r) g = on_probe r g"

text \<open>What can happen next: a node answers a request that is out, a retry timer that runs fires, the watchdog or a probe of it.\<close>

fun nc_enabled :: "node_client \<Rightarrow> nc_event \<Rightarrow> bool" where
  "nc_enabled g (Nc_Outcome i r) \<longleftrightarrow> (case nc_calls g i of Some c \<Rightarrow> \<not> nc_waiting c | None \<Rightarrow> False)"
| "nc_enabled g (Nc_Retry i) \<longleftrightarrow> (case nc_calls g i of Some c \<Rightarrow> nc_waiting c | None \<Rightarrow> False)"
| "nc_enabled g Nc_Watchdog \<longleftrightarrow> nc_watchdog g"
| "nc_enabled g (Nc_Probe r) \<longleftrightarrow> 0 < nc_probes g"
| "nc_enabled g _ \<longleftrightarrow> True"

definition nc_start :: "node_client \<Rightarrow> bool" where
  "nc_start g \<longleftrightarrow> (\<exists>base64 host port user pass kind fallbacks extra.
     g = start_watchdog (fold (\<lambda>(h, p, u, w). add_submit_endpoint base64 h p u w) extra
           (fold (\<lambda>(h, p, u, w). add_fallback_node base64 h p u w) fallbacks (nc_new base64 host port user pass kind))))"

text \<open>A run, with the events so far.\<close>

definition nc_init :: "node_client \<times> nc_event list \<Rightarrow> bool" where
  "nc_init r \<longleftrightarrow> nc_start (fst r) \<and> snd r = []"

definition nc_step :: "(nat \<Rightarrow> json option \<Rightarrow> bool) \<Rightarrow> node_client \<times> nc_event list \<Rightarrow> nc_event \<Rightarrow> node_client \<times> nc_event list \<Rightarrow> bool" where
  "nc_step cb r v r' \<longleftrightarrow> nc_enabled (fst r) v \<and> \<not> nc_fault (fst r) \<and> r' = (nc_exec cb v (fst r), snd r @ [v])"

section \<open>Every call ends\<close>

fun addressed :: "nat \<Rightarrow> nc_event \<Rightarrow> bool" where
  "addressed i (Nc_Outcome k r) \<longleftrightarrow> k = i"
| "addressed i (Nc_Retry k) \<longleftrightarrow> k = i"
| "addressed i _ \<longleftrightarrow> False"

fun is_submission :: "nc_event \<Rightarrow> bool" where
  "is_submission (Nc_Submit_Block _) \<longleftrightarrow> True"
| "is_submission (Nc_Submit_Aux _ _) \<longleftrightarrow> True"
| "is_submission _ \<longleftrightarrow> False"

fun is_call :: "nc_event \<Rightarrow> bool" where
  "is_call (Nc_Request _) \<longleftrightarrow> True"
| "is_call v \<longleftrightarrow> is_submission v"

text \<open>The events of call \<open>i\<close>; the \<open>i\<close>-th call is a submission; the most events a call can have with \<open>n\<close> nodes.\<close>

definition used :: "nat \<Rightarrow> nc_event list \<Rightarrow> nat" where
  "used i vs = length (filter (addressed i) vs)"

definition submitted :: "nat \<Rightarrow> nc_event list \<Rightarrow> bool" where
  "submitted i vs \<longleftrightarrow> is_submission (filter is_call vs ! i)"

definition most :: "nat \<Rightarrow> bool \<Rightarrow> nat" where
  "most n sub = (if sub then 5 * n + 4 else n)"

definition remaining :: "nat \<Rightarrow> nc_call \<Rightarrow> nat" where
  "remaining n c = (case nc_attempt c of None \<Rightarrow> 0 | Some a \<Rightarrow> (5 - a) * (n + 1)) + (if nc_waiting c then 0 else n - nc_tried c)"

definition call_ok :: "nat \<Rightarrow> nc_call \<Rightarrow> bool" where
  "call_ok n c \<longleftrightarrow> nc_tried c < n \<and> nc_idx c < n \<and>
     (case nc_attempt c of None \<Rightarrow> \<not> nc_waiting c | Some a \<Rightarrow> 1 \<le> a \<and> a \<le> 5 \<and> (nc_waiting c \<longrightarrow> a < 5))"

lemma call_ok_remaining: "call_ok n c \<Longrightarrow> 0 < remaining n c"
  by (auto simp: call_ok_def remaining_def split: option.splits)

lemma rpc_result_progress:
  assumes "rpc_result cb i c r g = (h, t)" "call_ok n c" "\<not> nc_waiting c" "n = length (nc_endpoints g)"
  shows "nc_endpoints h = nc_endpoints g \<and> nc_next h = nc_next g \<and> nc_fault h = nc_fault g \<and> (\<forall>k. k \<noteq> i \<longrightarrow> nc_calls h k = nc_calls g k) \<and>
    (nc_current g < n \<longrightarrow> nc_current h < n) \<and>
    (case nc_calls h i of None \<Rightarrow> True
     | Some d \<Rightarrow> call_ok n d \<and> remaining n d < remaining n c \<and> (nc_attempt d = None \<longleftrightarrow> nc_attempt c = None))"
proof -
  have n: "0 < n"
    using assms(2) by (auto simp: call_ok_def)
  have a: "nc_endpoints f = nc_endpoints x \<and> nc_next f = nc_next x \<and> nc_fault f = nc_fault x \<and> (\<forall>k. k \<noteq> i \<longrightarrow> nc_calls f k = nc_calls x k) \<and>
    nc_current f = nc_current x \<and> (case nc_calls f i of None \<Rightarrow> True
     | Some d \<Rightarrow> call_ok n d \<and> remaining n d < remaining n c \<and> (nc_attempt d = None \<longleftrightarrow> nc_attempt c = None))"
    if "rpc_answered cb i c q x = (f, u)" for f x u q
  proof (cases "nc_attempt c")
    case None
    then show ?thesis
      using that by (auto simp: rpc_answered_def nc_callback_def nc_emit_def)
  next
    case (Some m)
    have "call_ok n (c\<lparr>nc_waiting := True\<rparr>) \<and> remaining n (c\<lparr>nc_waiting := True\<rparr>) < remaining n c" if "m < 5"
      using that assms(2,3) Some by (auto simp: call_ok_def remaining_def simp del: mult_Suc_right)
    then show ?thesis
      using that Some by (auto simp: rpc_answered_def nc_callback_def nc_emit_def kSubmitMaxAttempts_def split: if_splits)
  qed
  show ?thesis
  proof (cases "n \<le> 1")
    case True
    then show ?thesis
      using assms(1,4) a[of r g h t] by (simp add: rpc_result_def Let_def)
  next
    case False
    show ?thesis
    proof (cases r)
      case None
      have "nc_tried c + 1 < n \<Longrightarrow> call_ok n (c\<lparr>nc_idx := (nc_idx c + 1) mod n, nc_tried := nc_tried c + 1\<rparr>) \<and>
          remaining n (c\<lparr>nc_idx := (nc_idx c + 1) mod n, nc_tried := nc_tried c + 1\<rparr>) < remaining n c"
        using assms(2,3) n by (auto simp: call_ok_def remaining_def split: option.split)
      then show ?thesis
        using assms(1,4) False None a[of None g h t] by (auto simp: rpc_result_def rpc_run_def nc_emit_def Let_def split: if_splits)
    next
      case (Some j)
      have "nc_idx c < n"
        using assms(2) by (simp add: call_ok_def)
      then show ?thesis
        using assms(1,4) False Some a[of r "g\<lparr>nc_current := nc_idx c\<rparr>" h t] by (simp add: rpc_result_def Let_def)
    qed
  qed
qed

lemma on_read_progress:
  assumes "call_ok n c" "\<not> nc_waiting c" "n = length (nc_endpoints g)"
  shows "nc_endpoints (on_read cb i c r g) = nc_endpoints g \<and> nc_next (on_read cb i c r g) = nc_next g \<and>
    (\<forall>k. k \<noteq> i \<longrightarrow> nc_calls (on_read cb i c r g) k = nc_calls g k) \<and>
    (nc_current g < n \<longrightarrow> nc_current (on_read cb i c r g) < n) \<and>
    (case nc_calls (on_read cb i c r g) i of None \<Rightarrow> True
     | Some d \<Rightarrow> call_ok n d \<and> remaining n d < remaining n c \<and> (nc_attempt d = None \<longleftrightarrow> nc_attempt c = None))"
proof -
  obtain h t where h: "rpc_result cb i c r g = (h, t)"
    by fastforce
  note p = rpc_result_progress[OF h assms]
  obtain h' t' where h': "rpc_result cb i c None h = (h', t')"
    by fastforce
  note p' = rpc_result_progress[OF h' assms(1,2)]
  show ?thesis
    using p p' assms(3) by (simp add: on_read_def h h' split: if_split)
qed

section \<open>Runs\<close>

text \<open>Call \<open>i\<close> of \<open>nx\<close> calls made, with its entry in the table.\<close>

definition call_kept :: "nat \<Rightarrow> nat \<Rightarrow> nc_call option \<Rightarrow> nat \<Rightarrow> nc_event list \<Rightarrow> bool" where
  "call_kept n nx oc i vs \<longleftrightarrow>
     (if nx \<le> i then oc = None \<and> used i vs = 0
      else used i vs \<le> most n (submitted i vs) \<and>
        (case oc of None \<Rightarrow> True
         | Some c \<Rightarrow> call_ok n c \<and> (nc_attempt c = None \<longleftrightarrow> \<not> submitted i vs) \<and> used i vs + remaining n c \<le> most n (submitted i vs)))"

definition calls_ok :: "node_client \<times> nc_event list \<Rightarrow> bool" where
  "calls_ok r \<longleftrightarrow> (case r of (g, vs) \<Rightarrow> nc_current g < length (nc_endpoints g) \<and> nc_next g = length (filter is_call vs) \<and>
     (\<forall>i. call_kept (length (nc_endpoints g)) (nc_next g) (nc_calls g i) i vs))"

lemma used_snoc [simp]: "used i (vs @ [v]) = used i vs + (if addressed i v then 1 else 0)" "used i [] = 0"
  by (simp_all add: used_def)

lemma submitted_snoc: "i < length (filter is_call vs) \<Longrightarrow> submitted i (vs @ [v]) = submitted i vs"
    "is_call v \<Longrightarrow> submitted (length (filter is_call vs)) (vs @ [v]) = is_submission v"
  by (simp_all add: submitted_def nth_append)

lemma call_not_addressed: "is_call v \<Longrightarrow> \<not> addressed i v"
  by (cases v) simp_all

lemma kept_other:
  assumes "call_kept n (length (filter is_call vs)) oc i vs" "\<not> addressed i v" "is_call v \<Longrightarrow> i \<noteq> length (filter is_call vs)"
  shows "call_kept n (length (filter is_call (vs @ [v]))) oc i (vs @ [v])"
  using assms by (auto simp: call_kept_def submitted_snoc split: option.split if_splits)

lemma kept_new:
  assumes "call_kept n (length (filter is_call vs)) oc i vs" "is_call v" "i = length (filter is_call vs)" "0 < n" "k < n"
  shows "call_kept n (length (filter is_call (vs @ [v])))
    (Some \<lparr>nc_request = req, nc_idx = k, nc_tried = 0, nc_attempt = (if is_submission v then Some 1 else None), nc_waiting = False\<rparr>) i (vs @ [v])"
  using assms by (auto simp: call_kept_def submitted_snoc call_not_addressed most_def call_ok_def remaining_def)

lemma kept_progress:
  assumes "call_kept n (length (filter is_call vs)) (Some c) i vs" "addressed i v"
    and "case oc of None \<Rightarrow> True | Some d \<Rightarrow> call_ok n d \<and> remaining n d < remaining n c \<and> (nc_attempt d = None \<longleftrightarrow> nc_attempt c = None)"
  shows "call_kept n (length (filter is_call (vs @ [v]))) oc i (vs @ [v])"
proof -
  have v: "\<not> is_call v"
    using assms(2) by (cases v) simp_all
  have i: "i < length (filter is_call vs)"
    using assms(1) by (auto simp: call_kept_def split: if_splits)
  have "used i vs < most n (submitted i vs)"
    using assms(1) i call_ok_remaining[of n c] by (auto simp: call_kept_def)
  then show ?thesis
    using assms i v by (auto simp: call_kept_def submitted_snoc split: option.split)
qed

lemma nc_call_new_fields:
  "nc_endpoints (nc_call_new req a g) = nc_endpoints g" "nc_current (nc_call_new req a g) = nc_current g"
  "nc_next (nc_call_new req a g) = Suc (nc_next g)"
  "nc_calls (nc_call_new req a g) = (nc_calls g)(nc_next g \<mapsto> \<lparr>nc_request = req,
     nc_idx = (if length (nc_endpoints g) \<le> 1 then 0 else nc_current g), nc_tried = 0, nc_attempt = a, nc_waiting = False\<rparr>)"
  "nc_out (nc_call_new req a g) = nc_out g @ [Nc_Run (nc_next g) (if length (nc_endpoints g) \<le> 1 then 0 else nc_current g) req]"
  by (simp_all add: nc_call_new_def async_rpc_def rpc_run_def nc_emit_def)

lemma calls_ok_new:
  assumes "calls_ok (g, vs)" "is_call v" "nc_endpoints g' = nc_endpoints g" "nc_current g' = nc_current g" "nc_next g' = nc_next g"
    "nc_calls g' = nc_calls g"
  shows "calls_ok (nc_call_new req (if is_submission v then Some 1 else None) g', vs @ [v])"
proof -
  let ?n = "length (nc_endpoints g)"
  have ok: "nc_current g < ?n" "nc_next g = length (filter is_call vs)" "call_kept ?n (length (filter is_call vs)) (nc_calls g i) i vs" for i
    using assms(1) by (auto simp: calls_ok_def)
  have "call_kept ?n (length (filter is_call (vs @ [v])))
      (nc_calls (nc_call_new req (if is_submission v then Some 1 else None) g') i) i (vs @ [v])" for i
  proof (cases "i = length (filter is_call vs)")
    case True
    have "0 < ?n" "(if ?n \<le> 1 then 0 else nc_current g) < ?n"
      using ok(1) by auto
    from kept_new[OF ok(3) assms(2) True this, of req] show ?thesis
      unfolding nc_call_new_fields assms(3-6) ok(2) True fun_upd_same .
  next
    case False
    show ?thesis
      unfolding nc_call_new_fields assms(3-6) ok(2) fun_upd_other[OF False]
      by (rule kept_other[OF ok(3) call_not_addressed[OF assms(2)] False])
  qed
  then show ?thesis
    using ok(1,2) assms(2) unfolding calls_ok_def by (simp add: nc_call_new_fields(1-3) assms(3-5))
qed

lemma calls_ok_step:
  assumes "calls_ok (g, vs)" "\<not> is_call v" "nc_endpoints h = nc_endpoints g" "nc_next h = nc_next g"
    "nc_current h < length (nc_endpoints g)"
    "\<And>i. \<not> addressed i v \<Longrightarrow> nc_calls h i = nc_calls g i"
    "\<And>i. addressed i v \<Longrightarrow> \<exists>c. nc_calls g i = Some c \<and> (case nc_calls h i of None \<Rightarrow> True
       | Some d \<Rightarrow> call_ok (length (nc_endpoints g)) d \<and> remaining (length (nc_endpoints g)) d < remaining (length (nc_endpoints g)) c \<and>
          (nc_attempt d = None \<longleftrightarrow> nc_attempt c = None))"
  shows "calls_ok (h, vs @ [v])"
proof -
  have k: "call_kept (length (nc_endpoints g)) (length (filter is_call vs)) (nc_calls g i) i vs" for i
    using assms(1) by (auto simp: calls_ok_def)
  have "call_kept (length (nc_endpoints g)) (length (filter is_call (vs @ [v]))) (nc_calls h i) i (vs @ [v])" for i
  proof (cases "addressed i v")
    case True
    obtain c where c: "nc_calls g i = Some c" "case nc_calls h i of None \<Rightarrow> True
       | Some d \<Rightarrow> call_ok (length (nc_endpoints g)) d \<and> remaining (length (nc_endpoints g)) d < remaining (length (nc_endpoints g)) c \<and>
          (nc_attempt d = None \<longleftrightarrow> nc_attempt c = None)"
      using assms(7)[OF True] by blast
    show ?thesis
      by (rule kept_progress[OF k[of i, unfolded c(1)] True c(2)])
  next
    case False
    then show ?thesis
      using kept_other[OF k[of i] False] assms(2,6) by simp
  qed
  then show ?thesis
    using assms(1-5) unfolding calls_ok_def by simp
qed

lemma broadcast_out: "broadcast_submit req g = g\<lparr>nc_out := nc_out g @ map (\<lambda>ep. Nc_Broadcast ep req) (nc_submit_endpoints g)\<rparr>"
proof -
  have "fold (\<lambda>ep. nc_emit (Nc_Broadcast ep req)) eps g = g\<lparr>nc_out := nc_out g @ map (\<lambda>ep. Nc_Broadcast ep req) eps\<rparr>" for eps
    by (induction eps arbitrary: g) (simp_all add: nc_emit_def)
  then show ?thesis
    by (simp add: broadcast_submit_def)
qed

lemma calls_ok_exec:
  assumes "calls_ok (g, vs)" "nc_enabled g v"
  shows "calls_ok (nc_exec cb v g, vs @ [v])"
proof (cases v)
  case (Nc_Request req)
  then show ?thesis
    using calls_ok_new[OF assms(1), of v g req] by simp
next
  case (Nc_Submit_Block block_data)
  then show ?thesis
    using calls_ok_new[OF assms(1), of v "broadcast_submit (submit_block_request block_data) g" "submit_block_request block_data"]
    by (simp add: async_submit_block_def async_submit_with_retry_def broadcast_out Let_def)
next
  case (Nc_Submit_Aux hash auxpow_hex)
  then show ?thesis
    using calls_ok_new[OF assms(1), of v g "submit_aux_block_request hash auxpow_hex"] by (simp add: async_submit_with_retry_def)
next
  case (Nc_Outcome i r)
  then obtain c where c: "nc_calls g i = Some c" "\<not> nc_waiting c"
    using assms(2) by (auto split: option.splits)
  have ok: "call_ok (length (nc_endpoints g)) c" "nc_current g < length (nc_endpoints g)"
    using assms(1) c(1) unfolding calls_ok_def call_kept_def by (auto split: if_splits dest!: spec[of _ i])
  note p = on_read_progress[OF ok(1) c(2) refl, of cb i r]
  show ?thesis
    by (rule calls_ok_step[OF assms(1)]) (use p ok(2) c(1) Nc_Outcome in auto)
next
  case (Nc_Retry i)
  then obtain c where c: "nc_calls g i = Some c" "nc_waiting c"
    using assms(2) by (auto split: option.splits)
  have ok: "call_ok (length (nc_endpoints g)) c" "nc_current g < length (nc_endpoints g)"
    using assms(1) c(1) unfolding calls_ok_def call_kept_def by (auto split: if_splits dest!: spec[of _ i])
  obtain a where a: "nc_attempt c = Some a" "a < 5"
    using ok(1) c(2) by (auto simp: call_ok_def split: option.splits)
  have d: "5 - a = Suc (5 - Suc a)"
    using a(2) by simp
  show ?thesis
    by (rule calls_ok_step[OF assms(1)])
      (use ok c a(2) Nc_Retry in \<open>auto simp: on_retry_timer_def async_rpc_def rpc_run_def nc_emit_def call_ok_def remaining_def a(1) d\<close>)
next
  case Nc_Watchdog
  show ?thesis
    by (rule calls_ok_step[OF assms(1)]) (use assms(1) Nc_Watchdog in \<open>auto simp: on_node_watchdog_def nc_emit_def calls_ok_def\<close>)
next
  case (Nc_Probe r)
  show ?thesis
    by (rule calls_ok_step[OF assms(1)]) (use assms(1) Nc_Probe in \<open>auto simp: on_probe_def calls_ok_def\<close>)
qed

lemma nc_start_fields:
  assumes "nc_start g"
  shows "nc_endpoints g \<noteq> [] \<and> nc_current g = 0 \<and> nc_calls g = (\<lambda>_. None) \<and> nc_next g = 0 \<and> nc_out g = [] \<and> nc_fault g = False"
proof -
  define P where "P g \<longleftrightarrow> nc_endpoints g \<noteq> [] \<and> nc_current g = 0 \<and> nc_calls g = (\<lambda>_. None) \<and> nc_next g = 0 \<and> nc_out g = [] \<and>
    nc_fault g = False" for g :: node_client
  obtain base64 host port user pass kind fallbacks extra where g: "g = start_watchdog (fold (\<lambda>(h, p, u, w). add_submit_endpoint base64 h p u w) extra
           (fold (\<lambda>(h, p, u, w). add_fallback_node base64 h p u w) fallbacks (nc_new base64 host port user pass kind)))"
    using assms unfolding nc_start_def by blast
  have "P (nc_new base64 host port user pass kind)"
    by (simp add: P_def nc_new_def)
  then have "P (fold (\<lambda>(h, p, u, w). add_fallback_node base64 h p u w) fallbacks (nc_new base64 host port user pass kind))"
    by (rule fold_inv) (auto simp: P_def add_fallback_node_def)
  then have "P (fold (\<lambda>(h, p, u, w). add_submit_endpoint base64 h p u w) extra
      (fold (\<lambda>(h, p, u, w). add_fallback_node base64 h p u w) fallbacks (nc_new base64 host port user pass kind)))"
    by (rule fold_inv) (auto simp: P_def add_submit_endpoint_def)
  then have "P g"
    unfolding g by (simp add: start_watchdog_def P_def)
  then show ?thesis
    by (simp add: P_def)
qed

interpretation calls: event_system nc_init "nc_step cb" calls_ok for cb
proof unfold_locales
  show "calls_ok r" if "nc_init r" for r
    using that nc_start_fields by (cases r) (auto simp: nc_init_def calls_ok_def call_kept_def)
  show "calls_ok r'" if "calls_ok r" "nc_step cb r v r'" for r v r'
    using that calls_ok_exec by (cases r) (auto simp: nc_step_def)
qed

text \<open>C21: Every call to the node ends. Whatever the nodes answer or fail to, whatever other calls run beside it, and even if the caller's
  callback throws: with \<open>n\<close> nodes a plain call is over after at most \<open>n\<close> outcomes and a submission, with its retries, after at
  most \<open>5 * n + 4\<close> events; and until it is over, one more event of it can always happen.\<close>

theorem node_calls_end:
  assumes "reachable nc_init (nc_step cb) (g, vs)" and "i < nc_next g"
  shows "used i vs \<le> (if submitted i vs then 5 * length (nc_endpoints g) + 4 else length (nc_endpoints g)) \<and>
    (nc_calls g i \<noteq> None \<longrightarrow>
       used i vs < (if submitted i vs then 5 * length (nc_endpoints g) + 4 else length (nc_endpoints g)) \<and>
       (\<exists>v. addressed i v \<and> nc_enabled g v))"
proof -
  have k: "call_kept (length (nc_endpoints g)) (nc_next g) (nc_calls g i) i vs"
    using calls.reachable_inv[OF assms(1)] unfolding calls_ok_def by auto
  have "\<exists>v. addressed i v \<and> nc_enabled g v" if "nc_calls g i = Some c" for c
    using that by (cases "nc_waiting c") (auto intro: exI[of _ "Nc_Retry i"] exI[of _ "Nc_Outcome i None"])
  then show ?thesis
    using k assms(2) call_ok_remaining unfolding call_kept_def most_def by (cases "nc_calls g i") fastforce+
qed

section \<open>Every call is answered once\<close>

definition outcomes :: "nat \<Rightarrow> nc_event list \<Rightarrow> json option list" where
  "outcomes i vs = concat (map (\<lambda>v. case v of Nc_Outcome k r \<Rightarrow> if k = i then [r] else [] | _ \<Rightarrow> []) vs)"

definition deliveries :: "nat \<Rightarrow> nc_effect list \<Rightarrow> json option list" where
  "deliveries i out = concat (map (\<lambda>x. case x of Nc_Deliver k r \<Rightarrow> if k = i then [r] else [] | _ \<Rightarrow> []) out)"

text \<open>What call \<open>i\<close> sent to node \<open>k\<close>, and the request it was made with.\<close>

definition sent_to :: "nat \<Rightarrow> nat \<Rightarrow> nc_effect list \<Rightarrow> json list" where
  "sent_to i k out = concat (map (\<lambda>x. case x of Nc_Run i' k' req \<Rightarrow> if i' = i \<and> k' = k then [req] else [] | _ \<Rightarrow> []) out)"

fun asks :: "nc_event \<Rightarrow> json" where
  "asks (Nc_Request req) = req"
| "asks (Nc_Submit_Block block_data) = submit_block_request block_data"
| "asks (Nc_Submit_Aux hash auxpow_hex) = submit_aux_block_request hash auxpow_hex"
| "asks _ = JNull"

definition asked :: "nat \<Rightarrow> nc_event list \<Rightarrow> json" where
  "asked i vs = asks (filter is_call vs ! i)"

fun about :: "nat \<Rightarrow> nc_effect \<Rightarrow> bool" where
  "about i (Nc_Run k _ _) \<longleftrightarrow> k = i"
| "about i (Nc_Deliver k _) \<longleftrightarrow> k = i"
| "about i _ \<longleftrightarrow> False"

definition rounds :: "nc_call \<Rightarrow> nat" where
  "rounds c = (case nc_attempt c of None \<Rightarrow> 1 | Some a \<Rightarrow> a)"

text \<open>Node \<open>k\<close> was asked in every round so far, and in this one when it is among those tried.\<close>

definition tries :: "nat \<Rightarrow> nc_call \<Rightarrow> nat \<Rightarrow> nc_effect list \<Rightarrow> bool" where
  "tries n c i out \<longleftrightarrow> (\<exists>s < n. nc_idx c = (s + nc_tried c) mod n \<and>
     (\<forall>k < n. sent_to i k out = replicate (rounds c - 1 + (if nc_waiting c \<or> (\<exists>d \<le> nc_tried c. k = (s + d) mod n) then 1 else 0)) (nc_request c)))"

definition call_log :: "nat \<Rightarrow> nat \<Rightarrow> nc_call option \<Rightarrow> nat \<Rightarrow> nc_effect list \<Rightarrow> nc_event list \<Rightarrow> bool" where
  "call_log n nx oc i out vs \<longleftrightarrow>
     (if nx \<le> i then outcomes i vs = [] \<and> deliveries i out = [] \<and> (\<forall>k. sent_to i k out = [])
      else case oc of
        Some c \<Rightarrow> deliveries i out = [] \<and> set (outcomes i vs) \<subseteq> {None} \<and> tries n c i out \<and> nc_request c = asked i vs
      | None \<Rightarrow> \<exists>r. deliveries i out = [r] \<and>
          (case r of
             Some j \<Rightarrow> \<exists>m. outcomes i vs = replicate m None @ [Some j]
           | None \<Rightarrow> set (outcomes i vs) \<subseteq> {None} \<and> (\<forall>k < n. sent_to i k out = replicate (if submitted i vs then 5 else 1) (asked i vs))))"

lemma outcomes_snoc [simp]: "outcomes i (vs @ [v]) = outcomes i vs @ (case v of Nc_Outcome k r \<Rightarrow> if k = i then [r] else [] | _ \<Rightarrow> [])"
    "outcomes i [] = []"
  by (simp_all add: outcomes_def)

lemma deliveries_append [simp]: "deliveries i [] = []" "deliveries i (xs @ ys) = deliveries i xs @ deliveries i ys"
    "deliveries i (Nc_Deliver k r # xs) = (if k = i then [r] else []) @ deliveries i xs" "deliveries i (Nc_Run k m q # xs) = deliveries i xs"
  by (simp_all add: deliveries_def)

lemma sent_to_append [simp]: "sent_to i k [] = []" "sent_to i k (xs @ ys) = sent_to i k xs @ sent_to i k ys"
    "sent_to i k (Nc_Run i' k' q # xs) = (if i' = i \<and> k' = k then [q] else []) @ sent_to i k xs"
    "sent_to i k (Nc_Deliver i' r # xs) = sent_to i k xs"
  by (simp_all add: sent_to_def)

lemma not_about: "\<forall>x \<in> set xs. \<not> about i x \<Longrightarrow> deliveries i xs = [] \<and> sent_to i k xs = []"
proof (induction xs)
  case (Cons x xs)
  then show ?case
    by (cases x) (auto simp: deliveries_def sent_to_def)
qed simp

lemma asked_snoc: "i < length (filter is_call vs) \<Longrightarrow> asked i (vs @ [v]) = asked i vs"
    "is_call v \<Longrightarrow> asked (length (filter is_call vs)) (vs @ [v]) = asks v"
  by (simp_all add: asked_def nth_append)

lemma outcomes_other: "\<not> addressed i v \<Longrightarrow> outcomes i (vs @ [v]) = outcomes i vs"
  by (cases v) simp_all

lemma log_other:
  assumes "call_log n (length (filter is_call vs)) oc i out vs" "\<not> addressed i v" "is_call v \<Longrightarrow> i \<noteq> length (filter is_call vs)"
    "\<forall>x \<in> set xs. \<not> about i x"
  shows "call_log n (length (filter is_call (vs @ [v]))) oc i (out @ xs) (vs @ [v])"
proof -
  have e: "deliveries i (out @ xs) = deliveries i out" "sent_to i k (out @ xs) = sent_to i k out" for k
    using not_about[OF assms(4)] by simp_all
  note o = outcomes_other[OF assms(2)]
  have l: "length (filter is_call (vs @ [v])) \<le> i \<longleftrightarrow> length (filter is_call vs) \<le> i"
    using assms(3) by auto
  show ?thesis
  proof (cases "length (filter is_call vs) \<le> i")
    case True
    then show ?thesis
      using assms(1) unfolding call_log_def l e o by simp
  next
    case False
    then have "submitted i (vs @ [v]) = submitted i vs" "asked i (vs @ [v]) = asked i vs"
      by (simp_all add: submitted_snoc asked_snoc)
    then show ?thesis
      using False assms(1) by (simp only: call_log_def tries_def l e o if_False)
  qed
qed

lemma log_new:
  assumes "call_log n (length (filter is_call vs)) oc i out vs" "is_call v" "i = length (filter is_call vs)" "m < n"
    "\<forall>x \<in> set xs. \<not> about i x" "req = asks v"
  shows "call_log n (length (filter is_call (vs @ [v])))
    (Some \<lparr>nc_request = req, nc_idx = m, nc_tried = 0, nc_attempt = (if is_submission v then Some 1 else None), nc_waiting = False\<rparr>) i
    (out @ xs @ [Nc_Run i m req]) (vs @ [v])"
proof -
  have l: "outcomes i vs = []" "deliveries i out = []" "sent_to i k out = []" for k
    using assms(1,3) by (simp_all add: call_log_def)
  have v: "outcomes i (vs @ [v]) = []" "asked i (vs @ [v]) = req"
    using outcomes_other[OF call_not_addressed[OF assms(2)], of i vs] l assms(2,3,6) by (simp_all add: asked_snoc)
  have t: "tries n \<lparr>nc_request = req, nc_idx = m, nc_tried = 0, nc_attempt = (if is_submission v then Some 1 else None), nc_waiting = False\<rparr> i
      (out @ xs @ [Nc_Run i m req])"
    using not_about[OF assms(5)] l assms(4) by (auto simp: tries_def rounds_def intro!: exI[of _ m])
  show ?thesis
    using t v l not_about[OF assms(5)] assms(2,3) by (simp add: call_log_def del: outcomes_snoc)
qed

lemma window_all:
  fixes s n k :: nat
  assumes "s < n" "k < n"
  shows "\<exists>d \<le> n - 1. k = (s + d) mod n"
proof (cases "s \<le> k")
  case True
  then show ?thesis
    using assms by (intro exI[of _ "k - s"]) auto
next
  case False
  then show ?thesis
    using assms by (intro exI[of _ "k + n - s"]) auto
qed

lemma window_new:
  fixes s n t d :: nat
  assumes "s < n" "t + 1 < n" "d \<le> t"
  shows "(s + d) mod n \<noteq> (s + (t + 1)) mod n"
  using assms by (auto simp: mod_if)

text \<open>What an outcome does to a call whose callback does not throw.\<close>

lemma on_read_cases:
  assumes "call_ok n c" "\<not> nc_waiting c" "n = length (nc_endpoints g)" "\<And>r. \<not> cb i r"
  obtains (answered) j where "r = Some j" "nc_calls (on_read cb i c r g) i = None" "nc_out (on_read cb i c r g) = nc_out g @ [Nc_Deliver i (Some j)]"
  | (failover) "r = None" "nc_tried c + 1 < n"
      "nc_calls (on_read cb i c r g) i = Some (c\<lparr>nc_idx := (nc_idx c + 1) mod n, nc_tried := nc_tried c + 1\<rparr>)"
      "nc_out (on_read cb i c r g) = nc_out g @ [Nc_Run i ((nc_idx c + 1) mod n) (nc_request c)]"
  | (given_up) "r = None" "nc_tried c + 1 = n" "rounds c = (if nc_attempt c = None then 1 else 5)" "nc_calls (on_read cb i c r g) i = None"
      "nc_out (on_read cb i c r g) = nc_out g @ [Nc_Deliver i None]"
  | (retry) "r = None" "nc_tried c + 1 = n" "nc_calls (on_read cb i c r g) i = Some (c\<lparr>nc_waiting := True\<rparr>)"
      "nc_out (on_read cb i c r g) = nc_out g"
proof (cases r)
  case (Some j)
  then show ?thesis
    using assms by (intro answered[of j])
      (auto simp: on_read_def rpc_result_def rpc_answered_def nc_callback_def nc_emit_def Let_def split: option.split)
next
  case None
  have t: "nc_tried c < n"
    using assms(1) by (simp add: call_ok_def)
  show ?thesis
  proof (cases "nc_tried c + 1 < n")
    case True
    then show ?thesis
      using None assms by (intro failover) (auto simp: on_read_def rpc_result_def rpc_run_def nc_emit_def Let_def)
  next
    case False
    then have f: "rpc_result cb i c None g = rpc_answered cb i c None g" "nc_tried c + 1 = n"
      using assms(3) t by (auto simp: rpc_result_def Let_def)
    show ?thesis
    proof (cases "\<exists>a < 5. nc_attempt c = Some a")
      case True
      then show ?thesis
        using None f assms by (intro retry) (auto simp: on_read_def rpc_answered_def kSubmitMaxAttempts_def)
    next
      case False
      have a: "nc_attempt c = None \<or> nc_attempt c = Some 5"
        using False assms(1) by (cases "nc_attempt c") (auto simp: call_ok_def le_less)
      then show ?thesis
        using None f assms by (intro given_up)
          (auto simp: on_read_def rpc_answered_def nc_callback_def nc_emit_def rounds_def kSubmitMaxAttempts_def)
    qed
  qed
qed

lemma tries_all:
  assumes "tries n c i out" "nc_tried c + 1 = n" "\<not> nc_waiting c" "1 \<le> rounds c" "k < n"
  shows "sent_to i k out = replicate (rounds c) (nc_request c)"
proof -
  obtain s where s: "s < n" "sent_to i k out = replicate (rounds c - 1 + (if nc_waiting c \<or> (\<exists>d \<le> nc_tried c. k = (s + d) mod n) then 1 else 0)) (nc_request c)"
    using assms(1,5) unfolding tries_def by blast
  have "nc_tried c = n - 1"
    using assms(2) by simp
  then show ?thesis
    using s(2) window_all[OF s(1) assms(5)] assms(4) by simp
qed

lemma tries_next:
  assumes "tries n c i out" "nc_tried c + 1 < n" "\<not> nc_waiting c"
  shows "tries n (c\<lparr>nc_idx := (nc_idx c + 1) mod n, nc_tried := nc_tried c + 1\<rparr>) i (out @ [Nc_Run i ((nc_idx c + 1) mod n) (nc_request c)])"
proof -
  let ?t = "nc_tried c"
  obtain s where s: "s < n" "nc_idx c = (s + ?t) mod n"
      "\<And>k. k < n \<Longrightarrow> sent_to i k out = replicate (rounds c - 1 + (if \<exists>d \<le> ?t. k = (s + d) mod n then 1 else 0)) (nc_request c)"
    using assms(1,3) unfolding tries_def by auto
  have idx: "(nc_idx c + 1) mod n = (s + (?t + 1)) mod n"
    using s(2) by (simp add: mod_Suc_eq)
  have new: "\<not> (\<exists>d \<le> ?t. (s + (?t + 1)) mod n = (s + d) mod n)"
    using window_new[OF s(1) assms(2)] by metis
  have old: "(\<exists>d \<le> ?t + 1. k = (s + d) mod n) \<longleftrightarrow> (\<exists>d \<le> ?t. k = (s + d) mod n) \<or> k = (s + (?t + 1)) mod n" for k
    by (metis Suc_eq_plus1 le_Suc_eq)
  have r: "rounds (c\<lparr>nc_idx := x, nc_tried := y\<rparr>) = rounds c" for x y
    by (simp add: rounds_def)
  have "sent_to i k (out @ [Nc_Run i ((nc_idx c + 1) mod n) (nc_request c)]) =
      replicate (rounds c - 1 + (if \<exists>d \<le> ?t + 1. k = (s + d) mod n then 1 else 0)) (nc_request c)" if "k < n" for k
    using s(3)[OF that] new unfolding old idx by (cases "k = (s + (?t + 1)) mod n") (auto simp: replicate_append_same)
  then show ?thesis
    using s(1) idx assms(3) by (auto simp: tries_def r)
qed

lemma tries_again:
  assumes "tries n c i out" "nc_waiting c" "nc_attempt c = Some a" "1 \<le> a" "m < n"
  shows "tries n \<lparr>nc_request = nc_request c, nc_idx = m, nc_tried = 0, nc_attempt = Some (Suc a), nc_waiting = False\<rparr> i
    (out @ [Nc_Run i m (nc_request c)])"
proof -
  have "sent_to i k out = replicate a (nc_request c)" if "k < n" for k
    using assms(1-4) that by (auto simp: tries_def rounds_def)
  then show ?thesis
    using assms(5) by (auto simp: tries_def rounds_def replicate_append_same intro!: exI[of _ m])
qed

lemma outcome_effects: "\<exists>xs. nc_out (on_read cb i c r g) = nc_out g @ xs \<and> (\<forall>k. k \<noteq> i \<longrightarrow> (\<forall>x \<in> set xs. \<not> about k x))"
proof -
  have e: "\<exists>xs. nc_out h = nc_out g @ xs \<and> (\<forall>k. k \<noteq> i \<longrightarrow> (\<forall>x \<in> set xs. \<not> about k x))"
    if "rpc_result cb i c r g = (h, t)" for h t r g
    using that by (auto simp: rpc_result_def rpc_answered_def rpc_run_def nc_callback_def nc_emit_def Let_def split: if_splits option.splits)
  obtain h t where h: "rpc_result cb i c r g = (h, t)"
    by fastforce
  obtain h' t' where h': "rpc_result cb i c None h = (h', t')"
    by fastforce
  obtain xs ys where "nc_out h = nc_out g @ xs" "\<forall>k. k \<noteq> i \<longrightarrow> (\<forall>x \<in> set xs. \<not> about k x)"
      "nc_out h' = nc_out h @ ys" "\<forall>k. k \<noteq> i \<longrightarrow> (\<forall>x \<in> set ys. \<not> about k x)"
    using e[OF h] e[OF h'] by blast
  then show ?thesis
    by (auto simp: on_read_def h h' Let_def)
qed

lemma None_list: "set xs \<subseteq> {None} \<Longrightarrow> xs = replicate (length xs) None"
  by (induction xs) auto

lemma log_outcome:
  assumes "call_log n (length (filter is_call vs)) (Some c) i (nc_out g) vs" "call_ok n c" "\<not> nc_waiting c" "n = length (nc_endpoints g)"
    "\<And>r. \<not> cb i r" "i < length (filter is_call vs)" "nc_attempt c = None \<longleftrightarrow> \<not> submitted i vs"
  shows "call_log n (length (filter is_call vs)) (nc_calls (on_read cb i c r g) i) i (nc_out (on_read cb i c r g)) (vs @ [Nc_Outcome i r])"
proof -
  let ?w = "vs @ [Nc_Outcome i r]"
  have l: "deliveries i (nc_out g) = []" "set (outcomes i vs) \<subseteq> {None}" "tries n c i (nc_out g)" "nc_request c = asked i vs"
    using assms(1,6) by (simp_all add: call_log_def)
  have v: "submitted i ?w = submitted i vs" "asked i ?w = asked i vs"
    using assms(6) by (simp_all add: submitted_snoc asked_snoc)
  have a: "1 \<le> rounds c"
    using assms(2) by (auto simp: rounds_def call_ok_def split: option.splits)
  show ?thesis
  proof (cases rule: on_read_cases[of n c g cb i r, OF assms(2,3,4,5)])
    case (1 j)
    then show ?thesis
      using assms(6) l None_list[OF l(2)] by (auto simp: call_log_def)
  next
    case 2
    then show ?thesis
      using assms(6) l v tries_next[OF l(3) 2(2) assms(3)] by (simp add: call_log_def)
  next
    case 3
    then show ?thesis
      using assms(6,7) l v tries_all[OF l(3) 3(2) assms(3) a] by (auto simp: call_log_def)
  next
    case 4
    have "tries n (c\<lparr>nc_waiting := True\<rparr>) i (nc_out g)"
      using l(3) tries_all[OF l(3) 4(2) assms(3) a] a unfolding tries_def by (auto simp: rounds_def)
    then show ?thesis
      using 4 assms(6) l v by (simp add: call_log_def)
  qed
qed

text \<open>The log of a call \<open>i\<close> along a run.\<close>

definition logged :: "nat \<Rightarrow> node_client \<times> nc_event list \<Rightarrow> bool" where
  "logged i r \<longleftrightarrow> calls_ok r \<and>
     (case r of (g, vs) \<Rightarrow> call_log (length (nc_endpoints g)) (length (filter is_call vs)) (nc_calls g i) i (nc_out g) vs)"

lemma logged_new:
  assumes "logged i (g, vs)" "is_call v" "g' = g\<lparr>nc_out := nc_out g @ xs\<rparr>" "\<forall>x \<in> set xs. \<not> about i x" "req = asks v"
  shows "logged i (nc_call_new req (if is_submission v then Some 1 else None) g', vs @ [v])"
proof -
  let ?n = "length (nc_endpoints g)" and ?h = "nc_call_new req (if is_submission v then Some 1 else None) g'"
  have ok: "calls_ok (g, vs)" "nc_current g < ?n" "nc_next g = length (filter is_call vs)"
    using assms(1) by (auto simp: logged_def calls_ok_def)
  have log: "call_log ?n (length (filter is_call vs)) (nc_calls g i) i (nc_out g) vs"
    using assms(1) by (simp add: logged_def)
  define m where "m = (if ?n \<le> 1 then 0 else nc_current g)"
  define a where "a = (if is_submission v then Some 1 else None :: nat option)"
  have m: "m < ?n"
    using ok(2) by (auto simp: m_def)
  have h: "nc_calls ?h = (nc_calls g)(length (filter is_call vs) \<mapsto> \<lparr>nc_request = req, nc_idx = m, nc_tried = 0, nc_attempt = a, nc_waiting = False\<rparr>)"
      "nc_out ?h = nc_out g @ xs @ [Nc_Run (length (filter is_call vs)) m req]"
    by (simp_all add: nc_call_new_fields assms(3) ok(3) m_def a_def)
  have "calls_ok (?h, vs @ [v])"
    by (rule calls_ok_new[OF ok(1) assms(2)]) (simp_all add: assms(3))
  moreover have "call_log ?n (length (filter is_call (vs @ [v]))) (nc_calls ?h i) i (nc_out ?h) (vs @ [v])"
  proof (cases "i = length (filter is_call vs)")
    case True
    from log_new[OF log assms(2) True m assms(4,5), folded a_def] show ?thesis
      unfolding h True fun_upd_same .
  next
    case False
    have "\<forall>x \<in> set (xs @ [Nc_Run (length (filter is_call vs)) m req]). \<not> about i x"
      using assms(4) False by auto
    from log_other[OF log call_not_addressed[OF assms(2)] False this] show ?thesis
      unfolding h fun_upd_other[OF False] .
  qed
  ultimately show ?thesis
    by (simp add: logged_def nc_call_new_fields(1) assms(3))
qed

lemma logged_exec:
  assumes "logged i (g, vs)" "nc_enabled g v" "\<And>r. \<not> cb i r"
  shows "logged i (nc_exec cb v g, vs @ [v])"
proof -
  let ?n = "length (nc_endpoints g)"
  have start: "calls_ok (g, vs)"
    using assms(1) by (simp add: logged_def)
  have ok: "calls_ok (nc_exec cb v g, vs @ [v])" "nc_next g = length (filter is_call vs)" "\<And>k. call_kept ?n (nc_next g) (nc_calls g k) k vs"
    using calls_ok_exec[OF start assms(2)] start by (auto simp: calls_ok_def[of "(g, vs)"])
  have log: "call_log ?n (length (filter is_call vs)) (nc_calls g i) i (nc_out g) vs"
    using assms(1) by (simp add: logged_def)
  have other: "logged i (nc_exec cb v g, vs @ [v])"
    if "\<not> addressed i v" "\<not> is_call v" "nc_calls (nc_exec cb v g) i = nc_calls g i" "nc_endpoints (nc_exec cb v g) = nc_endpoints g"
      "nc_out (nc_exec cb v g) = nc_out g @ xs" "\<forall>x \<in> set xs. \<not> about i x" for xs
    using log_other[OF log that(1) _ that(6)] that ok(1) by (simp add: logged_def)
  have busy: "call_ok ?n c \<and> k < nc_next g \<and> (nc_attempt c = None \<longleftrightarrow> \<not> submitted k vs)" if "nc_calls g k = Some c" for k c
    using ok(3)[of k] that by (auto simp: call_kept_def split: if_splits)
  have same: "g = g\<lparr>nc_out := nc_out g @ []\<rparr>"
    by simp
  show ?thesis
  proof (cases v)
    case (Nc_Request req)
    have "logged i (nc_call_new req (if is_submission v then Some 1 else None) g, vs @ [v])"
      by (rule logged_new[OF assms(1) _ same]) (simp_all add: Nc_Request)
    then show ?thesis
      by (simp add: Nc_Request)
  next
    case (Nc_Submit_Block block_data)
    let ?req = "submit_block_request block_data"
    have "logged i (nc_call_new ?req (if is_submission v then Some 1 else None) (broadcast_submit ?req g), vs @ [v])"
      by (rule logged_new[OF assms(1) _ broadcast_out]) (auto simp: Nc_Submit_Block)
    then show ?thesis
      by (simp add: Nc_Submit_Block async_submit_block_def async_submit_with_retry_def Let_def)
  next
    case (Nc_Submit_Aux hash auxpow_hex)
    have "logged i (nc_call_new (submit_aux_block_request hash auxpow_hex) (if is_submission v then Some 1 else None) g, vs @ [v])"
      by (rule logged_new[OF assms(1) _ same]) (simp_all add: Nc_Submit_Aux)
    then show ?thesis
      by (simp add: Nc_Submit_Aux async_submit_with_retry_def)
  next
    case (Nc_Outcome k r)
    then obtain c where c: "nc_calls g k = Some c" "\<not> nc_waiting c"
      using assms(2) by (auto split: option.splits)
    note b = busy[OF c(1)]
    note p = on_read_progress[OF conjunct1[OF b] c(2) refl, of cb k r]
    show ?thesis
    proof (cases "k = i")
      case True
      have "i < length (filter is_call vs)" "nc_attempt c = None \<longleftrightarrow> \<not> submitted i vs"
        using b True ok(2) by auto
      from log_outcome[of ?n vs c i g cb r, OF _ conjunct1[OF b] c(2) refl assms(3) this] show ?thesis
        using log c True Nc_Outcome p ok(1) by (simp add: logged_def)
    next
      case False
      obtain xs where xs: "nc_out (on_read cb k c r g) = nc_out g @ xs" "\<forall>x \<in> set xs. \<not> about i x"
        using outcome_effects[of cb k c r g] False by metis
      show ?thesis
        by (rule other[of xs]) (use False xs p c Nc_Outcome in simp_all)
    qed
  next
    case (Nc_Retry k)
    then obtain c where c: "nc_calls g k = Some c" "nc_waiting c"
      using assms(2) by (auto split: option.splits)
    note b = busy[OF c(1)]
    obtain a where a: "nc_attempt c = Some a" "1 \<le> a"
      using b c(2) by (auto simp: call_ok_def split: option.splits)
    let ?m = "if ?n \<le> 1 then 0 else nc_current g"
    let ?d = "\<lparr>nc_request = nc_request c, nc_idx = ?m, nc_tried = 0, nc_attempt = Some (Suc a), nc_waiting = False\<rparr>"
    have e: "nc_exec cb v g = g\<lparr>nc_calls := (nc_calls g)(k \<mapsto> ?d), nc_out := nc_out g @ [Nc_Run k ?m (nc_request c)]\<rparr>"
      using Nc_Retry c a by (simp add: on_retry_timer_def async_rpc_def rpc_run_def nc_emit_def)
    have m: "?m < ?n"
      using assms(1) by (auto simp: logged_def calls_ok_def)
    show ?thesis
    proof (cases "k = i")
      case True
      have l: "deliveries i (nc_out g) = []" "set (outcomes i vs) \<subseteq> {None}" "tries ?n c i (nc_out g)" "nc_request c = asked i vs" "i < length (filter is_call vs)"
        using log c(1) b True ok(2) by (auto simp: call_log_def)
      have "asked i (vs @ [v]) = asked i vs"
        using l(5) by (rule asked_snoc)
      then show ?thesis
        using tries_again[OF l(3) c(2) a m] l True Nc_Retry ok(1) unfolding e by (simp add: logged_def call_log_def)
    next
      case False
      have v: "\<not> addressed i v" "\<not> is_call v"
        using False Nc_Retry by simp_all
      show ?thesis
        unfolding e by (rule other[OF v, of "[Nc_Run k ?m (nc_request c)]", unfolded e]) (use False in simp_all)
    qed
  next
    case Nc_Watchdog
    then show ?thesis
      by (intro other[of "if nc_current g \<noteq> 0 then [Nc_Probe_Run block_count_request] else []"])
        (simp_all add: on_node_watchdog_def nc_emit_def)
  next
    case (Nc_Probe r)
    then show ?thesis
      by (intro other[of "[]"]) (simp_all add: on_probe_def)
  qed
qed


text \<open>Two nodes; the first does not answer a submission, the second takes the block.\<close>

definition sample_nodes :: node_client where
  "sample_nodes = start_watchdog (add_fallback_node id ''b'' ''1'' ''u'' ''p'' (nc_new id ''a'' ''1'' ''u'' ''p'' Bitcoin))"

definition sample_calls :: "nc_event list" where
  "sample_calls = [Nc_Submit_Block ''00'', Nc_Outcome 0 None, Nc_Outcome 0 (Some JNull)]"

definition sample_done :: node_client where
  "sample_done = fold (nc_exec (\<lambda>i r. False)) sample_calls sample_nodes"

lemmas nc_sample_defs = sample_nodes_def start_watchdog_def add_fallback_node_def nc_new_def async_submit_block_def async_submit_with_retry_def
  broadcast_out nc_call_new_def async_rpc_def rpc_run_def nc_emit_def on_read_def rpc_result_def rpc_answered_def nc_callback_def
  kSubmitMaxAttempts_def on_retry_timer_def Let_def

lemma nc_reach_fold:
  assumes "reachable nc_init (nc_step cb) (g, us)"
    and "\<And>k. k < length vs \<Longrightarrow> nc_enabled (fold (nc_exec cb) (take k vs) g) (vs ! k) \<and> \<not> nc_fault (fold (nc_exec cb) (take k vs) g)"
  shows "reachable nc_init (nc_step cb) (fold (nc_exec cb) vs g, us @ vs)"
  using assms(2)
proof (induction vs rule: rev_induct)
  case Nil
  then show ?case
    using assms(1) by simp
next
  case (snoc v vs)
  have "reachable nc_init (nc_step cb) (fold (nc_exec cb) vs g, us @ vs)"
  proof (rule snoc.IH)
    show "nc_enabled (fold (nc_exec cb) (take k vs) g) (vs ! k) \<and> \<not> nc_fault (fold (nc_exec cb) (take k vs) g)" if "k < length vs" for k
      using snoc.prems[of k] that by (simp add: nth_append)
  qed
  moreover have "nc_step cb (fold (nc_exec cb) vs g, us @ vs) v (fold (nc_exec cb) (vs @ [v]) g, us @ vs @ [v])"
    using snoc.prems[of "length vs"] by (simp add: nc_step_def)
  ultimately show ?case
    by (rule reachable_step)
qed

lemma sample_init: "reachable nc_init (nc_step cb) (sample_nodes, [])"
proof -
  have "nc_start sample_nodes"
    unfolding nc_start_def sample_nodes_def
    by (intro exI[of _ id] exI[of _ "''a''"] exI[of _ "''1''"] exI[of _ "''u''"] exI[of _ "''p''"] exI[of _ Bitcoin]
        exI[of _ "[(''b'', ''1'', ''u'', ''p'')]"] exI[of _ "[]"]) simp
  then show ?thesis
    by (intro reachable_init) (simp add: nc_init_def)
qed

lemma sample_reach: "reachable nc_init (nc_step (\<lambda>i r. False)) (sample_done, sample_calls)"
proof -
  have "nc_enabled (fold (nc_exec (\<lambda>i r. False)) (take k sample_calls) sample_nodes) (sample_calls ! k) \<and>
      \<not> nc_fault (fold (nc_exec (\<lambda>i r. False)) (take k sample_calls) sample_nodes)" if k: "k < length sample_calls" for k
  proof -
    consider "k = 0" | "k = 1" | "k = 2"
      using k by (auto simp: sample_calls_def less_Suc_eq numeral_2_eq_2)
    then show ?thesis
      by cases (simp_all add: sample_calls_def nc_sample_defs)
  qed
  from nc_reach_fold[OF sample_init this] show ?thesis
    by (simp add: sample_done_def)
qed

lemma sample_done_facts:
  "nc_calls sample_done 0 = None" "nc_next sample_done = 1" "nc_current sample_done = 1" "length (nc_endpoints sample_done) = 2"
  "submitted 0 sample_calls" "used 0 sample_calls = 2" "outcomes 0 sample_calls = [None, Some JNull]"
  by (simp_all add: sample_done_def sample_calls_def nc_sample_defs submitted_def used_def outcomes_def)

lemma node_calls_end_witness: "used 0 sample_calls \<le> 14 \<and> used 0 sample_calls = 2"
  using node_calls_end[OF sample_reach, of 0] sample_done_facts by simp


section \<open>Where the code departs from its comments\<close>

text \<open>The header promises that the callback of a submission is invoked exactly once and that a node's answer is never retried. A
  callback that throws on the answer is invoked again, after the block was submitted again.\<close>

lemma throwing_callback_resubmits:
  "let g = fold (nc_exec (\<lambda>i r. r = Some JNull)) [Nc_Submit_Block ''00'', Nc_Outcome 0 (Some JNull), Nc_Retry 0, Nc_Outcome 0 (Some (JInt 1))]
     (nc_new id ''a'' ''1'' ''u'' ''p'' Bitcoin)
   in deliveries 0 (nc_out g) = [Some JNull, Some (JInt 1)] \<and> sent_to 0 0 (nc_out g) = replicate 2 (submit_block_request ''00'')"
  by (simp add: nc_sample_defs numeral_2_eq_2)

text \<open>A probe of the primary takes any answer for its recovery: a node that reports it is still warming up wins back all calls.\<close>

lemma probe_takes_any_answer: "nc_current (on_probe (Some (JObj [(''error'', e)])) g) = 0"
  by (simp add: on_probe_def)

text \<open>The rules of a template request depend on the chain alone; Bitcoin Cash II, which the pool configures without segwit, asks for it.\<close>

lemma bch2_asks_segwit: "template_rules BitcoinCashII = JArr [JStr ''segwit'']"
  by (simp add: template_rules_def)

end
