(* ===== verification/Spec2Isabelle.thy ===== *)
theory Spec2Isabelle
  imports Sv2_Framing Job_Window Write_Queue Blacklist Merkle Rate_Limiter Vardiff Coinbase Sv2_Upstream Stratum_Protocol Zcash Proxy_Session Equihash Client_Announce Client_Channels Redirector Sv2_Noise Sv2_Relay_Frames Db_Worker Generator Node_Client
begin

text \<open>
  mkpool, the mining pool under \<open>seferogullari-yumlu-kripto-madencilik/mkpool-src/src/\<close>: a solo pool that speaks Stratum V1
  and V2 to miners, and the proxy, redirector and cluster roles that put other processes in front of it. This root
  theory imports all others; each models the part named below, in the order of the code, and proves what makes it correct.

  \<^bold>\<open>How the program is put together.\<close> The node's block template becomes a job (\<open>stratifier.cpp\<close>: the half of the coinbase
  all sessions share, the merkle branch, the job window). A session (\<open>client_session.cpp\<close>) adds the half of the
  coinbase that pays its miner, announces the job over V1 or V2, rebuilds the header of every
  submitted share, scores it, hands a block to the node and records the share with the database writer. The proxy
  (\<open>proxy_session.cpp\<close>, \<open>sv2_relay_session.cpp\<close>) does the same for jobs of an upstream pool, whose extranonce space
  \<open>upstream_client.cpp\<close> and \<open>sv2_upstream_client.cpp\<close> divide into slots. The sessions of the stateless roles
  share the line transport of \<open>relay_session.cpp\<close>.

  \<^bold>\<open>Conventions.\<close> Machine integers are words, \<open>std::string\<close> and byte vectors are lists, hex text is kept as text.
  \<open>double\<close> and \<open>long double\<close> values are rationals rounded after every operation (\<open>Floats\<close>: ties to even,
  53 and 64 bits; overflow to infinity and subnormals are left out). Exceptions and error codes are the left of
  a sum (\<open>Prelude\<close>). A parsed JSON value is a \<open>json\<close> (\<open>Json\<close>); its text is the library's. A session is a record and
  a handler a function on it; what it sends is appended to an output field, an asynchronous operation is its start
  and an event with its result, a clock reading or a random draw is an argument. Code outside the
  repository (OpenSSL, libsodium, libsecp256k1, nlohmann, Boost.Asio, libpqxx, the node, PostgreSQL) is a parameter; where a property needs
  it, its documented behaviour is a named hypothesis with a witness: digest lengths, \<open>prims_ok\<close> for the cipher,
  the key exchange and the signatures, monotone powers for the vardiff exponentials.

  \<^bold>\<open>Wire formats.\<close> \<open>Sv2_Codec\<close> (\<open>sv2_codec.hpp\<close>), \<open>Sv2_Messages\<close>, \<open>Sv2_Framing\<close> (\<open>sv2_messages.hpp\<close>): every field writer
  and reader, every message, the frame header; a locale \<open>wire_field\<close> gives round trip, prefix freedom and refusal of
  truncation for each, and deserializers never leave their buffer. \<open>Utils\<close> (\<open>utils.hpp\<close>): hex, varints,
  headers, block assembly, compact targets, BIP34. \<open>Merkle\<close>, \<open>Address\<close>, \<open>Equihash\<close>, \<open>Zcash\<close>: the merkle branch against
  the whole tree; base58, bech32 and CashAddr; the Equihash verifier against the tree of its definition;
  the ZIP-244 digest and the coinbase swap.

  \<^bold>\<open>Work and shares.\<close> \<open>Stratifier\<close>: template to job, the tip, the duplicate table, the best share under every interleaving.
  \<open>Coinbase\<close>: the coinbase as one well-formed transaction that conserves its value, and the merged-mining commitment.
  \<open>Job_Window\<close>: a refinement of the list of the last jobs. \<open>Scoring\<close>, \<open>Vardiff\<close>: the comparison and the rounded
  difficulty against exact values, the retarget. \<open>Rate_Limiter\<close>, \<open>Blacklist\<close>: bounds of the buckets, bans that hold.

  \<^bold>\<open>Sessions of the pool.\<close> \<open>Client_State\<close> and \<open>Client_Jobs\<close> hold the state, the effects and block submission, \<open>Client_V1\<close>
  every V1 request, \<open>Client_V2\<close> and \<open>Client_Session\<close> channels, jobs, submits and the receive buffer.
  \<open>Client_Shares\<close> proves the verdict on a share on every branch, \<open>Client_Payout\<close> that a session pays a validated
  address, \<open>Client_Announce\<close> and \<open>Client_Channels\<close> that miner and session hash the same coinbase and header.
  \<open>Session_Common\<close>, \<open>Json\<close>, \<open>Stratum_Protocol\<close>, \<open>Line_Transport\<close>, \<open>Write_Queue\<close> hold what V1 sessions share: texts, negotiation, line
  reading (a locale whose clients do not depend on how TCP cuts the stream), writing in order.

  \<^bold>\<open>Proxy.\<close> \<open>Upstream_Types\<close>, \<open>Upstream_V1\<close>, \<open>Sv2_Upstream\<close>: the two upstream clients with negotiation, slots, links,
  failover, submits and reconnection; slots never collide, sessions survive a lost link, every submit is answered once.
  \<open>Proxy_Session\<close> works over either through a locale of upstream operations, interpreted on both; what it forwards is scored over the
  header the pool computes. \<open>Sv2_Noise\<close> (\<open>sv2_noise.cpp\<close>): handshake and transport against an initiator written from the
  protocol. \<open>Sv2_Relay\<close>, \<open>Sv2_Relay_Frames\<close> (\<open>sv2_relay_session.cpp\<close>): a V2 miner on a V1 pool, one header for
  all three; frames are read as they were sent.

  \<^bold>\<open>Redirector and database writer.\<close> \<open>Redirector\<close> (\<open>redirector_session.cpp\<close>): the weighted wheel, the choice by latency or at random,
  health results, the session that steers a miner away; every choice ends at a live backend when there is one. \<open>Db_Worker\<close>
  (\<open>db_worker.cpp\<close>): queues, batches and transactions statement by statement; nothing accepted is lost, twice or
  out of order over broken connections, and the effort accumulator is the work since the pool's last block.
  \<^bold>\<open>Fuel and bounds.\<close> Loops are structural or have a termination proof over the bytes or steps left; none
  uses fuel. The Noise key loop, which draws until a key is valid, consumes the list of draws it is given and ends in \<open>None\<close> when they run
  out (\<open>draw_key_returns\<close>: it returns when one of them is a key). Buffer limits (8 KiB lines, 4 MiB of V2 input, the 65519-byte frame
  payload), the job window and the queue bounds are the code's.

  \<^bold>\<open>Not modelled.\<close>
  The wiring and the control commands (\<open>pool_manager.cpp\<close>, \<open>control_server.cpp\<close>, \<open>mkpool.cpp\<close>), the RPC client of the node
  (\<open>bitcoin_client.cpp\<close>), template polling (\<open>generator.cpp\<close>), the cluster roles
  (\<open>cluster_*.cpp\<close>), chain statistics (\<open>network_stats.cpp\<close>), the schema (\<open>database.cpp\<close>), reading the configuration (\<open>config.hpp\<close> beyond
  the records the models use), the accept loops (\<open>connector.cpp\<close>, \<open>relay_listener.cpp\<close>), thread pool, ZMQ, HTTP, TLS and log wrappers, the
  dashboards and scripts outside C++.
  Throughout: logging, metrics counters, name resolution, sockets and TLS (their results are events), memory reclamation.
\<close>

end
